(* ===== verification/Prelude.thy ===== *)
theory Prelude imports Complex_Main begin

text \<open>
  Shared vocabulary of the development: JavaScript numbers and the number guards of
  \<^verbatim>\<open>packages/std/src/guard/number.ts\<close>, generic list lemmas, and the two interfaces every
  stateful component is an instance of: an invariant kept by every operation
  (\<open>kept_invariant\<close>) and a concrete machine that refines an abstract one
  (\<open>refined_machine\<close>). A machine is a step function that takes a state and an operation and
  returns the next state and the observable outputs, in order.
\<close>

named_theorems op_simps \<open>unfolding rules for the operations of a component\<close>
named_theorems inv_intros \<open>preservation of a component's invariant, one rule per operation\<close>

section \<open>JavaScript numbers\<close>

text \<open>
  A number is one of the non-finite values, the negative zero, or a finite value. Comparisons
  on finite doubles are exact, so a guard that only compares is modelled exactly.
\<close>

datatype jsnum = NaN | PosInf | NegInf | NegZero | Fin rat

fun num_val :: "jsnum \<Rightarrow> rat option" where
  "num_val (Fin r) = Some r"
| "num_val NegZero = Some 0"
| "num_val _ = None"

definition js_finite :: "jsnum \<Rightarrow> bool" where
  "js_finite x = (num_val x \<noteq> None)"

definition max_safe_integer :: rat where
  "max_safe_integer = 9007199254740991"

definition is_safe_integer :: "jsnum \<Rightarrow> bool" where
  "is_safe_integer x =
     (case num_val x of None \<Rightarrow> False
      | Some r \<Rightarrow> of_int (floor r) = r \<and> - max_safe_integer \<le> r \<and> r \<le> max_safe_integer)"

definition isPositiveInteger :: "jsnum \<Rightarrow> bool" where
  "isPositiveInteger x =
     (is_safe_integer x \<and> (case num_val x of None \<Rightarrow> False | Some r \<Rightarrow> 0 < r))"

definition isNonNegativeInteger :: "jsnum \<Rightarrow> bool" where
  "isNonNegativeInteger x =
     (is_safe_integer x \<and> (case num_val x of None \<Rightarrow> False | Some r \<Rightarrow> 0 \<le> r))"

text \<open>The count a validated number stands for.\<close>

definition nat_of_num :: "jsnum \<Rightarrow> nat" where
  "nat_of_num x = (case num_val x of None \<Rightarrow> 0 | Some r \<Rightarrow> nat (floor r))"

lemma isPositiveInteger_nat: "isPositiveInteger x \<Longrightarrow> 0 < nat_of_num x"
  by (cases x)
    (auto simp: isPositiveInteger_def is_safe_integer_def nat_of_num_def less_floor_iff)

section \<open>Lists\<close>

lemma drop_eq_nth_Cons: "n < length xs \<Longrightarrow> drop n xs = xs ! n # drop (Suc n) xs"
  by (simp add: Cons_nth_drop_Suc)

lemma find_SomeD: "find P xs = Some x \<Longrightarrow> x \<in> set xs \<and> P x"
  by (induction xs) (auto split: if_splits)

section \<open>Results\<close>

text \<open>A result passed on or its value consumed, as every early return of the sources does.\<close>

lemma sum_bind_Inr: "(case r of Inl e \<Rightarrow> Inl e | Inr x \<Rightarrow> f x) = Inr w \<longleftrightarrow>
    (\<exists>x. r = Inr x \<and> f x = Inr w)"
  by (cases r) auto

section \<open>Decimal digits\<close>

text \<open>A natural number as the language prints it.\<close>

lemma map_filter_set: "set (List.map_filter f xs) = {y. \<exists>x \<in> set xs. f x = Some y}"
proof (induction xs)
  case (Cons x xs)
  then show ?case by (cases "f x") (auto simp: List.map_filter_def)
qed (simp add: List.map_filter_def)

fun digits_of :: "nat \<Rightarrow> string" where
  "digits_of n = (if n < 10 then [char_of (48 + n)] else digits_of (n div 10) @ [char_of (48 + n mod 10)])"

declare digits_of.simps [simp del]

lemma digits_no_colon: "CHR '':'' \<notin> set (digits_of n)"
proof (induction n rule: digits_of.induct)
  case (1 n)
  have "char_of (48 + d) \<noteq> CHR '':''" if "d < 10" for d :: nat
  proof
    assume "char_of (48 + d) = CHR '':''"
    then have "of_char (char_of (48 + d) :: char) = (of_char (CHR '':'') :: nat)" by simp
    with that show False by simp
  qed
  with 1 show ?case by (subst digits_of.simps) (auto dest!: sym [of "CHR '':''"])
qed

definition digits_value :: "string \<Rightarrow> nat" where
  "digits_value s = foldl (\<lambda>a c. a * 10 + (of_char c - 48)) 0 s"

lemma digits_value_digits: "digits_value (digits_of n) = n"
proof (induction n rule: digits_of.induct)
  case (1 n)
  show ?case
  proof (cases "n < 10")
    case True
    then show ?thesis by (subst digits_of.simps) (simp add: digits_value_def)
  next
    case False
    have "digits_value (digits_of n) = digits_value (digits_of (n div 10)) * 10 + n mod 10"
      using False by (subst digits_of.simps) (simp add: digits_value_def)
    with 1 False show ?thesis by simp
  qed
qed

lemma digits_of_inj: "digits_of a = digits_of b \<longleftrightarrow> a = b"
  by (metis digits_value_digits)

section \<open>Machines\<close>

fun run :: "('s \<Rightarrow> 'e \<Rightarrow> 's \<times> 'o list) \<Rightarrow> 's \<Rightarrow> 'e list \<Rightarrow> 's \<times> 'o list" where
  "run step s [] = (s, [])"
| "run step s (e # es) =
     (let (s1, out1) = step s e; (s2, out2) = run step s1 es in (s2, out1 @ out2))"

lemma run_Cons:
  "run step s (e # es) =
     (fst (run step (fst (step s e)) es), snd (step s e) @ snd (run step (fst (step s e)) es))"
  by (simp add: split_beta)

lemma run_append:
  "run step s (es @ fs) =
     (let (s1, out1) = run step s es; (s2, out2) = run step s1 fs in (s2, out1 @ out2))"
  by (induction es arbitrary: s) (auto split: prod.splits)

lemma fst_run_append: "fst (run step s (es @ fs)) = fst (run step (fst (run step s es)) fs)"
  by (simp add: run_append split_beta)

text \<open>A machine whose outputs are filtered.\<close>

definition observe :: "('o \<Rightarrow> bool) \<Rightarrow> ('s \<Rightarrow> 'e \<Rightarrow> 's \<times> 'o list) \<Rightarrow> 's \<Rightarrow> 'e \<Rightarrow> 's \<times> 'o list" where
  "observe P step s e = (fst (step s e), filter P (snd (step s e)))"

lemma run_observe: "run (observe P step) s es = (fst (run step s es), filter P (snd (run step s es)))"
  by (induction es arbitrary: s) (simp_all add: run_Cons observe_def del: run.simps(2))

locale kept_invariant =
  fixes step :: "'s \<Rightarrow> 'e \<Rightarrow> 's \<times> 'o list"
    and inv :: "'s \<Rightarrow> bool"
  assumes step_inv: "inv s \<Longrightarrow> inv (fst (step s e))"
begin

lemma run_inv: "inv s \<Longrightarrow> inv (fst (run step s es))"
proof (induction es arbitrary: s)
  case Nil
  then show ?case by simp
next
  case (Cons e es)
  obtain s1 out1 where s1: "step s e = (s1, out1)" by (cases "step s e")
  with Cons.prems have "inv s1" using step_inv [of s e] by simp
  with Cons.IH [of s1] s1 show ?case by (auto split: prod.splits)
qed

end

locale refined_machine = kept_invariant step inv
  for step :: "'s \<Rightarrow> 'e \<Rightarrow> 's \<times> 'o list" and inv :: "'s \<Rightarrow> bool" +
  fixes abs :: "'s \<Rightarrow> 'a"
    and spec_step :: "'a \<Rightarrow> 'e \<Rightarrow> 'a \<times> 'o list"
  assumes step_refines:
    "inv s \<Longrightarrow> spec_step (abs s) e = (abs (fst (step s e)), snd (step s e))"
begin

lemma run_refines:
  "inv s \<Longrightarrow> run spec_step (abs s) es = (abs (fst (run step s es)), snd (run step s es))"
proof (induction es arbitrary: s)
  case Nil
  then show ?case by simp
next
  case (Cons e es)
  obtain s1 out1 where s1: "step s e = (s1, out1)" by (cases "step s e")
  with Cons.prems have "inv s1" using step_inv [of s e] by simp
  with Cons.IH [of s1] s1 step_refines [OF Cons.prems, of e] show ?case
    by (simp split: prod.splits)
qed

end

text \<open>An invariant that also speaks of the inputs and outputs so far.\<close>

locale history_invariant =
  fixes step :: "'s \<Rightarrow> 'e \<Rightarrow> 's \<times> 'o list"
    and inv :: "'e list \<Rightarrow> 'o list \<Rightarrow> 's \<Rightarrow> bool"
  assumes step_history: "inv es out s \<Longrightarrow> inv (es @ [e]) (out @ snd (step s e)) (fst (step s e))"
begin

lemma run_history:
  "inv es out s \<Longrightarrow> inv (es @ fs) (out @ snd (run step s fs)) (fst (run step s fs))"
proof (induction fs arbitrary: es out s)
  case Nil
  then show ?case by simp
next
  case (Cons f fs)
  from Cons.IH [OF step_history [OF Cons.prems, of f]] show ?case
    by (simp add: run_Cons del: run.simps(2))
qed

lemma run_from_start: "inv [] [] s \<Longrightarrow> run step s fs = (s', out) \<Longrightarrow> inv fs out s'"
  using run_history [of "[]" "[]" s fs] by simp

end

text \<open>A machine that outputs once: it is pending until its single output and quiet from then on.\<close>

locale one_shot =
  fixes step :: "'s \<Rightarrow> 'e \<Rightarrow> 's \<times> 'o list"
    and pending :: "'s \<Rightarrow> bool"
  assumes pending_step: "pending s \<Longrightarrow> step s e = (s', out) \<Longrightarrow>
      out = [] \<and> pending s' \<or> (\<exists>x. out = [x]) \<and> \<not> pending s'"
    and settled_step: "\<not> pending s \<Longrightarrow> step s e = (s', out) \<Longrightarrow> out = [] \<and> \<not> pending s'"
begin

lemma run_quiet: "\<not> pending s \<Longrightarrow> snd (run step s es) = [] \<and> \<not> pending (fst (run step s es))"
proof (induction es arbitrary: s)
  case (Cons e es)
  obtain s' out where st: "step s e = (s', out)" by (cases "step s e")
  with settled_step [OF Cons.prems st] Cons.IH [of s'] show ?case
    by (simp add: run_Cons del: run.simps(2))
qed simp

lemma run_once: "pending s \<Longrightarrow> run step s es = (s', out) \<Longrightarrow>
    out = [] \<and> pending s' \<or> (\<exists>x. out = [x]) \<and> \<not> pending s'"
proof (induction es arbitrary: s s' out)
  case (Cons e es)
  obtain s1 out1 where st: "step s e = (s1, out1)" by (cases "step s e")
  obtain s2 out2 where r: "run step s1 es = (s2, out2)" by (cases "run step s1 es")
  have eq: "s' = s2" "out = out1 @ out2" using Cons.prems(2) st r by (auto simp: run_Cons)
  show ?case
  proof (cases "pending s1")
    case True
    then have "out1 = []" using pending_step [OF Cons.prems(1) st] by blast
    then show ?thesis using Cons.IH [OF True r] eq by simp
  next
    case False
    then have "out2 = []" "\<not> pending s2" using run_quiet [OF False, of es] r by auto
    then show ?thesis using pending_step [OF Cons.prems(1) st] False eq by auto
  qed
qed simp

end

end
