(* ===== verification/Bounded_Queue.thy ===== *)
theory Bounded_Queue imports Prelude "HOL-Library.Multiset" begin

text \<open>
  \<^verbatim>\<open>packages/std/src/resilience/bounded-queue.ts\<close>: the bounded FIFO queue with explicit
  backpressure. The buffer is the array with a moving \<open>head\<close> and its compaction
  (\<open>takeHead\<close>); consumers that wait are the \<open>waiters\<close> array. A promise that \<open>pop\<close>
  returns is a number, settled through an output. The \<open>AbortSignal\<close> of a \<open>pop\<close> is a number
  too; its \<open>abort\<close> event is an operation. Every call is an operation of \<open>bq_step\<close>.
\<close>

section \<open>The FIFO store: an array with a moving head\<close>

locale fifo_store =
  fixes items :: "'r \<Rightarrow> 'a list"
    and count :: "'r \<Rightarrow> nat"
    and put :: "'a \<Rightarrow> 'r \<Rightarrow> 'r"
    and take_first :: "'r \<Rightarrow> 'a option \<times> 'r"
    and wf :: "'r \<Rightarrow> bool"
  assumes count_items: "wf r \<Longrightarrow> count r = length (items r)"
    and items_put: "wf r \<Longrightarrow> items (put x r) = items r @ [x]"
    and wf_put: "wf r \<Longrightarrow> wf (put x r)"
    and take_first_val: "wf r \<Longrightarrow> items r \<noteq> [] \<Longrightarrow> fst (take_first r) = Some (hd (items r))"
    and items_take: "wf r \<Longrightarrow> items r \<noteq> [] \<Longrightarrow> items (snd (take_first r)) = tl (items r)"
    and wf_take: "wf r \<Longrightarrow> items r \<noteq> [] \<Longrightarrow> wf (snd (take_first r))"
begin

lemma take_first_eq:
  "wf r \<Longrightarrow> items r = x # xs \<Longrightarrow>
     \<exists>r'. take_first r = (Some x, r') \<and> items r' = xs \<and> wf r'"
  using take_first_val [of r] items_take [of r] wf_take [of r] by (cases "take_first r") auto

lemma replace_count:
  "wf r \<Longrightarrow> items r \<noteq> [] \<Longrightarrow> count (put x (snd (take_first r))) = count r"
  by (simp add: count_items items_put wf_put wf_take items_take)

end

text \<open>The pair of the source's \<open>buffer\<close> and \<open>head\<close>; a taken cell is \<open>undefined\<close>, here \<open>None\<close>.\<close>

type_synonym 'a ring = "'a option list \<times> nat"

fun buffered :: "'a ring \<Rightarrow> nat" where
  "buffered (buffer, head) = length buffer - head"

definition takeHead :: "'a ring \<Rightarrow> 'a option \<times> 'a ring" where
  "takeHead r =
     (let (buffer, head) = r;
          value = (if head < length buffer then buffer ! head else None);
          buffer1 = buffer[head := None];
          head1 = Suc head
      in if 32 < head1 \<and> length buffer1 \<le> head1 * 2
         then (value, (drop head1 buffer1, 0))
         else (value, (buffer1, head1)))"

definition ring_put :: "'a \<Rightarrow> 'a ring \<Rightarrow> 'a ring" where
  "ring_put x r = (fst r @ [Some x], snd r)"

definition ring_items :: "'a ring \<Rightarrow> 'a list" where
  "ring_items r = map the (drop (snd r) (fst r))"

definition ring_wf :: "'a ring \<Rightarrow> bool" where
  "ring_wf r = (snd r \<le> length (fst r) \<and> (\<forall>c \<in> set (drop (snd r) (fst r)). c \<noteq> None))"

lemma takeHead_cons:
  assumes "ring_wf (buffer, head)" "head < length buffer"
  shows "\<exists>v r'. buffer ! head = Some v \<and> takeHead (buffer, head) = (Some v, r') \<and>
     drop (snd r') (fst r') = drop (Suc head) buffer \<and> snd r' \<le> length (fst r')"
proof -
  have "buffer ! head \<in> set (drop head buffer)"
    using assms(2) by (simp add: drop_eq_nth_Cons)
  with assms(1) obtain v where "buffer ! head = Some v" by (auto simp: ring_wf_def)
  with assms(2) show ?thesis by (auto simp: takeHead_def Let_def)
qed

interpretation ring: fifo_store ring_items buffered ring_put takeHead ring_wf
proof
  fix r :: "'a ring" and x :: 'a
  assume wf: "ring_wf r"
  show "buffered r = length (ring_items r)"
    by (cases r) (simp add: ring_items_def)
  show "ring_items (ring_put x r) = ring_items r @ [x]" "ring_wf (ring_put x r)"
    using wf by (auto simp: ring_items_def ring_put_def ring_wf_def)
  assume ne: "ring_items r \<noteq> []"
  obtain buffer head where r: "r = (buffer, head)" by (cases r)
  with ne have lt: "head < length buffer" by (simp add: ring_items_def)
  obtain v r' where t: "buffer ! head = Some v" "takeHead r = (Some v, r')"
      "drop (snd r') (fst r') = drop (Suc head) buffer" "snd r' \<le> length (fst r')"
    using takeHead_cons [OF wf [unfolded r] lt] r by auto
  have split: "drop head buffer = Some v # drop (Suc head) buffer"
    using lt t(1) by (simp add: drop_eq_nth_Cons)
  show "fst (takeHead r) = Some (hd (ring_items r))"
    using t(2) split by (simp add: ring_items_def r)
  show "ring_items (snd (takeHead r)) = tl (ring_items r)"
    using t split by (simp add: ring_items_def r)
  show "ring_wf (snd (takeHead r))"
    using t split wf by (auto simp: ring_wf_def r)
qed

text \<open>Compaction: the dead prefix is short, or shorter than what is buffered.\<close>

definition ring_compact :: "nat \<Rightarrow> 'a ring \<Rightarrow> bool" where
  "ring_compact cap r = (snd r \<le> 32 \<or> snd r < cap)"

lemma ring_compact_put: "ring_compact cap r \<Longrightarrow> ring_compact cap (ring_put x r)"
  by (simp add: ring_compact_def ring_put_def)

lemma ring_compact_take:
  assumes "buffered r \<le> cap" "0 < buffered r"
  shows "ring_compact cap (snd (takeHead r))"
proof -
  obtain buffer head where "r = (buffer, head)" by (cases r)
  with assms show ?thesis by (auto simp: ring_compact_def takeHead_def Let_def)
qed

section \<open>The queue\<close>

datatype overflow_policy = DropNew | DropOldest | Reject

datatype bq_error =
    QueueFullError nat
  | QueueWaitersFullError nat
  | QueueClosedError
  | AbortError
  | RangeError

record waiter =
  w_promise :: nat
  w_signal :: "nat option"

record 'a bqueue =
  bq_capacity :: nat
  bq_maxWaiters :: nat
  bq_overflow :: overflow_policy
  bq_ring :: "'a ring"
  bq_waiters :: "waiter list"
  bq_closed :: bool
  bq_next :: nat

datatype 'a bq_out =
    Returned bool
  | Threw bq_error
  | Popped "'a option"
  | Settled nat "bq_error + 'a option"
  | Dropped "'a option"

datatype 'a bq_op =
    Push 'a
  | TryPop
  | Pop "nat option" bool  \<comment> \<open>the signal, and whether it is aborted already\<close>
  | SignalAbort nat
  | Close

text \<open>The options as the caller gives them; an absent \<open>overflow\<close> is \<open>drop-oldest\<close>.\<close>

definition createBoundedQueue ::
  "jsnum \<Rightarrow> overflow_policy option \<Rightarrow> jsnum option \<Rightarrow> bq_error + 'a bqueue" where
  "createBoundedQueue capacity overflow maxWaiters =
     (if \<not> isPositiveInteger capacity then Inl RangeError
      else let waitersBound = (case maxWaiters of None \<Rightarrow> capacity | Some m \<Rightarrow> m)
      in if \<not> isPositiveInteger waitersBound then Inl RangeError
      else Inr \<lparr>bq_capacity = nat_of_num capacity, bq_maxWaiters = nat_of_num waitersBound,
        bq_overflow = (case overflow of None \<Rightarrow> DropOldest | Some p \<Rightarrow> p),
        bq_ring = ([], 0), bq_waiters = [], bq_closed = False, bq_next = 0\<rparr>)"

definition bq_push :: "'a \<Rightarrow> 'a bqueue \<Rightarrow> 'a bqueue \<times> 'a bq_out list" where
  "bq_push item q =
     (if bq_closed q then (q, [Threw QueueClosedError])
      else case bq_waiters q of
        waiter # rest \<Rightarrow>
          (q\<lparr>bq_waiters := rest\<rparr>, [Settled (w_promise waiter) (Inr (Some item)), Returned True])
      | [] \<Rightarrow>
          if bq_capacity q \<le> buffered (bq_ring q) then
            (case bq_overflow q of
               Reject \<Rightarrow> (q, [Threw (QueueFullError (bq_capacity q))])
             | DropNew \<Rightarrow> (q, [Dropped (Some item), Returned False])
             | DropOldest \<Rightarrow>
                 (let (evicted, ring') = takeHead (bq_ring q)
                  in (q\<lparr>bq_ring := ring_put item ring'\<rparr>, [Dropped evicted, Returned True])))
          else (q\<lparr>bq_ring := ring_put item (bq_ring q)\<rparr>, [Returned True]))"

definition bq_tryPop :: "'a bqueue \<Rightarrow> 'a bqueue \<times> 'a bq_out list" where
  "bq_tryPop q =
     (if 0 < buffered (bq_ring q)
      then (let (v, ring') = takeHead (bq_ring q) in (q\<lparr>bq_ring := ring'\<rparr>, [Popped v]))
      else (q, [Popped None]))"

definition bq_pop :: "nat option \<Rightarrow> bool \<Rightarrow> 'a bqueue \<Rightarrow> 'a bqueue \<times> 'a bq_out list" where
  "bq_pop signal aborted q =
     (let p = bq_next q; q = q\<lparr>bq_next := Suc p\<rparr>
      in if 0 < buffered (bq_ring q) then
           (let (v, ring') = takeHead (bq_ring q)
            in (q\<lparr>bq_ring := ring'\<rparr>, [Settled p (Inr v)]))
         else if bq_closed q then (q, [Settled p (Inl QueueClosedError)])
         else if signal \<noteq> None \<and> aborted then (q, [Settled p (Inl AbortError)])
         else if bq_maxWaiters q \<le> length (bq_waiters q) then
           (q, [Settled p (Inl (QueueWaitersFullError (bq_maxWaiters q)))])
         else (q\<lparr>bq_waiters := bq_waiters q @ [\<lparr>w_promise = p, w_signal = signal\<rparr>]\<rparr>, []))"

text \<open>The \<open>abort\<close> event of a signal runs the \<open>onAbort\<close> listener of every waiter that holds it.\<close>

definition bq_signalAbort :: "nat \<Rightarrow> 'a bqueue \<Rightarrow> 'a bqueue \<times> 'a bq_out list" where
  "bq_signalAbort s q =
     (q\<lparr>bq_waiters := filter (\<lambda>w. w_signal w \<noteq> Some s) (bq_waiters q)\<rparr>,
      map (\<lambda>w. Settled (w_promise w) (Inl AbortError))
        (filter (\<lambda>w. w_signal w = Some s) (bq_waiters q)))"

definition bq_close :: "'a bqueue \<Rightarrow> 'a bqueue \<times> 'a bq_out list" where
  "bq_close q =
     (if bq_closed q then (q, [])
      else (q\<lparr>bq_closed := True, bq_waiters := []\<rparr>,
        map (\<lambda>w. Settled (w_promise w) (Inl QueueClosedError)) (bq_waiters q)))"

fun bq_step :: "'a bqueue \<Rightarrow> 'a bq_op \<Rightarrow> 'a bqueue \<times> 'a bq_out list" where
  "bq_step q (Push x) = bq_push x q"
| "bq_step q TryPop = bq_tryPop q"
| "bq_step q (Pop signal aborted) = bq_pop signal aborted q"
| "bq_step q (SignalAbort s) = bq_signalAbort s q"
| "bq_step q Close = bq_close q"

lemmas bq_op_defs = bq_push_def bq_tryPop_def bq_pop_def bq_signalAbort_def bq_close_def

section \<open>Invariant\<close>

definition bq_inv :: "'a bqueue \<Rightarrow> bool" where
  "bq_inv q =
     (ring_wf (bq_ring q) \<and> buffered (bq_ring q) \<le> bq_capacity q \<and> 0 < bq_capacity q \<and>
      ring_compact (bq_capacity q) (bq_ring q) \<and>
      length (bq_waiters q) \<le> bq_maxWaiters q \<and>
      (bq_waiters q \<noteq> [] \<longrightarrow> buffered (bq_ring q) = 0) \<and>
      (bq_closed q \<longrightarrow> bq_waiters q = []))"

text \<open>What the storage operations mean for a queue whose ring is well formed.\<close>

lemma buffered_items: "ring_wf r \<Longrightarrow> buffered r = length (ring_items r)"
  by (rule ring.count_items)

lemma bq_take:
  assumes "bq_inv q" "ring_items (bq_ring q) = x # xs"
  obtains r' where "takeHead (bq_ring q) = (Some x, r')" "ring_items r' = xs" "ring_wf r'"
    "ring_compact (bq_capacity q) r'"
proof -
  have wf: "ring_wf (bq_ring q)" using assms(1) by (simp add: bq_inv_def)
  obtain r' where r': "takeHead (bq_ring q) = (Some x, r')" "ring_items r' = xs" "ring_wf r'"
    using ring.take_first_eq [OF wf assms(2)] by blast
  have "ring_compact (bq_capacity q) r'"
    using ring_compact_take [of "bq_ring q" "bq_capacity q"] assms r'(1)
    by (auto simp: bq_inv_def buffered_items)
  with r' show thesis by (rule that)
qed

lemma ring_nonempty: "0 < buffered (bq_ring q) \<Longrightarrow> \<exists>x xs. ring_items (bq_ring q) = x # xs"
  by (cases "bq_ring q"; cases "ring_items (bq_ring q)") (auto simp: ring_items_def)

lemmas ring_facts = buffered_items ring.items_put ring.wf_put ring_compact_put

lemma bq_inv_push [inv_intros]: "bq_inv q \<Longrightarrow> bq_inv (fst (bq_push x q))"
proof (cases "bq_closed q \<or> bq_waiters q \<noteq> [] \<or> buffered (bq_ring q) < bq_capacity q \<or>
    bq_overflow q \<noteq> DropOldest")
  case True
  then show "bq_inv q \<Longrightarrow> ?thesis"
    by (auto simp: bq_push_def bq_inv_def ring_facts split: list.splits overflow_policy.splits)
next
  case False
  assume inv: "bq_inv q"
  with False obtain y ys where ys: "ring_items (bq_ring q) = y # ys"
    using ring_nonempty [of q] by (auto simp: bq_inv_def)
  obtain r' where r': "takeHead (bq_ring q) = (Some y, r')" "ring_items r' = ys" "ring_wf r'"
      "ring_compact (bq_capacity q) r'"
    by (rule bq_take [OF inv ys])
  with False inv ys show ?thesis
    by (auto simp: bq_push_def bq_inv_def ring_facts)
qed

lemma bq_inv_tryPop [inv_intros]: "bq_inv q \<Longrightarrow> bq_inv (fst (bq_tryPop q))"
proof (cases "0 < buffered (bq_ring q)")
  case True
  assume inv: "bq_inv q"
  from True obtain y ys where ys: "ring_items (bq_ring q) = y # ys"
    using ring_nonempty by blast
  obtain r' where "takeHead (bq_ring q) = (Some y, r')" "ring_items r' = ys" "ring_wf r'"
      "ring_compact (bq_capacity q) r'"
    by (rule bq_take [OF inv ys])
  with True inv ys show ?thesis
    by (auto simp: bq_tryPop_def bq_inv_def ring_facts)
qed (simp add: bq_tryPop_def)

lemma bq_inv_pop [inv_intros]: "bq_inv q \<Longrightarrow> bq_inv (fst (bq_pop signal aborted q))"
proof (cases "0 < buffered (bq_ring q)")
  case True
  assume inv: "bq_inv q"
  from True obtain y ys where ys: "ring_items (bq_ring q) = y # ys"
    using ring_nonempty by blast
  obtain r' where "takeHead (bq_ring q) = (Some y, r')" "ring_items r' = ys" "ring_wf r'"
      "ring_compact (bq_capacity q) r'"
    by (rule bq_take [OF inv ys])
  with True inv ys show ?thesis
    by (auto simp: bq_pop_def Let_def bq_inv_def ring_facts)
qed (auto simp: bq_pop_def Let_def bq_inv_def)

lemma bq_inv_signalAbort [inv_intros]: "bq_inv q \<Longrightarrow> bq_inv (fst (bq_signalAbort s q))"
  by (auto simp: bq_signalAbort_def bq_inv_def intro: le_trans [OF length_filter_le])

lemma bq_inv_close [inv_intros]: "bq_inv q \<Longrightarrow> bq_inv (fst (bq_close q))"
  by (auto simp: bq_close_def bq_inv_def)

lemma bq_inv_created: "createBoundedQueue c ov m = Inr q \<Longrightarrow> bq_inv q"
  using isPositiveInteger_nat [of c]
  by (auto simp: createBoundedQueue_def bq_inv_def ring_wf_def ring_compact_def Let_def
      split: if_splits)

interpretation bq: kept_invariant bq_step bq_inv
proof
  fix q :: "'a bqueue" and e
  show "bq_inv q \<Longrightarrow> bq_inv (fst (bq_step q e))"
    by (cases e) (auto intro: inv_intros)
qed

section \<open>Specification: a bounded list and a bounded line of consumers\<close>

record 'a bq_spec =
  sp_limits :: "nat \<times> nat \<times> overflow_policy"
  sp_items :: "'a list"
  sp_waiting :: "waiter list"
  sp_closed :: bool
  sp_promises :: nat

definition bq_abs :: "'a bqueue \<Rightarrow> 'a bq_spec" where
  "bq_abs q = \<lparr>sp_limits = (bq_capacity q, bq_maxWaiters q, bq_overflow q),
     sp_items = ring_items (bq_ring q), sp_waiting = bq_waiters q,
     sp_closed = bq_closed q, sp_promises = bq_next q\<rparr>"

fun spec_push :: "'a \<Rightarrow> 'a bq_spec \<Rightarrow> 'a bq_spec \<times> 'a bq_out list" where
  "spec_push x s =
     (let (cap, _, policy) = sp_limits s in
      if sp_closed s then (s, [Threw QueueClosedError])
      else case (sp_waiting s, sp_items s) of
        (w # ws, _) \<Rightarrow>
          (s\<lparr>sp_waiting := ws\<rparr>, [Settled (w_promise w) (Inr (Some x)), Returned True])
      | ([], items) \<Rightarrow>
          if length items < cap then (s\<lparr>sp_items := items @ [x]\<rparr>, [Returned True])
          else (case policy of
              Reject \<Rightarrow> (s, [Threw (QueueFullError cap)])
            | DropNew \<Rightarrow> (s, [Dropped (Some x), Returned False])
            | DropOldest \<Rightarrow>
                (s\<lparr>sp_items := tl items @ [x]\<rparr>, [Dropped (Some (hd items)), Returned True])))"

fun spec_pop :: "nat option \<Rightarrow> bool \<Rightarrow> 'a bq_spec \<Rightarrow> 'a bq_spec \<times> 'a bq_out list" where
  "spec_pop signal aborted s =
     (let (_, bound, _) = sp_limits s; p = sp_promises s; s = s\<lparr>sp_promises := Suc p\<rparr> in
      case sp_items s of
        x # xs \<Rightarrow> (s\<lparr>sp_items := xs\<rparr>, [Settled p (Inr (Some x))])
      | [] \<Rightarrow>
          if sp_closed s then (s, [Settled p (Inl QueueClosedError)])
          else if signal \<noteq> None \<and> aborted then (s, [Settled p (Inl AbortError)])
          else if length (sp_waiting s) < bound
            then (s\<lparr>sp_waiting := sp_waiting s @ [\<lparr>w_promise = p, w_signal = signal\<rparr>]\<rparr>, [])
          else (s, [Settled p (Inl (QueueWaitersFullError bound))]))"

fun spec_step :: "'a bq_spec \<Rightarrow> 'a bq_op \<Rightarrow> 'a bq_spec \<times> 'a bq_out list" where
  "spec_step s (Push x) = spec_push x s"
| "spec_step s TryPop =
     (case sp_items s of [] \<Rightarrow> (s, [Popped None])
      | x # xs \<Rightarrow> (s\<lparr>sp_items := xs\<rparr>, [Popped (Some x)]))"
| "spec_step s (Pop signal aborted) = spec_pop signal aborted s"
| "spec_step s (SignalAbort sg) =
     (s\<lparr>sp_waiting := filter (\<lambda>w. w_signal w \<noteq> Some sg) (sp_waiting s)\<rparr>,
      map (\<lambda>w. Settled (w_promise w) (Inl AbortError))
        (filter (\<lambda>w. w_signal w = Some sg) (sp_waiting s)))"
| "spec_step s Close =
     (if sp_closed s then (s, [])
      else (s\<lparr>sp_closed := True, sp_waiting := []\<rparr>,
        map (\<lambda>w. Settled (w_promise w) (Inl QueueClosedError)) (sp_waiting s)))"

lemma bq_push_refines:
  assumes inv: "bq_inv q"
  shows "spec_push x (bq_abs q) = (bq_abs (fst (bq_push x q)), snd (bq_push x q))"
proof (cases "bq_closed q \<or> bq_waiters q \<noteq> [] \<or> buffered (bq_ring q) < bq_capacity q \<or>
    bq_overflow q \<noteq> DropOldest")
  case True
  with inv show ?thesis
    by (auto simp: bq_push_def bq_abs_def bq_inv_def ring_facts
        split: list.splits overflow_policy.splits)
next
  case False
  with inv obtain y ys where ys: "ring_items (bq_ring q) = y # ys"
    using ring_nonempty [of q] by (auto simp: bq_inv_def)
  obtain r' where r': "takeHead (bq_ring q) = (Some y, r')" "ring_items r' = ys" "ring_wf r'"
    by (rule bq_take [OF inv ys])
  with False inv ys show ?thesis
    by (auto simp: bq_push_def bq_abs_def bq_inv_def ring_facts)
qed

lemma bq_take_refines:
  assumes inv: "bq_inv q"
  shows "spec_step (bq_abs q) TryPop = (bq_abs (fst (bq_tryPop q)), snd (bq_tryPop q))"
    and "spec_pop sg ab (bq_abs q) = (bq_abs (fst (bq_pop sg ab q)), snd (bq_pop sg ab q))"
proof -
  have wf: "ring_wf (bq_ring q)" using inv by (simp add: bq_inv_def)
  show "spec_step (bq_abs q) TryPop = (bq_abs (fst (bq_tryPop q)), snd (bq_tryPop q))"
  proof (cases "ring_items (bq_ring q)")
    case Nil
    with wf show ?thesis by (simp add: bq_tryPop_def bq_abs_def buffered_items)
  next
    case (Cons y ys)
    obtain r' where "takeHead (bq_ring q) = (Some y, r')" "ring_items r' = ys"
      by (rule bq_take [OF inv Cons])
    with wf Cons show ?thesis by (simp add: bq_tryPop_def bq_abs_def buffered_items)
  qed
  show "spec_pop sg ab (bq_abs q) = (bq_abs (fst (bq_pop sg ab q)), snd (bq_pop sg ab q))"
  proof (cases "ring_items (bq_ring q)")
    case Nil
    with wf show ?thesis by (simp add: bq_pop_def bq_abs_def buffered_items Let_def)
  next
    case (Cons y ys)
    obtain r' where "takeHead (bq_ring q) = (Some y, r')" "ring_items r' = ys"
      by (rule bq_take [OF inv Cons])
    with wf Cons show ?thesis by (simp add: bq_pop_def bq_abs_def buffered_items Let_def)
  qed
qed

interpretation bq: refined_machine bq_step bq_inv bq_abs spec_step
proof
  fix q :: "'a bqueue" and e
  assume "bq_inv q"
  then show "spec_step (bq_abs q) e = (bq_abs (fst (bq_step q e)), snd (bq_step q e))"
    by (cases e)
      (simp_all del: spec_push.simps spec_pop.simps spec_step.simps(2)
        add: bq_push_refines bq_take_refines,
       simp_all add: bq_signalAbort_def bq_close_def bq_abs_def)
qed

section \<open>Items and promises\<close>

text \<open>What one operation took in and what it gave out, in order.\<close>

fun out_items :: "'a bq_out list \<Rightarrow> 'a list" where
  "out_items [] = []"
| "out_items (Popped (Some v) # os) = v # out_items os"
| "out_items (Settled p (Inr (Some v)) # os) = v # out_items os"
| "out_items (Dropped (Some v) # os) = v # out_items os"
| "out_items (_ # os) = out_items os"

fun entered :: "'a bq_op \<times> 'a bq_out list \<Rightarrow> 'a list" where
  "entered (Push x, os) = (if Returned True \<in> set os then [x] else [])"
| "entered _ = []"

fun left :: "'a bq_op \<times> 'a bq_out list \<Rightarrow> 'a list" where
  "left (Push x, os) = (if Returned True \<in> set os then out_items os else [])"
| "left (_, os) = out_items os"

fun settled_ids :: "'a bq_out list \<Rightarrow> nat list" where
  "settled_ids [] = []"
| "settled_ids (Settled p _ # os) = p # settled_ids os"
| "settled_ids (_ # os) = settled_ids os"

lemma settled_ids_append [simp]: "settled_ids (xs @ ys) = settled_ids xs @ settled_ids ys"
  by (induction xs rule: settled_ids.induct) auto

lemma settled_ids_rejections [simp]:
  "settled_ids (map (\<lambda>w. Settled (w_promise w) (Inl err)) ws) = map w_promise ws"
  by (induction ws) auto

lemma out_items_rejections [simp]:
  "out_items (map (\<lambda>w. Settled (w_promise w) (Inl err)) ws) = []"
  by (induction ws) auto

text \<open>The operations of a run with the outputs of each.\<close>

fun bq_trace :: "'a bqueue \<Rightarrow> 'a bq_op list \<Rightarrow> ('a bq_op \<times> 'a bq_out list) list" where
  "bq_trace q [] = []"
| "bq_trace q (e # es) = (e, snd (bq_step q e)) # bq_trace (fst (bq_step q e)) es"

lemma spec_conserves:
  "(sp_waiting s \<noteq> [] \<longrightarrow> sp_items s = []) \<Longrightarrow> fst (sp_limits s) > 0 \<Longrightarrow>
     sp_items s @ entered (e, snd (spec_step s e)) =
     left (e, snd (spec_step s e)) @ sp_items (fst (spec_step s e))"
  by (cases e; cases "sp_items s")
    (auto simp: Let_def split: list.splits overflow_policy.splits prod.splits)

lemma mset_set_upt_Suc: "mset_set {0..<Suc n} = add_mset n (mset_set {0..<n})"
  by (simp add: atLeast0_lessThan_Suc)

lemma spec_settles:
  "mset (settled_ids (snd (spec_step s e))) + mset (map w_promise (sp_waiting (fst (spec_step s e))))
     + mset [0..<sp_promises s] =
   mset (map w_promise (sp_waiting s)) + mset [0..<sp_promises (fst (spec_step s e))]"
proof (cases e)
  case (SignalAbort sg)
  have "image_mset w_promise (filter_mset (\<lambda>w. w_signal w = Some sg) (mset (sp_waiting s))) +
      image_mset w_promise (filter_mset (\<lambda>w. w_signal w \<noteq> Some sg) (mset (sp_waiting s))) =
      image_mset w_promise (mset (sp_waiting s))"
    by (metis image_mset_union multiset_partition)
  with SignalAbort show ?thesis by simp
qed (auto simp: Let_def mset_set_upt_Suc split: list.splits overflow_policy.splits prod.splits)

lemma step_conserves:
  assumes "bq_inv q"
  shows "ring_items (bq_ring q) @ entered (e, snd (bq_step q e)) =
    left (e, snd (bq_step q e)) @ ring_items (bq_ring (fst (bq_step q e)))"
  using spec_conserves [of "bq_abs q" e] bq.step_refines [OF assms, of e] assms
  by (auto simp: bq_abs_def bq_inv_def buffered_items)

lemma trace_conserves:
  "bq_inv q \<Longrightarrow>
     ring_items (bq_ring q) @ concat (map entered (bq_trace q es)) =
     concat (map left (bq_trace q es)) @ ring_items (bq_ring (fst (run bq_step q es)))"
proof (induction es arbitrary: q)
  case Nil
  then show ?case by simp
next
  case (Cons e es)
  obtain q1 out1 where q1: "bq_step q e = (q1, out1)" by (cases "bq_step q e")
  with Cons.prems have "bq_inv q1" using bq.step_inv [of q e] by simp
  with Cons.IH [of q1] step_conserves [OF Cons.prems, of e] q1 show ?case
    by (auto simp flip: append_assoc split: prod.splits) (metis append_assoc fst_conv)
qed

lemma step_settles:
  assumes "bq_inv q"
  shows "mset (settled_ids (snd (bq_step q e))) +
      mset (map w_promise (bq_waiters (fst (bq_step q e)))) + mset [0..<bq_next q] =
    mset (map w_promise (bq_waiters q)) + mset [0..<bq_next (fst (bq_step q e))]"
  using spec_settles [of "bq_abs q" e] bq.step_refines [OF assms, of e]
  by (auto simp: bq_abs_def)

lemma balance_steps:
  fixes a1 a2 w0 w1 w2 n0 n1 n2 :: "'b multiset"
  assumes "a1 + w1 + n0 = w0 + n1" "a2 + w2 + n1 = w1 + n2"
  shows "a1 + a2 + w2 + n0 = w0 + n2"
proof -
  have "(a1 + a2 + w2 + n0) + (w1 + n1) = (a1 + w1 + n0) + (a2 + w2 + n1)"
    by (simp add: ac_simps)
  also have "\<dots> = (w0 + n2) + (w1 + n1)" unfolding assms by (simp add: ac_simps)
  finally show ?thesis by simp
qed

lemma run_settles:
  "bq_inv q \<Longrightarrow> mset (settled_ids (snd (run bq_step q es))) +
      mset (map w_promise (bq_waiters (fst (run bq_step q es)))) + mset [0..<bq_next q] =
    mset (map w_promise (bq_waiters q)) + mset [0..<bq_next (fst (run bq_step q es))]"
proof (induction es arbitrary: q)
  case Nil
  then show ?case by simp
next
  case (Cons e es)
  obtain q1 out1 q2 out2 where q1: "bq_step q e = (q1, out1)" and q2: "run bq_step q1 es = (q2, out2)"
    by fastforce
  with Cons.prems have "bq_inv q1" using bq.step_inv [of q e] by simp
  with Cons.IH [of q1] step_settles [OF Cons.prems, of e] q1 q2 show ?case
    using balance_steps by fastforce
qed

section \<open>Properties\<close>

definition sample_queue :: "nat bqueue" where
  "sample_queue = \<lparr>bq_capacity = 2, bq_maxWaiters = 2, bq_overflow = DropOldest,
     bq_ring = ([], 0), bq_waiters = [], bq_closed = False, bq_next = 0\<rparr>"

lemma sample_queue_created: "createBoundedQueue (Fin 2) None None = Inr sample_queue"
  by (simp add: createBoundedQueue_def sample_queue_def isPositiveInteger_def
      is_safe_integer_def max_safe_integer_def nat_of_num_def)

text \<open>Every sequence of calls on a created queue behaves as the specification, a plain
  list with a line of consumers: same results, same settled promises, same dropped items. The
  moving head and its compaction are never visible.\<close>

theorem bq_refines_fifo:
  assumes "createBoundedQueue c ov m = Inr q"
  shows "run spec_step (bq_abs q) es =
    (bq_abs (fst (run bq_step q es)), snd (run bq_step q es))"
  using assms by (intro bq.run_refines bq_inv_created)

theorem bq_refines_fifo_witness:
  "createBoundedQueue (Fin 2) None None = Inr sample_queue \<and>
   snd (run spec_step (bq_abs sample_queue) [Push 7, Push 8, Push 9, TryPop, Pop None False]) =
   [Returned True, Returned True, Dropped (Some 7), Returned True, Popped (Some 8),
    Settled 0 (Inr (Some 9))]"
  unfolding bq_refines_fifo [OF sample_queue_created]
  by (simp add: sample_queue_created)
    (simp add: sample_queue_def bq_op_defs ring_put_def takeHead_def Let_def)

text \<open>Memory stays bounded: at any time a created queue buffers at most \<open>capacity\<close> items,
  holds at most \<open>maxWaiters\<close> pending consumers, never both, and the array behind the buffer, dead
  prefix included, has at most \<open>capacity + max 32 capacity\<close> cells.\<close>

theorem bq_memory_bounded:
  assumes "createBoundedQueue c ov m = Inr q" and "fst (run bq_step q es) = q'"
  shows "buffered (bq_ring q') \<le> bq_capacity q' \<and>
    length (bq_waiters q') \<le> bq_maxWaiters q' \<and>
    (bq_waiters q' = [] \<or> buffered (bq_ring q') = 0) \<and>
    length (fst (bq_ring q')) \<le> bq_capacity q' + max 32 (bq_capacity q')"
proof -
  have "bq_inv q'" using bq.run_inv [OF bq_inv_created [OF assms(1)], of es] assms(2) by simp
  then show ?thesis
    by (cases "bq_ring q'") (auto simp: bq_inv_def ring_compact_def)
qed

theorem bq_memory_bounded_witness:
  "let q' = fst (run bq_step sample_queue [Push 7, Push 8, Push 9])
   in ring_items (bq_ring q') = [8, 9] \<and>
     length (fst (bq_ring q')) \<le> bq_capacity q' + max 32 (bq_capacity q')"
  using bq_memory_bounded [OF sample_queue_created refl, of "[Push 7, Push 8, Push 9]"]
  by (simp add: sample_queue_def bq_op_defs ring_put_def takeHead_def ring_items_def Let_def)

text \<open>Nothing is lost, duplicated or reordered: the items the queue accepted, in order, are
  the items it gave out (delivered to a consumer or evicted through \<open>onDrop\<close>), in order, followed by
  what it still buffers.\<close>

theorem bq_conserves_order:
  assumes "createBoundedQueue c ov m = Inr q"
  shows "concat (map entered (bq_trace q es)) =
    concat (map left (bq_trace q es)) @ ring_items (bq_ring (fst (run bq_step q es)))"
proof -
  have "ring_items (bq_ring q) = []"
    using assms by (auto simp: createBoundedQueue_def ring_items_def Let_def split: if_splits)
  with trace_conserves [OF bq_inv_created [OF assms], of es] show ?thesis by simp
qed

theorem bq_conserves_order_witness:
  "concat (map entered (bq_trace sample_queue [Push 7, Push 8, Push 9, TryPop])) = [7, 8, 9] \<and>
   concat (map left (bq_trace sample_queue [Push 7, Push 8, Push 9, TryPop])) = [7, 8]"
proof -
  have "concat (map entered (bq_trace sample_queue [Push 7, Push 8, Push 9, TryPop])) = [7, 8, 9]"
    by (simp add: sample_queue_def bq_op_defs ring_put_def takeHead_def Let_def)
  moreover have "ring_items (bq_ring (fst (run bq_step sample_queue [Push 7, Push 8, Push 9, TryPop])))
      = [9]"
    by (simp add: sample_queue_def bq_op_defs ring_put_def takeHead_def ring_items_def Let_def)
  ultimately show ?thesis
    using bq_conserves_order [OF sample_queue_created, of "[Push 7, Push 8, Push 9, TryPop]"]
    by simp
qed

text \<open>Every promise \<open>pop\<close> returned is settled exactly once or is still waiting, and once the
  queue is closed each of them is settled: no consumer is left hanging.\<close>

theorem bq_promises_settle_once:
  assumes "createBoundedQueue c ov m = Inr q"
  shows "mset (settled_ids (snd (run bq_step q es)) @
      map w_promise (bq_waiters (fst (run bq_step q es)))) = mset [0..<bq_next (fst (run bq_step q es))]
    \<and> (bq_closed (fst (run bq_step q es)) \<longrightarrow>
        mset (settled_ids (snd (run bq_step q es))) = mset [0..<bq_next (fst (run bq_step q es))])"
proof -
  have inv: "bq_inv q" by (rule bq_inv_created [OF assms])
  have "bq_waiters q = []" "bq_next q = 0"
    using assms by (auto simp: createBoundedQueue_def Let_def split: if_splits)
  with run_settles [OF inv, of es] bq.run_inv [OF inv, of es] show ?thesis
    by (auto simp: bq_inv_def)
qed

theorem bq_promises_settle_once_witness:
  "mset (settled_ids (snd (run bq_step sample_queue [Pop None False, Pop (Some 3) False, Close]))) =
     mset [0..<2]"
  using bq_promises_settle_once [OF sample_queue_created,
      of "[Pop None False, Pop (Some 3) False, Close]"]
  by (simp add: sample_queue_def bq_op_defs numeral_2_eq_2)

end
