(* ===== verification/Cap_Order.thy ===== *)
theory Cap_Order imports Prelude "HOL-Library.Multiset" begin

text \<open>
  \<^verbatim>\<open>packages/app/src/kernel/ordering.ts\<close>: the order in which capability providers are
  mounted. \<open>orderCapabilities\<close> is Kahn's topological sort with a ready list kept sorted by
  registration index; \<open>cycleParticipants\<close> names the ids on a cycle when the sort stalls. A node
  of the source (capability, index, unmet) is its index here, its \<open>unmet\<close> count an entry of a
  list, and the map \<open>dependents\<close> a function from ids to index lists.
\<close>

record capability =
  cap_id :: string
  cap_dependsOn :: "string list option"

datatype config_error =
    DuplicateId string
  | UnknownDependency string string
  | CyclicDependencies "string list"

definition cap_deps :: "capability \<Rightarrow> string list" where
  "cap_deps c = (case cap_dependsOn c of None \<Rightarrow> [] | Some ds \<Rightarrow> ds)"

section \<open>The algorithm\<close>

fun unique_from :: "string list \<Rightarrow> capability list \<Rightarrow> config_error option" where
  "unique_from seen [] = None"
| "unique_from seen (c # cs) =
     (if cap_id c \<in> set seen then Some (DuplicateId (cap_id c))
      else unique_from (seen @ [cap_id c]) cs)"

definition assertUniqueIds :: "capability list \<Rightarrow> config_error option" where
  "assertUniqueIds cs = unique_from [] cs"

record graph =
  g_unmet :: "int list"
  g_dependents :: "string \<Rightarrow> nat list"

fun link_deps :: "string list \<Rightarrow> string \<Rightarrow> nat \<Rightarrow> string list \<Rightarrow> graph \<Rightarrow> config_error + graph" where
  "link_deps ids self i [] g = Inr g"
| "link_deps ids self i (d # ds) g =
     (if d \<notin> set ids then Inl (UnknownDependency self d)
      else link_deps ids self i ds
        (g\<lparr>g_unmet := (g_unmet g)[i := g_unmet g ! i + 1],
           g_dependents := (g_dependents g)(d := g_dependents g d @ [i])\<rparr>))"

fun link_all :: "string list \<Rightarrow> nat \<Rightarrow> capability list \<Rightarrow> graph \<Rightarrow> config_error + graph" where
  "link_all ids i [] g = Inr g"
| "link_all ids i (c # cs) g =
     (case link_deps ids (cap_id c) i (cap_deps c) g of
        Inl e \<Rightarrow> Inl e
      | Inr g' \<Rightarrow> link_all ids (Suc i) cs g')"

text \<open>\<open>findIndex\<close> of the first larger index, then \<open>splice\<close>; \<open>push\<close> when there is none.\<close>

fun insertByIndex :: "nat list \<Rightarrow> nat \<Rightarrow> nat list" where
  "insertByIndex [] n = [n]"
| "insertByIndex (m # ready) n = (if n < m then n # m # ready else m # insertByIndex ready n)"

definition release :: "int list \<times> nat list \<Rightarrow> nat \<Rightarrow> int list \<times> nat list" where
  "release st j =
     (let (unmet, ready) = st; unmet' = unmet[j := unmet ! j - 1]
      in if unmet' ! j = 0 \<and> j < length unmet then (unmet', insertByIndex ready j)
         else (unmet', ready))"

lemma length_insertByIndex [simp]: "length (insertByIndex ready n) = Suc (length ready)"
  by (induction ready) auto

text \<open>The nodes still blocked; what the loop's termination counts with the ready list.\<close>

definition blocked_count :: "int list \<Rightarrow> nat" where
  "blocked_count unmet = length (filter (\<lambda>u. 0 < u) unmet)"

lemma blocked_count_update:
  "j < length unmet \<Longrightarrow>
     blocked_count (unmet[j := v]) + (if 0 < unmet ! j then 1 else 0) =
     blocked_count unmet + (if 0 < v then 1 else 0)"
  unfolding blocked_count_def
proof (induction unmet arbitrary: j)
  case (Cons u us)
  then show ?case by (cases j) auto
qed simp

lemma release_measure:
  "blocked_count (fst (release st j)) + length (snd (release st j)) \<le>
     blocked_count (fst st) + length (snd st)"
  using blocked_count_update [of j "fst st" "fst st ! j - 1"]
  by (cases "j < length (fst st)")
    (auto simp: release_def Let_def list_update_beyond split: prod.splits if_splits)

lemma foldl_release_measure:
  "blocked_count (fst (foldl release st js)) + length (snd (foldl release st js)) \<le>
     blocked_count (fst st) + length (snd st)"
proof (induction js arbitrary: st)
  case (Cons j js)
  show ?case
    using Cons.IH [of "release st j"] release_measure [of st j] by (auto intro: order_trans)
qed simp

function drain ::
  "(string \<Rightarrow> nat list) \<Rightarrow> capability list \<Rightarrow> nat list \<Rightarrow> int list \<Rightarrow> nat list \<Rightarrow> nat list \<times> int list"
where
  "drain dependents cs [] unmet ordered = (ordered, unmet)"
| "drain dependents cs (n # ready) unmet ordered =
     (let st = foldl release (unmet, ready) (dependents (cap_id (cs ! n)))
      in drain dependents cs (snd st) (fst st) (ordered @ [n]))"
  by pat_completeness auto
termination
  by (relation "measure (\<lambda>(d, cs, ready, unmet, ordered). blocked_count unmet + length ready)")
    (auto simp: le_imp_less_Suc [OF foldl_release_measure [where st = "(u, r)" for u r, simplified]])

text \<open>The blocked dependencies of an id (\<open>byId.get(id)\<close> is the last entry of that id).\<close>

definition blockedDependencies :: "capability list \<Rightarrow> string \<Rightarrow> string list" where
  "blockedDependencies blocked x =
     (case find (\<lambda>c. cap_id c = x) (rev blocked) of
        None \<Rightarrow> []
      | Some c \<Rightarrow> filter (\<lambda>d. d \<in> cap_id ` set blocked) (cap_deps c))"

text \<open>The worklist of \<open>reachesSelf\<close>; the top of the stack (the array's end) is the list's head.\<close>

function reaches_from :: "capability list \<Rightarrow> string \<Rightarrow> string list \<Rightarrow> string list \<Rightarrow> bool" where
  "reaches_from blocked start seen [] = False"
| "reaches_from blocked start seen (x # stack) =
     (if x = start then True
      else if x \<in> set seen then reaches_from blocked start seen stack
      else reaches_from blocked start (x # seen) (rev (blockedDependencies blocked x) @ stack))"
  by pat_completeness auto

lemma blockedDependencies_not_blocked:
  "x \<notin> cap_id ` set blocked \<Longrightarrow> blockedDependencies blocked x = []"
  by (fastforce simp: blockedDependencies_def split: option.splits dest: find_SomeD)

termination reaches_from
proof (relation "measures [\<lambda>(b, s, seen, st). card (cap_id ` set b - set seen), \<lambda>(b, s, seen, st). length st]",
    goal_cases)
  case (3 blocked start seen x stack)
  show ?case
  proof (cases "x \<in> cap_id ` set blocked")
    case True
    with 3 have "card (cap_id ` set blocked - set (x # seen)) < card (cap_id ` set blocked - set seen)"
      by (intro psubset_card_mono) auto
    then show ?thesis by simp
  next
    case False
    then have "cap_id ` set blocked - set (x # seen) = cap_id ` set blocked - set seen" by auto
    with False show ?thesis by (simp add: blockedDependencies_not_blocked)
  qed
qed auto

definition reachesSelf :: "capability list \<Rightarrow> string \<Rightarrow> bool" where
  "reachesSelf blocked start =
     reaches_from blocked start [] (rev (blockedDependencies blocked start))"

definition cycleParticipants :: "capability list \<Rightarrow> string list" where
  "cycleParticipants blocked = map cap_id (filter (\<lambda>c. reachesSelf blocked (cap_id c)) blocked)"

definition orderCapabilities :: "capability list \<Rightarrow> config_error + capability list" where
  "orderCapabilities cs =
     (case assertUniqueIds cs of
        Some e \<Rightarrow> Inl e
      | None \<Rightarrow>
        (case link_all (map cap_id cs) 0 cs
            \<lparr>g_unmet = replicate (length cs) 0, g_dependents = (\<lambda>_. [])\<rparr> of
           Inl e \<Rightarrow> Inl e
         | Inr g \<Rightarrow>
           (let ready = sort (filter (\<lambda>i. g_unmet g ! i = 0) [0..<length cs]);
                (ordered, unmet) = drain (g_dependents g) cs ready (g_unmet g) []
            in if length ordered \<noteq> length cs
               then Inl (CyclicDependencies (cycleParticipants
                 (map ((!) cs) (filter (\<lambda>i. 0 < unmet ! i) [0..<length cs]))))
               else Inr (map ((!) cs) ordered))))"

section \<open>Duplicate ids and links\<close>

lemma unique_from_None: "unique_from seen cs = None \<longleftrightarrow>
    distinct (map cap_id cs) \<and> set seen \<inter> cap_id ` set cs = {}"
  by (induction cs arbitrary: seen) auto

lemma assertUniqueIds_None: "assertUniqueIds cs = None \<longleftrightarrow> distinct (map cap_id cs)"
  by (simp add: assertUniqueIds_def unique_from_None)

lemma unique_from_Some: "unique_from seen cs = Some e \<Longrightarrow>
    \<exists>k < length cs. e = DuplicateId (cap_id (cs ! k)) \<and>
      cap_id (cs ! k) \<in> set seen \<union> cap_id ` set (take k cs)"
proof (induction cs arbitrary: seen)
  case (Cons c cs)
  show ?case
  proof (cases "cap_id c \<in> set seen")
    case True
    with Cons.prems show ?thesis by (intro exI [of _ 0]) auto
  next
    case False
    with Cons obtain k where "k < length cs" "e = DuplicateId (cap_id (cs ! k))"
        "cap_id (cs ! k) \<in> set (seen @ [cap_id c]) \<union> cap_id ` set (take k cs)"
      by fastforce
    then show ?thesis by (intro exI [of _ "Suc k"]) auto
  qed
qed simp

lemma link_deps_Inl: "link_deps ids self i ds g = Inl e \<Longrightarrow>
    \<exists>d \<in> set ds. d \<notin> set ids \<and> e = UnknownDependency self d"
  by (induction ds arbitrary: g) (auto split: if_splits)

lemma link_deps_Inr:
  "link_deps ids self i ds g = Inr g' \<Longrightarrow> i < length (g_unmet g) \<Longrightarrow>
     set ds \<subseteq> set ids \<and> length (g_unmet g') = length (g_unmet g) \<and>
     (\<forall>j < length (g_unmet g). g_unmet g' ! j =
        g_unmet g ! j + (if j = i then int (length ds) else 0)) \<and>
     (\<forall>d j. count_list (g_dependents g' d) j =
        count_list (g_dependents g d) j + (if j = i then count_list ds d else 0))"
proof (induction ds arbitrary: g)
  case (Cons d ds)
  show ?case using Cons.prems(1,2) by (auto split: if_splits dest!: Cons.IH)
qed simp

lemma link_all_Inl: "link_all ids i cs g = Inl e \<Longrightarrow>
    \<exists>c \<in> set cs. \<exists>d \<in> set (cap_deps c). d \<notin> set ids \<and> e = UnknownDependency (cap_id c) d"
  by (induction cs arbitrary: i g) (auto split: sum.splits dest: link_deps_Inl)

lemma link_all_Inr:
  "link_all ids i cs g = Inr g' \<Longrightarrow> i + length cs \<le> length (g_unmet g) \<Longrightarrow>
     (\<forall>c \<in> set cs. set (cap_deps c) \<subseteq> set ids) \<and> length (g_unmet g') = length (g_unmet g) \<and>
     (\<forall>j < length (g_unmet g). g_unmet g' ! j =
        g_unmet g ! j + (if i \<le> j \<and> j < i + length cs then int (length (cap_deps (cs ! (j - i)))) else 0)) \<and>
     (\<forall>d j. count_list (g_dependents g' d) j = count_list (g_dependents g d) j +
        (if i \<le> j \<and> j < i + length cs then count_list (cap_deps (cs ! (j - i))) d else 0))"
proof (induction cs arbitrary: i g)
  case (Cons c cs)
  obtain g1 where g1: "link_deps ids (cap_id c) i (cap_deps c) g = Inr g1"
      and rest: "link_all ids (Suc i) cs g1 = Inr g'"
    using Cons.prems(1) by (auto split: sum.splits)
  note one = link_deps_Inr [OF g1]
  have "Suc i + length cs \<le> length (g_unmet g1)" using one Cons.prems(2) by simp
  note all = Cons.IH [OF rest this]
  have split: "(c # cs) ! (j - i) = (if j = i then c else cs ! (j - Suc i))" if "i \<le> j" for j
    using that by (auto simp: nth_Cons' Suc_diff_Suc)
  show ?case using one all Cons.prems(2) by (auto simp: split)
qed auto

section \<open>The ready list\<close>

abbreviation strict :: "nat list \<Rightarrow> bool" where
  "strict \<equiv> sorted_wrt (<)"

lemma set_insertByIndex [simp]: "set (insertByIndex ready n) = insert n (set ready)"
  by (induction ready) auto

lemma strict_insertByIndex: "strict ready \<Longrightarrow> n \<notin> set ready \<Longrightarrow> strict (insertByIndex ready n)"
  by (induction ready) auto

lemma foldl_release:
  assumes "foldl release (u, r) js = (u', r')"
    and "\<forall>j \<in> set js. j < length u \<and> int (count_list js j) \<le> u ! j"
    and "\<forall>j \<in> set r. u ! j = 0" "strict r"
  shows "length u' = length u \<and> (\<forall>j < length u. u' ! j = u ! j - int (count_list js j)) \<and>
    strict r' \<and> set r' = set r \<union> {j \<in> set js. u ! j = int (count_list js j)}"
  using assms
proof (induction js arbitrary: u r)
  case Nil
  then show ?case by simp
next
  case (Cons j js)
  define u1 where "u1 = u[j := u ! j - 1]"
  define r1 where "r1 = (if u ! j = 1 then insertByIndex r j else r)"
  have j: "j < length u" "int (count_list js j) + 1 \<le> u ! j" using Cons.prems(2) by auto
  have step: "release (u, r) j = (u1, r1)"
    using j by (auto simp: release_def u1_def r1_def Let_def)
  have notin: "j \<notin> set r" using j(2) Cons.prems(3) by force
  have "\<forall>k \<in> set js. k < length u1 \<and> int (count_list js k) \<le> u1 ! k"
    using Cons.prems(2) j by (auto simp: u1_def nth_list_update split: if_splits)
  moreover have "\<forall>k \<in> set r1. u1 ! k = 0"
    using Cons.prems(3) j notin by (auto simp: u1_def r1_def nth_list_update split: if_splits)
  moreover have "strict r1"
    using Cons.prems(4) notin by (simp add: r1_def strict_insertByIndex)
  ultimately have IH: "length u' = length u1 \<and>
      (\<forall>k < length u1. u' ! k = u1 ! k - int (count_list js k)) \<and>
      strict r' \<and> set r' = set r1 \<union> {k \<in> set js. u1 ! k = int (count_list js k)}"
    using Cons.IH [of u1 r1] Cons.prems(1) step by simp
  have "set r1 \<union> {k \<in> set js. u1 ! k = int (count_list js k)} =
      set r \<union> {k \<in> set (j # js). u ! k = int (count_list (j # js) k)}"
  proof (intro set_eqI iffI; (elim UnE)?)
    fix k assume "k \<in> set r1"
    then show "k \<in> set r \<union> {k \<in> set (j # js). u ! k = int (count_list (j # js) k)}"
      using j by (auto simp: r1_def split: if_splits)
  next
    fix k assume "k \<in> {k \<in> set js. u1 ! k = int (count_list js k)}"
    then show "k \<in> set r \<union> {k \<in> set (j # js). u ! k = int (count_list (j # js) k)}"
      using j by (auto simp: u1_def nth_list_update split: if_splits)
  next
    fix k assume "k \<in> set r"
    then show "k \<in> set r1 \<union> {k \<in> set js. u1 ! k = int (count_list js k)}"
      by (auto simp: r1_def)
  next
    fix k assume "k \<in> {k \<in> set (j # js). u ! k = int (count_list (j # js) k)}"
    then show "k \<in> set r1 \<union> {k \<in> set js. u1 ! k = int (count_list js k)}"
      using j by (cases "k = j"; cases "k \<in> set js") (auto simp: r1_def u1_def)
  qed
  with IH j show ?case by (auto simp: u1_def nth_list_update)
qed

section \<open>The drain loop\<close>

text \<open>The nodes that can come next after \<open>done\<close>: not placed, with every dependency placed.\<close>

definition ids_of :: "capability list \<Rightarrow> nat list \<Rightarrow> string set" where
  "ids_of cs idx = (\<lambda>i. cap_id (cs ! i)) ` set idx"

definition eligible :: "capability list \<Rightarrow> nat list \<Rightarrow> nat set" where
  "eligible cs placed =
     {i. i < length cs \<and> i \<notin> set placed \<and> set (cap_deps (cs ! i)) \<subseteq> ids_of cs placed}"

text \<open>Every position holds the least registration index that was eligible there.\<close>

definition greedy :: "capability list \<Rightarrow> nat list \<Rightarrow> bool" where
  "greedy cs idx =
     (\<forall>k < length idx. idx ! k \<in> eligible cs (take k idx) \<and>
        (\<forall>i \<in> eligible cs (take k idx). idx ! k \<le> i))"

lemma greedy_snoc: "greedy cs (idx @ [n]) \<longleftrightarrow>
    greedy cs idx \<and> n \<in> eligible cs idx \<and> (\<forall>i \<in> eligible cs idx. n \<le> i)"
  by (auto simp: greedy_def less_Suc_eq nth_append)

lemma greedy_deps:
  "greedy cs idx \<Longrightarrow> i \<in> set idx \<Longrightarrow> i < length cs \<and> set (cap_deps (cs ! i)) \<subseteq> ids_of cs idx"
proof -
  assume g: "greedy cs idx" and "i \<in> set idx"
  then obtain k where k: "k < length idx" "i = idx ! k" by (auto simp: in_set_conv_nth)
  with g have "i \<in> eligible cs (take k idx)" by (simp add: greedy_def)
  moreover have "ids_of cs (take k idx) \<subseteq> ids_of cs idx"
    by (auto simp: ids_of_def dest: in_set_takeD)
  ultimately show ?thesis by (auto simp: eligible_def)
qed

lemma greedy_distinct: "greedy cs idx \<Longrightarrow> distinct idx"
proof (induction idx rule: rev_induct)
  case (snoc n idx)
  then show ?case by (auto simp: greedy_snoc eligible_def)
qed simp

definition missing_deps :: "capability list \<Rightarrow> nat list \<Rightarrow> nat \<Rightarrow> nat" where
  "missing_deps cs placed i = length (filter (\<lambda>d. d \<notin> ids_of cs placed) (cap_deps (cs ! i)))"

lemma missing_deps_0: "missing_deps cs placed i = 0 \<longleftrightarrow>
    set (cap_deps (cs ! i)) \<subseteq> ids_of cs placed"
  by (auto simp: missing_deps_def filter_empty_conv)

lemma filter_count: "x \<notin> A \<Longrightarrow> length (filter (\<lambda>d. d \<notin> A) ds) =
    count_list ds x + length (filter (\<lambda>d. d \<notin> insert x A) ds)"
  by (induction ds) auto

definition drain_inv ::
  "capability list \<Rightarrow> (string \<Rightarrow> nat list) \<Rightarrow> nat list \<Rightarrow> int list \<Rightarrow> nat list \<Rightarrow> bool" where
  "drain_inv cs dependents ready unmet ordered =
     (distinct (map cap_id cs) \<and>
      (\<forall>d i. count_list (dependents d) i = (if i < length cs then count_list (cap_deps (cs ! i)) d else 0)) \<and>
      length unmet = length cs \<and>
      (\<forall>i < length cs. unmet ! i = int (missing_deps cs ordered i)) \<and>
      greedy cs ordered \<and> strict ready \<and> set ready = eligible cs ordered)"

lemma id_inj: "distinct (map cap_id cs) \<Longrightarrow> i < length cs \<Longrightarrow> j < length cs \<Longrightarrow>
    cap_id (cs ! i) = cap_id (cs ! j) \<longleftrightarrow> i = j"
  by (metis length_map nth_eq_iff_index_eq nth_map)

lemma drain_inv_step:
  assumes inv: "drain_inv cs dependents (n # ready) unmet ordered"
    and st: "foldl release (unmet, ready) (dependents (cap_id (cs ! n))) = (unmet', ready')"
  shows "drain_inv cs dependents ready' unmet' (ordered @ [n])"
proof -
  let ?x = "cap_id (cs ! n)" and ?js = "dependents (cap_id (cs ! n))"
  note I = inv [unfolded drain_inv_def]
  have cnt: "count_list ?js i = (if i < length cs then count_list (cap_deps (cs ! i)) ?x else 0)" for i
    using I by blast
  have n: "n \<in> eligible cs ordered" using I by auto
  have placed: "i < length cs" if "i \<in> set ordered" for i
    using I greedy_deps that by blast
  have x: "?x \<notin> ids_of cs ordered"
    using n placed I by (auto simp: ids_of_def eligible_def id_inj)
  have ids': "ids_of cs (ordered @ [n]) = insert ?x (ids_of cs ordered)"
    by (simp add: ids_of_def)
  have miss: "missing_deps cs ordered i =
      count_list (cap_deps (cs ! i)) ?x + missing_deps cs (ordered @ [n]) i" for i
    unfolding missing_deps_def ids' by (rule filter_count [OF x])
  have js: "j < length cs" if "j \<in> set ?js" for j
    using that cnt [of j] count_list_0_iff [of ?js j] by (auto split: if_splits)
  have le: "\<forall>j \<in> set ?js. j < length unmet \<and> int (count_list ?js j) \<le> unmet ! j"
    using I js by (auto simp: cnt miss)
  have zero: "\<forall>j \<in> set ready. unmet ! j = 0"
  proof
    fix j assume "j \<in> set ready"
    then have "j \<in> eligible cs ordered" using I by auto
    then show "unmet ! j = 0" using I by (auto simp: eligible_def missing_deps_0 [symmetric])
  qed
  have "strict ready" using I by simp
  note F = foldl_release [OF st le zero this]
  have unmet': "unmet' ! i = int (missing_deps cs (ordered @ [n]) i)" if "i < length cs" for i
    using F I that by (simp add: cnt miss)
  have "set ready' = eligible cs (ordered @ [n])"
  proof (rule set_eqI)
    fix i
    have r: "i \<in> set ready \<longleftrightarrow> i \<in> eligible cs ordered \<and> i \<noteq> n" using I by auto
    have z: "j \<in> eligible cs p \<longleftrightarrow> j < length cs \<and> j \<notin> set p \<and> missing_deps cs p j = 0" for j p
      by (simp add: eligible_def missing_deps_0)
    have js_i: "i \<in> set ?js \<longleftrightarrow> i < length cs \<and> 0 < count_list (cap_deps (cs ! i)) ?x"
      using cnt [of i] count_list_0_iff [of ?js i] by (auto split: if_splits)
    have done_i: "missing_deps cs ordered i = 0" if "i \<in> set ordered"
      using greedy_deps [of cs ordered i] that I by (simp add: missing_deps_0)
    have n0: "missing_deps cs ordered n = 0" using n by (simp add: z)
    show "i \<in> set ready' \<longleftrightarrow> i \<in> eligible cs (ordered @ [n])"
    proof (cases "i < length cs")
      case True
      then have "i \<in> set ready' \<longleftrightarrow> i \<in> eligible cs ordered \<and> i \<noteq> n \<or>
          (0 < count_list (cap_deps (cs ! i)) ?x \<and> missing_deps cs (ordered @ [n]) i = 0)"
        using F I r js_i by (auto simp: cnt miss)
      also have "\<dots> \<longleftrightarrow> i \<in> eligible cs (ordered @ [n])"
        using True done_i n0 miss [of i] by (auto simp: z)
      finally show ?thesis .
    next
      case False
      then show ?thesis using F I r js by (auto simp: z)
    qed
  qed
  moreover have "greedy cs (ordered @ [n])"
    using I n by (auto simp: greedy_snoc less_imp_le dest!: equalityD2 [of "insert n _"])
  ultimately show ?thesis using F I unmet' by (simp add: drain_inv_def)
qed

lemma drain_inv_drain:
  "drain_inv cs dependents ready unmet ordered \<Longrightarrow>
   drain dependents cs ready unmet ordered = (ordered', unmet') \<Longrightarrow>
   drain_inv cs dependents [] unmet' ordered'"
proof (induction dependents cs ready unmet ordered rule: drain.induct)
  case (2 dependents cs n ready unmet ordered)
  obtain u r where st: "foldl release (unmet, ready) (dependents (cap_id (cs ! n))) = (u, r)"
    by fastforce
  with 2 drain_inv_step show ?case by (auto simp: Let_def)
qed simp

section \<open>The search behind the cycle diagnostic\<close>

definition blocked_rel :: "capability list \<Rightarrow> (string \<times> string) set" where
  "blocked_rel blocked = {(a, b). b \<in> set (blockedDependencies blocked a)}"

lemma reaches_from_sound:
  "reaches_from blocked start seen stack \<Longrightarrow> \<exists>x \<in> set stack. (x, start) \<in> (blocked_rel blocked)\<^sup>*"
proof (induction blocked start seen stack rule: reaches_from.induct)
  case (2 blocked start seen x stack)
  show ?case
  proof (cases "x = start \<or> x \<in> set seen")
    case True
    with 2 show ?thesis by (auto split: if_splits)
  next
    case False
    with 2 obtain y where y: "y \<in> set (blockedDependencies blocked x) \<or> y \<in> set stack"
        "(y, start) \<in> (blocked_rel blocked)\<^sup>*" by auto
    then show ?thesis
    proof (cases "y \<in> set stack")
      case False
      with y have "(x, y) \<in> blocked_rel blocked" by (simp add: blocked_rel_def)
      with y show ?thesis by (auto intro: converse_rtrancl_into_rtrancl)
    qed auto
  qed
qed simp

lemma reaches_from_complete:
  "\<not> reaches_from blocked start seen stack \<Longrightarrow> start \<notin> set seen \<Longrightarrow>
   (blocked_rel blocked) `` set seen \<subseteq> set seen \<union> set stack \<Longrightarrow>
   \<exists>S. set seen \<union> set stack \<subseteq> S \<and> (blocked_rel blocked) `` S \<subseteq> S \<and> start \<notin> S"
proof (induction blocked start seen stack rule: reaches_from.induct)
  case (1 blocked start seen)
  then show ?case by (intro exI [of _ "set seen"]) auto
next
  case (2 blocked start seen x stack)
  show ?case
  proof (cases "x \<in> set seen")
    case True
    with 2 show ?thesis by (auto split: if_splits simp: insert_absorb)
  next
    case False
    have "x \<noteq> start" using "2.prems"(1) by auto
    moreover have "(blocked_rel blocked) `` set (x # seen) \<subseteq>
        set (x # seen) \<union> set (rev (blockedDependencies blocked x) @ stack)"
      using "2.prems"(3) by (auto simp: blocked_rel_def)
    ultimately obtain S where
      "set (x # seen) \<union> set (rev (blockedDependencies blocked x) @ stack) \<subseteq> S"
      "(blocked_rel blocked) `` S \<subseteq> S" "start \<notin> S"
      using "2.IH"(2) [OF _ False] "2.prems" False by auto
    then show ?thesis by (intro exI [of _ S]) auto
  qed
qed

lemma reachesSelf_iff: "reachesSelf blocked s \<longleftrightarrow> (s, s) \<in> (blocked_rel blocked)\<^sup>+"
proof
  assume "reachesSelf blocked s"
  then obtain x where "x \<in> set (rev (blockedDependencies blocked s))"
      "(x, s) \<in> (blocked_rel blocked)\<^sup>*"
    unfolding reachesSelf_def by (blast dest: reaches_from_sound)
  moreover from this have "(s, x) \<in> blocked_rel blocked" by (simp add: blocked_rel_def)
  ultimately have "(s, x) \<in> blocked_rel blocked" "(x, s) \<in> (blocked_rel blocked)\<^sup>*" by auto
  then show "(s, s) \<in> (blocked_rel blocked)\<^sup>+" by (rule rtrancl_into_trancl2)
next
  assume cyc: "(s, s) \<in> (blocked_rel blocked)\<^sup>+"
  show "reachesSelf blocked s"
  proof (rule ccontr)
    assume "\<not> reachesSelf blocked s"
    then obtain S where S: "set (blockedDependencies blocked s) \<subseteq> S"
        "(blocked_rel blocked) `` S \<subseteq> S" "s \<notin> S"
      using reaches_from_complete [of blocked s "[]" "rev (blockedDependencies blocked s)"]
      by (auto simp: reachesSelf_def)
    obtain y where y: "(s, y) \<in> blocked_rel blocked" "(y, s) \<in> (blocked_rel blocked)\<^sup>*"
      using cyc by (auto dest: tranclD)
    from y(2) have "y \<in> S \<longrightarrow> s \<in> S"
      using S(2) by (induction rule: converse_rtrancl_induct) auto
    with S(1,3) y(1) show False by (auto simp: blocked_rel_def)
  qed
qed

section \<open>Where the sort stops\<close>

definition dep_rel :: "capability list \<Rightarrow> (string \<times> string) set" where
  "dep_rel cs = {(a, b). \<exists>c \<in> set cs. cap_id c = a \<and> b \<in> set (cap_deps c)}"

definition known_deps :: "capability list \<Rightarrow> bool" where
  "known_deps cs = (\<forall>c \<in> set cs. set (cap_deps c) \<subseteq> cap_id ` set cs)"

lemma finite_dep_rel: "finite (dep_rel cs)"
proof -
  have "dep_rel cs \<subseteq> (\<Union>c \<in> set cs. {cap_id c} \<times> set (cap_deps c))"
    by (auto simp: dep_rel_def)
  then show ?thesis by (rule finite_subset) auto
qed

definition left_over :: "capability list \<Rightarrow> nat list \<Rightarrow> capability list" where
  "left_over cs placed = map ((!) cs) (filter (\<lambda>i. i \<notin> set placed) [0..<length cs])"

lemma id_in_ids_of:
  "distinct (map cap_id cs) \<Longrightarrow> greedy cs placed \<Longrightarrow> i < length cs \<Longrightarrow>
     cap_id (cs ! i) \<in> ids_of cs placed \<longleftrightarrow> i \<in> set placed"
  by (auto simp: ids_of_def id_inj dest: greedy_deps)

lemma left_over_ids:
  "distinct (map cap_id cs) \<Longrightarrow> greedy cs placed \<Longrightarrow>
     cap_id ` set (left_over cs placed) = cap_id ` set cs - ids_of cs placed"
proof -
  assume A: "distinct (map cap_id cs)" "greedy cs placed"
  have "cap_id ` set (left_over cs placed) =
      {cap_id (cs ! i) | i. i < length cs \<and> cap_id (cs ! i) \<notin> ids_of cs placed}"
    using id_in_ids_of [OF A] by (auto simp: left_over_def)
  also have "\<dots> = cap_id ` set cs - ids_of cs placed"
    by (auto simp: set_conv_nth)
  finally show ?thesis .
qed

lemma placed_closed:
  "distinct (map cap_id cs) \<Longrightarrow> greedy cs placed \<Longrightarrow> (a, b) \<in> dep_rel cs \<Longrightarrow>
     a \<in> ids_of cs placed \<Longrightarrow> b \<in> ids_of cs placed"
proof -
  assume A: "distinct (map cap_id cs)" "greedy cs placed" and "(a, b) \<in> dep_rel cs"
    and a: "a \<in> ids_of cs placed"
  then obtain i where i: "i < length cs" "a = cap_id (cs ! i)" "b \<in> set (cap_deps (cs ! i))"
    by (fastforce simp: dep_rel_def set_conv_nth)
  with a have "i \<in> set placed" by (simp add: id_in_ids_of [OF A])
  with i(3) greedy_deps [OF A(2)] show ?thesis by blast
qed

lemma stalled_successor:
  assumes "known_deps cs" "distinct (map cap_id cs)" "greedy cs placed" "eligible cs placed = {}"
    and "a \<in> cap_id ` set cs - ids_of cs placed"
  shows "\<exists>b \<in> cap_id ` set cs - ids_of cs placed. (a, b) \<in> dep_rel cs"
proof -
  obtain i where i: "i < length cs" "a = cap_id (cs ! i)" using assms(5) by (auto simp: in_set_conv_nth)
  with assms have "i \<notin> set placed" by (simp add: id_in_ids_of)
  with i assms(4) obtain b where b: "b \<in> set (cap_deps (cs ! i))" "b \<notin> ids_of cs placed"
    by (auto simp: eligible_def)
  with i assms(1) show ?thesis by (force simp: dep_rel_def known_deps_def)
qed

lemma acyclic_stall_empty:
  assumes "acyclic (dep_rel cs)" "known_deps cs" "distinct (map cap_id cs)" "greedy cs placed"
    "eligible cs placed = {}"
  shows "cap_id ` set cs - ids_of cs placed = {}"
proof (rule ccontr)
  assume ne: "cap_id ` set cs - ids_of cs placed \<noteq> {}"
  have "wf ((dep_rel cs)\<inverse>)" by (rule finite_acyclic_wf_converse [OF finite_dep_rel assms(1)])
  then obtain z where "z \<in> cap_id ` set cs - ids_of cs placed"
      "\<And>y. (y, z) \<in> (dep_rel cs)\<inverse> \<Longrightarrow> y \<notin> cap_id ` set cs - ids_of cs placed"
    using ne by (metis wfE_min')
  with stalled_successor [OF assms(2-5)] show False by blast
qed

lemma left_over_deps:
  assumes "distinct (map cap_id cs)" "greedy cs placed"
  shows "(a, b) \<in> blocked_rel (left_over cs placed) \<longleftrightarrow>
    (a, b) \<in> dep_rel cs \<and> a \<notin> ids_of cs placed \<and> b \<notin> ids_of cs placed \<and> b \<in> cap_id ` set cs"
proof -
  let ?B = "left_over cs placed"
  have sub: "set ?B \<subseteq> set cs" by (auto simp: left_over_def)
  have one: "c = c'" if "c \<in> set cs" "c' \<in> set cs" "cap_id c = cap_id c'" for c c'
    using that assms(1) by (simp add: distinct_map inj_on_def)
  show ?thesis
  proof (cases "find (\<lambda>c. cap_id c = a) (rev ?B)")
    case None
    then have "a \<notin> cap_id ` set ?B" by (auto simp: find_None_iff)
    with None show ?thesis
      unfolding left_over_ids [OF assms] by (auto simp: blocked_rel_def blockedDependencies_def dep_rel_def)
  next
    case (Some c)
    then have c: "c \<in> set ?B" "cap_id c = a" by (auto dest: find_SomeD)
    then have "a \<in> cap_id ` set ?B" by auto
    then have a: "a \<notin> ids_of cs placed" unfolding left_over_ids [OF assms] by simp
    have "(a, b) \<in> blocked_rel ?B \<longleftrightarrow> b \<in> set (cap_deps c) \<and> b \<in> cap_id ` set ?B"
      using Some by (auto simp: blocked_rel_def blockedDependencies_def)
    also have "b \<in> set (cap_deps c) \<longleftrightarrow> (a, b) \<in> dep_rel cs"
      using c sub one by (auto simp: dep_rel_def)
    finally show ?thesis unfolding left_over_ids [OF assms] using a by auto
  qed
qed

section \<open>The result of the sort\<close>

lemma cycle_unplaced:
  assumes "distinct (map cap_id cs)" "greedy cs placed" "known_deps cs" "x \<notin> ids_of cs placed"
  shows "(x, x) \<in> (blocked_rel (left_over cs placed))\<^sup>+ \<longleftrightarrow> (x, x) \<in> (dep_rel cs)\<^sup>+"
proof
  assume "(x, x) \<in> (blocked_rel (left_over cs placed))\<^sup>+"
  then show "(x, x) \<in> (dep_rel cs)\<^sup>+"
    by (rule trancl_mono) (auto simp: left_over_deps [OF assms(1,2)])
next
  have upstream: "y \<notin> ids_of cs placed" if "(y, x) \<in> (dep_rel cs)\<^sup>*" for y
    using that assms(4)
    by (induction rule: converse_rtrancl_induct) (auto dest: placed_closed [OF assms(1,2)])
  have known: "b \<in> cap_id ` set cs" if "(a, b) \<in> dep_rel cs" for a b
    using that assms(3) by (auto simp: dep_rel_def known_deps_def)
  have lift: "(y, x) \<in> (dep_rel cs)\<^sup>* \<longrightarrow> (x, y) \<in> (blocked_rel (left_over cs placed))\<^sup>+"
    if "(x, y) \<in> (dep_rel cs)\<^sup>+" for y
    using that
  proof (induction rule: trancl_induct)
    case (base y)
    then show ?case
      using assms(4) upstream known by (auto simp: left_over_deps [OF assms(1,2)])
  next
    case (step y z)
    show ?case
    proof
      assume z: "(z, x) \<in> (dep_rel cs)\<^sup>*"
      with step(2) have y: "(y, x) \<in> (dep_rel cs)\<^sup>*" by (rule converse_rtrancl_into_rtrancl)
      with step have "(x, y) \<in> (blocked_rel (left_over cs placed))\<^sup>+" by blast
      moreover have "(y, z) \<in> blocked_rel (left_over cs placed)"
        using step(2) upstream [OF y] upstream [OF z] known
        by (auto simp: left_over_deps [OF assms(1,2)])
      ultimately show "(x, z) \<in> (blocked_rel (left_over cs placed))\<^sup>+"
        by (rule trancl_into_trancl)
    qed
  qed
  then show "(x, x) \<in> (dep_rel cs)\<^sup>+ \<Longrightarrow> (x, x) \<in> (blocked_rel (left_over cs placed))\<^sup>+"
    by blast
qed

lemma placed_not_cyclic:
  assumes "distinct (map cap_id cs)" "greedy cs placed" "x \<in> ids_of cs placed"
  shows "(x, x) \<notin> (dep_rel cs)\<^sup>+"
proof -
  define pos where "pos y = (LEAST k. k < length placed \<and> cap_id (cs ! (placed ! k)) = y)" for y
  have lt: "pos b < pos a" if ab: "(a, b) \<in> dep_rel cs" and a: "a \<in> ids_of cs placed" for a b
  proof -
    obtain k where k: "k < length placed" "cap_id (cs ! (placed ! k)) = a"
        and posa: "pos a = k"
      unfolding pos_def using a
      by (smt (verit, ccfv_threshold) LeastI_ex ids_of_def image_iff in_set_conv_nth)
    have el: "placed ! k \<in> eligible cs (take k placed)" using assms(2) k by (simp add: greedy_def)
    then have "b \<in> ids_of cs (take k placed)"
    proof -
      obtain c where c: "c \<in> set cs" "cap_id c = a" "b \<in> set (cap_deps c)"
        using ab by (auto simp: dep_rel_def)
      have "cs ! (placed ! k) \<in> set cs" using el by (simp add: eligible_def)
      with c k(2) assms(1) have "c = cs ! (placed ! k)"
        by (simp add: distinct_map inj_on_def)
      with c(3) el show ?thesis by (auto simp: eligible_def)
    qed
    then obtain j where "j < k" "cap_id (cs ! (placed ! j)) = b"
      by (auto simp: ids_of_def in_set_conv_nth)
    with k have "pos b \<le> j" unfolding pos_def by (intro Least_le) auto
    with \<open>j < k\<close> posa show ?thesis by simp
  qed
  have "(x, y) \<in> (dep_rel cs)\<^sup>+ \<Longrightarrow> y \<in> ids_of cs placed \<and> pos y < pos x" for y
  proof (induction rule: trancl_induct)
    case (base y)
    then show ?case using lt assms(3) placed_closed [OF assms(1,2)] by blast
  next
    case (step y z)
    then have "z \<in> ids_of cs placed" "pos z < pos y"
      using lt placed_closed [OF assms(1,2)] by blast+
    with step show ?case by simp
  qed
  then show ?thesis by blast
qed

text \<open>What \<open>orderCapabilities\<close> computes from an accepted registry: a greedy order, whole unless stalled.\<close>

lemma orderCapabilities_run:
  assumes "distinct (map cap_id cs)" "known_deps cs"
  obtains placed where "greedy cs placed" "eligible cs placed = {}"
    "orderCapabilities cs =
      (if length placed \<noteq> length cs
       then Inl (CyclicDependencies (cycleParticipants (left_over cs placed)))
       else Inr (map ((!) cs) placed))"
proof -
  let ?g0 = "\<lparr>g_unmet = replicate (length cs) 0, g_dependents = (\<lambda>_. [])\<rparr> :: graph"
  obtain g where g: "link_all (map cap_id cs) 0 cs ?g0 = Inr g"
    using link_all_Inl [of "map cap_id cs" 0 cs ?g0] assms(2)
    by (cases "link_all (map cap_id cs) 0 cs ?g0") (auto simp: known_deps_def)
  note L = link_all_Inr [OF g]
  define ready where "ready = sort (filter (\<lambda>i. g_unmet g ! i = 0) [0..<length cs])"
  have fl: "sorted (filter P [0..<n])" "strict (filter P [0..<n])" for P n
    by (simp_all add: sorted_wrt_filter sorted_filter [where f = id, simplified])
  have ready: "strict ready" "set ready = {i. i < length cs \<and> g_unmet g ! i = 0}"
    unfolding ready_def by (auto simp: sorted_sort_id fl)
  obtain placed unmet where d: "drain (g_dependents g) cs ready (g_unmet g) [] = (placed, unmet)"
    by (cases "drain (g_dependents g) cs ready (g_unmet g) []")
  have "drain_inv cs (g_dependents g) ready (g_unmet g) []"
    using L ready assms(1)
    by (auto simp: drain_inv_def missing_deps_def ids_of_def greedy_def eligible_def)
  then have fin: "drain_inv cs (g_dependents g) [] unmet placed"
    using d by (rule drain_inv_drain)
  have gr: "greedy cs placed" and el: "eligible cs placed = {}"
    using fin by (auto simp: drain_inv_def)
  have "0 < unmet ! i \<longleftrightarrow> i \<notin> set placed" if i: "i < length cs" for i
  proof -
    have "unmet ! i = int (missing_deps cs placed i)" using fin i by (simp add: drain_inv_def)
    moreover have "missing_deps cs placed i = 0 \<longleftrightarrow> i \<in> set placed"
      using i el greedy_deps [OF gr, of i] by (auto simp: missing_deps_0 eligible_def)
    ultimately show ?thesis by auto
  qed
  then have "filter (\<lambda>i. 0 < unmet ! i) [0..<length cs] =
      filter (\<lambda>i. i \<notin> set placed) [0..<length cs]"
    by (intro filter_cong) auto
  then have "orderCapabilities cs =
      (if length placed \<noteq> length cs
       then Inl (CyclicDependencies (cycleParticipants (left_over cs placed)))
       else Inr (map ((!) cs) placed))"
    using assms(1) g d
    by (simp add: orderCapabilities_def assertUniqueIds_None [THEN iffD2] ready_def left_over_def)
  with gr el show thesis by (rule that)
qed

lemma greedy_full: "greedy cs placed \<Longrightarrow> length placed = length cs \<longleftrightarrow> set placed = {..<length cs}"
  using greedy_distinct [of cs placed] greedy_deps [of cs placed]
  by (metis card_lessThan card_subset_eq distinct_card finite_lessThan lessThan_iff subsetI)

lemma greedy_full_iff_acyclic:
  assumes "distinct (map cap_id cs)" "known_deps cs" "greedy cs placed" "eligible cs placed = {}"
  shows "length placed = length cs \<longleftrightarrow> acyclic (dep_rel cs)"
proof
  assume full: "length placed = length cs"
  then have "set placed = {..<length cs}" using greedy_full [OF assms(3)] by simp
  then have all: "ids_of cs placed = cap_id ` set cs" by (auto simp: ids_of_def set_conv_nth)
  show "acyclic (dep_rel cs)"
  proof (rule acyclicI, rule allI)
    fix x show "(x, x) \<notin> (dep_rel cs)\<^sup>+"
    proof
      assume cyc: "(x, x) \<in> (dep_rel cs)\<^sup>+"
      then obtain y where "(x, y) \<in> dep_rel cs" by (auto dest: tranclD)
      then have "x \<in> ids_of cs placed" unfolding all by (auto simp: dep_rel_def)
      with cyc placed_not_cyclic [OF assms(1,3)] show False by blast
    qed
  qed
next
  assume "acyclic (dep_rel cs)"
  then have "cap_id ` set cs - ids_of cs placed = {}"
    by (rule acyclic_stall_empty [OF _ assms(2,1,3,4)])
  then have "i \<in> set placed" if "i < length cs" for i
    using id_in_ids_of [OF assms(1,3) that] nth_mem [OF that] by blast
  then have "set placed = {..<length cs}"
    using greedy_deps [OF assms(3)] by auto
  then show "length placed = length cs" using greedy_full [OF assms(3)] by simp
qed

lemma orderCapabilities_Inr:
  assumes "orderCapabilities cs = Inr os"
  obtains placed where "distinct (map cap_id cs)" "known_deps cs" "greedy cs placed"
    "length placed = length cs" "os = map ((!) cs) placed"
proof -
  have d: "distinct (map cap_id cs)"
    using assms by (auto simp: orderCapabilities_def assertUniqueIds_None [symmetric] split: option.splits)
  have k: "known_deps cs"
    using assms link_all_Inr [of "map cap_id cs" 0 cs
        "\<lparr>g_unmet = replicate (length cs) 0, g_dependents = (\<lambda>_. [])\<rparr>"]
    by (auto simp: orderCapabilities_def known_deps_def split: option.splits sum.splits)
  from orderCapabilities_run [OF d k] assms d k that show thesis
    by (metis Inl_Inr_False sum.inject(2))
qed

section \<open>Properties\<close>

definition sample_caps :: "capability list" where
  "sample_caps =
     [\<lparr>cap_id = ''auth'', cap_dependsOn = Some [''state'']\<rparr>,
      \<lparr>cap_id = ''theme'', cap_dependsOn = None\<rparr>,
      \<lparr>cap_id = ''state'', cap_dependsOn = Some []\<rparr>]"

lemma sample_caps_order: "orderCapabilities sample_caps =
    Inr [sample_caps ! 1, sample_caps ! 2, sample_caps ! 0]"
  by (simp add: orderCapabilities_def assertUniqueIds_def sample_caps_def cap_deps_def
      upt_rec release_def Let_def numeral_2_eq_2)

text \<open>Claim C34: an accepted registry is mounted completely and exactly once, and every provider comes
  after each capability it depends on (the dependency is the outer wrapper).\<close>

theorem ordered_topologically:
  assumes "orderCapabilities cs = Inr os"
  shows "mset os = mset cs \<and>
    (\<forall>k < length os. set (cap_deps (os ! k)) \<subseteq> cap_id ` set (take k os))"
proof -
  obtain placed where P: "greedy cs placed" "length placed = length cs" "os = map ((!) cs) placed"
    by (rule orderCapabilities_Inr [OF assms])
  have "set placed = {..<length cs}" using P greedy_full by blast
  then have "mset placed = mset [0..<length cs]"
    using greedy_distinct [OF P(1)] by (metis atLeast_upt distinct_upt set_eq_iff_mset_eq_distinct)
  then have "mset os = image_mset ((!) cs) (mset [0..<length cs])"
    using P(3) by simp
  also have "\<dots> = mset cs" by (metis map_nth mset_map)
  finally have "mset os = mset cs" .
  moreover have "set (cap_deps (os ! k)) \<subseteq> cap_id ` set (take k os)" if "k < length os" for k
    using P that by (auto simp: greedy_def eligible_def ids_of_def take_map image_image)
  ultimately show ?thesis by blast
qed

theorem ordered_topologically_witness:
  "mset [sample_caps ! 1, sample_caps ! 2, sample_caps ! 0] = mset sample_caps \<and>
   set (cap_deps (sample_caps ! 0)) \<subseteq> {''theme'', ''state''}"
  using ordered_topologically [OF sample_caps_order]
  by (simp add: sample_caps_def cap_deps_def)

text \<open>The order is deterministic and stable: at every position it takes the capability
  registered first among those whose dependencies are all mounted.\<close>

theorem ordered_greedily:
  assumes "orderCapabilities cs = Inr os"
  shows "\<exists>placed. os = map ((!) cs) placed \<and> length placed = length cs \<and> greedy cs placed"
  using orderCapabilities_Inr [OF assms] by metis

theorem ordered_greedily_witness:
  "\<exists>placed. [sample_caps ! 1, sample_caps ! 2, sample_caps ! 0] = map ((!) sample_caps) placed \<and>
     length placed = 3 \<and> greedy sample_caps placed"
  using ordered_greedily [OF sample_caps_order] by (simp add: sample_caps_def numeral_3_eq_3)

text \<open>Claim C36: a registry is accepted exactly when its ids are unique, every dependency is registered
  and no capability depends on itself through others; a registry that fails only the last test is
  refused with exactly the ids that lie on a cycle, in registration order.\<close>

theorem ordering_accepts_iff:
  "((\<exists>os. orderCapabilities cs = Inr os) \<longleftrightarrow>
      distinct (map cap_id cs) \<and> known_deps cs \<and> acyclic (dep_rel cs)) \<and>
   (distinct (map cap_id cs) \<and> known_deps cs \<and> \<not> acyclic (dep_rel cs) \<longrightarrow>
      orderCapabilities cs = Inl (CyclicDependencies
        (map cap_id (filter (\<lambda>c. (cap_id c, cap_id c) \<in> (dep_rel cs)\<^sup>+) cs))))"
proof (intro conjI iffI impI)
  assume "\<exists>os. orderCapabilities cs = Inr os"
  then obtain os where os: "orderCapabilities cs = Inr os" by blast
  then obtain placed where P: "distinct (map cap_id cs)" "known_deps cs" "greedy cs placed"
      "length placed = length cs"
    by (rule orderCapabilities_Inr)
  have "eligible cs placed = {}" using greedy_full [OF P(3)] P(4) by (auto simp: eligible_def)
  with greedy_full_iff_acyclic [OF P(1-3)] P(4)
  have "acyclic (dep_rel cs)" by simp
  with P show "distinct (map cap_id cs)" "known_deps cs" "acyclic (dep_rel cs)" by auto
next
  assume A: "distinct (map cap_id cs) \<and> known_deps cs \<and> acyclic (dep_rel cs)"
  then show "\<exists>os. orderCapabilities cs = Inr os"
    by (metis greedy_full_iff_acyclic orderCapabilities_run)
next
  assume A: "distinct (map cap_id cs) \<and> known_deps cs \<and> \<not> acyclic (dep_rel cs)"
  then obtain placed where P: "greedy cs placed" "eligible cs placed = {}"
      "orderCapabilities cs = Inl (CyclicDependencies (cycleParticipants (left_over cs placed)))"
    by (metis greedy_full_iff_acyclic orderCapabilities_run)
  have d: "distinct (map cap_id cs)" and k: "known_deps cs" using A by auto
  have on_cycle: "reachesSelf (left_over cs placed) (cap_id (cs ! i)) \<longleftrightarrow>
      (cap_id (cs ! i), cap_id (cs ! i)) \<in> (dep_rel cs)\<^sup>+" if "i < length cs" "i \<notin> set placed" for i
    using cycle_unplaced [OF d P(1) k] that
    by (simp add: reachesSelf_iff id_in_ids_of [OF d P(1)])
  have off: "(cap_id (cs ! i), cap_id (cs ! i)) \<notin> (dep_rel cs)\<^sup>+" if "i < length cs" "i \<in> set placed" for i
    using placed_not_cyclic [OF d P(1)] that by (simp add: id_in_ids_of [OF d P(1)])
  have "filter (\<lambda>c. reachesSelf (left_over cs placed) (cap_id c)) (left_over cs placed) =
      map ((!) cs) (filter (\<lambda>i. (cap_id (cs ! i), cap_id (cs ! i)) \<in> (dep_rel cs)\<^sup>+) [0..<length cs])"
    unfolding left_over_def filter_map filter_filter comp_def
    by (intro arg_cong [where f = "map ((!) cs)"] filter_cong)
      (use on_cycle off in \<open>auto simp: left_over_def\<close>)
  also have "\<dots> = filter (\<lambda>c. (cap_id c, cap_id c) \<in> (dep_rel cs)\<^sup>+) (map ((!) cs) [0..<length cs])"
    by (simp add: filter_map comp_def)
  finally show "orderCapabilities cs = Inl (CyclicDependencies
      (map cap_id (filter (\<lambda>c. (cap_id c, cap_id c) \<in> (dep_rel cs)\<^sup>+) cs)))"
    using P(3) by (simp add: cycleParticipants_def map_nth)
qed

text \<open>The diagnostic of the source's comment: \<open>a\<close> and \<open>b\<close> depend on each other, \<open>c\<close> only on them.\<close>

definition cyclic_caps :: "capability list" where
  "cyclic_caps =
     [\<lparr>cap_id = ''a'', cap_dependsOn = Some [''b'']\<rparr>, \<lparr>cap_id = ''b'', cap_dependsOn = Some [''a'']\<rparr>,
      \<lparr>cap_id = ''c'', cap_dependsOn = Some [''b'']\<rparr>]"

theorem ordering_accepts_iff_witness:
  "(\<exists>os. orderCapabilities sample_caps = Inr os) \<and> acyclic (dep_rel sample_caps) \<and>
   orderCapabilities cyclic_caps = Inl (CyclicDependencies [''a'', ''b''])"
proof -
  have "acyclic (dep_rel sample_caps)"
    using ordering_accepts_iff [of sample_caps] sample_caps_order by blast
  moreover have "orderCapabilities cyclic_caps = Inl (CyclicDependencies [''a'', ''b''])"
    by (simp add: orderCapabilities_def assertUniqueIds_def cyclic_caps_def cap_deps_def
        upt_rec release_def Let_def cycleParticipants_def reachesSelf_def blockedDependencies_def)
  ultimately show ?thesis using sample_caps_order by blast
qed

end
