(* ===== verification/JS_Values.thy ===== *)
theory JS_Values imports Prelude begin

text \<open>
  JavaScript values as trees, with the predicates of \<^verbatim>\<open>packages/std/src/guard/predicate.ts\<close>,
  \<^verbatim>\<open>equality.ts\<close> and the shape \<open>isJson\<close> accepts without limits
  (\<^verbatim>\<open>packages/std/src/encoding/json.ts\<close>). An object lists its own enumerable data properties in
  order, no key twice; its flag says whether its prototype is \<open>Object.prototype\<close> or \<open>null\<close>. A tree has no
  sharing, cycles or accessors, and its arrays have no holes.
\<close>

datatype jsval =
    JUndefined
  | JNull
  | JBool bool
  | JNum jsnum
  | JStr string
  | JBigInt int
  | JFunction nat  \<comment> \<open>functions and symbols by identity\<close>
  | JSymbol nat
  | JArray "jsval list"
  | JObject bool "(string \<times> jsval) list"

fun isRecord :: "jsval \<Rightarrow> bool" where
  "isRecord (JObject _ _) = True"
| "isRecord _ = False"

fun isDefined :: "jsval \<Rightarrow> bool" where
  "isDefined JUndefined = False"
| "isDefined JNull = False"
| "isDefined _ = True"

fun isNonEmptyString :: "jsval \<Rightarrow> bool" where
  "isNonEmptyString (JStr s) = (0 < length s)"
| "isNonEmptyString _ = False"

fun hasProperty :: "jsval \<Rightarrow> string \<Rightarrow> bool" where
  "hasProperty (JObject _ ps) k = (map_of ps k \<noteq> None)"
| "hasProperty _ _ = False"

text \<open>Reading a property of a record; an absent one is \<open>undefined\<close>.\<close>

fun prop_of :: "jsval \<Rightarrow> string \<Rightarrow> jsval" where
  "prop_of (JObject _ ps) k = (case map_of ps k of Some v \<Rightarrow> v | None \<Rightarrow> JUndefined)"
| "prop_of _ _ = JUndefined"

text \<open>Containers and their parts.\<close>

fun items_of :: "jsval \<Rightarrow> jsval list" where
  "items_of (JArray xs) = xs"
| "items_of _ = []"

fun props_of :: "jsval \<Rightarrow> (string \<times> jsval) list" where
  "props_of (JObject _ ps) = ps"
| "props_of _ = []"

fun is_container :: "jsval \<Rightarrow> bool" where
  "is_container (JArray _) = True"
| "is_container (JObject _ _) = True"
| "is_container _ = False"

definition isAbsentOr :: "jsval \<Rightarrow> (jsval \<Rightarrow> bool) \<Rightarrow> bool" where
  "isAbsentOr v check = (v = JUndefined \<or> check v)"

fun typeof_number :: "jsval \<Rightarrow> bool" where
  "typeof_number (JNum _) = True"
| "typeof_number _ = False"

fun typeof_string :: "jsval \<Rightarrow> bool" where
  "typeof_string (JStr _) = True"
| "typeof_string _ = False"

fun typeof_boolean :: "jsval \<Rightarrow> bool" where
  "typeof_boolean (JBool _) = True"
| "typeof_boolean _ = False"

fun num_check :: "(jsnum \<Rightarrow> bool) \<Rightarrow> jsval \<Rightarrow> bool" where
  "num_check P (JNum n) = P n"
| "num_check P _ = False"

fun is_json :: "jsval \<Rightarrow> bool" where
  "is_json JNull = True"
| "is_json (JBool _) = True"
| "is_json (JStr _) = True"
| "is_json (JNum n) = js_finite n"
| "is_json (JArray xs) = (\<forall>x \<in> set xs. is_json x)"
| "is_json (JObject plain ps) = (plain \<and> (\<forall>p \<in> set ps. is_json (snd p)))"
| "is_json _ = False"

text \<open>Structural equality; \<open>Object.is\<close> on primitives is equality of the constructors here.\<close>

function (sequential) isStructurallyEqual :: "jsval \<Rightarrow> jsval \<Rightarrow> bool" where
  "isStructurallyEqual (JArray xs) (JArray ys) =
     (length xs = length ys \<and> (\<forall>(x, y) \<in> set (zip xs ys). isStructurallyEqual x y))"
| "isStructurallyEqual (JObject _ ps) (JObject _ qs) =
     (length ps = length qs \<and>
      (\<forall>p \<in> set ps. case map_of qs (fst p) of None \<Rightarrow> False | Some w \<Rightarrow> isStructurallyEqual (snd p) w))"
| "isStructurallyEqual x y = (x = y)"
  by pat_completeness auto
termination
proof (relation "measure (size \<circ> fst)", goal_cases)
  case (2 xs ys z x y)
  then have "x \<in> set xs" by (auto dest: set_zip_leftD)
  with 2 show ?case by (auto simp: less_Suc_eq_le intro: size_list_estimation')
next
  case (3 uu ps uv qs p w)
  then have "size (snd p) \<le> size_list (size_prod (\<lambda>x. 0) size) ps"
    by (intro size_list_estimation') (auto simp: size_prod_simp)
  then show ?case by (simp add: less_Suc_eq_le)
qed simp

text \<open>Values as a program builds them: no object repeats a key.\<close>

fun wf_val :: "jsval \<Rightarrow> bool" where
  "wf_val (JArray xs) = (\<forall>x \<in> set xs. wf_val x)"
| "wf_val (JObject _ ps) = (distinct (map fst ps) \<and> (\<forall>p \<in> set ps. wf_val (snd p)))"
| "wf_val _ = True"

lemma isNonEmptyString_iff: "isNonEmptyString v \<longleftrightarrow> (\<exists>c cs. v = JStr (c # cs))"
  by (cases v rule: isNonEmptyString.cases; auto simp: neq_Nil_conv)

lemma typeof_iffs:
  "typeof_number v \<longleftrightarrow> (\<exists>n. v = JNum n)"
  "typeof_string v \<longleftrightarrow> (\<exists>s. v = JStr s)"
  "typeof_boolean v \<longleftrightarrow> (\<exists>b. v = JBool b)"
  by (cases v; simp)+

lemma hasProperty_prop: "hasProperty v k \<longleftrightarrow> (\<exists>pl ps w. v = JObject pl ps \<and> map_of ps k = Some w \<and> prop_of v k = w)"
  by (cases v) auto

end
