(* ===== verification/Devtools_Protocol.thy ===== *)
theory Devtools_Protocol imports JS_Values "HOL-Library.Monad_Syntax" begin

text \<open>
  \<^verbatim>\<open>packages/devtools/src/protocol\<close>: the frames between the devtools host and its client.
  \<open>validateMessageEnvelope\<close> and \<open>validateRequestEnvelope\<close> are the validators of
  \<^verbatim>\<open>validate.ts\<close>, over untrusted values; the typed messages of \<^verbatim>\<open>message.ts\<close>,
  \<^verbatim>\<open>source.ts\<close>, \<^verbatim>\<open>event.ts\<close>, \<^verbatim>\<open>indicator.ts\<close> and \<^verbatim>\<open>identity.ts\<close> are datatypes.
  The specification is a decoder from values to typed messages (\<open>decode_message\<close>) and the encoder
  a peer uses (\<open>encode_message\<close>).
\<close>

section \<open>Typed messages\<close>

record source_id =
  sid_kind :: string
  sid_instance :: string

datatype severity = SevOk | SevInfo | SevWarn | SevError

datatype command_risk = Safe | Mutating | Destructive

record command_descriptor =
  cmd_id :: string
  cmd_label :: string
  cmd_risk :: command_risk
  cmd_available :: bool

record source_descriptor =
  src_id :: source_id
  src_label :: string
  src_commands :: "command_descriptor list"

record source_event =
  ev_kind :: string
  ev_label :: string
  ev_severity :: severity
  ev_at :: jsnum
  ev_summary :: "jsval option"
  ev_detail :: "string option"

record status_indicator =
  ind_id :: string
  ind_label :: string
  ind_value :: string
  ind_context :: "string option"
  ind_severity :: severity
  ind_updatedAt :: jsnum
  ind_target :: "string option"

datatype message =
    SourceAdded source_descriptor
  | SourceRemoved source_id
  | SourceFailed source_id jsval
  | SourceRecovered source_id
  | EventMessage source_id jsnum source_event
  | IndicatorMessage source_id status_indicator
  | DroppedMessage "source_id option" jsnum
  | DetailOk string jsnum jsval
  | DetailErr string jsval
  | CommandOk string jsval
  | CommandErr string jsval
  | Disposed

datatype request =
    DetailRequest string source_id string
  | CommandRequest string source_id string jsval
  | Cancel string

datatype protocol_error =
    ProtocolIncompatible jsval
  | MessageMalformed string
  | RequestMalformed string
  | CommandInputUnsupported jsval

datatype slot = MessageSlot | RequestSlot

section \<open>Identity, version, severity\<close>

definition sourceKey :: "source_id \<Rightarrow> string" where
  "sourceKey sid = digits_of (length (sid_kind sid)) @ '':'' @ sid_kind sid @ sid_instance sid"

definition sourceIdEquals :: "source_id \<Rightarrow> source_id \<Rightarrow> bool" where
  "sourceIdEquals a b = (sid_kind a = sid_kind b \<and> sid_instance a = sid_instance b)"

definition PROTOCOL_VERSION :: jsnum where
  "PROTOCOL_VERSION = Fin 1"

definition isCompatibleProtocol :: "jsval \<Rightarrow> bool" where
  "isCompatibleProtocol version = (version = JNum PROTOCOL_VERSION)"

definition isSeverity :: "jsval \<Rightarrow> bool" where
  "isSeverity v = (v \<in> set (map JStr [''ok'', ''info'', ''warn'', ''error'']))"

section \<open>The validators\<close>

text \<open>A key between single quotes, as the error texts print it.\<close>

definition quoted :: "string \<Rightarrow> string" where
  "quoted key = CHR 0x27 # key @ [CHR 0x27]"

definition malformed :: "slot \<Rightarrow> string \<Rightarrow> protocol_error + jsval" where
  "malformed sl reason =
     Inl (case sl of MessageSlot \<Rightarrow> MessageMalformed reason | RequestSlot \<Rightarrow> RequestMalformed reason)"

fun slot_name :: "slot \<Rightarrow> string" where
  "slot_name MessageSlot = ''message''"
| "slot_name RequestSlot = ''request''"

text \<open>\<open>requireAll\<close> runs its checks in order and stops at the first failure.\<close>

fun requireAll :: "jsval \<Rightarrow> (unit \<Rightarrow> protocol_error + jsval) list \<Rightarrow> protocol_error + jsval" where
  "requireAll v [] = Inr v"
| "requireAll v (check # checks) =
     (case check () of Inl e \<Rightarrow> Inl e | Inr _ \<Rightarrow> requireAll v checks)"

definition require :: "slot \<Rightarrow> string \<Rightarrow> jsval \<Rightarrow> bool \<Rightarrow> protocol_error + jsval" where
  "require sl reason v b = (if b then Inr v else malformed sl reason)"

definition isSourceId :: "jsval \<Rightarrow> bool" where
  "isSourceId v =
     (isRecord v \<and> isNonEmptyString (prop_of v ''kind'') \<and> isNonEmptyString (prop_of v ''instance''))"

definition requireSourceId :: "jsval \<Rightarrow> slot \<Rightarrow> protocol_error + jsval" where
  "requireSourceId v sl = require sl ''Invalid source id.'' v (isSourceId (prop_of v ''id''))"

definition requireNullableSourceId :: "jsval \<Rightarrow> slot \<Rightarrow> protocol_error + jsval" where
  "requireNullableSourceId v sl =
     require sl ''Invalid source id.'' v (prop_of v ''id'' = JNull \<or> isSourceId (prop_of v ''id''))"

definition isCommandDescriptor :: "jsval \<Rightarrow> bool" where
  "isCommandDescriptor v =
     (isRecord v \<and> isNonEmptyString (prop_of v ''id'') \<and> isNonEmptyString (prop_of v ''label'') \<and>
      (prop_of v ''risk'' = JStr ''safe'' \<or> prop_of v ''risk'' = JStr ''mutating'' \<or>
       prop_of v ''risk'' = JStr ''destructive'') \<and>
      typeof_boolean (prop_of v ''available''))"

fun array_every :: "(jsval \<Rightarrow> bool) \<Rightarrow> jsval \<Rightarrow> bool" where
  "array_every P (JArray xs) = (\<forall>x \<in> set xs. P x)"
| "array_every P _ = False"

definition requireSourceDescriptor :: "jsval \<Rightarrow> protocol_error + jsval" where
  "requireSourceDescriptor v =
     (let source = prop_of v ''source'' in
      if \<not> isRecord source \<or> \<not> isSourceId (prop_of source ''id'') \<or>
         \<not> isNonEmptyString (prop_of source ''label'') \<or>
         \<not> array_every isCommandDescriptor (prop_of source ''commands'')
      then malformed MessageSlot ''Invalid source descriptor.'' else Inr v)"

definition requireEvent :: "jsval \<Rightarrow> protocol_error + jsval" where
  "requireEvent v =
     (let event = prop_of v ''event'' in
      if \<not> isRecord event \<or> \<not> isNonEmptyString (prop_of event ''kind'') \<or>
         \<not> isNonEmptyString (prop_of event ''label'') \<or> \<not> isSeverity (prop_of event ''severity'') \<or>
         \<not> num_check js_finite (prop_of event ''at'') \<or>
         (hasProperty event ''summary'' \<and> \<not> is_json (prop_of event ''summary'')) \<or>
         (hasProperty event ''detail'' \<and> \<not> isNonEmptyString (prop_of event ''detail''))
      then malformed MessageSlot ''Invalid source event.'' else Inr v)"

definition requireIndicator :: "jsval \<Rightarrow> protocol_error + jsval" where
  "requireIndicator v =
     (let ind = prop_of v ''indicator'' in
      if \<not> isRecord ind \<or> \<not> isNonEmptyString (prop_of ind ''id'') \<or>
         \<not> isNonEmptyString (prop_of ind ''label'') \<or> \<not> typeof_string (prop_of ind ''value'') \<or>
         (hasProperty ind ''context'' \<and> \<not> isNonEmptyString (prop_of ind ''context'')) \<or>
         \<not> isSeverity (prop_of ind ''severity'') \<or> \<not> num_check js_finite (prop_of ind ''updatedAt'') \<or>
         (hasProperty ind ''target'' \<and> \<not> isNonEmptyString (prop_of ind ''target''))
      then malformed MessageSlot ''Invalid status indicator.'' else Inr v)"

definition requireErrorSnapshot :: "jsval \<Rightarrow> string \<Rightarrow> slot \<Rightarrow> protocol_error + jsval" where
  "requireErrorSnapshot v key sl =
     (let snapshot = prop_of v key in
      require sl (''Field '' @ quoted key @ '' must be a serializable error snapshot.'') v
        (isRecord snapshot \<and> hasProperty snapshot ''name'' \<and> hasProperty snapshot ''message'' \<and>
         is_json snapshot))"

definition requirePositiveField :: "jsval \<Rightarrow> string \<Rightarrow> slot \<Rightarrow> protocol_error + jsval" where
  "requirePositiveField v key sl =
     require sl (''Field '' @ quoted key @ '' must be a positive integer.'') v
       (num_check isPositiveInteger (prop_of v key))"

definition requireNonNegativeInteger :: "jsval \<Rightarrow> string \<Rightarrow> slot \<Rightarrow> protocol_error + jsval" where
  "requireNonNegativeInteger v key sl =
     require sl (''Field '' @ quoted key @ '' must be a non-negative integer.'') v
       (num_check isNonNegativeInteger (prop_of v key))"

definition requireNonEmptyString :: "jsval \<Rightarrow> string \<Rightarrow> slot \<Rightarrow> protocol_error + jsval" where
  "requireNonEmptyString v key sl =
     require sl (''Field '' @ quoted key @ '' must be a non-empty string.'') v
       (isNonEmptyString (prop_of v key))"

definition requireJson :: "jsval \<Rightarrow> string \<Rightarrow> slot \<Rightarrow> protocol_error + jsval" where
  "requireJson v key sl =
     require sl (''Field '' @ quoted key @ '' must be serializable.'') v
       (hasProperty v key \<and> is_json (prop_of v key))"

definition requireBoolean :: "jsval \<Rightarrow> string \<Rightarrow> slot \<Rightarrow> protocol_error + jsval" where
  "requireBoolean v key sl =
     require sl (''Field '' @ quoted key @ '' must be a boolean.'') v (typeof_boolean (prop_of v key))"

definition requireResult :: "jsval \<Rightarrow> bool \<Rightarrow> protocol_error + jsval" where
  "requireResult v detail =
     (case requireAll v [\<lambda>_. requireNonEmptyString v ''requestId'' MessageSlot,
                         \<lambda>_. requireBoolean v ''ok'' MessageSlot] of
        Inl e \<Rightarrow> Inl e
      | Inr _ \<Rightarrow>
          if prop_of v ''ok'' = JBool False then requireErrorSnapshot v ''error'' MessageSlot
          else if prop_of v ''ok'' \<noteq> JBool True then malformed MessageSlot ''Invalid request result.''
          else (case requireJson v ''value'' MessageSlot of
              Inl e \<Rightarrow> Inl e
            | Inr payload \<Rightarrow>
                if \<not> detail then Inr payload else requireNonNegativeInteger v ''seq'' MessageSlot))"

definition parseCommandInput :: "jsval \<Rightarrow> protocol_error + jsval" where
  "parseCommandInput input =
     (if input = JUndefined then Inr JNull
      else if \<not> is_json input then Inl (CommandInputUnsupported input)
      else Inr input)"

text \<open>\<open>openEnvelope\<close> has checked that the payload is a record whose \<open>type\<close> is a non-empty string.\<close>

fun type_of :: "jsval \<Rightarrow> string" where
  "type_of v = (case prop_of v ''type'' of JStr s \<Rightarrow> s | _ \<Rightarrow> '''')"

definition checkMessage :: "jsval \<Rightarrow> protocol_error + jsval" where
  "checkMessage v =
     (let t = type_of v in
      if t = ''disposed'' then Inr v
      else if t = ''source-added'' then requireSourceDescriptor v
      else if t = ''source-removed'' then requireSourceId v MessageSlot
      else if t = ''source-recovered'' then requireSourceId v MessageSlot
      else if t = ''source-failed'' then
        requireAll v [\<lambda>_. requireSourceId v MessageSlot, \<lambda>_. requireErrorSnapshot v ''error'' MessageSlot]
      else if t = ''event'' then
        requireAll v [\<lambda>_. requireSourceId v MessageSlot, \<lambda>_. requirePositiveField v ''seq'' MessageSlot,
          \<lambda>_. requireEvent v]
      else if t = ''indicator'' then
        requireAll v [\<lambda>_. requireSourceId v MessageSlot, \<lambda>_. requireIndicator v]
      else if t = ''dropped'' then
        requireAll v [\<lambda>_. requireNullableSourceId v MessageSlot,
          \<lambda>_. requireNonNegativeInteger v ''count'' MessageSlot]
      else if t = ''detail-result'' then requireResult v True
      else if t = ''command-result'' then requireResult v False
      else malformed MessageSlot (''Unknown message type: '' @ t @ ''.''))"

definition checkRequest :: "jsval \<Rightarrow> protocol_error + jsval" where
  "checkRequest v =
     (let t = type_of v in
      if t = ''cancel'' then requireNonEmptyString v ''requestId'' RequestSlot
      else if t = ''detail-request'' then
        requireAll v [\<lambda>_. requireNonEmptyString v ''requestId'' RequestSlot,
          \<lambda>_. requireSourceId v RequestSlot, \<lambda>_. requireNonEmptyString v ''ref'' RequestSlot]
      else if t = ''command-request'' then
        requireAll v [\<lambda>_. requireNonEmptyString v ''requestId'' RequestSlot,
          \<lambda>_. requireSourceId v RequestSlot, \<lambda>_. requireNonEmptyString v ''commandId'' RequestSlot,
          \<lambda>_. requireJson v ''input'' RequestSlot]
      else malformed RequestSlot (''Unknown request type: '' @ t @ ''.''))"

definition openEnvelope :: "jsval \<Rightarrow> slot \<Rightarrow> protocol_error + jsval" where
  "openEnvelope v sl =
     (if \<not> isRecord v then malformed sl ''Envelope must be an object.''
      else if \<not> isCompatibleProtocol (prop_of v ''protocol'')
        then Inl (ProtocolIncompatible (prop_of v ''protocol''))
      else let payload = prop_of v (slot_name sl)
        in if \<not> isRecord payload \<or> \<not> isNonEmptyString (prop_of payload ''type'')
           then malformed sl (''Envelope '' @ slot_name sl @ '' must be a typed object.'')
           else Inr payload)"

text \<open>The result pairs the \<open>protocol\<close> number with the checked payload.\<close>

definition validateMessageEnvelope :: "jsval \<Rightarrow> protocol_error + jsval \<times> jsval" where
  "validateMessageEnvelope v =
     (case openEnvelope v MessageSlot of
        Inl e \<Rightarrow> Inl e
      | Inr m \<Rightarrow> (case checkMessage m of Inl e \<Rightarrow> Inl e | Inr m' \<Rightarrow> Inr (prop_of v ''protocol'', m')))"

definition validateRequestEnvelope :: "jsval \<Rightarrow> protocol_error + jsval \<times> jsval" where
  "validateRequestEnvelope v =
     (case openEnvelope v RequestSlot of
        Inl e \<Rightarrow> Inl e
      | Inr r \<Rightarrow> (case checkRequest r of Inl e \<Rightarrow> Inl e | Inr r' \<Rightarrow> Inr (prop_of v ''protocol'', r')))"

section \<open>Specification: decoding and encoding\<close>

fun dec_text :: "jsval \<Rightarrow> string option" where
  "dec_text (JStr s) = (if s = [] then None else Some s)"
| "dec_text _ = None"

fun dec_num :: "(jsnum \<Rightarrow> bool) \<Rightarrow> jsval \<Rightarrow> jsnum option" where
  "dec_num P (JNum n) = (if P n then Some n else None)"
| "dec_num P _ = None"

text \<open>An optional field: absent is \<open>None\<close>, present must decode.\<close>

definition dec_opt :: "(jsval \<Rightarrow> 'a option) \<Rightarrow> jsval \<Rightarrow> string \<Rightarrow> 'a option option" where
  "dec_opt dec v k = (if hasProperty v k then map_option Some (dec (prop_of v k)) else Some None)"

definition dec_json :: "jsval \<Rightarrow> jsval option" where
  "dec_json v = (if is_json v then Some v else None)"

definition dec_payload :: "jsval \<Rightarrow> string \<Rightarrow> jsval option" where
  "dec_payload v k = (if hasProperty v k then dec_json (prop_of v k) else None)"

definition dec_record :: "jsval \<Rightarrow> unit option" where
  "dec_record v = (if isRecord v then Some () else None)"

definition dec_sid :: "jsval \<Rightarrow> source_id option" where
  "dec_sid v = do {
     dec_record v;
     k \<leftarrow> dec_text (prop_of v ''kind'');
     i \<leftarrow> dec_text (prop_of v ''instance'');
     Some \<lparr>sid_kind = k, sid_instance = i\<rparr> }"

fun dec_severity :: "jsval \<Rightarrow> severity option" where
  "dec_severity (JStr s) =
     (if s = ''ok'' then Some SevOk else if s = ''info'' then Some SevInfo
      else if s = ''warn'' then Some SevWarn else if s = ''error'' then Some SevError else None)"
| "dec_severity _ = None"

fun dec_risk :: "jsval \<Rightarrow> command_risk option" where
  "dec_risk (JStr s) =
     (if s = ''safe'' then Some Safe else if s = ''mutating'' then Some Mutating
      else if s = ''destructive'' then Some Destructive else None)"
| "dec_risk _ = None"

fun dec_bool :: "jsval \<Rightarrow> bool option" where
  "dec_bool (JBool b) = Some b"
| "dec_bool _ = None"

definition dec_command :: "jsval \<Rightarrow> command_descriptor option" where
  "dec_command v = do {
     dec_record v;
     i \<leftarrow> dec_text (prop_of v ''id'');
     l \<leftarrow> dec_text (prop_of v ''label'');
     r \<leftarrow> dec_risk (prop_of v ''risk'');
     a \<leftarrow> dec_bool (prop_of v ''available'');
     Some \<lparr>cmd_id = i, cmd_label = l, cmd_risk = r, cmd_available = a\<rparr> }"

fun dec_list :: "(jsval \<Rightarrow> 'a option) \<Rightarrow> jsval list \<Rightarrow> 'a list option" where
  "dec_list dec [] = Some []"
| "dec_list dec (x # xs) = do { a \<leftarrow> dec x; as \<leftarrow> dec_list dec xs; Some (a # as) }"

fun dec_array :: "(jsval \<Rightarrow> 'a option) \<Rightarrow> jsval \<Rightarrow> 'a list option" where
  "dec_array dec (JArray xs) = dec_list dec xs"
| "dec_array dec _ = None"

definition dec_source :: "jsval \<Rightarrow> source_descriptor option" where
  "dec_source v = do {
     dec_record v;
     i \<leftarrow> dec_sid (prop_of v ''id'');
     l \<leftarrow> dec_text (prop_of v ''label'');
     c \<leftarrow> dec_array dec_command (prop_of v ''commands'');
     Some \<lparr>src_id = i, src_label = l, src_commands = c\<rparr> }"

definition dec_event :: "jsval \<Rightarrow> source_event option" where
  "dec_event v = do {
     dec_record v;
     k \<leftarrow> dec_text (prop_of v ''kind'');
     l \<leftarrow> dec_text (prop_of v ''label'');
     s \<leftarrow> dec_severity (prop_of v ''severity'');
     a \<leftarrow> dec_num js_finite (prop_of v ''at'');
     m \<leftarrow> dec_opt dec_json v ''summary'';
     d \<leftarrow> dec_opt dec_text v ''detail'';
     Some \<lparr>ev_kind = k, ev_label = l, ev_severity = s, ev_at = a, ev_summary = m, ev_detail = d\<rparr> }"

fun dec_string :: "jsval \<Rightarrow> string option" where
  "dec_string (JStr s) = Some s"
| "dec_string _ = None"

definition dec_indicator :: "jsval \<Rightarrow> status_indicator option" where
  "dec_indicator v = do {
     dec_record v;
     i \<leftarrow> dec_text (prop_of v ''id'');
     l \<leftarrow> dec_text (prop_of v ''label'');
     x \<leftarrow> dec_string (prop_of v ''value'');
     c \<leftarrow> dec_opt dec_text v ''context'';
     s \<leftarrow> dec_severity (prop_of v ''severity'');
     u \<leftarrow> dec_num js_finite (prop_of v ''updatedAt'');
     t \<leftarrow> dec_opt dec_text v ''target'';
     Some \<lparr>ind_id = i, ind_label = l, ind_value = x, ind_context = c, ind_severity = s,
       ind_updatedAt = u, ind_target = t\<rparr> }"

definition dec_snapshot :: "jsval \<Rightarrow> jsval option" where
  "dec_snapshot v =
     (if hasProperty v ''name'' \<and> hasProperty v ''message'' then dec_json v else None)"

definition dec_nullable_sid :: "jsval \<Rightarrow> source_id option option" where
  "dec_nullable_sid v = (if v = JNull then Some None else map_option Some (dec_sid v))"

definition decode_message :: "jsval \<Rightarrow> message option" where
  "decode_message v =
     (let t = type_of v; sid = dec_sid (prop_of v ''id'');
          req = dec_text (prop_of v ''requestId''); ok = dec_bool (prop_of v ''ok'');
          failure = dec_snapshot (prop_of v ''error'') in
      if t = ''disposed'' then Some Disposed
      else if t = ''source-added'' then map_option SourceAdded (dec_source (prop_of v ''source''))
      else if t = ''source-removed'' then map_option SourceRemoved sid
      else if t = ''source-recovered'' then map_option SourceRecovered sid
      else if t = ''source-failed'' then do { i \<leftarrow> sid; e \<leftarrow> failure; Some (SourceFailed i e) }
      else if t = ''event'' then do {
        i \<leftarrow> sid; n \<leftarrow> dec_num isPositiveInteger (prop_of v ''seq'');
        e \<leftarrow> dec_event (prop_of v ''event''); Some (EventMessage i n e) }
      else if t = ''indicator'' then do {
        i \<leftarrow> sid; x \<leftarrow> dec_indicator (prop_of v ''indicator''); Some (IndicatorMessage i x) }
      else if t = ''dropped'' then do {
        i \<leftarrow> dec_nullable_sid (prop_of v ''id'');
        n \<leftarrow> dec_num isNonNegativeInteger (prop_of v ''count''); Some (DroppedMessage i n) }
      else if t = ''detail-result'' then do {
        r \<leftarrow> req; b \<leftarrow> ok;
        if b then do { x \<leftarrow> dec_payload v ''value'';
          n \<leftarrow> dec_num isNonNegativeInteger (prop_of v ''seq''); Some (DetailOk r n x) }
        else do { e \<leftarrow> failure; Some (DetailErr r e) } }
      else if t = ''command-result'' then do {
        r \<leftarrow> req; b \<leftarrow> ok;
        if b then do { x \<leftarrow> dec_payload v ''value''; Some (CommandOk r x) }
        else do { e \<leftarrow> failure; Some (CommandErr r e) } }
      else None)"

definition decode_request :: "jsval \<Rightarrow> request option" where
  "decode_request v =
     (let t = type_of v; req = dec_text (prop_of v ''requestId''); sid = dec_sid (prop_of v ''id'') in
      if t = ''cancel'' then map_option Cancel req
      else if t = ''detail-request'' then do {
        r \<leftarrow> req; i \<leftarrow> sid; x \<leftarrow> dec_text (prop_of v ''ref''); Some (DetailRequest r i x) }
      else if t = ''command-request'' then do {
        r \<leftarrow> req; i \<leftarrow> sid; c \<leftarrow> dec_text (prop_of v ''commandId'');
        x \<leftarrow> dec_payload v ''input''; Some (CommandRequest r i c x) }
      else None)"

section \<open>The validators accept what decodes\<close>

named_theorems decodes \<open>when a decoder succeeds\<close>

lemma dec_text_iff [decodes]: "(\<exists>s. dec_text v = Some s) \<longleftrightarrow> isNonEmptyString v"
  by (cases v) auto

lemma dec_num_iff [decodes]: "(\<exists>n. dec_num P v = Some n) \<longleftrightarrow> num_check P v"
  by (cases v) auto

lemma dec_bool_iff [decodes]: "(\<exists>b. dec_bool v = Some b) \<longleftrightarrow> typeof_boolean v"
  by (cases v) auto

lemma dec_string_iff [decodes]: "(\<exists>s. dec_string v = Some s) \<longleftrightarrow> typeof_string v"
  by (cases v) auto

lemma dec_json_iff [decodes]: "(\<exists>j. dec_json v = Some j) \<longleftrightarrow> is_json v"
  by (simp add: dec_json_def)

lemma dec_record_iff [decodes]: "dec_record v = Some u \<longleftrightarrow> isRecord v"
  by (simp add: dec_record_def)

lemma dec_payload_iff [decodes]:
  "(\<exists>j. dec_payload v k = Some j) \<longleftrightarrow> hasProperty v k \<and> is_json (prop_of v k)"
  by (simp add: dec_payload_def dec_json_def)

lemma dec_severity_iff [decodes]: "(\<exists>x. dec_severity v = Some x) \<longleftrightarrow> isSeverity v"
  by (cases v) (auto simp: isSeverity_def)

lemma dec_risk_iff [decodes]: "(\<exists>x. dec_risk v = Some x) \<longleftrightarrow>
    v = JStr ''safe'' \<or> v = JStr ''mutating'' \<or> v = JStr ''destructive''"
  by (cases v) auto

lemma dec_opt_iff [decodes]: "(\<exists>x. dec_opt dec v k = Some x) \<longleftrightarrow>
    (hasProperty v k \<longrightarrow> (\<exists>y. dec (prop_of v k) = Some y))"
  by (auto simp: dec_opt_def)

lemma bind_Some_iff: "(\<exists>y. Option.bind m f = Some y) \<longleftrightarrow> (\<exists>x. m = Some x \<and> (\<exists>y. f x = Some y))"
  by (auto simp: bind_eq_Some_conv)

lemma dec_sid_iff [decodes]: "(\<exists>x. dec_sid v = Some x) \<longleftrightarrow> isSourceId v"
  by (auto simp: dec_sid_def isSourceId_def bind_Some_iff decodes)

lemma dec_command_iff [decodes]: "(\<exists>x. dec_command v = Some x) \<longleftrightarrow> isCommandDescriptor v"
  by (auto simp: dec_command_def isCommandDescriptor_def bind_Some_iff decodes)

lemma dec_list_iff: "(\<exists>ys. dec_list dec xs = Some ys) \<longleftrightarrow> (\<forall>x \<in> set xs. \<exists>y. dec x = Some y)"
  by (induction xs) (auto simp: bind_Some_iff)

lemma dec_array_iff [decodes]:
  "(\<exists>ys. dec_array dec v = Some ys) \<longleftrightarrow> array_every (\<lambda>x. \<exists>y. dec x = Some y) v"
  by (cases v) (auto simp: dec_list_iff)

lemma dec_source_iff: "(\<exists>x. dec_source v = Some x) \<longleftrightarrow>
    isRecord v \<and> isSourceId (prop_of v ''id'') \<and> isNonEmptyString (prop_of v ''label'') \<and>
    array_every isCommandDescriptor (prop_of v ''commands'')"
  by (auto simp: dec_source_def bind_Some_iff decodes)

lemma dec_event_iff: "(\<exists>x. dec_event v = Some x) \<longleftrightarrow>
    isRecord v \<and> isNonEmptyString (prop_of v ''kind'') \<and> isNonEmptyString (prop_of v ''label'') \<and>
    isSeverity (prop_of v ''severity'') \<and> num_check js_finite (prop_of v ''at'') \<and>
    (hasProperty v ''summary'' \<longrightarrow> is_json (prop_of v ''summary'')) \<and>
    (hasProperty v ''detail'' \<longrightarrow> isNonEmptyString (prop_of v ''detail''))"
  by (auto simp: dec_event_def bind_Some_iff decodes)

lemma dec_indicator_iff: "(\<exists>x. dec_indicator v = Some x) \<longleftrightarrow>
    isRecord v \<and> isNonEmptyString (prop_of v ''id'') \<and> isNonEmptyString (prop_of v ''label'') \<and>
    typeof_string (prop_of v ''value'') \<and>
    (hasProperty v ''context'' \<longrightarrow> isNonEmptyString (prop_of v ''context'')) \<and>
    isSeverity (prop_of v ''severity'') \<and> num_check js_finite (prop_of v ''updatedAt'') \<and>
    (hasProperty v ''target'' \<longrightarrow> isNonEmptyString (prop_of v ''target''))"
  by (auto simp: dec_indicator_def bind_Some_iff decodes)

lemma hasProperty_isRecord: "hasProperty v k \<Longrightarrow> isRecord v"
  by (cases v) auto

lemma dec_snapshot_iff [decodes]: "(\<exists>x. dec_snapshot v = Some x) \<longleftrightarrow>
    isRecord v \<and> hasProperty v ''name'' \<and> hasProperty v ''message'' \<and> is_json v"
  by (auto simp: dec_snapshot_def dec_json_def hasProperty_isRecord)

lemma dec_nullable_sid_iff [decodes]: "(\<exists>x. dec_nullable_sid v = Some x) \<longleftrightarrow> v = JNull \<or> isSourceId v"
  by (auto simp: dec_nullable_sid_def simp flip: dec_sid_iff)

lemma require_Inr: "require sl r v b = Inr w \<longleftrightarrow> b \<and> w = v"
  by (auto simp: require_def malformed_def)

lemma malformed_Inr [simp]: "malformed sl r \<noteq> Inr w"
  by (simp add: malformed_def)

lemma requireAll_Inr: "requireAll v cs = Inr w \<longleftrightarrow> (\<forall>c \<in> set cs. \<exists>x. c () = Inr x) \<and> w = v"
  by (induction cs) (auto split: sum.splits)

lemmas require_defs = requireSourceId_def requireNullableSourceId_def requireSourceDescriptor_def
  requireEvent_def requireIndicator_def requireErrorSnapshot_def requirePositiveField_def
  requireNonNegativeInteger_def requireNonEmptyString_def requireJson_def requireBoolean_def

lemma requireSourceDescriptor_Inr: "requireSourceDescriptor v = Inr w \<longleftrightarrow>
    (\<exists>x. dec_source (prop_of v ''source'') = Some x) \<and> w = v"
  by (auto simp: requireSourceDescriptor_def dec_source_iff Let_def)

lemma requireEvent_Inr: "requireEvent v = Inr w \<longleftrightarrow>
    (\<exists>x. dec_event (prop_of v ''event'') = Some x) \<and> w = v"
  by (auto simp: requireEvent_def dec_event_iff Let_def)

lemma requireIndicator_Inr: "requireIndicator v = Inr w \<longleftrightarrow>
    (\<exists>x. dec_indicator (prop_of v ''indicator'') = Some x) \<and> w = v"
  by (auto simp: requireIndicator_def dec_indicator_iff Let_def)

lemma requireErrorSnapshot_Inr: "requireErrorSnapshot v k sl = Inr w \<longleftrightarrow>
    (\<exists>x. dec_snapshot (prop_of v k) = Some x) \<and> w = v"
  by (auto simp: requireErrorSnapshot_def dec_snapshot_iff Let_def require_Inr)

declare requireAll.simps [simp del] type_of.simps [simp del]

lemma requireResult_Inr: "requireResult v detail = Inr w \<longleftrightarrow>
    w = v \<and> isNonEmptyString (prop_of v ''requestId'') \<and>
    ((prop_of v ''ok'' = JBool False \<and> (\<exists>x. dec_snapshot (prop_of v ''error'') = Some x)) \<or>
     (prop_of v ''ok'' = JBool True \<and> hasProperty v ''value'' \<and> is_json (prop_of v ''value'') \<and>
      (detail \<longrightarrow> num_check isNonNegativeInteger (prop_of v ''seq''))))"
  by (cases "prop_of v ''ok''")
    (auto simp: requireResult_def sum_bind_Inr requireAll_Inr requireErrorSnapshot_Inr
      requireJson_def requireNonNegativeInteger_def requireNonEmptyString_def requireBoolean_def
      require_Inr)

lemma decode_result:
  "(\<exists>x. (do { r \<leftarrow> req; b \<leftarrow> dec_bool v; if b then f r else g r }) = Some x) \<longleftrightarrow>
   (\<exists>r. req = Some r \<and> ((v = JBool False \<and> (\<exists>x. g r = Some x)) \<or> (v = JBool True \<and> (\<exists>x. f r = Some x))))"
  by (cases v) (auto simp: bind_Some_iff)

text \<open>When each check of the dispatch succeeds, in terms of the decoders.\<close>

lemma check_iffs:
  "(\<exists>w. requireAll v cs = Inr w) \<longleftrightarrow> (\<forall>c \<in> set cs. \<exists>x. c () = Inr x)"
  "(\<exists>w. requireSourceId v sl = Inr w) \<longleftrightarrow> isSourceId (prop_of v ''id'')"
  "(\<exists>w. requireNullableSourceId v sl = Inr w) \<longleftrightarrow>
     prop_of v ''id'' = JNull \<or> isSourceId (prop_of v ''id'')"
  "(\<exists>w. requireSourceDescriptor v = Inr w) \<longleftrightarrow> (\<exists>x. dec_source (prop_of v ''source'') = Some x)"
  "(\<exists>w. requireEvent v = Inr w) \<longleftrightarrow> (\<exists>x. dec_event (prop_of v ''event'') = Some x)"
  "(\<exists>w. requireIndicator v = Inr w) \<longleftrightarrow> (\<exists>x. dec_indicator (prop_of v ''indicator'') = Some x)"
  "(\<exists>w. requireErrorSnapshot v k sl = Inr w) \<longleftrightarrow> (\<exists>x. dec_snapshot (prop_of v k) = Some x)"
  "(\<exists>w. requirePositiveField v k sl = Inr w) \<longleftrightarrow> num_check isPositiveInteger (prop_of v k)"
  "(\<exists>w. requireNonNegativeInteger v k sl = Inr w) \<longleftrightarrow> num_check isNonNegativeInteger (prop_of v k)"
  "(\<exists>w. requireNonEmptyString v k sl = Inr w) \<longleftrightarrow> isNonEmptyString (prop_of v k)"
  "(\<exists>w. requireJson v k sl = Inr w) \<longleftrightarrow> hasProperty v k \<and> is_json (prop_of v k)"
  "(\<exists>w. requireResult v d = Inr w) \<longleftrightarrow> isNonEmptyString (prop_of v ''requestId'') \<and>
     ((prop_of v ''ok'' = JBool False \<and> (\<exists>x. dec_snapshot (prop_of v ''error'') = Some x)) \<or>
      (prop_of v ''ok'' = JBool True \<and> hasProperty v ''value'' \<and> is_json (prop_of v ''value'') \<and>
       (d \<longrightarrow> num_check isNonNegativeInteger (prop_of v ''seq''))))"
  by (auto simp: requireAll_Inr requireSourceDescriptor_Inr requireEvent_Inr requireIndicator_Inr
      requireErrorSnapshot_Inr requireResult_Inr requireSourceId_def requireNullableSourceId_def
      requirePositiveField_def requireNonNegativeInteger_def requireNonEmptyString_def
      requireJson_def require_Inr)

lemma ex_if_Inr: "(\<exists>w. (if c then X else Y) = Inr w) \<longleftrightarrow>
    (if c then (\<exists>w. X = Inr w) else (\<exists>w. Y = Inr w))"
  by simp

lemma ex_if_Some: "(\<exists>w. (if c then X else Y) = Some w) \<longleftrightarrow>
    (if c then (\<exists>w. X = Some w) else (\<exists>w. Y = Some w))"
  by simp

lemma checkMessage_decodes: "(\<exists>w. checkMessage v = Inr w) \<longleftrightarrow> (\<exists>m. decode_message v = Some m)"
  unfolding checkMessage_def decode_message_def Let_def ex_if_Inr ex_if_Some decode_result
  by (simp add: check_iffs bind_Some_iff decodes cong: if_cong)

lemma checkRequest_decodes: "(\<exists>w. checkRequest v = Inr w) \<longleftrightarrow> (\<exists>m. decode_request v = Some m)"
  unfolding checkRequest_def decode_request_def Let_def ex_if_Inr ex_if_Some
  by (simp add: check_iffs bind_Some_iff decodes cong: if_cong)

lemma require_keeps:
  "requireAll v cs = Inr w \<Longrightarrow> w = v" "requireSourceDescriptor v = Inr w \<Longrightarrow> w = v"
  "requireSourceId v sl = Inr w \<Longrightarrow> w = v" "requireResult v d = Inr w \<Longrightarrow> w = v"
  "requireNonEmptyString v k sl = Inr w \<Longrightarrow> w = v"
  by (simp_all add: requireAll_Inr requireSourceDescriptor_Inr requireResult_Inr
      requireSourceId_def requireNonEmptyString_def require_Inr)

lemma check_keeps: "checkMessage v = Inr w \<Longrightarrow> w = v" "checkRequest v = Inr w \<Longrightarrow> w = v"
  unfolding checkMessage_def checkRequest_def Let_def
  by (auto split: if_split_asm dest: require_keeps)

section \<open>Encoding\<close>

definition enc_sid :: "source_id \<Rightarrow> jsval" where
  "enc_sid s = JObject True [(''kind'', JStr (sid_kind s)), (''instance'', JStr (sid_instance s))]"

fun enc_severity :: "severity \<Rightarrow> jsval" where
  "enc_severity SevOk = JStr ''ok''"
| "enc_severity SevInfo = JStr ''info''"
| "enc_severity SevWarn = JStr ''warn''"
| "enc_severity SevError = JStr ''error''"

fun enc_risk :: "command_risk \<Rightarrow> jsval" where
  "enc_risk Safe = JStr ''safe''"
| "enc_risk Mutating = JStr ''mutating''"
| "enc_risk Destructive = JStr ''destructive''"

definition enc_command :: "command_descriptor \<Rightarrow> jsval" where
  "enc_command c = JObject True [(''id'', JStr (cmd_id c)), (''label'', JStr (cmd_label c)),
     (''risk'', enc_risk (cmd_risk c)), (''available'', JBool (cmd_available c))]"

definition enc_source :: "source_descriptor \<Rightarrow> jsval" where
  "enc_source s = JObject True [(''id'', enc_sid (src_id s)), (''label'', JStr (src_label s)),
     (''commands'', JArray (map enc_command (src_commands s)))]"

definition enc_opt :: "string \<Rightarrow> jsval option \<Rightarrow> (string \<times> jsval) list" where
  "enc_opt k x = (case x of None \<Rightarrow> [] | Some v \<Rightarrow> [(k, v)])"

definition enc_event :: "source_event \<Rightarrow> jsval" where
  "enc_event e = JObject True ([(''kind'', JStr (ev_kind e)), (''label'', JStr (ev_label e)),
     (''severity'', enc_severity (ev_severity e)), (''at'', JNum (ev_at e))] @
     enc_opt ''summary'' (ev_summary e) @ enc_opt ''detail'' (map_option JStr (ev_detail e)))"

definition enc_indicator :: "status_indicator \<Rightarrow> jsval" where
  "enc_indicator i = JObject True ([(''id'', JStr (ind_id i)), (''label'', JStr (ind_label i)),
     (''value'', JStr (ind_value i)), (''severity'', enc_severity (ind_severity i)),
     (''updatedAt'', JNum (ind_updatedAt i))] @
     enc_opt ''context'' (map_option JStr (ind_context i)) @
     enc_opt ''target'' (map_option JStr (ind_target i)))"

definition typed :: "string \<Rightarrow> (string \<times> jsval) list \<Rightarrow> jsval" where
  "typed t ps = JObject True ((''type'', JStr t) # ps)"

fun encode_message :: "message \<Rightarrow> jsval" where
  "encode_message (SourceAdded s) = typed ''source-added'' [(''source'', enc_source s)]"
| "encode_message (SourceRemoved i) = typed ''source-removed'' [(''id'', enc_sid i)]"
| "encode_message (SourceFailed i e) = typed ''source-failed'' [(''id'', enc_sid i), (''error'', e)]"
| "encode_message (SourceRecovered i) = typed ''source-recovered'' [(''id'', enc_sid i)]"
| "encode_message (EventMessage i n e) =
     typed ''event'' [(''id'', enc_sid i), (''seq'', JNum n), (''event'', enc_event e)]"
| "encode_message (IndicatorMessage i x) =
     typed ''indicator'' [(''id'', enc_sid i), (''indicator'', enc_indicator x)]"
| "encode_message (DroppedMessage i n) = typed ''dropped''
     [(''id'', case i of None \<Rightarrow> JNull | Some s \<Rightarrow> enc_sid s), (''count'', JNum n)]"
| "encode_message (DetailOk r n x) = typed ''detail-result''
     [(''requestId'', JStr r), (''ok'', JBool True), (''seq'', JNum n), (''value'', x)]"
| "encode_message (DetailErr r e) = typed ''detail-result''
     [(''requestId'', JStr r), (''ok'', JBool False), (''error'', e)]"
| "encode_message (CommandOk r x) = typed ''command-result''
     [(''requestId'', JStr r), (''ok'', JBool True), (''value'', x)]"
| "encode_message (CommandErr r e) = typed ''command-result''
     [(''requestId'', JStr r), (''ok'', JBool False), (''error'', e)]"
| "encode_message Disposed = typed ''disposed'' []"

fun encode_request :: "request \<Rightarrow> jsval" where
  "encode_request (DetailRequest r i x) = typed ''detail-request''
     [(''requestId'', JStr r), (''id'', enc_sid i), (''ref'', JStr x)]"
| "encode_request (CommandRequest r i c x) = typed ''command-request''
     [(''requestId'', JStr r), (''id'', enc_sid i), (''commandId'', JStr c), (''input'', x)]"
| "encode_request (Cancel r) = typed ''cancel'' [(''requestId'', JStr r)]"

text \<open>What the types of \<^verbatim>\<open>message.ts\<close> leave unsaid: identifying texts are not empty, counts are in
  range, payloads are JSON.\<close>

definition ok_sid :: "source_id \<Rightarrow> bool" where
  "ok_sid s = (sid_kind s \<noteq> [] \<and> sid_instance s \<noteq> [])"

definition ok_opt_text :: "string option \<Rightarrow> bool" where
  "ok_opt_text x = (x \<noteq> Some [])"

fun valid_message :: "message \<Rightarrow> bool" where
  "valid_message (SourceAdded s) = (ok_sid (src_id s) \<and> src_label s \<noteq> [] \<and>
     (\<forall>c \<in> set (src_commands s). cmd_id c \<noteq> [] \<and> cmd_label c \<noteq> []))"
| "valid_message (SourceRemoved i) = ok_sid i"
| "valid_message (SourceFailed i e) = (ok_sid i \<and> dec_snapshot e = Some e)"
| "valid_message (SourceRecovered i) = ok_sid i"
| "valid_message (EventMessage i n e) = (ok_sid i \<and> isPositiveInteger n \<and> ev_kind e \<noteq> [] \<and>
     ev_label e \<noteq> [] \<and> js_finite (ev_at e) \<and> pred_option is_json (ev_summary e) \<and>
     ok_opt_text (ev_detail e))"
| "valid_message (IndicatorMessage i x) = (ok_sid i \<and> ind_id x \<noteq> [] \<and> ind_label x \<noteq> [] \<and>
     ok_opt_text (ind_context x) \<and> js_finite (ind_updatedAt x) \<and> ok_opt_text (ind_target x))"
| "valid_message (DroppedMessage i n) = (pred_option ok_sid i \<and> isNonNegativeInteger n)"
| "valid_message (DetailOk r n x) = (r \<noteq> [] \<and> isNonNegativeInteger n \<and> is_json x)"
| "valid_message (DetailErr r e) = (r \<noteq> [] \<and> dec_snapshot e = Some e)"
| "valid_message (CommandOk r x) = (r \<noteq> [] \<and> is_json x)"
| "valid_message (CommandErr r e) = (r \<noteq> [] \<and> dec_snapshot e = Some e)"
| "valid_message Disposed = True"

fun valid_request :: "request \<Rightarrow> bool" where
  "valid_request (DetailRequest r i x) = (r \<noteq> [] \<and> ok_sid i \<and> x \<noteq> [])"
| "valid_request (CommandRequest r i c x) = (r \<noteq> [] \<and> ok_sid i \<and> c \<noteq> [] \<and> is_json x)"
| "valid_request (Cancel r) = (r \<noteq> [])"

lemma dec_enc_sid [simp]: "ok_sid s \<Longrightarrow> dec_sid (enc_sid s) = Some s"
  by (cases s) (simp add: dec_sid_def enc_sid_def ok_sid_def dec_record_def)

lemma enc_sid_not_null [simp]: "enc_sid s \<noteq> JNull"
  by (simp add: enc_sid_def)

lemma dec_enc_severity [simp]: "dec_severity (enc_severity s) = Some s"
  by (cases s) simp_all

lemma dec_enc_risk [simp]: "dec_risk (enc_risk r) = Some r"
  by (cases r) simp_all

lemma dec_enc_command [simp]: "cmd_id c \<noteq> [] \<Longrightarrow> cmd_label c \<noteq> [] \<Longrightarrow> dec_command (enc_command c) = Some c"
  by (cases c) (simp add: dec_command_def enc_command_def dec_record_def)

lemma dec_enc_commands: "\<forall>c \<in> set cs. cmd_id c \<noteq> [] \<and> cmd_label c \<noteq> [] \<Longrightarrow>
    dec_list dec_command (map enc_command cs) = Some cs"
  by (induction cs) auto

lemma dec_enc_source: "valid_message (SourceAdded s) \<Longrightarrow> dec_source (enc_source s) = Some s"
  by (cases s) (simp add: dec_source_def enc_source_def dec_record_def dec_enc_commands)

lemma dec_enc_event: "valid_message (EventMessage i n e) \<Longrightarrow> dec_event (enc_event e) = Some e"
  by (cases e; cases "ev_summary e"; cases "ev_detail e")
    (auto simp: dec_event_def enc_event_def dec_record_def enc_opt_def dec_opt_def dec_json_def
      ok_opt_text_def)

lemma dec_enc_indicator: "valid_message (IndicatorMessage i x) \<Longrightarrow> dec_indicator (enc_indicator x) = Some x"
  by (cases x; cases "ind_context x"; cases "ind_target x")
    (auto simp: dec_indicator_def enc_indicator_def dec_record_def enc_opt_def dec_opt_def ok_opt_text_def)

lemma dec_nullable_enc [simp]: "pred_option ok_sid i \<Longrightarrow>
    dec_nullable_sid (case i of None \<Rightarrow> JNull | Some s \<Rightarrow> enc_sid s) = Some i"
  by (cases i) (auto simp: dec_nullable_sid_def)

lemma type_of_typed [simp]: "type_of (typed t ps) = t"
  by (simp add: typed_def type_of.simps)

lemma prop_of_typed [simp]: "k \<noteq> ''type'' \<Longrightarrow> prop_of (typed t ps) k = prop_of (JObject True ps) k"
  "k \<noteq> ''type'' \<Longrightarrow> hasProperty (typed t ps) k = hasProperty (JObject True ps) k"
  by (simp_all add: typed_def)

lemma decode_encode_message: "valid_message m \<Longrightarrow> decode_message (encode_message m) = Some m"
proof (cases m)
  case (EventMessage i n e)
  then show "valid_message m \<Longrightarrow> ?thesis"
    using dec_enc_event [of i n e] by (simp add: decode_message_def)
next
  case (IndicatorMessage i x)
  then show "valid_message m \<Longrightarrow> ?thesis"
    using dec_enc_indicator [of i x] by (simp add: decode_message_def)
next
  case (SourceAdded s)
  then show "valid_message m \<Longrightarrow> ?thesis"
    using dec_enc_source [of s] by (simp add: decode_message_def)
qed (simp_all add: decode_message_def dec_payload_def dec_json_def)

lemma decode_encode_request: "valid_request r \<Longrightarrow> decode_request (encode_request r) = Some r"
  by (cases r) (simp_all add: decode_request_def dec_payload_def dec_json_def)

definition envelope :: "slot \<Rightarrow> jsval \<Rightarrow> jsval" where
  "envelope sl payload = JObject True [(''protocol'', JNum PROTOCOL_VERSION), (slot_name sl, payload)]"

lemma decode_needs_type:
  "decode_message v = Some m \<Longrightarrow> isNonEmptyString (prop_of v ''type'') \<and> isRecord v"
  "decode_request v = Some r \<Longrightarrow> isNonEmptyString (prop_of v ''type'') \<and> isRecord v"
proof -
  have *: "type_of v \<noteq> [] \<Longrightarrow> isNonEmptyString (prop_of v ''type'') \<and> isRecord v"
    by (cases v) (auto simp: type_of.simps isNonEmptyString_iff neq_Nil_conv split: jsval.splits option.splits)
  have "type_of v \<noteq> []" if "decode_message v = Some m"
    using that by (intro notI) (simp add: decode_message_def)
  then show "decode_message v = Some m \<Longrightarrow> isNonEmptyString (prop_of v ''type'') \<and> isRecord v"
    using * by blast
  have "type_of v \<noteq> []" if "decode_request v = Some r"
    using that by (intro notI) (simp add: decode_request_def)
  then show "decode_request v = Some r \<Longrightarrow> isNonEmptyString (prop_of v ''type'') \<and> isRecord v"
    using * by blast
qed

lemma openEnvelope_Inr: "openEnvelope v sl = Inr p \<longleftrightarrow>
    isRecord v \<and> prop_of v ''protocol'' = JNum PROTOCOL_VERSION \<and> p = prop_of v (slot_name sl) \<and>
    isRecord p \<and> isNonEmptyString (prop_of p ''type'')"
  by (auto simp: openEnvelope_def isCompatibleProtocol_def Let_def)

lemma validate_iff:
  "validateMessageEnvelope v = Inr r \<longleftrightarrow> isRecord v \<and> prop_of v ''protocol'' = JNum PROTOCOL_VERSION \<and>
     (\<exists>m. decode_message (prop_of v ''message'') = Some m) \<and>
     r = (JNum PROTOCOL_VERSION, prop_of v ''message'')"
  "validateRequestEnvelope v = Inr r \<longleftrightarrow> isRecord v \<and> prop_of v ''protocol'' = JNum PROTOCOL_VERSION \<and>
     (\<exists>q. decode_request (prop_of v ''request'') = Some q) \<and>
     r = (JNum PROTOCOL_VERSION, prop_of v ''request'')"
  using checkMessage_decodes [of "prop_of v ''message''"] checkRequest_decodes [of "prop_of v ''request''"]
  by (auto simp: validateMessageEnvelope_def validateRequestEnvelope_def sum_bind_Inr openEnvelope_Inr
      dest: check_keeps decode_needs_type)

section \<open>Source keys\<close>

lemma colon_split: "CHR '':'' \<notin> set a \<Longrightarrow> CHR '':'' \<notin> set b \<Longrightarrow>
    a @ '':'' @ x = b @ '':'' @ y \<Longrightarrow> a = b \<and> x = y"
  by (induction a arbitrary: b; case_tac b) auto

lemma sourceKey_inj: "sourceKey a = sourceKey b \<Longrightarrow> sourceIdEquals a b"
proof -
  assume "sourceKey a = sourceKey b"
  then have "digits_of (length (sid_kind a)) = digits_of (length (sid_kind b))"
    and rest: "sid_kind a @ sid_instance a = sid_kind b @ sid_instance b"
    using colon_split digits_no_colon unfolding sourceKey_def by blast+
  then have "length (sid_kind a) = length (sid_kind b)" using digits_value_digits by metis
  with rest show "sourceIdEquals a b" by (simp add: sourceIdEquals_def)
qed

lemma sourceKey_cong: "sourceIdEquals a b \<Longrightarrow> sourceKey a = sourceKey b"
  by (auto simp: sourceIdEquals_def sourceKey_def)

section \<open>Properties\<close>

definition sample_event :: message where
  "sample_event = EventMessage \<lparr>sid_kind = ''http'', sid_instance = ''main''\<rparr> (Fin 3)
     \<lparr>ev_kind = ''request'', ev_label = ''GET'', ev_severity = SevInfo, ev_at = Fin 12,
      ev_summary = Some JNull, ev_detail = None\<rparr>"

text \<open>Claim C26: a frame is accepted exactly when it is a record of protocol version 1 whose payload
  decodes to a typed message (or request), unknown extra fields aside, and then the result is that
  version and that very payload: nothing malformed reaches a handler and nothing well formed is
  refused.\<close>

theorem validate_iff_decodes:
  "(validateMessageEnvelope v = Inr r \<longleftrightarrow>
     isRecord v \<and> prop_of v ''protocol'' = JNum (Fin 1) \<and>
     (\<exists>m. decode_message (prop_of v ''message'') = Some m) \<and> r = (JNum (Fin 1), prop_of v ''message'')) \<and>
   (validateRequestEnvelope v = Inr r \<longleftrightarrow>
     isRecord v \<and> prop_of v ''protocol'' = JNum (Fin 1) \<and>
     (\<exists>q. decode_request (prop_of v ''request'') = Some q) \<and> r = (JNum (Fin 1), prop_of v ''request''))"
  using validate_iff by (simp add: PROTOCOL_VERSION_def)

text \<open>Whatever a peer sends validates on the other side and decodes to what was sent, for
  every message and request whose fields are in range.\<close>

theorem frames_round_trip:
  "(valid_message m \<longrightarrow>
      validateMessageEnvelope (envelope MessageSlot (encode_message m)) = Inr (JNum (Fin 1), encode_message m) \<and>
      decode_message (encode_message m) = Some m) \<and>
   (valid_request q \<longrightarrow>
      validateRequestEnvelope (envelope RequestSlot (encode_request q)) = Inr (JNum (Fin 1), encode_request q) \<and>
      decode_request (encode_request q) = Some q)"
  using decode_encode_message decode_encode_request
  by (auto simp: validate_iff envelope_def PROTOCOL_VERSION_def)

theorem frames_round_trip_witness:
  "valid_message sample_event \<and> valid_request (Cancel ''r1'') \<and>
   decode_message (encode_message sample_event) = Some sample_event \<and>
   validateRequestEnvelope (envelope RequestSlot (encode_request (Cancel ''r1''))) =
     Inr (JNum (Fin 1), encode_request (Cancel ''r1''))"
proof -
  have "valid_message sample_event" "valid_request (Cancel ''r1'')"
    by (simp_all add: sample_event_def ok_sid_def isPositiveInteger_def is_safe_integer_def
        max_safe_integer_def js_finite_def ok_opt_text_def)
  then show ?thesis using frames_round_trip [of sample_event "Cancel ''r1''"] by blast
qed

text \<open>Two sources have the same key exactly when kind and instance agree, whatever characters
  they contain: the length prefix keeps distinct pairs apart.\<close>

theorem sourceKey_injective: "sourceKey a = sourceKey b \<longleftrightarrow> sourceIdEquals a b"
  using sourceKey_inj sourceKey_cong by blast

end
