(* ===== verification/JS_Numbers.thy ===== *)
theory JS_Numbers imports Prelude begin

text \<open>
  Arithmetic and comparison of JavaScript numbers, and the guard on timer durations of
  \<^verbatim>\<open>packages/std/src/resilience/timeout.ts\<close>. Arithmetic is exact on finite numbers, overflows to an
  infinity beyond the largest double, and is not a number where the language says so; the rounding of
  the last bits and the sign of a zero result are not modelled. Comparisons with NaN are false.
\<close>

definition max_double :: rat where
  "max_double = (2 ^ 53 - 1) * 2 ^ 971"

definition is_double :: "jsnum \<Rightarrow> bool" where
  "is_double x = (case num_val x of None \<Rightarrow> True | Some r \<Rightarrow> - max_double \<le> r \<and> r \<le> max_double)"

definition js_of :: "rat \<Rightarrow> jsnum" where
  "js_of r = (if r > max_double then PosInf else if r < - max_double then NegInf else Fin r)"

fun js_le :: "jsnum \<Rightarrow> jsnum \<Rightarrow> bool" where
  "js_le NaN _ = False"
| "js_le _ NaN = False"
| "js_le NegInf _ = True"
| "js_le _ PosInf = True"
| "js_le PosInf _ = False"
| "js_le _ NegInf = False"
| "js_le x y = (the (num_val x) \<le> the (num_val y))"

definition js_less :: "jsnum \<Rightarrow> jsnum \<Rightarrow> bool" where
  "js_less x y = (js_le x y \<and> \<not> js_le y x)"

definition js_min :: "jsnum \<Rightarrow> jsnum \<Rightarrow> jsnum" where
  "js_min x y = (if x = NaN \<or> y = NaN then NaN else if js_le x y then x else y)"

definition js_max :: "jsnum \<Rightarrow> jsnum \<Rightarrow> jsnum" where
  "js_max x y = (if x = NaN \<or> y = NaN then NaN else if js_le x y then y else x)"

definition js_neg :: "jsnum \<Rightarrow> jsnum" where
  "js_neg x = (case x of NaN \<Rightarrow> NaN | PosInf \<Rightarrow> NegInf | NegInf \<Rightarrow> PosInf | NegZero \<Rightarrow> Fin 0 | Fin r \<Rightarrow> Fin (- r))"

definition js_add :: "jsnum \<Rightarrow> jsnum \<Rightarrow> jsnum" where
  "js_add x y =
     (case (num_val x, num_val y) of
        (Some a, Some b) \<Rightarrow> js_of (a + b)
      | _ \<Rightarrow> if x = NaN \<or> y = NaN \<or> x = PosInf \<and> y = NegInf \<or> x = NegInf \<and> y = PosInf then NaN
             else if x = PosInf \<or> y = PosInf then PosInf else NegInf)"

definition js_sub :: "jsnum \<Rightarrow> jsnum \<Rightarrow> jsnum" where
  "js_sub x y = js_add x (js_neg y)"

text \<open>A product with an infinite factor: its sign, or NaN when the other factor is zero.\<close>

definition js_signum :: "jsnum \<Rightarrow> rat" where
  "js_signum x = (case x of PosInf \<Rightarrow> 1 | NegInf \<Rightarrow> -1 | Fin r \<Rightarrow> sgn r | _ \<Rightarrow> 0)"

definition js_mul :: "jsnum \<Rightarrow> jsnum \<Rightarrow> jsnum" where
  "js_mul x y =
     (case (num_val x, num_val y) of
        (Some a, Some b) \<Rightarrow> js_of (a * b)
      | _ \<Rightarrow> let s = js_signum x * js_signum y
             in if s = 0 then NaN else if s > 0 then PosInf else NegInf)"

text \<open>A power with a finite base.\<close>

definition js_pow :: "jsnum \<Rightarrow> nat \<Rightarrow> jsnum" where
  "js_pow x n = (case num_val x of None \<Rightarrow> NaN | Some a \<Rightarrow> js_of (a ^ n))"

section \<open>Durations\<close>

definition MAX_TIMER_MS :: rat where
  "MAX_TIMER_MS = 2147483647"

definition assertTimerMs :: "jsnum \<Rightarrow> bool" where
  "assertTimerMs ms = (case num_val ms of None \<Rightarrow> False | Some r \<Rightarrow> \<not> (r < 0 \<or> r > MAX_TIMER_MS))"

section \<open>Lemmas\<close>

lemma num_val_cases:
  obtains "x = NaN" | "x = PosInf" | "x = NegInf" | r where "num_val x = Some r" "x = Fin r \<or> x = NegZero \<and> r = 0"
  by (cases x) auto

lemma js_finite_iff: "js_finite x \<longleftrightarrow> (\<exists>r. num_val x = Some r)"
  by (simp add: js_finite_def)

lemma js_le_vals: "num_val x = Some a \<Longrightarrow> num_val y = Some b \<Longrightarrow> js_le x y \<longleftrightarrow> a \<le> b"
  by (cases x; cases y) auto

lemma num_val_not_special: "num_val x = Some a \<Longrightarrow> x \<noteq> NaN \<and> x \<noteq> PosInf \<and> x \<noteq> NegInf"
  by (cases x) auto

lemma js_min_vals: "num_val x = Some a \<Longrightarrow> num_val y = Some b \<Longrightarrow> num_val (js_min x y) = Some (min a b)"
  using num_val_not_special [of x a] num_val_not_special [of y b] by (auto simp: js_min_def js_le_vals min_def)

lemma js_max_vals: "num_val x = Some a \<Longrightarrow> num_val y = Some b \<Longrightarrow> num_val (js_max x y) = Some (max a b)"
  using num_val_not_special [of x a] num_val_not_special [of y b] by (auto simp: js_max_def js_le_vals max_def)

lemma js_min_PosInf: "num_val x = Some a \<Longrightarrow> js_min x PosInf = x"
  by (cases x) (auto simp: js_min_def)

lemma js_mul_vals: "num_val x = Some a \<Longrightarrow> num_val y = Some b \<Longrightarrow> js_mul x y = js_of (a * b)"
  by (simp add: js_mul_def)

lemma js_add_vals: "num_val x = Some a \<Longrightarrow> num_val y = Some b \<Longrightarrow> js_add x y = js_of (a + b)"
  by (simp add: js_add_def)

lemma js_neg_vals: "num_val y = Some b \<Longrightarrow> num_val (js_neg y) = Some (- b)"
  by (cases y) (auto simp: js_neg_def)

lemma js_sub_vals: "num_val x = Some a \<Longrightarrow> num_val y = Some b \<Longrightarrow> js_sub x y = js_of (a - b)"
  by (simp add: js_sub_def js_add_def js_neg_vals)

lemma js_of_within: "0 \<le> r \<Longrightarrow> r \<le> max_double \<Longrightarrow> js_of r = Fin r"
  by (auto simp: js_of_def)

lemma js_of_nonneg: "0 \<le> r \<Longrightarrow> js_of r = (if r > max_double then PosInf else Fin r)"
  using order.strict_trans2 [of r "- max_double" 0] by (auto simp: js_of_def max_double_def)

lemma js_less_vals: "num_val x = Some a \<Longrightarrow> num_val y = Some b \<Longrightarrow> js_less x y \<longleftrightarrow> a < b"
  by (auto simp: js_less_def js_le_vals)

end
