(* ===== verification/Devtools_Sampler.thy ===== *)
theory Devtools_Sampler imports Devtools_Protocol JS_Numbers "HOL-Library.Sublist" begin

text \<open>
  The burst sampler \<open>createEventSampler\<close> (\<^verbatim>\<open>packages/devtools/src/retention/sampler.ts\<close>). The clock
  and the host timer are inputs: an operation that reads the clock receives its reading, or None when
  the clock throws, and \<open>TimerFires\<close> is the host running the armed timer. An armed timer remembers the
  clock time it was set for. Calls of \<open>onEmit\<close> and \<open>onError\<close> are outputs.

  The lemmas show that coalescing never strands the last event of a burst, that what comes out is a
  thinned copy of what went in, and that emissions are a full window apart.
\<close>

datatype sampling_mode = Sample | Coalesce

record window =
  w_interval :: rat
  w_mode :: sampling_mode
  w_hasOnError :: bool
  w_timer :: "rat option"
  w_pending :: "source_event option"
  w_end :: rat
  w_disposed :: bool

datatype sampler = Immediate | Windowed window

datatype sampler_input =
    Offer source_event "rat option"
  | TimerFires "rat option" bool  \<comment> \<open>clock reading; whether \<open>onEmit\<close> returns\<close>
  | Flush
  | Dispose

datatype sampler_output =
    Emitted "rat option" source_event  \<comment> \<open>with the clock reading that let it out\<close>
  | Reported
  | Raised

definition createEventSampler :: "jsnum \<Rightarrow> sampling_mode \<Rightarrow> bool \<Rightarrow> sampler option" where
  "createEventSampler intervalMs mode hasOnError =
     (if \<not> assertTimerMs intervalMs then None
      else let i = the (num_val intervalMs)
        in if i = 0 then Some Immediate
           else Some (Windowed \<lparr>w_interval = i, w_mode = mode, w_hasOnError = hasOnError, w_timer = None,
                                w_pending = None, w_end = 0, w_disposed = False\<rparr>))"

definition schedule :: "window \<Rightarrow> rat \<Rightarrow> rat \<Rightarrow> window" where
  "schedule w current delayMs =
     (if w_timer w \<noteq> None then w else w\<lparr>w_timer := Some (current + max 0 delayMs)\<rparr>)"

definition sm_offer :: "window \<Rightarrow> source_event \<Rightarrow> rat option \<Rightarrow> window \<times> sampler_output list" where
  "sm_offer w event now =
     (if w_disposed w then (w, [])
      else case now of None \<Rightarrow> (w, [Raised])
      | Some current \<Rightarrow>
          (case w_mode w of
             Sample \<Rightarrow>
               if current \<ge> w_end w
               then (w\<lparr>w_end := current + w_interval w\<rparr>, [Emitted (Some current) event])
               else (w, [])
           | Coalesce \<Rightarrow>
               if current \<ge> w_end w \<and> w_timer w = None
               then (w\<lparr>w_end := current + w_interval w\<rparr>, [Emitted (Some current) event])
               else (schedule (w\<lparr>w_pending := Some event\<rparr>) current (w_end w - current), [])))"

definition report :: "window \<Rightarrow> sampler_output list" where
  "report w = (if w_hasOnError w then [Reported] else [Raised])"

definition onTimer :: "window \<Rightarrow> rat option \<Rightarrow> bool \<Rightarrow> window \<times> sampler_output list" where
  "onTimer w0 now ok =
     (let w = w0\<lparr>w_timer := None\<rparr> in
      if w_disposed w then (w, [])
      else case w_pending w of None \<Rightarrow> (w, [])
      | Some event \<Rightarrow>
          (let w' = w\<lparr>w_pending := None\<rparr> in
           case now of
             None \<Rightarrow> (w', report w')
           | Some t \<Rightarrow>
               (w'\<lparr>w_end := t + w_interval w'\<rparr>,
                Emitted (Some t) event # (if ok then [] else report w'))))"

definition sm_flush :: "window \<Rightarrow> window \<times> sampler_output list" where
  "sm_flush w0 =
     (let w = w0\<lparr>w_timer := None\<rparr> in
      case w_pending w of
        Some event \<Rightarrow> if w_disposed w then (w, []) else (w\<lparr>w_pending := None\<rparr>, [Emitted None event])
      | None \<Rightarrow> (w, []))"

definition sm_dispose :: "window \<Rightarrow> window" where
  "sm_dispose w =
     (if w_disposed w then w else w\<lparr>w_disposed := True, w_timer := None, w_pending := None\<rparr>)"

text \<open>The host runs only a timer that is armed.\<close>

fun w_step :: "window \<Rightarrow> sampler_input \<Rightarrow> window \<times> sampler_output list" where
  "w_step w (Offer e now) = sm_offer w e now"
| "w_step w (TimerFires now ok) = (if w_timer w = None then (w, []) else onTimer w now ok)"
| "w_step w Flush = sm_flush w"
| "w_step w Dispose = (sm_dispose w, [])"

fun sampler_step :: "sampler \<Rightarrow> sampler_input \<Rightarrow> sampler \<times> sampler_output list" where
  "sampler_step Immediate (Offer e now) = (Immediate, [Emitted None e])"
| "sampler_step Immediate _ = (Immediate, [])"
| "sampler_step (Windowed w) i = (let (w', out) = w_step w i in (Windowed w', out))"

lemmas w_step_defs = sm_offer_def schedule_def onTimer_def sm_flush_def sm_dispose_def report_def Let_def

section \<open>Nothing is stranded\<close>

fun emitted :: "sampler_output list \<Rightarrow> source_event list" where
  "emitted [] = []"
| "emitted (Emitted t e # os) = e # emitted os"
| "emitted (_ # os) = emitted os"

fun offered :: "sampler_input list \<Rightarrow> source_event list" where
  "offered [] = []"
| "offered (Offer e t # is) = e # offered is"
| "offered (_ # is) = offered is"

fun clock_works :: "sampler_input \<Rightarrow> bool" where
  "clock_works (Offer e t) = (t \<noteq> None)"
| "clock_works (TimerFires t ok) = (t \<noteq> None)"
| "clock_works _ = True"

fun held :: "sampler \<Rightarrow> source_event list" where
  "held Immediate = []"
| "held (Windowed w) = (case w_pending w of None \<Rightarrow> [] | Some e \<Rightarrow> [e])"

fun armed :: "sampler \<Rightarrow> bool" where
  "armed Immediate = False"
| "armed (Windowed w) = (w_timer w \<noteq> None)"

fun coalescing :: "sampler \<Rightarrow> bool" where
  "coalescing Immediate = True"
| "coalescing (Windowed w) = (w_mode w = Coalesce \<and> \<not> w_disposed w \<and> (w_timer w = None \<longleftrightarrow> w_pending w = None))"

lemma emitted_append [simp]: "emitted (xs @ ys) = emitted xs @ emitted ys"
  by (induction xs rule: emitted.induct) auto

lemma coalescing_step:
  assumes "coalescing s" "clock_works i" "i \<noteq> Dispose"
  shows "coalescing (fst (sampler_step s i)) \<and>
    subseq (emitted (snd (sampler_step s i)) @ held (fst (sampler_step s i))) (held s @ offered [i]) \<and>
    (held s @ offered [i] \<noteq> [] \<longrightarrow>
      emitted (snd (sampler_step s i)) @ held (fst (sampler_step s i)) \<noteq> [] \<and>
      last (emitted (snd (sampler_step s i)) @ held (fst (sampler_step s i))) = last (held s @ offered [i]))"
proof (cases s)
  case Immediate
  then show ?thesis using assms by (cases i) auto
next
  case (Windowed w)
  then show ?thesis
    using assms by (cases i; cases "w_pending w") (auto simp: w_step_defs split: option.splits)
qed

lemma coalescing_run:
  assumes "coalescing s" "list_all clock_works is" "Dispose \<notin> set is" "subseq (out @ held s) offs"
    "offs \<noteq> [] \<longrightarrow> out @ held s \<noteq> [] \<and> last (out @ held s) = last offs"
  shows "coalescing (fst (run sampler_step s is)) \<and>
    subseq (out @ emitted (snd (run sampler_step s is)) @ held (fst (run sampler_step s is))) (offs @ offered is) \<and>
    (offs @ offered is \<noteq> [] \<longrightarrow>
      out @ emitted (snd (run sampler_step s is)) @ held (fst (run sampler_step s is)) \<noteq> [] \<and>
      last (out @ emitted (snd (run sampler_step s is)) @ held (fst (run sampler_step s is))) =
        last (offs @ offered is))"
  using assms
proof (induction "is" arbitrary: s out offs)
  case Nil
  then show ?case by simp
next
  case (Cons i "is")
  obtain s' o' where st: "sampler_step s i = (s', o')" by (cases "sampler_step s i")
  note one = coalescing_step [of s i, unfolded st]
  have c: "coalescing s'"
    and sub: "subseq (emitted o' @ held s') (held s @ offered [i])"
    and lst: "held s @ offered [i] \<noteq> [] \<Longrightarrow> emitted o' @ held s' \<noteq> [] \<and>
        last (emitted o' @ held s') = last (held s @ offered [i])"
    using one Cons.prems by auto
  have off: "offered (i # is) = offered [i] @ offered is" by (cases i) auto
  have "subseq (out @ emitted o' @ held s') (out @ held s @ offered [i])"
    by (rule list_emb_append_mono) (simp_all add: sub)
  moreover have "subseq ((out @ held s) @ offered [i]) (offs @ offered [i])"
    using Cons.prems(4) by (rule list_emb_append_mono) simp
  ultimately have sub': "subseq ((out @ emitted o') @ held s') (offs @ offered [i])"
    using subseq_order.trans by fastforce
  have lst': "offs @ offered [i] \<noteq> [] \<longrightarrow> (out @ emitted o') @ held s' \<noteq> [] \<and>
      last ((out @ emitted o') @ held s') = last (offs @ offered [i])"
  proof (cases "held s @ offered [i] = []")
    case True
    with sub have "emitted o' @ held s' = []" by (metis list_emb_Nil2)
    then show ?thesis using True Cons.prems(5) by simp
  next
    case False
    with lst have new: "emitted o' @ held s' \<noteq> []"
      "last (emitted o' @ held s') = last (held s @ offered [i])" by auto
    have "last (held s @ offered [i]) = last (offs @ offered [i])"
    proof (cases "offered [i] = []")
      case True
      with False have "held s \<noteq> []" by simp
      moreover have "offs \<noteq> []" using Cons.prems(4) \<open>held s \<noteq> []\<close> by (cases offs) auto
      ultimately show ?thesis using Cons.prems(5) True by simp
    qed (simp add: last_append)
    with new show ?thesis by (auto simp: last_append)
  qed
  obtain s2 o2 where r: "run sampler_step s' is = (s2, o2)" by (cases "run sampler_step s' is")
  show ?case
    using Cons.IH [OF c _ _ sub' lst'] Cons.prems(2,3) by (simp add: st off r)
qed

section \<open>Emissions are a window apart\<close>

fun times :: "sampler_output list \<Rightarrow> rat list" where
  "times [] = []"
| "times (Emitted (Some t) e # os) = t # times os"
| "times (_ # os) = times os"

text \<open>No \<open>flush\<close>, and a timer that runs no earlier than the instant it was set for.\<close>

fun on_time :: "sampler \<Rightarrow> sampler_input \<Rightarrow> bool" where
  "on_time s Flush = False"
| "on_time (Windowed w) (TimerFires (Some t) ok) = (case w_timer w of None \<Rightarrow> True | Some due \<Rightarrow> due \<le> t)"
| "on_time s i = True"

fun all_on_time :: "sampler \<Rightarrow> sampler_input list \<Rightarrow> bool" where
  "all_on_time s [] = True"
| "all_on_time s (i # is) = (on_time s i \<and> all_on_time (fst (sampler_step s i)) is)"

definition timer_after_window :: "window \<Rightarrow> bool" where
  "timer_after_window w = (0 < w_interval w \<and> (w_mode w = Sample \<longrightarrow> w_timer w = None) \<and>
     (case w_timer w of None \<Rightarrow> True | Some due \<Rightarrow> w_end w \<le> due))"

lemma times_append [simp]: "times (xs @ ys) = times xs @ times ys"
  by (induction xs rule: times.induct) auto

lemma timer_after_window_step:
  assumes "timer_after_window w" "on_time (Windowed w) i"
  shows "timer_after_window (fst (w_step w i)) \<and> w_interval (fst (w_step w i)) = w_interval w \<and>
    w_end w \<le> w_end (fst (w_step w i)) \<and>
    (times (snd (w_step w i)) = [] \<or>
     (\<exists>t. times (snd (w_step w i)) = [t] \<and> w_end w \<le> t \<and> w_end (fst (w_step w i)) = t + w_interval w))"
  using assms
  by (cases i; cases "w_mode w"; cases "w_timer w"; cases "w_pending w")
    (auto simp: w_step_defs timer_after_window_def split: option.splits)

lemma spaced_run:
  assumes "timer_after_window w" "all_on_time (Windowed w) is"
  shows "sorted_wrt (\<lambda>a b. a + w_interval w \<le> b) (times (snd (run sampler_step (Windowed w) is))) \<and>
    (\<forall>t \<in> set (times (snd (run sampler_step (Windowed w) is))). w_end w \<le> t)"
  using assms
proof (induction "is" arbitrary: w)
  case Nil
  then show ?case by simp
next
  case (Cons i "is")
  obtain w' o' where st: "w_step w i = (w', o')" by (cases "w_step w i")
  have one: "timer_after_window w'" "w_interval w' = w_interval w" "w_end w \<le> w_end w'"
    "times o' = [] \<or> (\<exists>t. times o' = [t] \<and> w_end w \<le> t \<and> w_end w' = t + w_interval w)"
    using timer_after_window_step [of w i] Cons.prems st by auto
  have rest: "sorted_wrt (\<lambda>a b. a + w_interval w \<le> b) (times (snd (run sampler_step (Windowed w') is)))"
    "\<forall>t \<in> set (times (snd (run sampler_step (Windowed w') is))). w_end w' \<le> t"
    using Cons.IH [OF one(1)] Cons.prems(2) st one(2) by auto
  with one show ?case by (fastforce simp: st split: prod.splits)
qed

section \<open>Properties\<close>

text \<open>While a coalescing sampler (or one without a window) is not disposed and the clock
  answers, what it has emitted and still holds is a thinning of what it was offered that ends with the
  very last event offered, and whatever it holds has an armed timer to release it: the final event of
  a burst is never lost or stranded.\<close>

theorem last_event_survives:
  assumes "createEventSampler interval Coalesce handler = Some s"
    and "list_all clock_works is" "Dispose \<notin> set is"
    and "run sampler_step s is = (s', out)"
  shows "subseq (emitted out @ held s') (offered is) \<and>
    (offered is \<noteq> [] \<longrightarrow> last (emitted out @ held s') = last (offered is)) \<and>
    (held s' \<noteq> [] \<longleftrightarrow> armed s')"
proof -
  have "coalescing s \<and> held s = []"
    using assms(1) by (auto simp: createEventSampler_def Let_def split: if_splits)
  with coalescing_run [of s "is" "[]" "[]"] assms have
    "coalescing s'" "subseq (emitted out @ held s') (offered is)"
    "offered is \<noteq> [] \<longrightarrow> last (emitted out @ held s') = last (offered is)" by auto
  moreover have "held s' \<noteq> [] \<longleftrightarrow> armed s'" using \<open>coalescing s'\<close> by (cases s') (auto split: option.splits)
  ultimately show ?thesis by blast
qed

definition burst_event :: "string \<Rightarrow> source_event" where
  "burst_event l = \<lparr>ev_kind = ''tick'', ev_label = l, ev_severity = SevOk, ev_at = Fin 0,
     ev_summary = None, ev_detail = None\<rparr>"

definition burst :: "sampler_input list" where
  "burst = [Offer (burst_event ''a'') (Some 5), Offer (burst_event ''b'') (Some 6),
     Offer (burst_event ''c'') (Some 7), TimerFires (Some 15) True]"

lemma burst_facts:
  "\<exists>s. createEventSampler (Fin 10) Coalesce True = Some s \<and> s \<noteq> Immediate \<and> all_on_time s burst \<and>
     snd (run sampler_step s burst) = [Emitted (Some 5) (burst_event ''a''), Emitted (Some 15) (burst_event ''c'')]"
  by (simp add: createEventSampler_def assertTimerMs_def MAX_TIMER_MS_def burst_def w_step_defs)

theorem last_event_survives_witness:
  "\<exists>s s' out. createEventSampler (Fin 10) Coalesce True = Some s \<and> run sampler_step s burst = (s', out) \<and>
     last (emitted out @ held s') = burst_event ''c''"
proof -
  obtain s where s: "createEventSampler (Fin 10) Coalesce True = Some s" using burst_facts by blast
  obtain s' out where r: "run sampler_step s burst = (s', out)" by (cases "run sampler_step s burst")
  show ?thesis
    using last_event_survives [OF s _ _ r] s r by (auto simp: burst_def)
qed

text \<open>As long as nobody flushes and the host runs a timer no earlier than it was set for, a
  sampler with a window, in either mode, lets events out at least one full window apart.\<close>

theorem emissions_spaced:
  assumes "createEventSampler (Fin interval) mode handler = Some s" "interval \<noteq> 0" "all_on_time s is"
  shows "sorted_wrt (\<lambda>a b. a + interval \<le> b) (times (snd (run sampler_step s is)))"
proof -
  have "\<exists>w. s = Windowed w \<and> timer_after_window w \<and> w_interval w = interval"
    using assms(1,2)
    by (auto simp: createEventSampler_def Let_def assertTimerMs_def timer_after_window_def split: if_splits)
  then show ?thesis using spaced_run assms(3) by blast
qed

theorem emissions_spaced_witness:
  "\<exists>s. createEventSampler (Fin 10) Coalesce True = Some s \<and> times (snd (run sampler_step s burst)) = [5, 15] \<and>
     sorted_wrt (\<lambda>a b. a + 10 \<le> b) (times (snd (run sampler_step s burst)))"
proof -
  obtain s where s: "createEventSampler (Fin 10) Coalesce True = Some s" "all_on_time s burst"
    "snd (run sampler_step s burst) = [Emitted (Some 5) (burst_event ''a''), Emitted (Some 15) (burst_event ''c'')]"
    using burst_facts by blast
  with emissions_spaced [OF s(1) _ s(2)] show ?thesis by simp
qed

end
