(* ===== verification/JS_Map.thy ===== *)
theory JS_Map imports Prelude "HOL-Library.AList" begin

text \<open>
  A JavaScript \<open>Map\<close> whose iteration order matters, as an association list in insertion order:
  \<open>set\<close> on a present key keeps its place and on a new key appends, \<open>delete\<close> removes, \<open>get\<close> is
  \<^const>\<open>map_of\<close>. A map whose order no code observes is a partial function instead.
\<close>

type_synonym 'v jsmap = "(string \<times> 'v) list"

abbreviation map_get :: "('k \<times> 'v) list \<Rightarrow> 'k \<Rightarrow> 'v option" where
  "map_get \<equiv> map_of"

abbreviation map_set :: "'k \<Rightarrow> 'v \<Rightarrow> ('k \<times> 'v) list \<Rightarrow> ('k \<times> 'v) list" where
  "map_set \<equiv> AList.update"

abbreviation map_delete :: "'k \<Rightarrow> ('k \<times> 'v) list \<Rightarrow> ('k \<times> 'v) list" where
  "map_delete \<equiv> AList.delete"

definition map_has :: "('k \<times> 'v) list \<Rightarrow> 'k \<Rightarrow> bool" where
  "map_has m k = (map_of m k \<noteq> None)"

abbreviation map_values :: "('k \<times> 'v) list \<Rightarrow> 'v list" where
  "map_values m \<equiv> map snd m"

abbreviation wf_map :: "('k \<times> 'v) list \<Rightarrow> bool" where
  "wf_map m \<equiv> distinct (map fst m)"

text \<open>The map built by setting a list of entries in turn, as \<open>new Map(entries)\<close> does.\<close>

definition map_new :: "('k \<times> 'v) list \<Rightarrow> ('k \<times> 'v) list" where
  "map_new es = foldl (\<lambda>m (k, v). map_set k v m) [] es"

lemma map_get_set [simp]: "map_get (map_set k v m) k' = (if k' = k then Some v else map_get m k')"
  by (simp add: update_conv')

lemma map_get_delete [simp]: "map_get (map_delete k m) k' = (if k' = k then None else map_get m k')"
  by (simp add: delete_conv')

lemma map_has_iff: "map_has m k \<longleftrightarrow> k \<in> fst ` set m"
  by (simp add: map_has_def map_of_eq_None_iff)

lemma map_has_set [simp]: "map_has (map_set k v m) k' \<longleftrightarrow> k' = k \<or> map_has m k'"
  by (simp add: map_has_def)

lemma map_has_delete [simp]: "map_has (map_delete k m) k' \<longleftrightarrow> k' \<noteq> k \<and> map_has m k'"
  by (simp add: map_has_def)

lemma wf_map_set [simp, intro]: "wf_map m \<Longrightarrow> wf_map (map_set k v m)"
  by (rule distinct_update)

lemma wf_map_delete [simp, intro]: "wf_map m \<Longrightarrow> wf_map (map_delete k m)"
  by (rule distinct_delete)

lemma map_set_values: "x \<in> set (map_set k v m) \<Longrightarrow> x = (k, v) \<or> x \<in> set m"
  by (induction m) (auto split: if_splits)

lemma map_delete_subset: "set (map_delete k m) \<subseteq> set m"
  by (auto simp: AList.delete_eq)

lemma map_get_in: "map_get m k = Some v \<Longrightarrow> (k, v) \<in> set m"
  by (rule map_of_SomeD)

lemma wf_map_get: "wf_map m \<Longrightarrow> map_get m k = Some v \<longleftrightarrow> (k, v) \<in> set m"
  by (rule map_of_eq_Some_iff)

lemma foldl_set_wf: "wf_map m \<Longrightarrow> wf_map (foldl (\<lambda>m (k, v). map_set k v m) m es)"
  by (induction es arbitrary: m) auto

lemma map_new_wf [simp, intro]: "wf_map (map_new es)"
  by (simp add: map_new_def foldl_set_wf)

lemma map_set_fresh: "k \<notin> fst ` set m \<Longrightarrow> map_set k v m = m @ [(k, v)]"
  by (induction m) auto

lemma foldl_set_fresh: "distinct (map fst (m @ es)) \<Longrightarrow>
    foldl (\<lambda>m (k, v). map_set k v m) m es = m @ es"
proof (induction es arbitrary: m)
  case (Cons e es)
  then show ?case by (cases e) (auto simp: map_set_fresh)
qed simp

lemma map_new_distinct: "wf_map es \<Longrightarrow> map_new es = es"
  by (simp add: map_new_def foldl_set_fresh)

end
