(* ===== verification/Devtools_Port.thy ===== *)
theory Devtools_Port imports Devtools_Protocol JS_Map "HOL-Library.Multiset" begin

text \<open>
  The client side of a devtools session: \<open>createClientPort\<close>
  (\<^verbatim>\<open>packages/devtools/src/session/client-port.ts\<close>). Its calls, the frames that arrive on the bridge and
  the abort events of the callers' signals are the inputs of one step function; requests posted to
  the bridge, settled promises and delivered messages are its outputs, in the order they happen. The
  promise of a request is identified by the request's id.

  The lemmas show that every promise settles exactly once, that only the newest detail request of a
  source is ever pending, and that results of foreign or finished requests change nothing.
\<close>

section \<open>State\<close>

datatype request_kind = DetailKind | CommandKind

datatype request_error = RequestFailed jsval | RequestCancelled | RequestSuperseded | SessionDisposed

datatype request_value = DetailResult jsval jsnum | CommandResult jsval

type_synonym outcome = "request_error + request_value"

record pending =
  pd_kind :: request_kind
  pd_key :: string  \<comment> \<open>source key of a detail request, read by its cleanup\<close>
  pd_signal :: "nat option"

record port =
  p_id :: string
  p_counter :: nat
  p_pending :: "pending jsmap"
  p_latestDetail :: "string \<rightharpoonup> string"
  p_terminated :: bool
  p_cleanedUp :: bool

text \<open>An optional signal is given by its identity and whether it has already aborted.\<close>

type_synonym signal = "(nat \<times> bool) option"

datatype port_output =
    Send request
  | Resolve string outcome
  | ResolveAtOnce outcome
  | Deliver message
  | Unsubscribe

definition createClientPort :: "string \<Rightarrow> port" where
  "createClientPort portId = \<lparr>p_id = portId, p_counter = 0, p_pending = [], p_latestDetail = Map.empty,
     p_terminated = False, p_cleanedUp = False\<rparr>"

section \<open>Operations\<close>

definition request_id :: "string \<Rightarrow> nat \<Rightarrow> string" where
  "request_id portId n = portId @ ''-r'' @ digits_of n"

definition nextId :: "port \<Rightarrow> port \<times> string" where
  "nextId p = (let n = p_counter p + 1 in (p\<lparr>p_counter := n\<rparr>, request_id (p_id p) n))"

definition cleanup :: "port \<Rightarrow> port \<times> port_output list" where
  "cleanup p =
     (if p_cleanedUp p then (p, [])
      else (p\<lparr>p_cleanedUp := True, p_latestDetail := Map.empty\<rparr>, [Unsubscribe]))"

text \<open>\<open>finish\<close> of \<open>track\<close>, with the \<open>onCleanup\<close> of the two kinds of request.\<close>

definition onCleanup :: "port \<Rightarrow> string \<Rightarrow> pending \<Rightarrow> port" where
  "onCleanup p requestId entry =
     (if pd_kind entry = DetailKind \<and> p_latestDetail p (pd_key entry) = Some requestId
      then p\<lparr>p_latestDetail := (p_latestDetail p)(pd_key entry := None)\<rparr> else p)"

definition finish :: "port \<Rightarrow> string \<Rightarrow> outcome \<Rightarrow> bool \<Rightarrow> port \<times> port_output list" where
  "finish p requestId result cancel =
     (case map_get (p_pending p) requestId of
        None \<Rightarrow> (p, [])
      | Some entry \<Rightarrow>
          (onCleanup (p\<lparr>p_pending := map_delete requestId (p_pending p)\<rparr>) requestId entry,
           (if cancel then [Send (Cancel requestId)] else []) @ [Resolve requestId result]))"

fun finish_all :: "port \<Rightarrow> string list \<Rightarrow> outcome \<Rightarrow> bool \<Rightarrow> port \<times> port_output list" where
  "finish_all p [] result cancel = (p, [])"
| "finish_all p (r # rs) result cancel =
     (let (p1, out1) = finish p r result cancel; (p2, out2) = finish_all p1 rs result cancel
      in (p2, out1 @ out2))"

definition settleAll :: "port \<Rightarrow> port \<times> port_output list" where
  "settleAll p = finish_all p (map fst (p_pending p)) (Inl SessionDisposed) False"

definition track :: "port \<Rightarrow> string \<Rightarrow> request_kind \<Rightarrow> string \<Rightarrow> signal \<Rightarrow> port \<times> port_output list" where
  "track p requestId kind key sig =
     (let entry = \<lparr>pd_kind = kind, pd_key = key, pd_signal = map_option fst sig\<rparr>;
          p' = p\<lparr>p_pending := map_set requestId entry (p_pending p)\<rparr>
      in case sig of Some (_, True) \<Rightarrow> finish p' requestId (Inl RequestCancelled) True | _ \<Rightarrow> (p', []))"

definition resolvePending :: "port \<Rightarrow> message \<Rightarrow> port \<times> port_output list" where
  "resolvePending p m =
     (case m of
        DetailErr r e \<Rightarrow> finish p r (Inl (RequestFailed e)) False
      | CommandErr r e \<Rightarrow> finish p r (Inl (RequestFailed e)) False
      | DetailOk r n v \<Rightarrow>
          (case map_get (p_pending p) r of
             Some entry \<Rightarrow> if pd_kind entry = DetailKind then finish p r (Inr (DetailResult v n)) False else (p, [])
           | None \<Rightarrow> (p, []))
      | CommandOk r v \<Rightarrow>
          (case map_get (p_pending p) r of
             Some entry \<Rightarrow> if pd_kind entry = CommandKind then finish p r (Inr (CommandResult v)) False else (p, [])
           | None \<Rightarrow> (p, []))
      | _ \<Rightarrow> (p, []))"

fun is_result :: "message \<Rightarrow> bool" where
  "is_result (DetailOk _ _ _) = True"
| "is_result (DetailErr _ _) = True"
| "is_result (CommandOk _ _) = True"
| "is_result (CommandErr _ _) = True"
| "is_result _ = False"

definition handle_message :: "port \<Rightarrow> message \<Rightarrow> port \<times> port_output list" where
  "handle_message p m =
     (if is_result m then resolvePending p m
      else if m = Disposed
      then (let (p1, out1) = settleAll (p\<lparr>p_terminated := True\<rparr>); (p2, out2) = cleanup p1
            in (p2, out1 @ [Deliver m] @ out2))
      else (p, [Deliver m]))"

text \<open>A frame reaches the port until it has unsubscribed from the bridge.\<close>

definition onFrame :: "port \<Rightarrow> jsval \<Rightarrow> port \<times> port_output list" where
  "onFrame p frame =
     (if p_cleanedUp p then (p, [])
      else case validateMessageEnvelope frame of
        Inl _ \<Rightarrow> (p, [])
      | Inr (_, v) \<Rightarrow> (case decode_message v of None \<Rightarrow> (p, []) | Some m \<Rightarrow> handle_message p m))"

definition requestDetail :: "port \<Rightarrow> source_id \<Rightarrow> string \<Rightarrow> signal \<Rightarrow> port \<times> port_output list" where
  "requestDetail p0 sid ref sig =
     (if p_terminated p0 then (p0, [ResolveAtOnce (Inl SessionDisposed)])
      else
        let (p1, requestId) = nextId p0;
            key = sourceKey sid;
            (p2, out2) = (case p_latestDetail p1 key of
                None \<Rightarrow> (p1, [])
              | Some superseded \<Rightarrow> finish p1 superseded (Inl RequestSuperseded) False);
            p3 = p2\<lparr>p_latestDetail := (p_latestDetail p2)(key \<mapsto> requestId)\<rparr>;
            (p4, out4) = track p3 requestId DetailKind key sig
        in (p4, out2 @ out4 @ [Send (DetailRequest requestId sid ref)]))"

definition runCommand :: "port \<Rightarrow> source_id \<Rightarrow> string \<Rightarrow> jsval \<Rightarrow> signal \<Rightarrow> port \<times> port_output list" where
  "runCommand p0 sid commandId input sig =
     (if p_terminated p0 then (p0, [ResolveAtOnce (Inl SessionDisposed)])
      else
        let (p1, requestId) = nextId p0;
            (p2, out2) = track p1 requestId CommandKind [] sig
        in (p2, out2 @ [Send (CommandRequest requestId sid commandId input)]))"

text \<open>A signal runs the \<open>onAbort\<close> listeners still attached to it.\<close>

definition onAbort :: "port \<Rightarrow> nat \<Rightarrow> port \<times> port_output list" where
  "onAbort p sg =
     finish_all p (map fst (filter (\<lambda>(r, entry). pd_signal entry = Some sg) (p_pending p)))
       (Inl RequestCancelled) True"

definition port_dispose :: "port \<Rightarrow> port \<times> port_output list" where
  "port_dispose p =
     (if p_terminated p \<and> p_cleanedUp p then (p, [])
      else let (p1, out1) = settleAll (p\<lparr>p_terminated := True\<rparr>); (p2, out2) = cleanup p1
        in (p2, out1 @ out2))"

datatype port_input =
    RequestDetail source_id string signal
  | RunCommand source_id string jsval signal
  | Frame jsval
  | Aborted nat
  | DisposePort

fun port_step :: "port \<Rightarrow> port_input \<Rightarrow> port \<times> port_output list" where
  "port_step p (RequestDetail sid ref sig) = requestDetail p sid ref sig"
| "port_step p (RunCommand sid c v sig) = runCommand p sid c v sig"
| "port_step p (Frame f) = onFrame p f"
| "port_step p (Aborted sg) = onAbort p sg"
| "port_step p DisposePort = port_dispose p"

section \<open>Invariant\<close>

definition issued :: "port \<Rightarrow> string list" where
  "issued p = map (request_id (p_id p)) [1..<Suc (p_counter p)]"

definition latest_ok :: "port \<Rightarrow> bool" where
  "latest_ok p = (\<forall>k r. p_latestDetail p k = Some r \<longleftrightarrow>
     (\<exists>e. map_get (p_pending p) r = Some e \<and> pd_kind e = DetailKind \<and> pd_key e = k))"

definition port_core :: "port \<Rightarrow> bool" where
  "port_core p = (wf_map (p_pending p) \<and> fst ` set (p_pending p) \<subseteq> set (issued p) \<and> latest_ok p)"

definition port_inv :: "port \<Rightarrow> bool" where
  "port_inv p = (port_core p \<and> (p_terminated p \<longrightarrow> p_pending p = []) \<and> (p_cleanedUp p \<longrightarrow> p_terminated p))"

fun resolved :: "port_output list \<Rightarrow> string list" where
  "resolved [] = []"
| "resolved (Resolve r x # os) = r # resolved os"
| "resolved (_ # os) = resolved os"

text \<open>A step that issues no request: what it settles leaves the line of pending requests.\<close>

definition settles :: "port \<Rightarrow> port \<times> port_output list \<Rightarrow> bool" where
  "settles p r = (p_id (fst r) = p_id p \<and> p_counter (fst r) = p_counter p \<and>
     p_terminated (fst r) = p_terminated p \<and> p_cleanedUp (fst r) = p_cleanedUp p \<and>
     (port_core p \<longrightarrow> port_core (fst r) \<and>
      mset (resolved (snd r)) + mset (map fst (p_pending (fst r))) = mset (map fst (p_pending p))))"

lemma resolved_append [simp]: "resolved (xs @ ys) = resolved xs @ resolved ys"
  by (induction xs rule: resolved.induct) auto

lemma settles_refl [simp]: "settles p (p, [])"
  by (simp add: settles_def)

lemma settles_deliver [simp]: "settles p (p, [Deliver m])"
  by (simp add: settles_def)

lemma keys_delete: "wf_map m \<Longrightarrow> map_get m k = Some v \<Longrightarrow>
    add_mset k (mset (map fst (map_delete k m))) = mset (map fst m)"
proof (induction m)
  case (Cons x m)
  have "map_delete k m = m" if "k \<notin> fst ` set m"
    using that by (simp add: delete_id)
  with Cons show ?case by (auto split: if_splits dest: weak_map_of_SomeI map_of_SomeD)
qed simp

lemma latest_unique:
  assumes "latest_ok p" "map_get (p_pending p) r = Some e" "pd_kind e = DetailKind"
    "map_get (p_pending p) r' = Some e'" "pd_kind e' = DetailKind" "pd_key e' = pd_key e"
  shows "r' = r"
proof -
  have "p_latestDetail p (pd_key e) = Some r" "p_latestDetail p (pd_key e) = Some r'"
    using assms unfolding latest_ok_def by metis+
  then show ?thesis by simp
qed

lemma onCleanup_latest:
  assumes "latest_ok p" "map_get (p_pending p) r = Some e"
  shows "latest_ok (onCleanup (p\<lparr>p_pending := map_delete r (p_pending p)\<rparr>) r e)" (is "latest_ok ?q")
  unfolding latest_ok_def
proof (intro allI)
  fix k r'
  have old: "p_latestDetail p k = Some r' \<longleftrightarrow>
      (\<exists>e. map_get (p_pending p) r' = Some e \<and> pd_kind e = DetailKind \<and> pd_key e = k)" for k r'
    using assms(1) by (simp add: latest_ok_def)
  have latest: "p_latestDetail ?q =
      (if pd_kind e = DetailKind then (p_latestDetail p)(pd_key e := None) else p_latestDetail p)"
    using assms(2) old by (auto simp: onCleanup_def)
  have "map_get (p_pending ?q) = (map_get (p_pending p))(r := None)"
    by (auto simp: onCleanup_def)
  then show "p_latestDetail ?q k = Some r' \<longleftrightarrow>
      (\<exists>e. map_get (p_pending ?q) r' = Some e \<and> pd_kind e = DetailKind \<and> pd_key e = k)"
    using old [of k r'] latest_unique [OF assms, of r'] assms(2) by (cases "r' = r") (auto simp: latest)
qed

lemma finish_settles: "settles p (finish p r result cancel)"
proof (cases "map_get (p_pending p) r")
  case None
  then show ?thesis by (simp add: finish_def)
next
  case (Some e)
  have "fst ` set (map_delete r (p_pending p)) \<subseteq> fst ` set (p_pending p)"
    using map_delete_subset by fastforce
  with Some show ?thesis
    using onCleanup_latest [of p r e] keys_delete [of "p_pending p" r e]
    by (auto simp: settles_def finish_def port_core_def issued_def onCleanup_def)
qed

lemma settles_trans:
  "settles p (p1, out1) \<Longrightarrow> settles p1 (p2, out2) \<Longrightarrow> settles p (p2, out1 @ out2)"
  by (auto simp: settles_def ac_simps)

lemma finish_all_settles: "settles p (finish_all p rs result cancel)"
proof (induction rs arbitrary: p)
  case (Cons r rs)
  obtain p1 out1 where f: "finish p r result cancel = (p1, out1)" by (cases "finish p r result cancel")
  then have "settles p (p1, out1)" using finish_settles [of p r result cancel] by simp
  with Cons [of p1] f show ?case by (auto intro: settles_trans split: prod.splits)
qed simp

lemma finish_pending: "p_pending (fst (finish p r result cancel)) =
    (if map_get (p_pending p) r = None then p_pending p else map_delete r (p_pending p))"
  by (auto simp: finish_def onCleanup_def split: option.splits)

lemma finish_get: "map_get (p_pending (fst (finish p r result cancel))) =
    (map_get (p_pending p))(r := None)"
  by (auto simp: finish_pending)

lemma finish_all_get: "map_get (p_pending (fst (finish_all p rs result cancel))) k =
    (if k \<in> set rs then None else map_get (p_pending p) k)"
proof (induction rs arbitrary: p)
  case (Cons r rs)
  have "fst (finish_all p (r # rs) result cancel) = fst (finish_all (fst (finish p r result cancel)) rs result cancel)"
    by (simp add: split_beta)
  then show ?case using Cons [of "fst (finish p r result cancel)"] by (simp add: finish_get)
qed simp

lemma no_keys: "(\<And>k. map_get m k = None) \<Longrightarrow> m = []"
  by (simp flip: map_of_eq_empty_iff add: fun_eq_iff)

lemma settleAll_empties: "p_pending (fst (settleAll p)) = []"
proof (rule no_keys)
  fix k
  show "map_get (p_pending (fst (settleAll p))) k = None"
    by (auto simp: settleAll_def finish_all_get map_of_eq_None_iff)
qed

lemma settleAll_settles: "settles p (settleAll p)"
  by (simp add: settleAll_def finish_all_settles)

lemma resolvePending_settles: "settles p (resolvePending p m)"
  by (auto simp: resolvePending_def finish_settles split: message.splits option.splits)

lemma cleanup_settles:
  "port_core p \<Longrightarrow> p_pending p = [] \<Longrightarrow> port_core (fst (cleanup p)) \<and> p_pending (fst (cleanup p)) = [] \<and>
     p_cleanedUp (fst (cleanup p)) \<and> p_terminated (fst (cleanup p)) = p_terminated p \<and>
     p_id (fst (cleanup p)) = p_id p \<and> p_counter (fst (cleanup p)) = p_counter p \<and> resolved (snd (cleanup p)) = []"
  by (auto simp: cleanup_def port_core_def latest_ok_def issued_def)

text \<open>What every step does to the promises: the requests it issues are settled or pending, the others
  stay settled or pending.\<close>

definition accounts :: "port \<Rightarrow> port \<times> port_output list \<Rightarrow> bool" where
  "accounts p r = (port_inv (fst r) \<and> p_id (fst r) = p_id p \<and> p_counter p \<le> p_counter (fst r) \<and>
     mset (resolved (snd r)) + mset (map fst (p_pending (fst r))) + mset (issued p) =
       mset (map fst (p_pending p)) + mset (issued (fst r)))"

lemma settles_accounts:
  assumes "port_inv p" "settles p r"
  shows "accounts p r"
proof -
  have "p_terminated (fst r) \<longrightarrow> p_pending (fst r) = []"
    using assms by (auto simp: settles_def port_inv_def)
  with assms show ?thesis by (auto simp: settles_def accounts_def port_inv_def issued_def)
qed

lemma terminate_accounts:
  assumes "port_inv p"
  defines "q \<equiv> fst (settleAll (p\<lparr>p_terminated := True\<rparr>))"
  shows "accounts p (fst (cleanup q), snd (settleAll (p\<lparr>p_terminated := True\<rparr>)) @ mid @ snd (cleanup q))
    \<longleftrightarrow> resolved mid = []"
proof -
  have "port_core (p\<lparr>p_terminated := True\<rparr>)"
    using assms by (simp add: port_inv_def port_core_def latest_ok_def issued_def)
  moreover have "settles (p\<lparr>p_terminated := True\<rparr>) (settleAll (p\<lparr>p_terminated := True\<rparr>))"
    by (rule settleAll_settles)
  ultimately have q: "port_core q" "p_pending q = []" "p_id q = p_id p" "p_counter q = p_counter p" "p_terminated q"
    "mset (resolved (snd (settleAll (p\<lparr>p_terminated := True\<rparr>)))) = mset (map fst (p_pending p))"
    unfolding q_def by (auto simp: settles_def settleAll_empties)
  with cleanup_settles [of q] show ?thesis
    by (auto simp: accounts_def port_inv_def issued_def)
qed

lemma issued_Suc: "issued (p\<lparr>p_counter := Suc (p_counter p)\<rparr>) = issued p @ [request_id (p_id p) (Suc (p_counter p))]"
  by (simp add: issued_def)

lemma request_id_inj: "request_id a n = request_id a m \<longleftrightarrow> n = m"
  by (auto simp: request_id_def) (metis digits_value_digits)

lemma not_issued: "request_id (p_id p) (Suc (p_counter p)) \<notin> set (issued p)"
  by (auto simp: issued_def request_id_inj)

lemma port_core_issue: "port_core p \<Longrightarrow> port_core (p\<lparr>p_counter := Suc (p_counter p)\<rparr>)"
  by (auto simp: port_core_def latest_ok_def issued_Suc)

lemma add_pending:
  assumes "port_core p" "r \<in> set (issued p)" "r \<notin> fst ` set (p_pending p)"
    "pd_kind e = DetailKind \<Longrightarrow> p_latestDetail p (pd_key e) = None"
  defines "q \<equiv> p\<lparr>p_latestDetail := (if pd_kind e = DetailKind then (p_latestDetail p)(pd_key e \<mapsto> r)
       else p_latestDetail p), p_pending := map_set r e (p_pending p)\<rparr>"
  shows "port_core q \<and> mset (map fst (p_pending q)) = add_mset r (mset (map fst (p_pending p)))"
proof -
  have fresh: "map_get (p_pending p) r = None" using assms(3) by (simp add: map_of_eq_None_iff)
  have old: "p_latestDetail p k = Some r' \<longleftrightarrow>
      (\<exists>e. map_get (p_pending p) r' = Some e \<and> pd_kind e = DetailKind \<and> pd_key e = k)" for k r'
    using assms(1) by (simp add: port_core_def latest_ok_def)
  have "latest_ok q"
    unfolding latest_ok_def
  proof (intro allI)
    fix k r'
    show "p_latestDetail q k = Some r' \<longleftrightarrow>
        (\<exists>e. map_get (p_pending q) r' = Some e \<and> pd_kind e = DetailKind \<and> pd_key e = k)"
      using old [of k r'] fresh assms(4) by (cases "r' = r") (auto simp: q_def)
  qed
  with assms show ?thesis
    by (auto simp: port_core_def q_def issued_def map_set_fresh)
qed

lemma track_settles: "settles (p\<lparr>p_pending := map_set r \<lparr>pd_kind = kd, pd_key = k, pd_signal = map_option fst sig\<rparr>
    (p_pending p)\<rparr>) (track p r kd k sig)"
  by (auto simp: track_def Let_def finish_settles split: option.splits prod.splits bool.splits)

lemma settles_issues:
  assumes "port_inv p" "\<not> p_terminated p" "settles q r" "port_core q" "p_id q = p_id p" "\<not> p_terminated q"
    "\<not> p_cleanedUp q" "p_counter q = Suc (p_counter p)"
    "mset (resolved out) + mset (map fst (p_pending q)) =
       add_mset (request_id (p_id p) (Suc (p_counter p))) (mset (map fst (p_pending p)))"
    "resolved send = []"
  shows "accounts p (fst r, out @ snd r @ send)"
proof -
  have "issued (fst r) = issued p @ [request_id (p_id p) (Suc (p_counter p))]"
    using assms(3,5,8) by (simp add: settles_def issued_def)
  moreover have "mset (resolved (snd r)) + mset (map fst (p_pending (fst r))) = mset (map fst (p_pending q))"
    using assms(3,4) by (simp add: settles_def)
  ultimately show ?thesis
    using assms by (auto simp: accounts_def port_inv_def settles_def)
qed

lemma fresh_id: "port_inv p \<Longrightarrow> request_id (p_id p) (Suc (p_counter p)) \<notin> fst ` set (p_pending p)"
  using not_issued [of p] by (auto simp: port_inv_def port_core_def)

lemma runCommand_accounts: "port_inv p \<Longrightarrow> accounts p (runCommand p sid c v sig)"
proof (cases "p_terminated p")
  case True
  then show "port_inv p \<Longrightarrow> ?thesis" by (simp add: runCommand_def accounts_def)
next
  case False
  assume inv: "port_inv p"
  let ?p = "p\<lparr>p_counter := Suc (p_counter p)\<rparr>"
  let ?r = "request_id (p_id p) (Suc (p_counter p))"
  let ?e = "\<lparr>pd_kind = CommandKind, pd_key = [], pd_signal = map_option fst sig\<rparr>"
  let ?q = "?p\<lparr>p_pending := map_set ?r ?e (p_pending p)\<rparr>"
  have "port_core ?p" using inv port_core_issue by (simp add: port_inv_def)
  then have q: "port_core ?q" "mset (map fst (p_pending ?q)) = add_mset ?r (mset (map fst (p_pending p)))"
    using add_pending [of ?p ?r ?e] fresh_id [OF inv] by (auto simp: issued_Suc)
  have "settles ?q (track ?p ?r CommandKind [] sig)"
    using track_settles [where p = ?p and r = ?r and kd = CommandKind and k = "[]" and sig = sig] by simp
  then have "accounts p (fst (track ?p ?r CommandKind [] sig),
      [] @ snd (track ?p ?r CommandKind [] sig) @ [Send (CommandRequest ?r sid c v)])"
    using inv False q by (intro settles_issues [where q = ?q]) (auto simp: port_inv_def)
  with False show ?thesis by (simp add: runCommand_def nextId_def Let_def split_beta)
qed

lemma requestDetail_accounts: "port_inv p \<Longrightarrow> accounts p (requestDetail p sid ref sig)"
proof (cases "p_terminated p")
  case True
  then show "port_inv p \<Longrightarrow> ?thesis" by (simp add: requestDetail_def accounts_def)
next
  case False
  assume inv: "port_inv p"
  let ?p = "p\<lparr>p_counter := Suc (p_counter p)\<rparr>" and ?k = "sourceKey sid"
  let ?r = "request_id (p_id p) (Suc (p_counter p))"
  let ?f = "case p_latestDetail ?p ?k of None \<Rightarrow> (?p, [])
     | Some superseded \<Rightarrow> finish ?p superseded (Inl RequestSuperseded) False"
  obtain p2 out2 where f: "?f = (p2, out2)" by (cases ?f)
  have core: "port_core ?p" using inv port_core_issue by (simp add: port_inv_def)
  have "settles ?p ?f" by (auto simp: finish_settles split: option.splits)
  with core have p2: "port_core p2" "p_id p2 = p_id p" "p_counter p2 = Suc (p_counter p)"
    "\<not> p_terminated p2" "\<not> p_cleanedUp p2"
    "mset (resolved out2) + mset (map fst (p_pending p2)) = mset (map fst (p_pending p))"
    using False inv unfolding f by (auto simp: settles_def port_inv_def)
  have none: "p_latestDetail p2 ?k = None"
  proof (rule ccontr)
    assume "p_latestDetail p2 ?k \<noteq> None"
    then obtain r' e where r': "map_get (p_pending p2) r' = Some e" "pd_kind e = DetailKind" "pd_key e = ?k"
      using p2(1) by (auto simp: port_core_def latest_ok_def)
    have "map_get (p_pending p2) = (case p_latestDetail ?p ?k of None \<Rightarrow> map_get (p_pending p)
        | Some s \<Rightarrow> (map_get (p_pending p))(s := None))"
      using finish_get [of ?p] arg_cong [OF f, of "\<lambda>x. map_get (p_pending (fst x))"]
      by (auto split: option.splits)
    with r' have "map_get (p_pending ?p) r' = Some e \<and> p_latestDetail ?p ?k \<noteq> Some r'"
      by (auto split: option.splits if_splits)
    with r' core show False by (auto simp: port_core_def latest_ok_def)
  qed
  let ?e = "\<lparr>pd_kind = DetailKind, pd_key = ?k, pd_signal = map_option fst sig\<rparr>"
  let ?p3 = "p2\<lparr>p_latestDetail := (p_latestDetail p2)(?k \<mapsto> ?r)\<rparr>"
  let ?q = "?p3\<lparr>p_pending := map_set ?r ?e (p_pending p2)\<rparr>"
  have "set (map fst (p_pending p2)) \<subseteq> set (map fst (p_pending p))"
    using p2(6) by (metis mset_subset_eq_add_right set_mset_mono set_mset_mset)
  then have "?r \<notin> fst ` set (p_pending p2)" using fresh_id [OF inv] by auto
  moreover have "?r \<in> set (issued p2)" using p2 by (simp add: issued_def)
  ultimately have q: "port_core ?q" "mset (map fst (p_pending ?q)) = add_mset ?r (mset (map fst (p_pending p2)))"
    using add_pending [of p2 ?r ?e] p2(1) none by auto
  have "settles ?q (track ?p3 ?r DetailKind ?k sig)"
    using track_settles [where p = ?p3 and r = ?r and kd = DetailKind and k = ?k and sig = sig] by simp
  then have "accounts p (fst (track ?p3 ?r DetailKind ?k sig),
      out2 @ snd (track ?p3 ?r DetailKind ?k sig) @ [Send (DetailRequest ?r sid ref)])"
    using inv False q p2 by (intro settles_issues [where q = ?q]) auto
  moreover obtain p4 out4 where "track ?p3 ?r DetailKind ?k sig = (p4, out4)"
    by (cases "track ?p3 ?r DetailKind ?k sig")
  ultimately show ?thesis using False f by (simp add: requestDetail_def nextId_def Let_def)
qed

lemma terminate_steps:
  assumes "port_inv p"
  shows "accounts p (port_dispose p)" "accounts p (handle_message p m)"
proof -
  obtain p1 out1 where s: "settleAll (p\<lparr>p_terminated := True\<rparr>) = (p1, out1)"
    by (cases "settleAll (p\<lparr>p_terminated := True\<rparr>)")
  obtain p2 out2 where c: "cleanup p1 = (p2, out2)" by (cases "cleanup p1")
  have fin: "accounts p (p2, out1 @ mid @ out2)" if "resolved mid = []" for mid
    using terminate_accounts [OF assms, of mid] that s c by simp
  show "accounts p (port_dispose p)"
    using fin [of "[]"] s c settles_accounts [OF assms settles_refl] by (simp add: port_dispose_def)
  show "accounts p (handle_message p m)"
    using fin [of "[Deliver m]"] s c settles_accounts [OF assms]
    by (auto simp: handle_message_def resolvePending_settles)
qed

lemma step_accounts: "port_inv p \<Longrightarrow> accounts p (port_step p i)"
  by (cases i) (auto simp: requestDetail_accounts runCommand_accounts terminate_steps onAbort_def onFrame_def
      intro!: settles_accounts finish_all_settles split: sum.splits option.splits)

interpretation port: kept_invariant port_step port_inv
  by unfold_locales (use step_accounts in \<open>auto simp: accounts_def\<close>)

lemma created_inv: "port_inv (createClientPort i)"
  by (simp add: createClientPort_def port_inv_def port_core_def latest_ok_def)

lemma exchange_trans:
  assumes "a + k' + i = k + (i' :: 'a multiset)" "b + k'' + i' = k' + i''"
  shows "(a + b) + k'' + i = k + i''"
proof -
  have "((a + b) + k'' + i) + (k' + i') = (a + k' + i) + (b + k'' + i')" by (simp add: ac_simps)
  also have "\<dots> = (k + i') + (k' + i'')" by (simp only: assms)
  also have "\<dots> = (k + i'') + (k' + i')" by (simp add: ac_simps)
  finally show ?thesis by (rule add_right_imp_eq)
qed

lemma accounts_trans: "accounts p (p1, out1) \<Longrightarrow> accounts p1 (p2, out2) \<Longrightarrow> accounts p (p2, out1 @ out2)"
  using exchange_trans by (fastforce simp: accounts_def)

lemma run_accounts: "port_inv p \<Longrightarrow> accounts p (run port_step p is)"
proof (induction "is" arbitrary: p)
  case Nil
  then show ?case by (simp add: accounts_def)
next
  case (Cons i "is")
  obtain p1 out1 where s: "port_step p i = (p1, out1)" by (cases "port_step p i")
  obtain p2 out2 where r: "run port_step p1 is = (p2, out2)" by (cases "run port_step p1 is")
  have "accounts p (p1, out1)" using step_accounts [OF Cons.prems, of i] s by simp
  moreover from this have "accounts p1 (p2, out2)" using Cons.IH [of p1] r by (simp add: accounts_def)
  ultimately show ?case using accounts_trans by (simp add: s r)
qed

section \<open>Properties\<close>

text \<open>Claim C15: over any sequence of calls, frames and aborts, every request a port has issued is either
  settled exactly once or still pending, never both and never twice; after disposal, from either side,
  none is pending. Ids are never reused.\<close>

theorem requests_settle_once:
  "run port_step (createClientPort i) is = (p, out) \<Longrightarrow>
     mset (resolved out) + mset (map fst (p_pending p)) = mset (map (request_id i) [1..<Suc (p_counter p)]) \<and>
     distinct (resolved out @ map fst (p_pending p)) \<and>
     (p_terminated p \<longrightarrow> p_pending p = [])"
proof -
  assume r: "run port_step (createClientPort i) is = (p, out)"
  have acc: "accounts (createClientPort i) (p, out)"
    using run_accounts [OF created_inv, of i "is"] r by simp
  then have eq: "mset (resolved out @ map fst (p_pending p)) = mset (map (request_id i) [1..<Suc (p_counter p)])"
    by (simp add: accounts_def issued_def createClientPort_def)
  have "distinct (map (request_id i) [1..<Suc (p_counter p)])"
    by (auto simp: distinct_map inj_on_def request_id_inj)
  then have "distinct (resolved out @ map fst (p_pending p))"
    using mset_eq_imp_distinct_iff [OF eq] by blast
  with eq acc show ?thesis by (simp add: accounts_def port_inv_def)
qed

definition http_source :: source_id where
  "http_source = \<lparr>sid_kind = ''http'', sid_instance = ''main''\<rparr>"

theorem requests_settle_once_witness:
  "\<exists>p out. run port_step (createClientPort ''p1'')
       [RequestDetail http_source ''a'' None, RequestDetail http_source ''b'' (Some (7, False)), Aborted 7] = (p, out) \<and>
     resolved out = [''p1-r1'', ''p1-r2''] \<and> distinct (resolved out @ map fst (p_pending p))"
proof -
  let ?is = "[RequestDetail http_source ''a'' None, RequestDetail http_source ''b'' (Some (7, False)), Aborted 7]"
  obtain p out where r: "run port_step (createClientPort ''p1'') ?is = (p, out)"
    by (cases "run port_step (createClientPort ''p1'') ?is")
  have "resolved (snd (run port_step (createClientPort ''p1'') ?is)) = [''p1-r1'', ''p1-r2'']"
    by (simp add: createClientPort_def requestDetail_def nextId_def Let_def track_def finish_def onCleanup_def
        onAbort_def request_id_def digits_of.simps char_of_def bit_0)
  then show ?thesis using requests_settle_once [OF r] r by simp
qed

text \<open>At any moment the latest detail request of a source is the one recorded for it, and no
  other detail request of that source is pending: a newer request always supersedes the older one.\<close>

theorem one_detail_per_source:
  "run port_step (createClientPort i) is = (p, out) \<Longrightarrow>
     map_get (p_pending p) r = Some e \<Longrightarrow> pd_kind e = DetailKind \<Longrightarrow>
     p_latestDetail p (pd_key e) = Some r \<and>
     (\<forall>r' e'. map_get (p_pending p) r' = Some e' \<longrightarrow> pd_kind e' = DetailKind \<longrightarrow> pd_key e' = pd_key e \<longrightarrow> r' = r)"
proof -
  assume "run port_step (createClientPort i) is = (p, out)"
    and e: "map_get (p_pending p) r = Some e" "pd_kind e = DetailKind"
  then have "latest_ok p"
    using port.run_inv [OF created_inv, of i "is"] by (simp add: port_inv_def port_core_def)
  moreover from this e have "p_latestDetail p (pd_key e) = Some r" unfolding latest_ok_def by blast
  ultimately show ?thesis using latest_unique [of p r e] e by blast
qed

theorem one_detail_per_source_witness:
  "\<exists>p out. run port_step (createClientPort ''p1'')
       [RequestDetail http_source ''a'' None, RequestDetail http_source ''b'' None] = (p, out) \<and>
     p_latestDetail p (sourceKey http_source) = Some (request_id ''p1'' 2)"
proof -
  let ?is = "[RequestDetail http_source ''a'' None, RequestDetail http_source ''b'' None]"
  obtain p out where r: "run port_step (createClientPort ''p1'') ?is = (p, out)"
    by (cases "run port_step (createClientPort ''p1'') ?is")
  have "p_pending (fst (run port_step (createClientPort ''p1'') ?is)) =
      [(request_id ''p1'' 2, \<lparr>pd_kind = DetailKind, pd_key = sourceKey http_source, pd_signal = None\<rparr>)]"
    by (simp add: createClientPort_def requestDetail_def nextId_def Let_def track_def finish_def onCleanup_def
        request_id_inj numeral_2_eq_2)
  with r have "map_get (p_pending p) (request_id ''p1'' 2) =
      Some \<lparr>pd_kind = DetailKind, pd_key = sourceKey http_source, pd_signal = None\<rparr>" by simp
  from one_detail_per_source [OF r this]
  have "p_latestDetail p (sourceKey http_source) = Some (request_id ''p1'' 2)" by simp
  with r show ?thesis by blast
qed

text \<open>A result whose request is not pending here, because it settled before or belongs to another
  port, and a result of the wrong kind change nothing and settle nothing.\<close>

theorem foreign_results_ignored:
  "validateMessageEnvelope frame = Inr (v, w) \<Longrightarrow> decode_message w = Some m \<Longrightarrow>
     (m = DetailOk r n x \<longrightarrow> (\<forall>e. map_get (p_pending p) r = Some e \<longrightarrow> pd_kind e \<noteq> DetailKind) \<longrightarrow>
        onFrame p frame = (p, [])) \<and>
     (m = CommandOk r x \<longrightarrow> (\<forall>e. map_get (p_pending p) r = Some e \<longrightarrow> pd_kind e \<noteq> CommandKind) \<longrightarrow>
        onFrame p frame = (p, [])) \<and>
     (m \<in> {DetailErr r x, CommandErr r x} \<longrightarrow> map_get (p_pending p) r = None \<longrightarrow> onFrame p frame = (p, []))"
  by (auto simp: onFrame_def handle_message_def resolvePending_def finish_def split: option.splits)

theorem foreign_results_ignored_witness:
  "onFrame (createClientPort ''p1'') (envelope MessageSlot (encode_message (CommandOk ''p2-r1'' JNull))) =
     (createClientPort ''p1'', [])"
proof -
  have "valid_message (CommandOk ''p2-r1'' JNull)" by simp
  then have "validateMessageEnvelope (envelope MessageSlot (encode_message (CommandOk ''p2-r1'' JNull))) =
       Inr (JNum (Fin 1), encode_message (CommandOk ''p2-r1'' JNull))"
    "decode_message (encode_message (CommandOk ''p2-r1'' JNull)) = Some (CommandOk ''p2-r1'' JNull)"
    using decode_encode_message
    by (auto simp: validate_iff envelope_def PROTOCOL_VERSION_def simp del: encode_message.simps)
  from foreign_results_ignored [OF this, of "''p2-r1''" _ JNull "createClientPort ''p1''"]
  show ?thesis by (simp add: createClientPort_def)
qed

end
