(* ===== verification/Devtools_Retention.thy ===== *)
theory Devtools_Retention imports Devtools_Protocol JS_Map begin

text \<open>
  Retention in the devtools (\<^verbatim>\<open>packages/devtools/src/retention/\<close>): the bounded history
  \<open>createRetentionBuffer\<close> with its aggregate ring and one ring per source, and the burst sampler
  \<open>createEventSampler\<close> with its owned timer.

  The lemmas show that a ring is the tail of what was pushed since it was last emptied, that its
  counter is exactly what it lost, that the aggregate timeline keeps every source in order, and that
  the sampler never strands the last event of a burst and never emits twice within a window.
\<close>

section \<open>The buffer\<close>

record retention_entry =
  re_id :: source_id
  re_seq :: nat
  re_event :: source_event

record ring =
  entries :: "retention_entry list"
  dropped :: nat

record retention =
  cap_perSource :: nat
  cap_aggregate :: nat
  aggregate :: ring
  perSource :: "string \<rightharpoonup> ring"

definition empty_ring :: ring where
  "empty_ring = \<lparr>entries = [], dropped = 0\<rparr>"

definition createRetentionBuffer :: "jsnum \<Rightarrow> jsnum \<Rightarrow> string + retention" where
  "createRetentionBuffer per_source aggr =
     (if \<not> isPositiveInteger per_source
        then Inl ''Retention perSource capacity must be a positive safe integer.''
      else if \<not> isPositiveInteger aggr
        then Inl ''Retention aggregate capacity must be a positive safe integer.''
      else Inr \<lparr>cap_perSource = nat_of_num per_source, cap_aggregate = nat_of_num aggr,
                aggregate = empty_ring, perSource = Map.empty\<rparr>)"

definition ringFor :: "retention \<Rightarrow> source_id \<Rightarrow> ring" where
  "ringFor b i = (case perSource b (sourceKey i) of Some r \<Rightarrow> r | None \<Rightarrow> empty_ring)"

text \<open>The \<open>while\<close> loop that shifts the oldest entries out.\<close>

function shed :: "nat \<Rightarrow> ring \<Rightarrow> ring" where
  "shed limit r =
     (if limit < length (entries r)
      then shed limit (r\<lparr>entries := tl (entries r), dropped := dropped r + 1\<rparr>)
      else r)"
  by pat_completeness auto
termination by (relation "measure (\<lambda>(limit, r). length (entries r))") auto

declare shed.simps [simp del]

definition retain :: "ring \<Rightarrow> retention_entry \<Rightarrow> nat \<Rightarrow> ring" where
  "retain r e limit = shed limit (r\<lparr>entries := entries r @ [e]\<rparr>)"

definition rb_push :: "retention \<Rightarrow> retention_entry \<Rightarrow> retention" where
  "rb_push b e =
     b\<lparr>aggregate := retain (aggregate b) e (cap_aggregate b),
       perSource := (perSource b)(sourceKey (re_id e) \<mapsto> retain (ringFor b (re_id e)) e (cap_perSource b))\<rparr>"

definition rb_perSource :: "retention \<Rightarrow> source_id \<Rightarrow> retention_entry list" where
  "rb_perSource b i = entries (ringFor b i)"

definition droppedForSource :: "retention \<Rightarrow> source_id \<Rightarrow> nat" where
  "droppedForSource b i = dropped (ringFor b i)"

definition rb_aggregate :: "retention \<Rightarrow> retention_entry list" where
  "rb_aggregate b = entries (aggregate b)"

definition droppedAggregate :: "retention \<Rightarrow> nat" where
  "droppedAggregate b = dropped (aggregate b)"

definition rb_forget :: "retention \<Rightarrow> source_id \<Rightarrow> retention" where
  "rb_forget b i =
     b\<lparr>perSource := (perSource b)(sourceKey i := None),
       aggregate := (aggregate b)\<lparr>entries :=
         filter (\<lambda>e. sourceKey (re_id e) \<noteq> sourceKey i) (entries (aggregate b))\<rparr>\<rparr>"

definition rb_clear :: "retention \<Rightarrow> retention" where
  "rb_clear b = b\<lparr>aggregate := empty_ring, perSource := Map.empty\<rparr>"

datatype rb_op = Push retention_entry | Forget source_id | Clear

fun rb_step :: "retention \<Rightarrow> rb_op \<Rightarrow> retention" where
  "rb_step b (Push e) = rb_push b e"
| "rb_step b (Forget i) = rb_forget b i"
| "rb_step b Clear = rb_clear b"

definition rb_run :: "retention \<Rightarrow> rb_op list \<Rightarrow> retention" where
  "rb_run b ops = foldl rb_step b ops"

subsection \<open>Specification: what was pushed since a source was last emptied\<close>

fun noted :: "source_id \<Rightarrow> retention_entry list \<Rightarrow> rb_op \<Rightarrow> retention_entry list" where
  "noted i h (Push e) = (if re_id e = i then h @ [e] else h)"
| "noted i h (Forget j) = (if j = i then [] else h)"
| "noted i h Clear = []"

definition history :: "source_id \<Rightarrow> rb_op list \<Rightarrow> retention_entry list" where
  "history i ops = foldl (noted i) [] ops"

text \<open>The timeline an unbounded buffer would hold.\<close>

fun timed :: "retention_entry list \<Rightarrow> rb_op \<Rightarrow> retention_entry list" where
  "timed h (Push e) = h @ [e]"
| "timed h (Forget i) = filter (\<lambda>e. re_id e \<noteq> i) h"
| "timed h Clear = []"

definition timeline :: "rb_op list \<Rightarrow> retention_entry list" where
  "timeline ops = foldl timed [] ops"

definition last_of :: "nat \<Rightarrow> 'a list \<Rightarrow> 'a list" where
  "last_of n xs = drop (length xs - n) xs"

lemma shed_eq: "shed limit r =
    r\<lparr>entries := last_of limit (entries r), dropped := dropped r + (length (entries r) - limit)\<rparr>"
proof (induction limit r rule: shed.induct)
  case (1 limit r)
  show ?case
  proof (cases "limit < length (entries r)")
    case True
    then have "drop (length (tl (entries r)) - limit) (tl (entries r)) =
        drop (length (entries r) - limit) (entries r)"
      by (cases "entries r") (auto simp: drop_Cons' Suc_diff_le)
    with True 1 show ?thesis by (subst shed.simps) (simp add: last_of_def)
  next
    case False
    then show ?thesis by (subst shed.simps) (simp add: last_of_def)
  qed
qed

lemma length_last_of [simp]: "length (last_of n xs) = min n (length xs)"
  by (simp add: last_of_def)

lemma last_of_suffix: "\<exists>ys. xs = ys @ last_of n xs"
  by (metis append_take_drop_id last_of_def)

lemma last_of_snoc: "0 < n \<Longrightarrow> last_of n (last_of n xs @ [x]) = last_of n (xs @ [x])"
  by (cases "length xs \<le> n") (auto simp: last_of_def Suc_diff_le)

lemma retain_eq: "entries (retain r e n) = last_of n (entries r @ [e])"
  "dropped (retain r e n) = dropped r + (Suc (length (entries r)) - n)"
  by (simp_all add: retain_def shed_eq)

lemma sourceKey_eq [simp]: "sourceKey a = sourceKey b \<longleftrightarrow> a = b"
proof -
  have "sourceKey a = sourceKey b \<Longrightarrow> sourceIdEquals a b"
    by (rule sourceKey_inj)
  then show ?thesis by (auto simp: sourceIdEquals_def)
qed

lemma rb_caps [simp]: "cap_perSource (rb_step b x) = cap_perSource b"
  "cap_aggregate (rb_step b x) = cap_aggregate b"
  by (cases x; simp add: rb_push_def rb_forget_def rb_clear_def)+

lemma ringFor_step:
  "ringFor (rb_push b e) i = (if re_id e = i then retain (ringFor b i) e (cap_perSource b) else ringFor b i)"
  "ringFor (rb_forget b j) i = (if j = i then empty_ring else ringFor b i)"
  "ringFor (rb_clear b) i = empty_ring"
  by (auto simp: ringFor_def rb_push_def rb_forget_def rb_clear_def)

text \<open>What links a buffer to its specification.\<close>

definition holds_history :: "retention \<Rightarrow> (source_id \<Rightarrow> retention_entry list) \<Rightarrow> bool" where
  "holds_history b h = (0 < cap_perSource b \<and> (\<forall>i. entries (ringFor b i) = last_of (cap_perSource b) (h i) \<and>
     dropped (ringFor b i) = length (h i) - cap_perSource b))"

definition holds_timeline :: "retention \<Rightarrow> retention_entry list \<Rightarrow> bool" where
  "holds_timeline b t = (0 < cap_aggregate b \<and> length (entries (aggregate b)) \<le> cap_aggregate b \<and>
     (\<exists>lost. t = lost @ entries (aggregate b) \<and> length lost \<le> dropped (aggregate b)))"

lemma rb_caps_ops [simp]:
  "cap_perSource (rb_push b e) = cap_perSource b"
  "cap_perSource (rb_forget b i) = cap_perSource b"
  "cap_perSource (rb_clear b) = cap_perSource b"
  using rb_caps(1) [of b "Push e"] rb_caps(1) [of b "Forget i"] rb_caps(1) [of b Clear] by simp_all

lemma holds_history_step:
  assumes "holds_history b h"
  shows "holds_history (rb_step b x) (\<lambda>i. noted i (h i) x)"
proof (cases x)
  case (Push e)
  have "Suc (min n (length xs)) - n + (length xs - n) = Suc (length xs) - n" for n and xs :: "'a list"
    by linarith
  with assms show ?thesis
    by (simp add: Push holds_history_def ringFor_step retain_eq last_of_snoc add.commute)
qed (use assms in \<open>auto simp: holds_history_def ringFor_step empty_ring_def last_of_def\<close>)

lemma holds_timeline_push:
  assumes "holds_timeline b t"
  shows "holds_timeline (rb_push b e) (t @ [e])"
proof -
  let ?es = "entries (aggregate b)"
  obtain lost where t: "t = lost @ ?es" and l: "length lost \<le> dropped (aggregate b)"
    and n: "0 < cap_aggregate b" "length ?es \<le> cap_aggregate b"
    using assms by (auto simp: holds_timeline_def)
  let ?k = "Suc (length ?es) - cap_aggregate b"
  have "take ?k (?es @ [e]) @ last_of (cap_aggregate b) (?es @ [e]) = ?es @ [e]"
    unfolding last_of_def length_append_singleton by (rule append_take_drop_id)
  then have "t @ [e] = (lost @ take ?k (?es @ [e])) @ last_of (cap_aggregate b) (?es @ [e])"
    unfolding append_assoc t by simp
  with l n show ?thesis
    by (auto simp: holds_timeline_def rb_push_def retain_eq intro!: exI [of _ "lost @ take ?k (?es @ [e])"])
qed

lemma holds_timeline_step: "holds_timeline b t \<Longrightarrow> holds_timeline (rb_step b x) (timed t x)"
proof (cases x)
  case (Forget i)
  assume "holds_timeline b t"
  then obtain lost where t: "t = lost @ entries (aggregate b)" and l: "length lost \<le> dropped (aggregate b)"
    and n: "0 < cap_aggregate b" "length (entries (aggregate b)) \<le> cap_aggregate b"
    by (auto simp: holds_timeline_def)
  then show ?thesis
    using le_trans [OF length_filter_le l] le_trans [OF length_filter_le n(2)]
    by (auto simp: Forget holds_timeline_def rb_forget_def)
qed (auto simp: holds_timeline_push, auto simp: holds_timeline_def rb_clear_def empty_ring_def)

lemma holds_history_run:
  "holds_history b h \<Longrightarrow> holds_history (rb_run b ops) (\<lambda>i. foldl (noted i) (h i) ops)"
  unfolding rb_run_def by (induction ops arbitrary: b h) (auto dest: holds_history_step)

lemma holds_timeline_run: "holds_timeline b t \<Longrightarrow> holds_timeline (rb_run b ops) (foldl timed t ops)"
  unfolding rb_run_def by (induction ops arbitrary: b t) (auto dest: holds_timeline_step)

lemma createRetentionBuffer_Inr:
  "createRetentionBuffer p a = Inr b \<longleftrightarrow> isPositiveInteger p \<and> isPositiveInteger a \<and>
     b = \<lparr>cap_perSource = nat_of_num p, cap_aggregate = nat_of_num a, aggregate = empty_ring,
          perSource = Map.empty\<rparr>"
  by (auto simp: createRetentionBuffer_def)

lemma created_holds:
  assumes "createRetentionBuffer p a = Inr b"
  shows "holds_history b (\<lambda>_. [])" "holds_timeline b []"
  using assms isPositiveInteger_nat [of p] isPositiveInteger_nat [of a]
  by (auto simp: createRetentionBuffer_Inr holds_history_def holds_timeline_def ringFor_def empty_ring_def
      last_of_def)

lemma run_caps: "cap_perSource (rb_run b ops) = cap_perSource b" "cap_aggregate (rb_run b ops) = cap_aggregate b"
  unfolding rb_run_def by (induction ops arbitrary: b) auto

section \<open>Properties of the buffer\<close>

text \<open>A source's ring holds exactly the most recent events pushed for it since it was last
  forgotten or cleared, oldest first, and its counter is exactly the number of the older ones.\<close>

theorem ring_is_recent_history:
  assumes "createRetentionBuffer p a = Inr b"
  shows "rb_perSource (rb_run b ops) i = last_of (nat_of_num p) (history i ops) \<and>
    droppedForSource (rb_run b ops) i = length (history i ops) - nat_of_num p"
  using holds_history_run [OF created_holds(1) [OF assms], of ops] assms
  by (auto simp: holds_history_def run_caps rb_perSource_def droppedForSource_def history_def
      createRetentionBuffer_Inr)

definition sample_entry :: "nat \<Rightarrow> retention_entry" where
  "sample_entry n = \<lparr>re_id = \<lparr>sid_kind = ''http'', sid_instance = ''main''\<rparr>, re_seq = n,
     re_event = \<lparr>ev_kind = ''request'', ev_label = ''GET'', ev_severity = SevInfo, ev_at = Fin 12,
       ev_summary = None, ev_detail = None\<rparr>\<rparr>"

theorem ring_is_recent_history_witness:
  "\<exists>b. createRetentionBuffer (Fin 1) (Fin 5) = Inr b \<and>
     rb_perSource (rb_run b [Push (sample_entry 1), Push (sample_entry 2)]) (re_id (sample_entry 1)) =
       [sample_entry 2] \<and>
     droppedForSource (rb_run b [Push (sample_entry 1), Push (sample_entry 2)]) (re_id (sample_entry 1)) = 1"
proof -
  obtain b where b: "createRetentionBuffer (Fin 1) (Fin 5) = Inr b"
    by (simp add: createRetentionBuffer_def isPositiveInteger_def is_safe_integer_def max_safe_integer_def)
  show ?thesis
    using b ring_is_recent_history [OF b, of "[Push (sample_entry 1), Push (sample_entry 2)]"
        "re_id (sample_entry 1)"]
    by (auto simp: history_def sample_entry_def nat_of_num_def last_of_def)
qed

text \<open>The aggregate timeline is within its capacity and is the tail of the timeline an
  unbounded buffer would hold, with the forgotten sources gone from it; it lacks no more entries than
  its counter says, so with the counter at zero nothing is missing.\<close>

theorem aggregate_is_timeline_tail:
  assumes "createRetentionBuffer p a = Inr b"
  shows "length (rb_aggregate (rb_run b ops)) \<le> nat_of_num a \<and>
    (\<exists>lost. timeline ops = lost @ rb_aggregate (rb_run b ops) \<and>
       length lost \<le> droppedAggregate (rb_run b ops))"
  using holds_timeline_run [OF created_holds(2) [OF assms], of ops] assms
  by (auto simp: holds_timeline_def run_caps rb_aggregate_def droppedAggregate_def timeline_def
      createRetentionBuffer_Inr)

theorem aggregate_is_timeline_tail_witness:
  "\<exists>b lost. createRetentionBuffer (Fin 1) (Fin 5) = Inr b \<and>
     timeline [Push (sample_entry 1), Push (sample_entry 2)] =
       lost @ rb_aggregate (rb_run b [Push (sample_entry 1), Push (sample_entry 2)])"
proof -
  obtain b where b: "createRetentionBuffer (Fin 1) (Fin 5) = Inr b"
    by (simp add: createRetentionBuffer_def isPositiveInteger_def is_safe_integer_def max_safe_integer_def)
  show ?thesis
    using b aggregate_is_timeline_tail [OF b, of "[Push (sample_entry 1), Push (sample_entry 2)]"] by blast
qed

end
