(* ===== verification/Devtools_Store.thy ===== *)
theory Devtools_Store imports Devtools_Retention begin

text \<open>
  The client-side model of a session, \<open>createDevtoolsStore\<close>
  (\<^verbatim>\<open>packages/devtools/src/store/store.ts\<close>). Messages from the port, the snapshots it returns and the
  calls of the renderer are the inputs of one step function; \<open>Changed\<close> is the emission to its
  subscribers. Descriptors and indicators are compared by reference in the code, so they carry the
  identity of their object. Sequence numbers, validated as positive integers by the port, are naturals.

  The lemmas show that the visible timeline is bounded and free of duplicates, that sequence guards and
  clear marks hold whatever order messages and snapshots arrive in, that cleared history stays hidden,
  and when the published state is the model.
\<close>

section \<open>State\<close>

type_synonym 'a obj = "nat \<times> 'a"  \<comment> \<open>an object with its identity\<close>

type_synonym indicator_entry = "source_id \<times> status_indicator obj"

record devtools_snapshot =
  sn_sources :: "source_descriptor obj list"
  sn_events :: "retention_entry list"
  sn_indicators :: "indicator_entry list"
  sn_failures :: "(source_id \<times> jsval) list"
  sn_droppedAggregate :: nat
  sn_droppedBySource :: "(source_id \<times> nat) list"

record model =
  md_sources :: "source_descriptor obj jsmap"
  md_failures :: "jsval jsmap"
  md_events :: "retention_entry list"
  md_indicators :: "indicator_entry jsmap jsmap"
  md_droppedAggregate :: nat
  md_droppedBySource :: "nat jsmap"
  md_lastSeq :: "nat jsmap"
  md_clearedSeq :: "nat jsmap"
  md_paused :: bool
  md_disposed :: bool

record store_state =
  ss_sources :: "source_descriptor obj list"
  ss_failures :: "jsval jsmap"
  ss_events :: "retention_entry list"
  ss_indicators :: "indicator_entry list"
  ss_droppedAggregate :: nat
  ss_droppedBySource :: "nat jsmap"
  ss_paused :: bool
  ss_disposed :: bool

record store =
  st_capacity :: nat
  st_model :: model
  st_state :: store_state
  st_disposed :: bool

datatype store_output = Changed

definition DEFAULT_CAPACITY :: jsnum where
  "DEFAULT_CAPACITY = Fin 500"

section \<open>Operations\<close>

definition snapshotOf :: "model \<Rightarrow> store_state" where
  "snapshotOf next = \<lparr>ss_sources = map_values (md_sources next), ss_failures = md_failures next,
     ss_events = md_events next, ss_indicators = concat (map map_values (map_values (md_indicators next))),
     ss_droppedAggregate = md_droppedAggregate next, ss_droppedBySource = md_droppedBySource next,
     ss_paused = md_paused next, ss_disposed = md_disposed next\<rparr>"

text \<open>\<open>mutate\<close> changes the model and says whether to publish; the model keeps its changes either way.\<close>

definition publish :: "store \<Rightarrow> (model \<Rightarrow> model \<times> bool) \<Rightarrow> store \<times> store_output list" where
  "publish st mutate =
     (if st_disposed st \<or> md_disposed (st_model st) then (st, [])
      else case mutate (st_model st) of
        (md, False) \<Rightarrow> (st\<lparr>st_model := md\<rparr>, [])
      | (md, True) \<Rightarrow> (st\<lparr>st_model := md, st_state := snapshotOf md\<rparr>, [Changed]))"

definition seq_of :: "nat jsmap \<Rightarrow> string \<Rightarrow> nat" where
  "seq_of m key = (case map_get m key of None \<Rightarrow> 0 | Some n \<Rightarrow> n)"

text \<open>Appending an entry and splicing the overflow from the front.\<close>

definition append_event :: "nat \<Rightarrow> model \<Rightarrow> retention_entry \<Rightarrow> model" where
  "append_event capacity md entry =
     (let events = md_events md @ [entry]
      in md\<lparr>md_events := if length events > capacity then drop (length events - capacity) events else events\<rparr>)"

definition pushEvent :: "nat \<Rightarrow> retention_entry \<Rightarrow> model \<Rightarrow> model \<times> bool" where
  "pushEvent capacity entry md =
     (if md_paused md then (md, False)
      else
        let key = sourceKey (re_id entry)
        in if re_seq entry \<le> seq_of (md_lastSeq md) key then (md, False)
           else (append_event capacity (md\<lparr>md_lastSeq := map_set key (re_seq entry) (md_lastSeq md)\<rparr>) entry, True))"

definition removeSource :: "source_id \<Rightarrow> model \<Rightarrow> model \<times> bool" where
  "removeSource sid md =
     (let key = sourceKey sid;
          hadEvents = (\<exists>e \<in> set (md_events md). sourceKey (re_id e) = key)
      in (md\<lparr>md_events := filter (\<lambda>e. sourceKey (re_id e) \<noteq> key) (md_events md),
             md_sources := map_delete key (md_sources md),
             md_failures := map_delete key (md_failures md),
             md_indicators := map_delete key (md_indicators md),
             md_droppedBySource := map_delete key (md_droppedBySource md),
             md_lastSeq := map_delete key (md_lastSeq md),
             md_clearedSeq := map_delete key (md_clearedSeq md)\<rparr>,
          map_has (md_sources md) key \<or> map_has (md_failures md) key \<or> map_has (md_indicators md) key \<or>
          map_has (md_droppedBySource md) key \<or> map_has (md_lastSeq md) key \<or>
          map_has (md_clearedSeq md) key \<or> hadEvents))"

definition pushReplayed :: "nat \<Rightarrow> model \<Rightarrow> retention_entry \<Rightarrow> model" where
  "pushReplayed capacity md entry =
     (let key = sourceKey (re_id entry) in
      if re_seq entry \<le> seq_of (md_clearedSeq md) key then md
      else
        let md1 = (if re_seq entry > seq_of (md_lastSeq md) key
                   then md\<lparr>md_lastSeq := map_set key (re_seq entry) (md_lastSeq md)\<rparr> else md)
        in if \<exists>existing \<in> set (md_events md1). sourceKey (re_id existing) = key \<and> re_seq existing = re_seq entry
           then md1 else append_event capacity md1 entry)"

text \<open>Filing an indicator under its source and its own id.\<close>

definition put_indicator :: "indicator_entry jsmap jsmap \<Rightarrow> indicator_entry \<Rightarrow> indicator_entry jsmap jsmap" where
  "put_indicator inds entry =
     (let key = sourceKey (fst entry); ents = (case map_get inds key of None \<Rightarrow> [] | Some es \<Rightarrow> es)
      in map_set key (map_set (ind_id (snd (snd entry))) entry ents) inds)"

definition hydrate :: "nat \<Rightarrow> devtools_snapshot \<Rightarrow> model \<Rightarrow> model" where
  "hydrate capacity sn md =
     foldl (pushReplayed capacity)
       (md\<lparr>md_sources := map_new (map (\<lambda>d. (sourceKey (src_id (snd d)), d)) (sn_sources sn)),
           md_failures := map_new (map (\<lambda>(i, e). (sourceKey i, e)) (sn_failures sn)),
           md_indicators := foldl put_indicator [] (sn_indicators sn),
           md_droppedAggregate := sn_droppedAggregate sn,
           md_droppedBySource := map_new (map (\<lambda>(i, c). (sourceKey i, c)) (sn_droppedBySource sn)),
           md_events := []\<rparr>)
       (sn_events sn)"

definition sourceAdded :: "source_descriptor obj \<Rightarrow> model \<Rightarrow> model \<times> bool" where
  "sourceAdded src md =
     (let key = sourceKey (src_id (snd src));
          existing = map_get (md_sources md) key;
          md1 = md\<lparr>md_failures := map_delete key (md_failures md)\<rparr>
      in if map_option fst existing = Some (fst src) then (md1, False)
         else (md1\<lparr>md_sources := map_set key src (md_sources md)\<rparr>, True))"

definition indicatorReceived :: "source_id \<Rightarrow> status_indicator obj \<Rightarrow> model \<Rightarrow> model \<times> bool" where
  "indicatorReceived sid ind md =
     (let key = sourceKey sid;
          inds = (case map_get (md_indicators md) key of
             None \<Rightarrow> map_set key [] (md_indicators md) | Some _ \<Rightarrow> md_indicators md);
          ents = (case map_get inds key of None \<Rightarrow> [] | Some es \<Rightarrow> es)
      in if map_option (fst \<circ> snd) (map_get ents (ind_id (snd ind))) = Some (fst ind)
         then (md\<lparr>md_indicators := inds\<rparr>, False)
         else (md\<lparr>md_indicators := map_set key (map_set (ind_id (snd ind)) (sid, ind) ents) inds\<rparr>, True))"

definition droppedReceived :: "source_id option \<Rightarrow> nat \<Rightarrow> model \<Rightarrow> model \<times> bool" where
  "droppedReceived sid n md =
     (case sid of
        None \<Rightarrow> if md_droppedAggregate md = n then (md, False) else (md\<lparr>md_droppedAggregate := n\<rparr>, True)
      | Some i \<Rightarrow> (md\<lparr>md_droppedBySource := map_set (sourceKey i) n (md_droppedBySource md)\<rparr>, True))"

text \<open>A message with the identity of the descriptor or indicator object it carries.\<close>

fun receive :: "store \<Rightarrow> message \<Rightarrow> nat \<Rightarrow> store \<times> store_output list" where
  "receive st (SourceAdded d) a = publish st (sourceAdded (a, d))"
| "receive st (SourceRemoved i) a = publish st (removeSource i)"
| "receive st (SourceFailed i e) a =
     publish st (\<lambda>md. (md\<lparr>md_failures := map_set (sourceKey i) e (md_failures md)\<rparr>, True))"
| "receive st (SourceRecovered i) a =
     publish st (\<lambda>md. (md\<lparr>md_failures := map_delete (sourceKey i) (md_failures md)\<rparr>,
                       map_has (md_failures md) (sourceKey i)))"
| "receive st (EventMessage i n e) a =
     publish st (pushEvent (st_capacity st) \<lparr>re_id = i, re_seq = nat_of_num n, re_event = e\<rparr>)"
| "receive st (IndicatorMessage i x) a = publish st (indicatorReceived i (a, x))"
| "receive st (DroppedMessage i n) a = publish st (droppedReceived i (nat_of_num n))"
| "receive st Disposed a =
     (if \<not> st_disposed st \<and> \<not> md_disposed (st_model st)
      then (let md = (st_model st)\<lparr>md_disposed := True\<rparr>
            in (st\<lparr>st_model := md, st_state := snapshotOf md\<rparr>, [Changed]))
      else (st, []))"
| "receive st _ a = (st, [])"

definition st_pause :: "store \<Rightarrow> store \<times> store_output list" where
  "st_pause st = publish st (\<lambda>md. if md_paused md then (md, False) else (md\<lparr>md_paused := True\<rparr>, True))"

definition st_resume :: "store \<Rightarrow> devtools_snapshot \<Rightarrow> store \<times> store_output list" where
  "st_resume st sn = publish st (\<lambda>md.
     if \<not> md_paused md then (md, False) else (hydrate (st_capacity st) sn (md\<lparr>md_paused := False\<rparr>), True))"

definition raise_marks :: "nat jsmap \<Rightarrow> nat jsmap \<Rightarrow> nat jsmap" where
  "raise_marks cleared seen = foldl (\<lambda>m (key, seq). map_set key (max (seq_of m key) seq) m) cleared seen"

definition clearTimeline :: "model \<Rightarrow> model \<times> bool" where
  "clearTimeline md =
     (let md1 = md\<lparr>md_clearedSeq := raise_marks (md_clearedSeq md) (md_lastSeq md)\<rparr>
      in if md_events md1 = [] \<and> md_clearedSeq md1 = [] then (md1, False) else (md1\<lparr>md_events := []\<rparr>, True))"

definition st_clear :: "store \<Rightarrow> store \<times> store_output list" where
  "st_clear st = publish st clearTimeline"

text \<open>After \<open>dispose\<close> the port no longer delivers.\<close>

definition st_dispose :: "store \<Rightarrow> store" where
  "st_dispose st = st\<lparr>st_disposed := True\<rparr>"

definition empty_model :: model where
  "empty_model = \<lparr>md_sources = [], md_failures = [], md_events = [], md_indicators = [],
     md_droppedAggregate = 0, md_droppedBySource = [], md_lastSeq = [], md_clearedSeq = [],
     md_paused = False, md_disposed = False\<rparr>"

definition createDevtoolsStore :: "jsnum option \<Rightarrow> devtools_snapshot \<Rightarrow> string + store" where
  "createDevtoolsStore cap sn =
     (let capacity = (case cap of None \<Rightarrow> DEFAULT_CAPACITY | Some c \<Rightarrow> c) in
      if \<not> isPositiveInteger capacity then Inl ''Store capacity must be a positive safe integer.''
      else Inr (fst (publish
        \<lparr>st_capacity = nat_of_num capacity, st_model = empty_model, st_state = snapshotOf empty_model,
         st_disposed = False\<rparr>
        (\<lambda>md. (hydrate (nat_of_num capacity) sn md, True)))))"

datatype store_input =
    Receive message nat
  | Pause
  | Resume devtools_snapshot
  | ClearTimeline
  | DisposeStore

fun store_step :: "store \<Rightarrow> store_input \<Rightarrow> store \<times> store_output list" where
  "store_step st (Receive m a) = (if st_disposed st then (st, []) else receive st m a)"
| "store_step st Pause = st_pause st"
| "store_step st (Resume sn) = st_resume st sn"
| "store_step st ClearTimeline = st_clear st"
| "store_step st DisposeStore = (st_dispose st, [])"

section \<open>Invariant\<close>

definition model_inv :: "nat \<Rightarrow> model \<Rightarrow> bool" where
  "model_inv capacity md = (0 < capacity \<and> length (md_events md) \<le> capacity \<and>
     wf_map (md_lastSeq md) \<and>
     distinct (map (\<lambda>e. (re_id e, re_seq e)) (md_events md)) \<and>
     (\<forall>e \<in> set (md_events md). seq_of (md_clearedSeq md) (sourceKey (re_id e)) < re_seq e \<and>
        re_seq e \<le> seq_of (md_lastSeq md) (sourceKey (re_id e))) \<and>
     (\<forall>k. seq_of (md_clearedSeq md) k \<le> seq_of (md_lastSeq md) k))"

lemma seq_of_set [simp]: "seq_of (map_set k n m) k' = (if k' = k then n else seq_of m k')"
  by (simp add: seq_of_def)

lemma seq_of_delete [simp]: "seq_of (map_delete k m) k' = (if k' = k then 0 else seq_of m k')"
  by (simp add: seq_of_def)

lemma append_event_events: "md_events (append_event capacity md e) = last_of capacity (md_events md @ [e])"
  by (simp add: append_event_def last_of_def Let_def)

lemma append_event_rest [simp]:
  "md_sources (append_event capacity md e) = md_sources md"
  "md_failures (append_event capacity md e) = md_failures md"
  "md_indicators (append_event capacity md e) = md_indicators md"
  "md_droppedAggregate (append_event capacity md e) = md_droppedAggregate md"
  "md_droppedBySource (append_event capacity md e) = md_droppedBySource md"
  "md_lastSeq (append_event capacity md e) = md_lastSeq md"
  "md_clearedSeq (append_event capacity md e) = md_clearedSeq md"
  "md_paused (append_event capacity md e) = md_paused md"
  "md_disposed (append_event capacity md e) = md_disposed md"
  by (simp_all add: append_event_def Let_def)

lemma set_last_of: "set (last_of n xs) \<subseteq> set xs"
  by (simp add: last_of_def set_drop_subset)

lemma distinct_last_of: "distinct (map f xs) \<Longrightarrow> distinct (map f (last_of n xs))"
  by (simp add: last_of_def flip: drop_map)

lemma append_event_inv:
  assumes "model_inv capacity md" "seq_of (md_clearedSeq md) (sourceKey (re_id e)) < re_seq e"
    "seq_of (md_lastSeq md) (sourceKey (re_id e)) \<ge> re_seq e"
    "\<forall>x \<in> set (md_events md). re_id x = re_id e \<longrightarrow> re_seq x \<noteq> re_seq e"
  shows "model_inv capacity (append_event capacity md e)"
proof -
  have "distinct (map (\<lambda>e. (re_id e, re_seq e)) (md_events md @ [e]))"
    using assms(1,4) by (auto simp: model_inv_def)
  then have "distinct (map (\<lambda>e. (re_id e, re_seq e)) (last_of capacity (md_events md @ [e])))"
    by (rule distinct_last_of)
  moreover have "\<forall>x \<in> set (last_of capacity (md_events md @ [e])). x = e \<or> x \<in> set (md_events md)"
    using set_last_of by fastforce
  ultimately show ?thesis
    using assms(1-3) unfolding model_inv_def append_event_events append_event_rest by auto
qed

lemma raise_last_inv:
  assumes "model_inv capacity md" "seq_of (md_lastSeq md) k \<le> n"
  shows "model_inv capacity (md\<lparr>md_lastSeq := map_set k n (md_lastSeq md)\<rparr>)"
  using assms unfolding model_inv_def by (auto intro: order_trans)

lemma pushEvent_inv:
  assumes "model_inv capacity md"
  shows "model_inv capacity (fst (pushEvent capacity e md))"
proof (cases "md_paused md \<or> re_seq e \<le> seq_of (md_lastSeq md) (sourceKey (re_id e))")
  case True
  then show ?thesis using assms by (auto simp: pushEvent_def Let_def)
next
  case False
  let ?md = "md\<lparr>md_lastSeq := map_set (sourceKey (re_id e)) (re_seq e) (md_lastSeq md)\<rparr>"
  have le: "seq_of (md_clearedSeq md) k \<le> seq_of (md_lastSeq md) k" for k
    using assms by (simp add: model_inv_def)
  have "model_inv capacity ?md"
    using assms False by (intro raise_last_inv) auto
  moreover have "\<forall>x \<in> set (md_events md). re_id x = re_id e \<longrightarrow> re_seq x \<noteq> re_seq e"
    using assms False by (auto simp: model_inv_def)
  ultimately have "model_inv capacity (append_event capacity ?md e)"
    using False le [of "sourceKey (re_id e)"] by (intro append_event_inv) auto
  with False show ?thesis by (simp add: pushEvent_def Let_def)
qed

lemma pushReplayed_inv:
  assumes "model_inv capacity md"
  shows "model_inv capacity (pushReplayed capacity md e)"
proof (cases "re_seq e \<le> seq_of (md_clearedSeq md) (sourceKey (re_id e))")
  case True
  then show ?thesis using assms by (simp add: pushReplayed_def Let_def)
next
  case False
  let ?k = "sourceKey (re_id e)"
  define md1 where "md1 = (if re_seq e > seq_of (md_lastSeq md) ?k
     then md\<lparr>md_lastSeq := map_set ?k (re_seq e) (md_lastSeq md)\<rparr> else md)"
  have le: "seq_of (md_clearedSeq md) ?k \<le> seq_of (md_lastSeq md) ?k"
    using assms by (simp add: model_inv_def)
  have "model_inv capacity md1"
    using assms raise_last_inv [OF assms, of ?k "re_seq e"] by (simp add: md1_def)
  moreover have "seq_of (md_clearedSeq md1) ?k < re_seq e" "re_seq e \<le> seq_of (md_lastSeq md1) ?k"
    using False by (auto simp: md1_def)
  moreover have "pushReplayed capacity md e =
      (if \<exists>x \<in> set (md_events md1). sourceKey (re_id x) = ?k \<and> re_seq x = re_seq e then md1
       else append_event capacity md1 e)"
    using False by (auto simp: pushReplayed_def Let_def md1_def)
  ultimately show ?thesis by (auto intro!: append_event_inv)
qed

lemma foldl_keeps: "(\<And>a x. P a \<Longrightarrow> P (f a x)) \<Longrightarrow> P a \<Longrightarrow> P (foldl f a xs)"
  by (induction xs arbitrary: a) auto

lemma hydrate_inv: "model_inv capacity md \<Longrightarrow> model_inv capacity (hydrate capacity sn md)"
  unfolding hydrate_def
  by (rule foldl_keeps [where P = "model_inv capacity"]) (auto simp: pushReplayed_inv, simp add: model_inv_def)

lemma raise_marks_seq:
  assumes "wf_map seen"
  shows "seq_of (raise_marks m seen) k = max (seq_of m k) (seq_of seen k)"
  using assms unfolding raise_marks_def
proof (induction seen arbitrary: m)
  case Nil
  then show ?case by (simp add: seq_of_def)
next
  case (Cons x seen)
  obtain k' n where x: "x = (k', n)" by (cases x)
  have "map_get seen k' = None" using Cons.prems by (simp add: x map_of_eq_None_iff)
  then have "seq_of seen k' = 0" by (simp add: seq_of_def)
  then have s: "seq_of (x # seen) k = (if k = k' then n else seq_of seen k)" "k = k' \<Longrightarrow> seq_of seen k = 0"
    by (simp_all add: x seq_of_def)
  have "seq_of (foldl (\<lambda>m (key, seq). map_set key (max (seq_of m key) seq) m)
      (map_set k' (max (seq_of m k') n) m) seen) k =
      max (seq_of (map_set k' (max (seq_of m k') n) m) k) (seq_of seen k)"
    using Cons by (simp add: x)
  with s show ?case by (cases "k = k'") (simp_all add: x)
qed

lemma removeSource_inv: "model_inv capacity md \<Longrightarrow> model_inv capacity (fst (removeSource i md))"
  by (auto simp: removeSource_def model_inv_def Let_def distinct_map_filter intro: le_trans [OF length_filter_le])

text \<open>The published state apart from the failures.\<close>

definition view :: "model \<Rightarrow> store_state" where
  "view md = (snapshotOf md)\<lparr>ss_failures := []\<rparr>"

definition synced :: "store \<Rightarrow> bool" where
  "synced st = ((st_state st)\<lparr>ss_failures := []\<rparr> = view (st_model st))"

definition in_sync :: "store \<Rightarrow> bool" where
  "in_sync st = (st_state st = snapshotOf (st_model st))"

definition store_inv :: "store \<Rightarrow> bool" where
  "store_inv st = (model_inv (st_capacity st) (st_model st) \<and> synced st)"

lemma synced_updates [simp]: "synced (st\<lparr>st_disposed := b\<rparr>) = synced st"
  by (simp add: synced_def)

text \<open>What \<open>publish\<close> asks of a mutation: it keeps the invariant, and it publishes what it changes.\<close>

definition sound :: "nat \<Rightarrow> (model \<Rightarrow> model \<times> bool) \<Rightarrow> bool" where
  "sound capacity f = (\<forall>md. model_inv capacity md \<longrightarrow> model_inv capacity (fst (f md)) \<and>
     (\<not> snd (f md) \<longrightarrow> view (fst (f md)) = view md))"

lemma publish_inv:
  assumes "store_inv st" "sound (st_capacity st) f"
  shows "store_inv (fst (publish st f)) \<and> st_capacity (fst (publish st f)) = st_capacity st"
  using assms
  by (cases "f (st_model st)"; cases "snd (f (st_model st))")
    (auto simp: store_inv_def sound_def publish_def synced_def view_def dest!: spec [where x = "st_model st"])

lemma model_inv_fields [simp]:
  "model_inv capacity (md\<lparr>md_failures := x\<rparr>) = model_inv capacity md"
  "model_inv capacity (md\<lparr>md_sources := y\<rparr>) = model_inv capacity md"
  "model_inv capacity (md\<lparr>md_indicators := z\<rparr>) = model_inv capacity md"
  "model_inv capacity (md\<lparr>md_droppedAggregate := u\<rparr>) = model_inv capacity md"
  "model_inv capacity (md\<lparr>md_droppedBySource := v\<rparr>) = model_inv capacity md"
  "model_inv capacity (md\<lparr>md_paused := p\<rparr>) = model_inv capacity md"
  "model_inv capacity (md\<lparr>md_disposed := d\<rparr>) = model_inv capacity md"
  by (simp_all add: model_inv_def)

lemma delete_absent: "\<not> map_has m k \<Longrightarrow> map_delete k m = m"
  by (auto simp: map_has_iff delete_id)

lemma clear_model_inv:
  "model_inv capacity md \<Longrightarrow>
    model_inv capacity (md\<lparr>md_clearedSeq := raise_marks (md_clearedSeq md) (md_lastSeq md), md_events := []\<rparr>)"
  by (auto simp: model_inv_def raise_marks_seq)

lemma silent_ops:
  "\<not> snd (removeSource i md) \<Longrightarrow> fst (removeSource i md) = md"
  "\<not> snd (pushEvent c entry md) \<Longrightarrow> fst (pushEvent c entry md) = md"
  "\<not> snd (indicatorReceived i ind md) \<Longrightarrow> fst (indicatorReceived i ind md) = md"
    apply (cases md; simp add: removeSource_def Let_def delete_absent)
   apply (auto simp: pushEvent_def Let_def split: if_splits)[1]
  apply (cases md; auto simp: indicatorReceived_def Let_def split: option.splits if_splits)
  done

lemma kept_ops:
  "model_inv c (fst (sourceAdded src md)) = model_inv c md"
  "model_inv c (fst (indicatorReceived i ind md)) = model_inv c md"
  "model_inv c (fst (droppedReceived d n md)) = model_inv c md"
  by (simp_all add: sourceAdded_def indicatorReceived_def droppedReceived_def Let_def split: option.splits)

lemma sound_ops:
  "sound c (removeSource i)" "sound c (pushEvent c entry)" "sound c (indicatorReceived i ind)"
  "sound c (droppedReceived d n)" "sound c (sourceAdded src)"
  "sound c (\<lambda>md. (md\<lparr>md_failures := map_set k e (md_failures md)\<rparr>, True))"
  "sound c (\<lambda>md. (md\<lparr>md_failures := map_delete k (md_failures md)\<rparr>, map_has (md_failures md) k))"
  "sound c (\<lambda>md. if md_paused md then (md, False) else (md\<lparr>md_paused := True\<rparr>, True))"
  "sound c (\<lambda>md. if \<not> md_paused md then (md, False) else (hydrate c sn (md\<lparr>md_paused := False\<rparr>), True))"
  "sound c (\<lambda>md. (hydrate c sn md, True))"
  by (auto simp: sound_def silent_ops kept_ops removeSource_inv pushEvent_inv hydrate_inv)
    (auto simp: view_def snapshotOf_def droppedReceived_def sourceAdded_def Let_def split: option.splits if_splits)

lemma sound_clear: "sound c clearTimeline"
proof -
  have "model_inv c (fst (clearTimeline md))" if "model_inv c md" for md
  proof (cases "md_events md = [] \<and> raise_marks (md_clearedSeq md) (md_lastSeq md) = []")
    case True
    then have "fst (clearTimeline md) =
        md\<lparr>md_clearedSeq := raise_marks (md_clearedSeq md) (md_lastSeq md), md_events := []\<rparr>"
      by (cases md) (simp add: clearTimeline_def Let_def)
    then show ?thesis using clear_model_inv [OF that] by simp
  next
    case False
    then have "fst (clearTimeline md) =
        md\<lparr>md_clearedSeq := raise_marks (md_clearedSeq md) (md_lastSeq md), md_events := []\<rparr>"
      by (simp add: clearTimeline_def Let_def)
    then show ?thesis using clear_model_inv [OF that] by simp
  qed
  then show ?thesis by (auto simp: sound_def clearTimeline_def Let_def view_def snapshotOf_def)
qed

lemma receive_inv:
  "store_inv st \<Longrightarrow> store_inv (fst (receive st m a)) \<and> st_capacity (fst (receive st m a)) = st_capacity st"
  by (cases m) (auto simp: publish_inv sound_ops, auto simp: store_inv_def synced_def view_def Let_def)

lemma store_step_inv:
  "store_inv st \<Longrightarrow> store_inv (fst (store_step st i)) \<and> st_capacity (fst (store_step st i)) = st_capacity st"
  by (cases i) (auto simp: receive_inv st_pause_def st_resume_def st_clear_def st_dispose_def publish_inv
      sound_ops sound_clear, auto simp: store_inv_def)

interpretation store: kept_invariant store_step store_inv
  by unfold_locales (simp add: store_step_inv)

lemma created_store:
  assumes "createDevtoolsStore cap sn = Inr st"
  shows "store_inv st \<and> in_sync st \<and> \<not> st_disposed st \<and>
     st_capacity st = nat_of_num (case cap of None \<Rightarrow> DEFAULT_CAPACITY | Some c \<Rightarrow> c)"
proof -
  let ?c = "nat_of_num (case cap of None \<Rightarrow> DEFAULT_CAPACITY | Some c \<Rightarrow> c)"
  let ?st = "\<lparr>st_capacity = ?c, st_model = empty_model, st_state = snapshotOf empty_model, st_disposed = False\<rparr>"
  have pos: "0 < ?c" and st: "st = fst (publish ?st (\<lambda>md. (hydrate ?c sn md, True)))"
    using assms isPositiveInteger_nat by (auto simp: createDevtoolsStore_def Let_def split: if_splits)
  have "store_inv ?st"
    using pos by (simp add: store_inv_def model_inv_def synced_def view_def empty_model_def seq_of_def)
  then have "store_inv st \<and> st_capacity st = ?c"
    using publish_inv [of ?st] sound_ops(10) st by simp
  moreover have "in_sync st \<and> \<not> st_disposed st"
    by (simp add: st publish_def empty_model_def in_sync_def)
  ultimately show ?thesis by blast
qed

lemma run_capacity: "store_inv st \<Longrightarrow> st_capacity (fst (run store_step st is)) = st_capacity st"
proof (induction "is" arbitrary: st)
  case (Cons i "is")
  then show ?case using store_step_inv [OF Cons.prems, of i] by (simp add: run_Cons del: run.simps(2))
qed simp

section \<open>Properties\<close>

text \<open>Claim C22: whatever messages, pauses, snapshots and clears a store sees, and in whatever order, the
  timeline it shows is at most its capacity long, shows no event twice, shows only events above the
  clear mark and up to the last sequence number seen of their source, and everything it publishes but
  the failures is its model.\<close>

theorem visible_timeline:
  assumes "createDevtoolsStore cap sn = Inr st" "run store_step st is = (st', out)"
  shows "length (ss_events (st_state st')) \<le> st_capacity st \<and>
    distinct (map (\<lambda>e. (re_id e, re_seq e)) (ss_events (st_state st'))) \<and>
    (\<forall>e \<in> set (ss_events (st_state st')).
       seq_of (md_clearedSeq (st_model st')) (sourceKey (re_id e)) < re_seq e \<and>
       re_seq e \<le> seq_of (md_lastSeq (st_model st')) (sourceKey (re_id e))) \<and>
    (st_state st')\<lparr>ss_failures := []\<rparr> = (snapshotOf (st_model st'))\<lparr>ss_failures := []\<rparr>"
proof -
  have "store_inv st'" "st_capacity st' = st_capacity st"
    using store.run_inv [of st "is"] run_capacity [of st "is"] created_store [OF assms(1)] assms(2) by auto
  moreover from this have "ss_events (st_state st') = md_events (st_model st')"
    by (cases "st_state st'") (simp add: store_inv_def synced_def view_def snapshotOf_def)
  ultimately show ?thesis by (simp add: store_inv_def model_inv_def synced_def view_def)
qed

definition sample_snapshot :: "retention_entry list \<Rightarrow> devtools_snapshot" where
  "sample_snapshot es = \<lparr>sn_sources = [], sn_events = es, sn_indicators = [], sn_failures = [],
     sn_droppedAggregate = 0, sn_droppedBySource = []\<rparr>"

definition event_message :: "retention_entry \<Rightarrow> message" where
  "event_message e = EventMessage (re_id e) (Fin (of_nat (re_seq e))) (re_event e)"

lemma small_store:
  "\<exists>st. createDevtoolsStore (Some (Fin 2)) (sample_snapshot [sample_entry 1]) = Inr st \<and> st_capacity st = 2 \<and>
     \<not> st_disposed st \<and> \<not> md_disposed (st_model st) \<and> \<not> md_paused (st_model st) \<and>
     md_events (st_model st) = [sample_entry 1] \<and> md_lastSeq (st_model st) = [(sourceKey (re_id (sample_entry 1)), 1)] \<and>
     md_clearedSeq (st_model st) = []"
  by (simp add: createDevtoolsStore_def isPositiveInteger_def is_safe_integer_def max_safe_integer_def
      publish_def empty_model_def hydrate_def sample_snapshot_def pushReplayed_def seq_of_def append_event_def
      nat_of_num_def Let_def sample_entry_def)

theorem visible_timeline_witness:
  "\<exists>st st' out. createDevtoolsStore (Some (Fin 2)) (sample_snapshot [sample_entry 1]) = Inr st \<and>
     run store_step st [Receive (event_message (sample_entry 1)) 0, Receive (event_message (sample_entry 2)) 0,
       Receive (event_message (sample_entry 3)) 0] = (st', out) \<and>
     ss_events (st_state st') = [sample_entry 2, sample_entry 3] \<and>
     length (ss_events (st_state st')) \<le> st_capacity st"
proof -
  let ?is = "[Receive (event_message (sample_entry 1)) 0, Receive (event_message (sample_entry 2)) 0,
     Receive (event_message (sample_entry 3)) 0]"
  obtain st where st: "createDevtoolsStore (Some (Fin 2)) (sample_snapshot [sample_entry 1]) = Inr st"
    "st_capacity st = 2" "\<not> st_disposed st" "\<not> md_disposed (st_model st)" "\<not> md_paused (st_model st)"
    "md_events (st_model st) = [sample_entry 1]" "md_lastSeq (st_model st) = [(sourceKey (re_id (sample_entry 1)), 1)]"
    using small_store by blast
  obtain st' out where r: "run store_step st ?is = (st', out)" by (cases "run store_step st ?is")
  have "ss_events (st_state (fst (run store_step st ?is))) = [sample_entry 2, sample_entry 3]"
    using st by (simp add: publish_def pushEvent_def seq_of_def append_event_def Let_def event_message_def
        nat_of_num_def sample_entry_def snapshotOf_def)
  then show ?thesis using visible_timeline [OF st(1) r] st(1) r by auto
qed

section \<open>Cleared history stays hidden\<close>

definition keeps_marks :: "source_id \<Rightarrow> (model \<Rightarrow> model \<times> bool) \<Rightarrow> bool" where
  "keeps_marks j f = (\<forall>md. wf_map (md_lastSeq md) \<longrightarrow>
     seq_of (md_clearedSeq md) (sourceKey j) \<le> seq_of (md_clearedSeq (fst (f md))) (sourceKey j))"

lemma publish_marks:
  assumes "keeps_marks j f" "store_inv st"
  shows "seq_of (md_clearedSeq (st_model st)) (sourceKey j) \<le>
     seq_of (md_clearedSeq (st_model (fst (publish st f)))) (sourceKey j)"
  using assms by (cases "f (st_model st)"; cases "snd (f (st_model st))")
    (auto simp: keeps_marks_def publish_def store_inv_def model_inv_def dest!: spec [where x = "st_model st"])

lemma hydrate_cleared: "md_clearedSeq (hydrate c sn md) = md_clearedSeq md"
  unfolding hydrate_def
  by (rule foldl_keeps [where P = "\<lambda>m. md_clearedSeq m = md_clearedSeq md"]) (auto simp: pushReplayed_def Let_def)

lemma clear_cleared:
  "md_clearedSeq (fst (clearTimeline md)) = raise_marks (md_clearedSeq md) (md_lastSeq md)"
  by (simp add: clearTimeline_def Let_def)

lemma keeps_marks_ops:
  "j \<noteq> i \<Longrightarrow> keeps_marks j (removeSource i)" "keeps_marks j (pushEvent c entry)" "keeps_marks j (indicatorReceived i ind)"
  "keeps_marks j (droppedReceived d n)" "keeps_marks j (sourceAdded src)" "keeps_marks j clearTimeline"
  "keeps_marks j (\<lambda>md. (md\<lparr>md_failures := map_set k e (md_failures md)\<rparr>, True))"
  "keeps_marks j (\<lambda>md. (md\<lparr>md_failures := map_delete k (md_failures md)\<rparr>, map_has (md_failures md) k))"
  "keeps_marks j (\<lambda>md. if md_paused md then (md, False) else (md\<lparr>md_paused := True\<rparr>, True))"
  "keeps_marks j (\<lambda>md. if \<not> md_paused md then (md, False) else (hydrate c sn (md\<lparr>md_paused := False\<rparr>), True))"
  by (auto simp: keeps_marks_def removeSource_def pushEvent_def indicatorReceived_def droppedReceived_def
      sourceAdded_def clear_cleared raise_marks_seq hydrate_cleared Let_def split: option.splits)

text \<open>The inputs that make a store forget the marks of a source.\<close>

fun removes :: "source_id \<Rightarrow> store_input \<Rightarrow> bool" where
  "removes j (Receive (SourceRemoved i) a) = (i = j)"
| "removes j _ = False"

lemma mark_step:
  assumes "store_inv st" "\<not> removes j i"
  shows "seq_of (md_clearedSeq (st_model st)) (sourceKey j) \<le>
     seq_of (md_clearedSeq (st_model (fst (store_step st i)))) (sourceKey j)"
proof (cases i)
  case (Receive m a)
  with assms show ?thesis by (cases m) (auto simp: publish_marks keeps_marks_ops Let_def)
qed (use assms in \<open>auto simp: publish_marks keeps_marks_ops st_pause_def st_resume_def st_clear_def st_dispose_def\<close>)

lemma mark_run:
  assumes "store_inv st" "\<forall>i \<in> set is. \<not> removes j i"
  shows "seq_of (md_clearedSeq (st_model st)) (sourceKey j) \<le>
     seq_of (md_clearedSeq (st_model (fst (run store_step st is)))) (sourceKey j)"
  using assms
proof (induction "is" arbitrary: st)
  case (Cons i "is")
  have "store_inv (fst (store_step st i))" using store_step_inv Cons.prems(1) by blast
  with Cons.IH [of "fst (store_step st i)"] mark_step [of st j i] Cons.prems show ?case
    by (simp add: run_Cons del: run.simps(2))
qed simp

lemma clear_raises_mark:
  assumes "store_inv st" "\<not> st_disposed st" "\<not> md_disposed (st_model st)"
  shows "seq_of (md_lastSeq (st_model st)) k \<le> seq_of (md_clearedSeq (st_model (fst (st_clear st)))) k"
  using assms clear_cleared [of "st_model st"] raise_marks_seq [of "md_lastSeq (st_model st)" "md_clearedSeq (st_model st)" k]
  by (auto simp: st_clear_def publish_def store_inv_def model_inv_def split: prod.splits bool.splits)

lemma events_published: "store_inv st \<Longrightarrow> ss_events (st_state st) = md_events (st_model st)"
  by (cases "st_state st") (simp add: store_inv_def synced_def view_def snapshotOf_def)

text \<open>Claim C30: once cleared, the history of a source never comes back: as long as the source is not
  removed, whatever messages, pauses and snapshots follow, nothing shown for it later was shown before
  or is numbered up to the last event seen before the clear.\<close>

theorem cleared_stays_hidden:
  assumes "createDevtoolsStore cap sn = Inr st0" "run store_step st0 is = (st1, out1)"
    and "\<not> st_disposed st1" "\<not> md_disposed (st_model st1)"
    and "run store_step (fst (store_step st1 ClearTimeline)) js = (st3, out3)"
    and "\<forall>i \<in> set js. \<not> removes j i" "e \<in> set (ss_events (st_state st3))" "re_id e = j"
  shows "seq_of (md_lastSeq (st_model st1)) (sourceKey j) < re_seq e \<and> e \<notin> set (ss_events (st_state st1))"
proof -
  let ?st2 = "fst (store_step st1 ClearTimeline)"
  have inv: "store_inv st1" "store_inv ?st2" "store_inv st3"
    using store.run_inv created_store [OF assms(1)] assms(2,5) store_step_inv
    by (metis fst_conv)+
  have "seq_of (md_lastSeq (st_model st1)) (sourceKey j) \<le> seq_of (md_clearedSeq (st_model st3)) (sourceKey j)"
    using clear_raises_mark [OF inv(1) assms(3,4), of "sourceKey j"] mark_run [OF inv(2) assms(6)] assms(5) by simp
  with inv assms(7,8) have less: "seq_of (md_lastSeq (st_model st1)) (sourceKey j) < re_seq e"
    by (fastforce simp: events_published store_inv_def model_inv_def)
  then have "e \<notin> set (ss_events (st_state st1))"
    using inv(1) assms(8) by (fastforce simp: events_published store_inv_def model_inv_def)
  with less show ?thesis by blast
qed

lemma cleared_run:
  assumes "st_capacity st = 2" "\<not> st_disposed st" "\<not> md_disposed (st_model st)" "\<not> md_paused (st_model st)"
     "md_events (st_model st) = [sample_entry 1]" "md_lastSeq (st_model st) = [(sourceKey (re_id (sample_entry 1)), 1)]"
     "md_clearedSeq (st_model st) = []"
  shows "ss_events (st_state (fst (run store_step (fst (store_step st ClearTimeline))
     [Pause, Resume (sample_snapshot [sample_entry 1, sample_entry 2])]))) = [sample_entry 2]"
  using assms
  by (simp add: st_clear_def st_pause_def st_resume_def publish_def clearTimeline_def raise_marks_def seq_of_def
      hydrate_def sample_snapshot_def pushReplayed_def append_event_def sample_entry_def snapshotOf_def Let_def)

theorem cleared_stays_hidden_witness:
  "\<exists>st st3 out3. createDevtoolsStore (Some (Fin 2)) (sample_snapshot [sample_entry 1]) = Inr st \<and>
     run store_step (fst (store_step st ClearTimeline))
       [Pause, Resume (sample_snapshot [sample_entry 1, sample_entry 2])] = (st3, out3) \<and>
     ss_events (st_state st3) = [sample_entry 2] \<and> sample_entry 2 \<notin> set (ss_events (st_state st))"
proof -
  obtain st where st: "createDevtoolsStore (Some (Fin 2)) (sample_snapshot [sample_entry 1]) = Inr st"
    "st_capacity st = 2" "\<not> st_disposed st" "\<not> md_disposed (st_model st)" "\<not> md_paused (st_model st)"
    "md_events (st_model st) = [sample_entry 1]" "md_lastSeq (st_model st) = [(sourceKey (re_id (sample_entry 1)), 1)]"
    "md_clearedSeq (st_model st) = []"
    using small_store by blast
  let ?js = "[Pause, Resume (sample_snapshot [sample_entry 1, sample_entry 2])]"
  obtain st3 out3 where r: "run store_step (fst (store_step st ClearTimeline)) ?js = (st3, out3)"
    by (cases "run store_step (fst (store_step st ClearTimeline)) ?js")
  have ev: "ss_events (st_state st3) = [sample_entry 2]" using cleared_run st(2-) r by (metis fst_conv)
  have "run store_step st [] = (st, [])" by simp
  from cleared_stays_hidden [OF st(1) this st(3,4) r, of _ "sample_entry 2"] ev
  have "sample_entry 2 \<notin> set (ss_events (st_state st))" by simp
  with st(1) r ev show ?thesis by blast
qed

section \<open>Hydration\<close>

lemma pushReplayed_new:
  assumes "\<forall>x \<in> set (md_events md). (re_id x, re_seq x) \<noteq> (re_id e, re_seq e)"
  shows "md_events (pushReplayed c md e) =
     (if re_seq e \<le> seq_of (md_clearedSeq md) (sourceKey (re_id e)) then md_events md
      else last_of c (md_events md @ [e]))" "md_clearedSeq (pushReplayed c md e) = md_clearedSeq md"
  using assms by (auto simp: pushReplayed_def Let_def append_event_events)

lemma replay_events:
  assumes "0 < c" "md_events md = last_of c xs"
    "distinct (map (\<lambda>e. (re_id e, re_seq e)) (xs @ es))"
  shows "md_events (foldl (pushReplayed c) md es) =
     last_of c (xs @ filter (\<lambda>e. seq_of (md_clearedSeq md) (sourceKey (re_id e)) < re_seq e) es)"
  using assms(2,3)
proof (induction es arbitrary: md xs)
  case (Cons e es)
  have new: "\<forall>x \<in> set (md_events md). (re_id x, re_seq x) \<noteq> (re_id e, re_seq e)"
  proof
    fix x assume "x \<in> set (md_events md)"
    then have "x \<in> set xs" using set_last_of [of c xs] Cons.prems(1) by auto
    then have "(re_id x, re_seq x) \<in> set (map (\<lambda>e. (re_id e, re_seq e)) xs)" by force
    moreover have "(re_id e, re_seq e) \<notin> set (map (\<lambda>e. (re_id e, re_seq e)) xs)"
      using Cons.prems(2) unfolding map_append distinct_append list.map by auto
    ultimately show "(re_id x, re_seq x) \<noteq> (re_id e, re_seq e)" by metis
  qed
  note push = pushReplayed_new [OF new, of c]
  show ?case
  proof (cases "re_seq e \<le> seq_of (md_clearedSeq md) (sourceKey (re_id e))")
    case True
    then have "md_events (pushReplayed c md e) = last_of c xs" using push Cons.prems by simp
    moreover have "distinct (map (\<lambda>e. (re_id e, re_seq e)) (xs @ es))" using Cons.prems(2) by auto
    ultimately show ?thesis using Cons.IH [of "pushReplayed c md e" xs] push(2) True by simp
  next
    case False
    then have "md_events (pushReplayed c md e) = last_of c (xs @ [e])"
      using push Cons.prems last_of_snoc [OF assms(1)] by simp
    then show ?thesis using Cons.IH [of "pushReplayed c md e" "xs @ [e]"] Cons.prems push(2) False by simp
  qed
qed simp

text \<open>Resuming shows exactly the most recent events of the port's snapshot that the clear marks
  leave, oldest first, up to the capacity, and takes every other slice from the snapshot; while paused,
  live events change nothing.\<close>

theorem resume_shows_snapshot:
  assumes "createDevtoolsStore cap sn0 = Inr st0" "run store_step st0 is = (st, out)"
    and "\<not> st_disposed st" "\<not> md_disposed (st_model st)" "md_paused (st_model st)"
    and "distinct (map (\<lambda>e. (re_id e, re_seq e)) (sn_events sn))"
  shows "store_step st (Receive (EventMessage i n x) a) = (st, []) \<and>
    ss_events (st_state (fst (store_step st (Resume sn)))) = last_of (st_capacity st)
      (filter (\<lambda>e. seq_of (md_clearedSeq (st_model st)) (sourceKey (re_id e)) < re_seq e) (sn_events sn)) \<and>
    ss_droppedAggregate (st_state (fst (store_step st (Resume sn)))) = sn_droppedAggregate sn \<and>
    \<not> ss_paused (st_state (fst (store_step st (Resume sn))))"
proof -
  have inv: "store_inv st" using store.run_inv [of st0 "is"] created_store [OF assms(1)] assms(2) by simp
  then have pos: "0 < st_capacity st" by (simp add: store_inv_def model_inv_def)
  have rest: "md_droppedAggregate (foldl (pushReplayed c) md es) = md_droppedAggregate md \<and>
      md_paused (foldl (pushReplayed c) md es) = md_paused md" for c md es
    by (rule foldl_keeps [where P = "\<lambda>m. md_droppedAggregate m = md_droppedAggregate md \<and> md_paused m = md_paused md"])
      (auto simp: pushReplayed_def Let_def)
  have "md_events (hydrate (st_capacity st) sn (st_model st\<lparr>md_paused := False\<rparr>)) = last_of (st_capacity st)
      (filter (\<lambda>e. seq_of (md_clearedSeq (st_model st)) (sourceKey (re_id e)) < re_seq e) (sn_events sn))"
    unfolding hydrate_def
    by (subst replay_events [OF pos, where xs = "[]"]) (use assms(6) in \<open>auto simp: last_of_def\<close>)
  moreover have "store_step st (Receive (EventMessage i n x) a) = (st, [])"
    using assms(3-5) by (simp add: publish_def pushEvent_def)
  moreover let ?md = "hydrate (st_capacity st) sn (st_model st\<lparr>md_paused := False\<rparr>)"
  have "fst (store_step st (Resume sn)) = st\<lparr>st_model := ?md, st_state := snapshotOf ?md\<rparr>"
    using assms(3-5) by (simp add: publish_def st_resume_def)
  moreover have "md_droppedAggregate ?md = sn_droppedAggregate sn \<and> \<not> md_paused ?md"
    unfolding hydrate_def using rest by simp
  ultimately show ?thesis by (simp add: snapshotOf_def)
qed

theorem resume_shows_snapshot_witness:
  "\<exists>st st1 out. createDevtoolsStore (Some (Fin 2)) (sample_snapshot [sample_entry 1]) = Inr st \<and>
     run store_step st [Pause] = (st1, out) \<and>
     ss_events (st_state (fst (store_step st1 (Resume (sample_snapshot [sample_entry 1, sample_entry 2, sample_entry 3]))))) =
       [sample_entry 2, sample_entry 3]"
proof -
  obtain st where st: "createDevtoolsStore (Some (Fin 2)) (sample_snapshot [sample_entry 1]) = Inr st"
    "st_capacity st = 2" "\<not> st_disposed st" "\<not> md_disposed (st_model st)" "\<not> md_paused (st_model st)"
    "md_clearedSeq (st_model st) = []"
    using small_store by blast
  obtain st1 out where r: "run store_step st [Pause] = (st1, out)" by (cases "run store_step st [Pause]")
  have st1: "\<not> st_disposed st1" "\<not> md_disposed (st_model st1)" "md_paused (st_model st1)" "st_capacity st1 = 2"
    "md_clearedSeq (st_model st1) = []"
    using r st by (auto simp: st_pause_def publish_def)
  have "distinct (map (\<lambda>e. (re_id e, re_seq e))
      (sn_events (sample_snapshot [sample_entry 1, sample_entry 2, sample_entry 3])))"
    by (simp add: sample_snapshot_def sample_entry_def)
  from resume_shows_snapshot [OF st(1) r st1(1-3) this] st1(4,5) st(1) r show ?thesis
    by (auto simp: sample_snapshot_def seq_of_def sample_entry_def last_of_def)
qed

section \<open>When the published state is the model\<close>

lemma publish_sync:
  assumes "in_sync st"
  shows "in_sync (fst (publish st f)) \<longleftrightarrow>
    (st_disposed st \<or> md_disposed (st_model st) \<or> snd (f (st_model st)) \<or>
     snapshotOf (fst (f (st_model st))) = snapshotOf (st_model st))"
  using assms by (cases "f (st_model st)"; cases "snd (f (st_model st))") (auto simp: publish_def in_sync_def)

text \<open>A descriptor object the store already holds, announced again for a source with a failure.\<close>

fun reannounces :: "store \<Rightarrow> store_input \<Rightarrow> bool" where
  "reannounces st (Receive (SourceAdded d) a) =
     (\<not> st_disposed st \<and> \<not> md_disposed (st_model st) \<and>
      map_option fst (map_get (md_sources (st_model st)) (sourceKey (src_id d))) = Some a \<and>
      map_has (md_failures (st_model st)) (sourceKey (src_id d)))"
| "reannounces st _ = False"

lemma delete_has: "map_delete k m = m \<longleftrightarrow> \<not> map_has m k"
  by (metis delete_absent map_has_delete)

lemma sync_ops:
  "snd (removeSource i md) \<or> snapshotOf (fst (removeSource i md)) = snapshotOf md"
  "snd (pushEvent c entry md) \<or> snapshotOf (fst (pushEvent c entry md)) = snapshotOf md"
  "snd (indicatorReceived i ind md) \<or> snapshotOf (fst (indicatorReceived i ind md)) = snapshotOf md"
  "snd (droppedReceived j n md) \<or> snapshotOf (fst (droppedReceived j n md)) = snapshotOf md"
  "snd (clearTimeline md) \<or> snapshotOf (fst (clearTimeline md)) = snapshotOf md"
  "map_has (md_failures md) k \<or> snapshotOf (md\<lparr>md_failures := map_delete k (md_failures md)\<rparr>) = snapshotOf md"
  using silent_ops(1) [where i = i and md = md] silent_ops(2) [where c = c and entry = entry and md = md]
    silent_ops(3) [where i = i and ind = ind and md = md]
  by (auto simp: droppedReceived_def clearTimeline_def snapshotOf_def delete_has Let_def split: option.splits)

lemma sync_added:
  "(snd (sourceAdded (a, d) md) \<or> snapshotOf (fst (sourceAdded (a, d) md)) = snapshotOf md) =
     (map_option fst (map_get (md_sources md) (sourceKey (src_id d))) = Some a \<longrightarrow>
        \<not> map_has (md_failures md) (sourceKey (src_id d)))"
  by (auto simp: sourceAdded_def snapshotOf_def delete_has Let_def)

text \<open>A store that shows its model keeps showing it through every input except one: a
  \<open>source-added\<close> with the descriptor object it already holds, for a source that has failed, clears the
  failure in the model but publishes nothing.\<close>

theorem published_state_is_model:
  "in_sync st \<Longrightarrow> in_sync (fst (store_step st i)) \<longleftrightarrow> \<not> reannounces st i"
proof (cases i)
  case (Receive m a)
  assume sync: "in_sync st"
  show ?thesis
  proof (cases m)
    case (SourceAdded d)
    then show ?thesis using sync sync_added [of a d "st_model st"] by (auto simp: Receive publish_sync)
  next
    case Disposed
    then show ?thesis using sync by (simp add: Receive in_sync_def Let_def)
  qed (use sync in \<open>simp_all add: Receive publish_sync sync_ops\<close>)
qed (simp_all add: st_pause_def st_resume_def st_clear_def st_dispose_def publish_sync sync_ops, simp add: in_sync_def)

theorem published_state_is_model_witness:
  "\<exists>st. createDevtoolsStore (Some (Fin 2)) (sample_snapshot [sample_entry 1]) = Inr st \<and>
     in_sync (fst (store_step st (Receive (event_message (sample_entry 2)) 0)))"
proof -
  obtain st where "createDevtoolsStore (Some (Fin 2)) (sample_snapshot [sample_entry 1]) = Inr st"
    using small_store by blast
  moreover from this have "in_sync st" using created_store by blast
  moreover have "\<not> reannounces st (Receive (event_message (sample_entry 2)) 0)" by (simp add: event_message_def)
  ultimately show ?thesis using published_state_is_model by blast
qed

end
