(* ===== verification/State_Reconciler.thy ===== *)
theory State_Reconciler imports Prelude "HOL-Library.Multiset" begin

text \<open>
  \<open>createSourceReconciler\<close> (\<^verbatim>\<open>packages/std/src/seam/state-reconciler.ts\<close>): it pulls a backend's value into
  a mirror and owns the writes back. The source's promises are the environment: an input settles a
  read or the running write, in any order the backend likes, and the continuation of a settled write
  (\<open>finally\<close>) is an input of its own. Calls into the source, the mirror and the callers' promises are
  outputs. Writes are numbered by the revision they bump, reads by their ticket, lifetimes (calls of
  \<open>start\<close>) by their order; the signal of a call is the lifetime that owns it.

  The lemmas show that a value reaches the mirror only from the newest read, with no local write since
  and none pending when the read began; that writes run one at a time, in order, the latest one last;
  and that every write settles exactly once.
\<close>

section \<open>State\<close>

datatype 'v write_op = WriteValue 'v | WriteRemove

datatype phase =
    Idle
  | Running nat "nat option"  \<comment> \<open>the write and its signal\<close>
  | Settling                  \<comment> \<open>its promise has settled, \<open>finally(drain)\<close> is due\<close>

record read =
  rd_ticket :: nat
  rd_startedAt :: nat
  rd_initial :: bool
  rd_signal :: "nat option"

record 'v reconciler =
  rc_active :: bool
  rc_revision :: nat
  rc_latestPull :: nat
  rc_controller :: "nat option"
  rc_phase :: phase
  rc_queued :: "(nat \<times> 'v write_op) option"
  rc_deferred :: "bool option"
  rc_reads :: "read list"
  rc_lifetimes :: nat
  rc_aborted :: "nat set"
  rc_subscribed :: "nat set"

datatype 'e failure = Aborted | BackendError 'e

datatype ('v, 'e) recon_output =
    GetValue nat
  | WriteTo nat "'v write_op"
  | Adopt 'v
  | Reset
  | Report 'e
  | Resolved nat
  | Rejected nat "'e failure"

definition createSourceReconciler :: "'v reconciler" where
  "createSourceReconciler = \<lparr>rc_active = False, rc_revision = 0, rc_latestPull = 0, rc_controller = None,
     rc_phase = Idle, rc_queued = None, rc_deferred = None, rc_reads = [], rc_lifetimes = 0,
     rc_aborted = {}, rc_subscribed = {}\<rparr>"

section \<open>Operations\<close>

abbreviation is_writing :: "'v reconciler \<Rightarrow> bool" where
  "is_writing s \<equiv> rc_phase s \<noteq> Idle"

definition pull :: "'v reconciler \<Rightarrow> bool \<Rightarrow> 'v reconciler \<times> ('v, 'e) recon_output list" where
  "pull s isInitial =
     (if is_writing s then (s\<lparr>rc_deferred := Some (isInitial \<or> rc_deferred s = Some True)\<rparr>, [])
      else
        let ticket = rc_latestPull s + 1
        in (s\<lparr>rc_latestPull := ticket,
              rc_reads := rc_reads s @ [\<lparr>rd_ticket = ticket, rd_startedAt = rc_revision s,
                rd_initial = isInitial, rd_signal = rc_controller s\<rparr>]\<rparr>,
            [GetValue ticket]))"

definition drainWrites :: "'v reconciler \<Rightarrow> 'v reconciler \<times> ('v, 'e) recon_output list" where
  "drainWrites s0 =
     (let s = s0\<lparr>rc_queued := None\<rparr> in
      case rc_queued s0 of
        None \<Rightarrow>
          (let s1 = s\<lparr>rc_phase := Idle, rc_deferred := None\<rparr> in
           case rc_deferred s0 of
             Some isInitial \<Rightarrow> if rc_active s0 then pull s1 isInitial else (s1, [])
           | None \<Rightarrow> (s1, []))
      | Some (k, op) \<Rightarrow> (s\<lparr>rc_phase := Running k (rc_controller s)\<rparr>, [WriteTo k op]))"

text \<open>Rejecting the write that waits, if one does.\<close>

definition cancel_queued :: "'v reconciler \<Rightarrow> ('v, 'e) recon_output list" where
  "cancel_queued s = (case rc_queued s of None \<Rightarrow> [] | Some (k, op) \<Rightarrow> [Rejected k Aborted])"

definition enqueue :: "'v reconciler \<Rightarrow> 'v write_op \<Rightarrow> 'v reconciler \<times> ('v, 'e) recon_output list" where
  "enqueue s op =
     (let k = rc_revision s + 1;
          s1 = s\<lparr>rc_revision := k, rc_queued := Some (k, op)\<rparr>;
          (s2, out) = (if is_writing s1 then (s1, []) else drainWrites s1)
      in (s2, cancel_queued s @ out))"

definition start :: "'v reconciler \<Rightarrow> 'v reconciler \<times> ('v, 'e) recon_output list" where
  "start s =
     (let owned = rc_lifetimes s;
          (s1, out) = pull (s\<lparr>rc_active := True, rc_lifetimes := owned + 1, rc_controller := Some owned\<rparr>) True
      in (s1\<lparr>rc_subscribed := insert owned (rc_subscribed s1)\<rparr>, out))"

definition teardown :: "'v reconciler \<Rightarrow> nat \<Rightarrow> 'v reconciler \<times> ('v, 'e) recon_output list" where
  "teardown s owned =
     (s\<lparr>rc_active := False, rc_controller := None, rc_aborted := insert owned (rc_aborted s),
        rc_deferred := None, rc_queued := None, rc_subscribed := rc_subscribed s - {owned}\<rparr>,
      cancel_queued s)"

text \<open>The continuations of a read. \<open>ok\<close> says whether the mirror's callback returns; if it throws, the
  \<open>catch\<close> handler sees its error.\<close>

definition read_failed :: "'v reconciler \<Rightarrow> read \<Rightarrow> 'e \<Rightarrow> ('v, 'e) recon_output list" where
  "read_failed s rd error = (if \<exists>l. rd_signal rd = Some l \<and> l \<in> rc_aborted s then [] else [Report error])"

definition read_resolved ::
  "'v reconciler \<Rightarrow> read \<Rightarrow> 'v option \<Rightarrow> 'e option \<Rightarrow> ('v, 'e) recon_output list" where
  "read_resolved s rd v thrown =
     (if \<not> rc_active s \<or> rd_ticket rd \<noteq> rc_latestPull s \<or> rc_revision s \<noteq> rd_startedAt rd then []
      else
        let call = (case v of Some x \<Rightarrow> [Adopt x] | None \<Rightarrow> if rd_initial rd then [] else [Reset])
        in call @ (case thrown of Some e \<Rightarrow> if call = [] then [] else read_failed s rd e | None \<Rightarrow> []))"

datatype ('v, 'e) recon_input =
    SetValue 'v
  | RemoveValue
  | Start
  | Teardown nat
  | Notify nat
  | ReadResolves nat "'v option" "'e option"
  | ReadRejects nat 'e
  | WriteSettles "'e option"
  | AfterWrite

definition take_read :: "nat \<Rightarrow> 'v reconciler \<Rightarrow> read option" where
  "take_read t s = find (\<lambda>rd. rd_ticket rd = t) (rc_reads s)"

definition done_read :: "nat \<Rightarrow> 'v reconciler \<Rightarrow> 'v reconciler" where
  "done_read t s = s\<lparr>rc_reads := filter (\<lambda>rd. rd_ticket rd \<noteq> t) (rc_reads s)\<rparr>"

fun recon_step :: "'v reconciler \<Rightarrow> ('v, 'e) recon_input \<Rightarrow> 'v reconciler \<times> ('v, 'e) recon_output list" where
  "recon_step s (SetValue v) = enqueue s (WriteValue v)"
| "recon_step s RemoveValue = enqueue s WriteRemove"
| "recon_step s Start = start s"
| "recon_step s (Teardown l) = (if l < rc_lifetimes s then teardown s l else (s, []))"
| "recon_step s (Notify l) = (if l \<in> rc_subscribed s then pull s False else (s, []))"
| "recon_step s (ReadResolves t v thrown) =
     (case take_read t s of None \<Rightarrow> (s, [])
      | Some rd \<Rightarrow> (done_read t s, read_resolved s rd v thrown))"
| "recon_step s (ReadRejects t e) =
     (case take_read t s of None \<Rightarrow> (s, [])
      | Some rd \<Rightarrow> (done_read t s, read_failed s rd e))"
| "recon_step s (WriteSettles result) =
     (case rc_phase s of
        Running k signal \<Rightarrow>
          (s\<lparr>rc_phase := Settling\<rparr>,
           case result of
             None \<Rightarrow> [Resolved k]
           | Some e \<Rightarrow> [Rejected k (if \<exists>l. signal = Some l \<and> l \<in> rc_aborted s then Aborted else BackendError e)])
      | _ \<Rightarrow> (s, []))"
| "recon_step s AfterWrite = (if rc_phase s = Settling then drainWrites s else (s, []))"

lemmas recon_defs = pull_def drainWrites_def cancel_queued_def enqueue_def start_def teardown_def Let_def

section \<open>Writes\<close>

fun started :: "('v, 'e) recon_output list \<Rightarrow> nat list" where
  "started [] = []"
| "started (WriteTo k op # os) = k # started os"
| "started (_ # os) = started os"

fun settled :: "('v, 'e) recon_output list \<Rightarrow> nat list" where
  "settled [] = []"
| "settled (Resolved k # os) = k # settled os"
| "settled (Rejected k e # os) = k # settled os"
| "settled (_ # os) = settled os"

fun running :: "phase \<Rightarrow> nat list" where
  "running (Running k _) = [k]"
| "running _ = []"

definition waiting :: "'v reconciler \<Rightarrow> nat list" where
  "waiting s = running (rc_phase s) @ (case rc_queued s of None \<Rightarrow> [] | Some (k, _) \<Rightarrow> [k])"

fun is_write :: "('v, 'e) recon_input \<Rightarrow> bool" where
  "is_write (SetValue _) = True"
| "is_write RemoveValue = True"
| "is_write _ = False"

fun is_teardown :: "('v, 'e) recon_input \<Rightarrow> bool" where
  "is_teardown (Teardown _) = True"
| "is_teardown _ = False"

lemma started_append [simp]: "started (xs @ ys) = started xs @ started ys"
  by (induction xs rule: started.induct) auto

lemma settled_append [simp]: "settled (xs @ ys) = settled xs @ settled ys"
  by (induction xs rule: settled.induct) auto

text \<open>Nothing waits while nothing is being written: no wake-up is lost.\<close>

definition recon_inv :: "'v reconciler \<Rightarrow> bool" where
  "recon_inv s = ((rc_phase s = Idle \<longrightarrow> rc_queued s = None \<and> rc_deferred s = None) \<and>
     (\<forall>rd \<in> set (rc_reads s). rd_startedAt rd \<le> rc_revision s \<and> rd_ticket rd \<le> rc_latestPull s))"

lemma recon_step_inv: "recon_inv s \<Longrightarrow> recon_inv (fst (recon_step s i))"
  by (cases i; cases "rc_phase s")
    (auto simp: recon_inv_def recon_defs done_read_def split: option.splits)

interpretation recon: kept_invariant recon_step recon_inv
  by unfold_locales (rule recon_step_inv)

text \<open>The numbers of the first n writes.\<close>

definition numbered :: "nat \<Rightarrow> nat list" where
  "numbered n = [1..<Suc n]"

lemma numbered_simps [simp]: "numbered 0 = []" "numbered (Suc n) = numbered n @ [Suc n]"
  "set (numbered n) = {1..n}" "distinct (numbered n)"
  by (auto simp: numbered_def)

definition writes_ok :: "('v, 'e) recon_input list \<Rightarrow> ('v, 'e) recon_output list \<Rightarrow> 'v reconciler \<Rightarrow> bool" where
  "writes_ok is out s = (
     rc_revision s = length (filter is_write is) \<and>
     mset (settled out) + mset (waiting s) = mset (numbered (rc_revision s)) \<and>
     filter (\<lambda>k. k \<in> set (started out)) (settled out) @ running (rc_phase s) = started out \<and>
     sorted_wrt (<) (started out) \<and> set (started out) \<subseteq> {1..rc_revision s} \<and>
     (\<forall>k op. rc_queued s = Some (k, op) \<longrightarrow> k = rc_revision s \<and> k \<notin> set (started out)) \<and>
     (list_all (\<lambda>i. \<not> is_teardown i) is \<and> rc_revision s > 0 \<and> rc_queued s = None \<longrightarrow>
        rc_revision s \<in> set (started out)))"

lemma writes_ok_start: "writes_ok [] [] createSourceReconciler"
  by (simp add: writes_ok_def createSourceReconciler_def waiting_def)

lemma pull_writes:
  "rc_phase (fst (pull s b)) = rc_phase s" "rc_queued (fst (pull s b)) = rc_queued s"
  "rc_revision (fst (pull s b)) = rc_revision s"
  "started (snd (pull s b)) = []" "settled (snd (pull s b)) = []"
  by (simp_all add: pull_def Let_def)

lemma writes_ok_distinct: "writes_ok is out s \<Longrightarrow> distinct (settled out @ waiting s)"
  using mset_eq_imp_distinct_iff [of "settled out @ waiting s" "numbered (rc_revision s)"]
  by (simp add: writes_ok_def)

lemma settled_bound: "writes_ok is out s \<Longrightarrow> k \<in> set (settled out @ waiting s) \<Longrightarrow> 1 \<le> k \<and> k \<le> rc_revision s"
  using mset_eq_setD [of "settled out @ waiting s" "numbered (rc_revision s)"]
  by (auto simp: writes_ok_def)

text \<open>Steps that write and settle nothing.\<close>

lemma writes_ok_other:
  assumes "writes_ok is out s" "rc_phase s' = rc_phase s" "rc_queued s' = rc_queued s"
    "rc_revision s' = rc_revision s" "started out' = []" "settled out' = []" "\<not> is_write i"
  shows "writes_ok (is @ [i]) (out @ out') s'"
  using assms unfolding writes_ok_def waiting_def by auto

lemma writes_ok_drain:
  fixes out out2 :: "('v, 'e) recon_output list"
  assumes "writes_ok is out s" "running (rc_phase s) = []" "drainWrites s = (s2, out2)"
  shows "writes_ok is (out @ out2) s2"
proof (cases "rc_queued s")
  case None
  have "rc_queued s2 = None" "running (rc_phase s2) = []" "rc_revision s2 = rc_revision s"
    "started out2 = []" "settled out2 = []"
    using assms(3) None by (auto simp: drainWrites_def pull_def Let_def split: option.splits if_splits)
  with assms None show ?thesis unfolding writes_ok_def waiting_def by auto
next
  case (Some q)
  obtain k op where q: "q = (k, op)" by (cases q)
  have k: "k = rc_revision s" "k \<notin> set (started out)" "k \<notin> set (settled out)" "1 \<le> k"
    using assms Some q writes_ok_distinct [OF assms(1)] settled_bound [OF assms(1), of k]
    by (auto simp: writes_ok_def waiting_def)
  then have "filter (\<lambda>x. x \<in> set (started out) \<or> x = k) (settled out) =
      filter (\<lambda>x. x \<in> set (started out)) (settled out)"
    by (intro filter_cong) auto
  moreover have "\<forall>x \<in> set (started out). x < k"
    using assms(1) k by (force simp: writes_ok_def le_less)
  ultimately show ?thesis
    using assms Some q k by (auto simp: writes_ok_def drainWrites_def waiting_def sorted_wrt_append)
qed

lemma cancel_queued_out:
  "started (cancel_queued s) = []"
  "settled (cancel_queued s) = (case rc_queued s of None \<Rightarrow> [] | Some (k, op) \<Rightarrow> [k])"
  by (auto simp: cancel_queued_def split: option.splits)

lemma writes_ok_enqueue:
  fixes out out2 :: "('v, 'e) recon_output list"
  assumes "writes_ok is out s" "is_write i" "enqueue s op = (s2, out2)"
  shows "writes_ok (is @ [i]) (out @ out2) s2"
proof -
  let ?k = "rc_revision s + 1"
  let ?s1 = "s\<lparr>rc_revision := ?k, rc_queued := Some (?k, op)\<rparr>"
  let ?c = "cancel_queued s :: ('v, 'e) recon_output list"
  have new: "?k \<notin> set (started out)"
    using assms(1) by (auto simp: writes_ok_def)
  have "\<forall>k op. rc_queued s = Some (k, op) \<longrightarrow> k \<notin> set (started out)"
    using assms(1) by (simp add: writes_ok_def)
  then have "filter (\<lambda>x. x \<in> set (started out)) (settled out @ settled ?c) =
      filter (\<lambda>x. x \<in> set (started out)) (settled out)"
    by (auto simp: cancel_queued_out split: option.splits)
  then have s1: "writes_ok (is @ [i]) (out @ ?c) ?s1"
    using assms(1,2) new
    by (auto simp: writes_ok_def waiting_def cancel_queued_out split: option.splits)
  show ?thesis
  proof (cases "is_writing s")
    case True
    with s1 assms(3) show ?thesis by (simp add: enqueue_def Let_def)
  next
    case False
    obtain out3 :: "('v, 'e) recon_output list" where "drainWrites ?s1 = (s2, out3)" "out2 = ?c @ out3"
      using False assms(3) by (auto simp: enqueue_def Let_def split: prod.splits)
    with writes_ok_drain [OF s1] False show ?thesis by simp
  qed
qed

lemma writes_ok_teardown:
  fixes out out2 :: "('v, 'e) recon_output list"
  assumes "writes_ok is out s" "teardown s l = (s2, out2)"
  shows "writes_ok (is @ [Teardown l]) (out @ out2) s2"
  using assms by (auto simp: writes_ok_def teardown_def waiting_def cancel_queued_out split: option.splits)

lemma writes_ok_settles:
  assumes "writes_ok is out s" "rc_phase s = Running k l"
  shows "writes_ok (is @ [WriteSettles r]) (out @ snd (recon_step s (WriteSettles r)))
    (fst (recon_step s (WriteSettles r)))"
proof -
  have eq: "filter (\<lambda>k. k \<in> set (started out)) (settled out) @ [k] = started out"
    using assms by (simp add: writes_ok_def)
  then have "k \<in> set (started out)" by (metis in_set_conv_decomp)
  with assms eq show ?thesis
    by (auto simp: writes_ok_def waiting_def add_mset_commute split: option.splits)
qed

lemma writes_ok_step:
  fixes out :: "('v, 'e) recon_output list"
  assumes "writes_ok is out s"
  shows "writes_ok (is @ [i]) (out @ snd (recon_step s i)) (fst (recon_step s i))"
proof -
  note other = writes_ok_other [OF assms]
  obtain s2 out2 where st: "recon_step s i = (s2, out2)" by (cases "recon_step s i")
  have "writes_ok (is @ [i]) (out @ out2) s2"
  proof (cases i)
    case (Teardown l)
    then show ?thesis using writes_ok_teardown [OF assms, of l] other [of s "[]" i] st by (auto split: if_splits)
  next
    case (WriteSettles r)
    then show ?thesis using writes_ok_settles [OF assms] other [of s "[]" i] st by (cases "rc_phase s") auto
  next
    case AfterWrite
    have "writes_ok (is @ [AfterWrite]) out s" using other [of s "[]" AfterWrite] by simp
    then show ?thesis using writes_ok_drain [of "is @ [AfterWrite]" out s s2 out2] AfterWrite st
      by (auto split: if_splits)
  next
    case Start
    then show ?thesis using st by (intro other) (auto simp: start_def pull_def Let_def split: if_splits)
  next
    case (Notify l)
    then show ?thesis using st by (intro other) (auto simp: pull_def Let_def split: if_splits)
  next
    case (ReadResolves t v thrown)
    then show ?thesis using st by (intro other)
      (auto simp: done_read_def read_resolved_def read_failed_def Let_def split: option.splits if_splits)
  next
    case (ReadRejects t e)
    then show ?thesis using st by (intro other) (auto simp: done_read_def read_failed_def split: option.splits if_splits)
  qed (use st writes_ok_enqueue [OF assms] in auto)
  with st show ?thesis by simp
qed

interpretation writes: history_invariant recon_step writes_ok
  by unfold_locales (rule writes_ok_step)

section \<open>Reads\<close>

text \<open>A read in flight was issued by some input of the history, after which nothing was being written;
  its starting revision counts the writes up to that input, its ticket the reads.\<close>

fun tickets :: "('v, 'e) recon_output list \<Rightarrow> nat list" where
  "tickets [] = []"
| "tickets (GetValue t # os) = t # tickets os"
| "tickets (_ # os) = tickets os"

definition issued_at :: "('v, 'e) recon_input list \<Rightarrow> ('v, 'e) recon_input \<Rightarrow> nat \<Rightarrow> nat \<Rightarrow> bool" where
  "issued_at a i t r = (
     t \<noteq> 0 \<and> tickets (snd (run recon_step createSourceReconciler a)) = numbered (t - 1) \<and>
     tickets (snd (run recon_step createSourceReconciler (a @ [i]))) = numbered t \<and>
     rc_revision (fst (run recon_step createSourceReconciler (a @ [i]))) = r \<and>
     \<not> is_writing (fst (run recon_step createSourceReconciler (a @ [i]))))"

definition reads_ok :: "('v, 'e) recon_input list \<Rightarrow> ('v, 'e) recon_output list \<Rightarrow> 'v reconciler \<Rightarrow> bool" where
  "reads_ok is out s = (run recon_step createSourceReconciler is = (s, out) \<and>
     tickets out = numbered (rc_latestPull s) \<and>
     (\<forall>rd \<in> set (rc_reads s). \<exists>a i b. is = a @ i # b \<and> issued_at a i (rd_ticket rd) (rd_startedAt rd)))"

lemma tickets_append [simp]: "tickets (xs @ ys) = tickets xs @ tickets ys"
  by (induction xs rule: tickets.induct) auto

lemma tickets_cancel [simp]: "tickets (cancel_queued s) = []"
  by (auto simp: cancel_queued_def split: option.splits)

text \<open>What a step does to the reads.\<close>

lemma step_reads:
  assumes "recon_step s i = (s', out)"
  shows "(tickets out = [] \<and> rc_latestPull s' = rc_latestPull s \<and> set (rc_reads s') \<subseteq> set (rc_reads s)) \<or>
    (\<exists>rd. tickets out = [Suc (rc_latestPull s)] \<and> rc_latestPull s' = Suc (rc_latestPull s) \<and>
      set (rc_reads s') \<subseteq> insert rd (set (rc_reads s)) \<and> rd_ticket rd = Suc (rc_latestPull s) \<and>
      rd_startedAt rd = rc_revision s' \<and> \<not> is_writing s')"
  using assms
  by (cases i)
    (auto simp: enqueue_def start_def teardown_def pull_def drainWrites_def done_read_def read_resolved_def
      read_failed_def Let_def split: option.splits if_splits prod.splits phase.splits)

lemma reads_ok_step:
  assumes "reads_ok is out s"
  shows "reads_ok (is @ [i]) (out @ snd (recon_step s i)) (fst (recon_step s i))"
proof -
  obtain s' out' where st: "recon_step s i = (s', out')" by (cases "recon_step s i")
  have r: "run recon_step createSourceReconciler is = (s, out)" and t: "tickets out = numbered (rc_latestPull s)"
    using assms by (auto simp: reads_ok_def)
  have old: "\<exists>a i' b. is = a @ i' # b \<and> issued_at a i' (rd_ticket rd) (rd_startedAt rd)"
      if "rd \<in> set (rc_reads s)" for rd
    using assms that unfolding reads_ok_def by blast
  have r': "run recon_step createSourceReconciler (is @ [i]) = (s', out @ out')"
    using r st by (simp add: run_append)
  have old': "\<exists>a i' b. is @ [i] = a @ i' # b \<and> issued_at a i' (rd_ticket rd) (rd_startedAt rd)"
    if "rd \<in> set (rc_reads s)" for rd
    using old [OF that] by (metis append_Cons append_assoc)
  from step_reads [OF st] show ?thesis
  proof
    assume "tickets out' = [] \<and> rc_latestPull s' = rc_latestPull s \<and> set (rc_reads s') \<subseteq> set (rc_reads s)"
    then show ?thesis using r' t old' st by (auto simp: reads_ok_def)
  next
    assume "\<exists>rd. tickets out' = [Suc (rc_latestPull s)] \<and> rc_latestPull s' = Suc (rc_latestPull s) \<and>
      set (rc_reads s') \<subseteq> insert rd (set (rc_reads s)) \<and> rd_ticket rd = Suc (rc_latestPull s) \<and>
      rd_startedAt rd = rc_revision s' \<and> \<not> is_writing s'"
    then obtain rd where new: "tickets out' = [Suc (rc_latestPull s)]" "rc_latestPull s' = Suc (rc_latestPull s)"
      "set (rc_reads s') \<subseteq> insert rd (set (rc_reads s))" "rd_ticket rd = Suc (rc_latestPull s)"
      "rd_startedAt rd = rc_revision s'" "\<not> is_writing s'" by blast
    have "issued_at is i (rd_ticket rd) (rd_startedAt rd)"
      using r r' t new by (simp add: issued_at_def)
    then have "\<exists>a i' b. is @ [i] = a @ i' # b \<and> issued_at a i' (rd_ticket rd') (rd_startedAt rd')"
      if "rd' \<in> set (rc_reads s')" for rd'
      using that new(3) old' by blast
    then show ?thesis using r' t new(1,2) st by (simp add: reads_ok_def)
  qed
qed

interpretation reads: history_invariant recon_step reads_ok
  by unfold_locales (rule reads_ok_step)

lemma reads_ok_start: "reads_ok [] [] createSourceReconciler"
  by (simp add: reads_ok_def createSourceReconciler_def)

section \<open>Properties\<close>

text \<open>Claim C33: writes reach the backend one at a time, each only after the one before it has settled, in
  the order they were asked for; every write settles exactly once or still runs or waits. As long as
  nothing is torn down, once no write is pending the last one the backend got is the latest one asked
  for.\<close>

theorem writes_latest_wins:
  fixes out :: "('v, 'e) recon_output list"
  assumes "run recon_step createSourceReconciler is = (s, out)"
  shows "filter (\<lambda>k. k \<in> set (started out)) (settled out) @ running (rc_phase s) = started out \<and>
    sorted_wrt (<) (started out) \<and>
    mset (settled out) + mset (waiting s) = mset [1..<Suc (length (filter is_write is))] \<and>
    (list_all (\<lambda>i. \<not> is_teardown i) is \<and> filter is_write is \<noteq> [] \<and> waiting s = [] \<longrightarrow>
       last (started out) = length (filter is_write is))"
proof -
  have ok: "writes_ok is out s" by (rule writes.run_from_start [OF writes_ok_start assms])
  have "last (started out) = rc_revision s"
    if "list_all (\<lambda>i. \<not> is_teardown i) is" "filter is_write is \<noteq> []" "waiting s = []"
  proof -
    have mem: "rc_revision s \<in> set (started out)"
      using ok that by (cases "rc_queued s") (auto simp: writes_ok_def waiting_def)
    then obtain xs x where x: "started out = xs @ [x]" by (cases "started out" rule: rev_cases) auto
    have "x \<le> rc_revision s" "\<forall>y \<in> set xs. y < x"
      using ok x by (auto simp: writes_ok_def sorted_wrt_append)
    with mem x show ?thesis by auto
  qed
  with ok show ?thesis by (auto simp: writes_ok_def numbered_def)
qed

definition write_run :: "(string, string) recon_input list" where
  "write_run = [Start, SetValue ''a'', SetValue ''b'', SetValue ''c'', WriteSettles None, AfterWrite,
     WriteSettles None, AfterWrite]"

lemma write_run_out:
  "snd (run recon_step createSourceReconciler write_run) =
     [GetValue 1, WriteTo 1 (WriteValue ''a''), Rejected 2 Aborted, Resolved 1, WriteTo 3 (WriteValue ''c''),
      Resolved 3]"
  "waiting (fst (run recon_step createSourceReconciler write_run)) = []"
  by (simp_all add: write_run_def createSourceReconciler_def recon_defs waiting_def numeral_3_eq_3)

theorem writes_latest_wins_witness:
  "\<exists>s out. run recon_step createSourceReconciler write_run = (s, out) \<and>
     started out = [1, 3] \<and> last (started out) = length (filter is_write write_run)"
proof -
  obtain s out where r: "run recon_step createSourceReconciler write_run = (s, out)"
    by (cases "run recon_step createSourceReconciler write_run")
  have "started out = [1, 3]" "waiting s = []" using write_run_out r by auto
  with writes_latest_wins [OF r] r show ?thesis by (auto simp: write_run_def)
qed

text \<open>Claim C32: a read changes the mirror only if it is fresh: the reconciler is active, the read is the
  newest one, it was issued when no write was running or waiting, and no write has been asked for
  since. No slow or overtaken read can clobber a newer value.\<close>

theorem adopts_only_fresh_reads:
  fixes out :: "('v, 'e) recon_output list"
  assumes "run recon_step createSourceReconciler is = (s, out)"
    and "snd (recon_step s (ReadResolves t v thrown)) \<noteq> []"
  shows "rc_active s \<and> tickets out = [1..<Suc t] \<and>
    (\<exists>a i b. is = a @ i # b \<and> tickets (snd (run recon_step createSourceReconciler a)) = [1..<t] \<and>
       tickets (snd (run recon_step createSourceReconciler (a @ [i]))) = [1..<Suc t] \<and>
       waiting (fst (run recon_step createSourceReconciler (a @ [i]))) = [] \<and>
       list_all (\<lambda>j. \<not> is_write j) b)"
proof -
  have ok: "reads_ok is out s" by (rule reads.run_from_start [OF reads_ok_start assms(1)])
  obtain rd where rd: "take_read t s = Some rd" "rd_ticket rd = t" "rd \<in> set (rc_reads s)"
    using assms(2) find_SomeD by (fastforce simp: take_read_def split: option.splits)
  have fresh: "rc_active s" "t = rc_latestPull s" "rc_revision s = rd_startedAt rd"
    using assms(2) rd by (auto simp: read_resolved_def split: if_splits)
  obtain a i b where ab: "is = a @ i # b" "issued_at a i t (rd_startedAt rd)"
    using ok rd by (auto simp: reads_ok_def)
  let ?m = "run recon_step createSourceReconciler (a @ [i])"
  have w: "writes_ok (a @ [i]) (snd ?m) (fst ?m)" "writes_ok is out s"
    using writes.run_from_start [OF writes_ok_start] assms(1) by (metis prod.collapse)+
  have "recon_inv (fst ?m)"
    by (rule recon.run_inv) (simp add: createSourceReconciler_def recon_inv_def)
  then have "waiting (fst ?m) = []"
    using ab(2) by (simp add: issued_at_def waiting_def recon_inv_def)
  moreover have "length (filter is_write (a @ [i])) = length (filter is_write is)"
    using w fresh(3) ab(2) by (simp add: writes_ok_def issued_at_def)
  then have "filter is_write b = []" by (cases "is_write i") (simp_all add: ab(1))
  then have "list_all (\<lambda>j. \<not> is_write j) b" by (simp add: list_all_iff filter_empty_conv)
  moreover have "tickets out = [1..<Suc t]" using ok fresh(2) by (simp add: reads_ok_def numbered_def)
  moreover have "tickets (snd (run recon_step createSourceReconciler a)) = [1..<t]" "tickets (snd ?m) = [1..<Suc t]"
    using ab(2) by (cases t; simp add: issued_at_def numbered_def)+
  ultimately show ?thesis using fresh(1) ab(1) by blast
qed

definition read_run :: "(string, string) recon_input list" where
  "read_run = [Start, SetValue ''a'', Notify 0, WriteSettles None, AfterWrite]"

lemma read_run_out:
  "snd (run recon_step createSourceReconciler read_run) = [GetValue 1, WriteTo 1 (WriteValue ''a''), Resolved 1, GetValue 2]"
  "snd (recon_step (fst (run recon_step createSourceReconciler read_run)) (ReadResolves 2 (Some ''a'') None)) =
     [Adopt ''a'']"
  "snd (recon_step (fst (run recon_step createSourceReconciler read_run)) (ReadResolves 1 (Some ''old'') None)) = []"
  by (simp_all add: read_run_def createSourceReconciler_def recon_defs read_resolved_def take_read_def)

theorem adopts_only_fresh_reads_witness:
  "\<exists>s out. run recon_step createSourceReconciler read_run = (s, out) \<and> rc_active s \<and> tickets out = [1, 2]"
proof -
  obtain s out where r: "run recon_step createSourceReconciler read_run = (s, out)"
    by (cases "run recon_step createSourceReconciler read_run")
  have "snd (recon_step s (ReadResolves 2 (Some ''a'') None)) = [Adopt ''a'']" using read_run_out(2) unfolding r by simp
  then have "snd (recon_step s (ReadResolves 2 (Some ''a'') None)) \<noteq> []" by (metis list.distinct(1))
  from adopts_only_fresh_reads [OF r this] r show ?thesis by (auto simp: upt_rec)
qed

text \<open>Whenever no write is in progress nothing waits: no queued write and no deferred read is
  ever left behind without something under way that will run it.\<close>

theorem nothing_left_waiting:
  "rc_phase (fst (run recon_step createSourceReconciler is)) = Idle \<Longrightarrow>
     rc_queued (fst (run recon_step createSourceReconciler is)) = None \<and>
     rc_deferred (fst (run recon_step createSourceReconciler is)) = None"
  using recon.run_inv [of createSourceReconciler "is"] by (simp add: recon_inv_def createSourceReconciler_def)

theorem nothing_left_waiting_witness:
  "rc_deferred (fst (run recon_step createSourceReconciler read_run)) = None"
proof -
  have "rc_phase (fst (run recon_step createSourceReconciler read_run)) = Idle"
    by (simp add: read_run_def createSourceReconciler_def recon_defs)
  then show ?thesis using nothing_left_waiting by blast
qed

end
