(* ===== verification/Channel_Delivery.thy ===== *)
theory Channel_Delivery imports JS_Values begin

text \<open>
  Frame delivery and the resume cursor of a channel: \<open>dispatch\<close>, \<open>acknowledge\<close> and \<open>resetCursor\<close> of
  \<^verbatim>\<open>packages/channel/src/lifecycle/channel.ts\<close>, \<open>validateControl\<close> (\<^verbatim>\<open>events/control.ts\<close>) and
  \<open>parseEventCursor\<close> (\<^verbatim>\<open>events/cursor.ts\<close>). A frame carries the identity of its object, since deliveries
  are remembered by reference, and its data as \<open>JSON.parse\<close> reads it (None when it throws). The injected
  decoder of failure frames is an argument.

  The lemmas show that the generation and order counters implement a plain list of frames waiting to be
  acknowledged, and that cursors parse exactly when they are canonical.
\<close>

section \<open>Cursors\<close>

definition is_hex :: "char \<Rightarrow> bool" where
  "is_hex c = (c \<in> set ''0123456789abcdef'')"

definition is_digit :: "char \<Rightarrow> bool" where
  "is_digit c = (48 \<le> (of_char c :: nat) \<and> of_char c \<le> (57 :: nat))"

definition MAX_SEQUENCE :: nat where
  "MAX_SEQUENCE = 18446744073709551615"

datatype channel_error =
    InvalidCursor
  | InvalidSequence
  | InvalidControl
  | InvalidRetry
  | DecodedFailure jsval  \<comment> \<open>what the decoder made of a failure frame\<close>
  | DecoderThrew

text \<open>The prefix pattern \<open>^[0-9a-f]{32}:\<close>.\<close>

definition cursor_prefix :: "string \<Rightarrow> bool" where
  "cursor_prefix v = (32 < length v \<and> list_all is_hex (take 32 v) \<and> v ! 32 = CHR '':'')"

text \<open>The pattern of the digits, \<open>0|[1-9][0-9]{0,19}\<close>.\<close>

definition canonical_digits :: "string \<Rightarrow> bool" where
  "canonical_digits d = (d = ''0'' \<or>
     (d \<noteq> [] \<and> list_all is_digit d \<and> hd d \<noteq> CHR ''0'' \<and> length d \<le> 20))"

definition parseEventCursor :: "string \<Rightarrow> channel_error + string \<times> nat" where
  "parseEventCursor v =
     (if \<not> (cursor_prefix v \<and> canonical_digits (drop 33 v)) then Inl InvalidCursor
      else
        let sequence = digits_value (drop 33 v)
        in if sequence > MAX_SEQUENCE then Inl InvalidSequence else Inr (take 32 v, sequence))"

section \<open>Frames\<close>

record frame =
  fr_obj :: nat
  fr_type :: string
  fr_id :: "string option"
  fr_data :: "jsval option"
  fr_retry :: "jsnum option"

text \<open>A failure decoder returns a failure or throws, with a decode error or with something else.\<close>

datatype decoded = Decoded jsval | DecodeError | OtherError

record delivery =
  dl_lastEventId :: "string option"
  dl_serverRetryMs :: "jsnum option"
  dl_generation :: nat
  dl_order :: nat
  dl_acknowledgedOrder :: nat
  dl_hasBoundary :: bool
  dl_deliveries :: "(nat \<times> nat \<times> nat) list"  \<comment> \<open>frame object, generation, order; the newest last\<close>

definition delivery_init :: "string option \<Rightarrow> delivery" where
  "delivery_init lastEventId = \<lparr>dl_lastEventId = lastEventId, dl_serverRetryMs = None, dl_generation = 0,
     dl_order = 0, dl_acknowledgedOrder = 0, dl_hasBoundary = False, dl_deliveries = []\<rparr>"

definition resetCursor :: "delivery \<Rightarrow> delivery" where
  "resetCursor s = s\<lparr>dl_generation := dl_generation s + 1, dl_lastEventId := None\<rparr>"

definition setServerRetry :: "delivery \<Rightarrow> jsnum \<Rightarrow> channel_error + delivery" where
  "setServerRetry s minimumMs =
     (if \<not> isNonNegativeInteger minimumMs then Inl InvalidRetry
      else Inr (s\<lparr>dl_serverRetryMs := Some minimumMs\<rparr>))"

definition validateControl :: "frame \<Rightarrow> (jsval \<Rightarrow> decoded) \<Rightarrow> channel_error + unit" where
  "validateControl f failures =
     (case fr_data f of
        None \<Rightarrow> Inl InvalidControl
      | Some data \<Rightarrow>
          if fr_type f = ''failure'' then
            (case failures data of
               Decoded failure \<Rightarrow> Inl (DecodedFailure failure)
             | DecodeError \<Rightarrow> Inl InvalidControl
             | OtherError \<Rightarrow> Inl DecoderThrew)
          else if \<not> isRecord data then Inl InvalidControl
          else (case prop_of data ''cursor'' of
             JStr c \<Rightarrow>
               (case parseEventCursor c of
                  Inl e \<Rightarrow> Inl e
                | Inr (epoch, sequence) \<Rightarrow>
                    if fr_type f = ''connected'' \<and> prop_of data ''epoch'' = JStr epoch then Inr ()
                    else if fr_type f = ''reset'' \<and>
                      (prop_of data ''reason'' = JStr ''epochChanged'' \<or>
                       prop_of data ''reason'' = JStr ''replayExpired'' \<or>
                       prop_of data ''reason'' = JStr ''overflow'') then Inr ()
                    else Inl InvalidControl)
           | _ \<Rightarrow> Inl InvalidControl))"

definition is_control :: "frame \<Rightarrow> bool" where
  "is_control f = (fr_type f = ''connected'' \<or> fr_type f = ''reset'' \<or> fr_type f = ''failure'')"

text \<open>Whether a data frame is at or before the resume cursor.\<close>

definition already_applied :: "frame \<Rightarrow> string option \<Rightarrow> channel_error + bool" where
  "already_applied f applied =
     (case (fr_id f, applied) of
        (Some i, Some l) \<Rightarrow>
          if i = l then Inr True
          else if cursor_prefix i \<and> cursor_prefix l then
            (case parseEventCursor i of
               Inl e \<Rightarrow> Inl e
             | Inr (epoch, sequence) \<Rightarrow>
                 (case parseEventCursor l of
                    Inl e \<Rightarrow> Inl e
                  | Inr (epoch', sequence') \<Rightarrow> Inr (epoch = epoch' \<and> sequence \<le> sequence')))
          else Inr False
      | _ \<Rightarrow> Inr False)"

definition record_delivery :: "delivery \<Rightarrow> nat \<Rightarrow> delivery" where
  "record_delivery s obj =
     (let n = dl_order s + 1
      in s\<lparr>dl_order := n,
           dl_deliveries := filter (\<lambda>d. fst d \<noteq> obj) (dl_deliveries s) @ [(obj, dl_generation s, n)]\<rparr>)"

text \<open>The retry directive and the emission that end a dispatch. The result says whether the frame was
  emitted to the listeners.\<close>

definition retry_and_emit :: "delivery \<Rightarrow> frame \<Rightarrow> delivery \<times> (channel_error + bool)" where
  "retry_and_emit s f =
     (case fr_retry f of
        None \<Rightarrow> (s, Inr True)
      | Some r \<Rightarrow> (case setServerRetry s r of Inl e \<Rightarrow> (s, Inl e) | Inr s' \<Rightarrow> (s', Inr True)))"

definition dispatch :: "(jsval \<Rightarrow> decoded) \<Rightarrow> delivery \<Rightarrow> frame \<Rightarrow> delivery \<times> (channel_error + bool)" where
  "dispatch failures s f =
     (if is_control f then
        (case validateControl f failures of
           Inl e \<Rightarrow> (s, Inl e)
         | Inr _ \<Rightarrow>
             (let s1 = s\<lparr>dl_hasBoundary := True\<rparr>;
                  s2 = (if fr_type f = ''reset'' then resetCursor s1 else s1)
              in retry_and_emit s2 f))
      else
        (case already_applied f (dl_lastEventId s) of
           Inl e \<Rightarrow> (s, Inl e)
         | Inr True \<Rightarrow> (s, Inr False)
         | Inr False \<Rightarrow> retry_and_emit (record_delivery s (fr_obj f)) f))"

definition find_delivery :: "delivery \<Rightarrow> nat \<Rightarrow> (nat \<times> nat) option" where
  "find_delivery s obj = map_of (dl_deliveries s) obj"

definition acknowledge :: "delivery \<Rightarrow> frame \<Rightarrow> delivery" where
  "acknowledge s f =
     (case find_delivery s (fr_obj f) of
        None \<Rightarrow> s
      | Some (g, n) \<Rightarrow>
          if g \<noteq> dl_generation s \<or> n \<le> dl_acknowledgedOrder s then s
          else s\<lparr>dl_deliveries := filter (\<lambda>d. fst d \<noteq> fr_obj f) (dl_deliveries s),
                 dl_acknowledgedOrder := n,
                 dl_lastEventId := (case fr_id f of None \<Rightarrow> dl_lastEventId s
                    | Some i \<Rightarrow> if i = [] then None else Some i)\<rparr>)"

text \<open>\<open>close\<close> and the end of a session invalidate what is outstanding; a new attempt forgets the
  boundary.\<close>

definition invalidate :: "delivery \<Rightarrow> delivery" where
  "invalidate s = s\<lparr>dl_generation := dl_generation s + 1\<rparr>"

definition attempt_started :: "delivery \<Rightarrow> delivery" where
  "attempt_started s = s\<lparr>dl_hasBoundary := False\<rparr>"

datatype delivery_input =
    Dispatch frame
  | Acknowledge frame
  | ResetCursor
  | Invalidate
  | AttemptStarted

datatype delivery_output = EmitFrame frame | Threw channel_error

fun emission :: "frame \<Rightarrow> channel_error + bool \<Rightarrow> delivery_output list" where
  "emission f (Inl e) = (if fr_type f = ''failure'' then [EmitFrame f] else []) @ [Threw e]"
| "emission f (Inr emitted) = (if emitted then [EmitFrame f] else [])"

fun delivery_step ::
  "(jsval \<Rightarrow> decoded) \<Rightarrow> delivery \<Rightarrow> delivery_input \<Rightarrow> delivery \<times> delivery_output list" where
  "delivery_step failures s (Dispatch f) = (let (s', r) = dispatch failures s f in (s', emission f r))"
| "delivery_step failures s (Acknowledge f) = (acknowledge s f, [])"
| "delivery_step failures s ResetCursor = (resetCursor s, [])"
| "delivery_step failures s Invalidate = (invalidate s, [])"
| "delivery_step failures s AttemptStarted = (attempt_started s, [])"

section \<open>Specification: the frames waiting to be acknowledged\<close>

record waiting_frames =
  wf_cursor :: "string option"
  wf_retry :: "jsnum option"
  wf_boundary :: bool
  wf_frames :: "nat list"  \<comment> \<open>delivered in this generation, after the last acknowledged one\<close>

definition spec_retry :: "waiting_frames \<Rightarrow> frame \<Rightarrow> waiting_frames \<times> delivery_output list" where
  "spec_retry a f =
     (case fr_retry f of
        None \<Rightarrow> (a, [EmitFrame f])
      | Some r \<Rightarrow> if isNonNegativeInteger r then (a\<lparr>wf_retry := Some r\<rparr>, [EmitFrame f]) else (a, [Threw InvalidRetry]))"

fun spec_delivery :: "(jsval \<Rightarrow> decoded) \<Rightarrow> waiting_frames \<Rightarrow> delivery_input \<Rightarrow> waiting_frames \<times> delivery_output list" where
  "spec_delivery failures a (Dispatch f) =
     (if is_control f then
        (case validateControl f failures of
           Inl e \<Rightarrow> (a, (if fr_type f = ''failure'' then [EmitFrame f] else []) @ [Threw e])
         | Inr _ \<Rightarrow>
             if fr_type f = ''reset'' then spec_retry (a\<lparr>wf_boundary := True, wf_cursor := None, wf_frames := []\<rparr>) f
             else spec_retry (a\<lparr>wf_boundary := True\<rparr>) f)
      else
        (case already_applied f (wf_cursor a) of
           Inl e \<Rightarrow> (a, [Threw e])
         | Inr old \<Rightarrow> if old then (a, [])
             else spec_retry (a\<lparr>wf_frames := filter (\<lambda>x. x \<noteq> fr_obj f) (wf_frames a) @ [fr_obj f]\<rparr>) f))"
| "spec_delivery failures a (Acknowledge f) =
     (if fr_obj f \<in> set (wf_frames a)
      then a\<lparr>wf_frames := tl (dropWhile (\<lambda>x. x \<noteq> fr_obj f) (wf_frames a)),
             wf_cursor := (case fr_id f of None \<Rightarrow> wf_cursor a | Some i \<Rightarrow> if i = [] then None else Some i)\<rparr>
      else a, [])"
| "spec_delivery failures a ResetCursor = (a\<lparr>wf_cursor := None, wf_frames := []\<rparr>, [])"
| "spec_delivery failures a Invalidate = (a\<lparr>wf_frames := []\<rparr>, [])"
| "spec_delivery failures a AttemptStarted = (a\<lparr>wf_boundary := False\<rparr>, [])"

text \<open>The frames that still count.\<close>

definition live :: "delivery \<Rightarrow> nat \<times> nat \<times> nat \<Rightarrow> bool" where
  "live s d = (fst (snd d) = dl_generation s \<and> dl_acknowledgedOrder s < snd (snd d))"

definition abs_delivery :: "delivery \<Rightarrow> waiting_frames" where
  "abs_delivery s = \<lparr>wf_cursor = dl_lastEventId s, wf_retry = dl_serverRetryMs s,
     wf_boundary = dl_hasBoundary s, wf_frames = map fst (filter (live s) (dl_deliveries s))\<rparr>"

definition delivery_inv :: "delivery \<Rightarrow> bool" where
  "delivery_inv s = (distinct (map fst (dl_deliveries s)) \<and>
     sorted_wrt (<) (map (snd \<circ> snd) (dl_deliveries s)) \<and>
     (\<forall>d \<in> set (dl_deliveries s). fst (snd d) \<le> dl_generation s \<and> snd (snd d) \<le> dl_order s) \<and>
     dl_acknowledgedOrder s \<le> dl_order s)"

lemma abs_fields [simp]:
  "wf_cursor (abs_delivery s) = dl_lastEventId s" "wf_retry (abs_delivery s) = dl_serverRetryMs s"
  "wf_boundary (abs_delivery s) = dl_hasBoundary s"
  by (simp_all add: abs_delivery_def)

lemma live_fields [simp]:
  "live (s\<lparr>dl_order := a\<rparr>) = live s" "live (s\<lparr>dl_deliveries := b\<rparr>) = live s"
  "live (s\<lparr>dl_lastEventId := c\<rparr>) = live s" "live (s\<lparr>dl_hasBoundary := d\<rparr>) = live s"
  "live (s\<lparr>dl_serverRetryMs := e\<rparr>) = live s"
  by (auto simp: live_def fun_eq_iff)

lemma record_delivery_inv: "delivery_inv s \<Longrightarrow> delivery_inv (record_delivery s obj)"
proof -
  assume inv: "delivery_inv s"
  let ?ds = "filter (\<lambda>d. fst d \<noteq> obj) (dl_deliveries s)"
  have "sorted_wrt (<) (map (snd \<circ> snd) ?ds)"
    using inv unfolding delivery_inv_def sorted_wrt_map by (auto intro: sorted_wrt_filter)
  then show ?thesis
    using inv by (auto simp: delivery_inv_def record_delivery_def Let_def sorted_wrt_append less_Suc_eq_le
        distinct_map_filter le_SucI)
qed

lemma record_delivery_abs: "delivery_inv s \<Longrightarrow> abs_delivery (record_delivery s obj) =
    (abs_delivery s)\<lparr>wf_frames := filter (\<lambda>x. x \<noteq> obj) (wf_frames (abs_delivery s)) @ [obj]\<rparr>"
  by (simp add: abs_delivery_def record_delivery_def Let_def filter_map o_def live_def delivery_inv_def
      less_Suc_eq_le conj_commute)

lemma generation_up_inv: "delivery_inv s \<Longrightarrow> delivery_inv (s\<lparr>dl_generation := Suc (dl_generation s)\<rparr>)"
  by (auto simp: delivery_inv_def intro: le_SucI)

lemma delivery_inv_fields [simp]:
  "delivery_inv (s\<lparr>dl_lastEventId := c\<rparr>) = delivery_inv s"
  "delivery_inv (s\<lparr>dl_hasBoundary := d\<rparr>) = delivery_inv s"
  "delivery_inv (s\<lparr>dl_serverRetryMs := e\<rparr>) = delivery_inv s"
  by (simp_all add: delivery_inv_def)

lemma generation_up_abs: "delivery_inv s \<Longrightarrow>
    filter (live (s\<lparr>dl_generation := Suc (dl_generation s)\<rparr>)) (dl_deliveries s) = []"
  by (auto simp: filter_empty_conv live_def delivery_inv_def)

lemma after_ack:
  fixes ds :: "(nat \<times> nat \<times> nat) list"
  assumes "distinct (map fst ds)" "sorted_wrt (<) (map (snd \<circ> snd) ds)" "(obj, g, n) \<in> set ds"
  shows "map fst (filter (\<lambda>d. n < snd (snd d)) ds) = tl (dropWhile (\<lambda>x. x \<noteq> obj) (map fst ds))"
proof -
  obtain xs ys where ds: "ds = xs @ (obj, g, n) # ys" using assms(3) by (auto simp: in_set_conv_decomp)
  have xs: "\<forall>d \<in> set xs. snd (snd d) < n" and ys: "\<forall>d \<in> set ys. n < snd (snd d)"
    using assms(2) by (auto simp: ds sorted_wrt_append)
  from xs have "\<forall>d \<in> set xs. \<not> n < snd (snd d)" by auto
  moreover note ys
  moreover have "obj \<notin> set (map fst xs)" using assms(1) by (simp add: ds)
  moreover from this have "dropWhile (\<lambda>x. x \<noteq> obj) (map fst xs @ obj # map fst ys) = obj # map fst ys"
    by (subst dropWhile_append2) auto
  ultimately show ?thesis by (simp add: ds filter_False filter_True)
qed

lemma unique_entry:
  assumes "distinct (map fst ds)" "(k, v) \<in> set ds" "d \<in> set ds" "fst d = k"
  shows "d = (k, v)"
proof -
  have "(k, snd d) \<in> set ds" using assms(3,4) by force
  with assms(1,2) have "v = snd d" by (rule eq_key_imp_eq_value)
  with assms(4) show ?thesis by auto
qed

lemma find_live:
  assumes "delivery_inv s" "find_delivery s obj = Some (g, n)"
  shows "(obj \<in> set (wf_frames (abs_delivery s))) = (g = dl_generation s \<and> dl_acknowledgedOrder s < n)"
proof -
  have "(obj, g, n) \<in> set (dl_deliveries s)" using assms(2) map_of_SomeD by (simp add: find_delivery_def)
  then have mem: "(obj, g, n) \<in> set (dl_deliveries s)" .
  have "obj \<in> set (wf_frames (abs_delivery s)) \<longleftrightarrow> live s (obj, g, n)"
  proof
    assume "obj \<in> set (wf_frames (abs_delivery s))"
    then obtain d where d: "d \<in> set (dl_deliveries s)" "live s d" "fst d = obj"
      by (auto simp: abs_delivery_def)
    with unique_entry [OF _ mem d(1,3)] assms(1) show "live s (obj, g, n)" by (simp add: delivery_inv_def)
  next
    assume "live s (obj, g, n)"
    with mem have "(obj, g, n) \<in> set (filter (live s) (dl_deliveries s))" by simp
    from imageI [OF this, of fst] show "obj \<in> set (wf_frames (abs_delivery s))"
      by (simp add: abs_delivery_def)
  qed
  then show ?thesis by (simp add: live_def)
qed

lemma acknowledge_abs:
  assumes "delivery_inv s"
  shows "abs_delivery (acknowledge s f) = fst (spec_delivery failures (abs_delivery s) (Acknowledge f)) \<and>
    delivery_inv (acknowledge s f)"
proof (cases "find_delivery s (fr_obj f)")
  case None
  then have "fr_obj f \<notin> set (wf_frames (abs_delivery s))"
    by (force simp: find_delivery_def abs_delivery_def map_of_eq_None_iff)
  with None assms show ?thesis by (simp add: acknowledge_def)
next
  case (Some p)
  obtain g n where p: "p = (g, n)" by (cases p)
  note fl = find_live [OF assms Some [unfolded p]]
  show ?thesis
  proof (cases "g = dl_generation s \<and> dl_acknowledgedOrder s < n")
    case False
    then show ?thesis using Some p fl assms by (auto simp: acknowledge_def)
  next
    case True
    let ?L = "filter (live s) (dl_deliveries s)"
    let ?s' = "acknowledge s f"
    have mem: "(fr_obj f, g, n) \<in> set (dl_deliveries s)"
      using Some p map_of_SomeD by (simp add: find_delivery_def)
    with True have memL: "(fr_obj f, g, n) \<in> set ?L" by (simp add: live_def)
    have "sorted_wrt (<) (map (snd \<circ> snd) ?L)" "distinct (map fst ?L)"
      using assms unfolding delivery_inv_def sorted_wrt_map by (auto intro: sorted_wrt_filter distinct_map_filter)
    note after = after_ack [OF this(2,1) memL]
    have "snd (snd d) = n" if "d \<in> set (dl_deliveries s)" "fst d = fr_obj f" for d
      using unique_entry [OF _ mem that] assms unfolding delivery_inv_def by simp
    then have "filter (live ?s') (dl_deliveries ?s') = filter (\<lambda>d. n < snd (snd d)) ?L"
      using Some p True
      by (auto simp: acknowledge_def live_def intro!: filter_cong)
    with after have "wf_frames (abs_delivery ?s') = tl (dropWhile (\<lambda>x. x \<noteq> fr_obj f) (wf_frames (abs_delivery s)))"
      by (simp add: abs_delivery_def)
    moreover have "delivery_inv ?s'"
    proof -
      have "sorted_wrt (<) (map (snd \<circ> snd) (filter (\<lambda>d. fst d \<noteq> fr_obj f) (dl_deliveries s)))"
        using assms unfolding delivery_inv_def sorted_wrt_map by (auto intro: sorted_wrt_filter)
      then show ?thesis
        using assms Some p True mem by (auto simp: delivery_inv_def acknowledge_def distinct_map_filter)
    qed
    moreover have "dl_lastEventId ?s' = (case fr_id f of None \<Rightarrow> dl_lastEventId s | Some i \<Rightarrow> if i = [] then None else Some i)"
      "dl_serverRetryMs ?s' = dl_serverRetryMs s" "dl_hasBoundary ?s' = dl_hasBoundary s"
      using Some p True by (simp_all add: acknowledge_def)
    ultimately show ?thesis using True fl by (auto simp: abs_delivery_def split: option.splits)
  qed
qed

lemma retry_abs:
  assumes "delivery_inv s" "retry_and_emit s f = (s', r)"
  shows "delivery_inv s' \<and> (fr_type f \<noteq> ''failure'' \<longrightarrow> (abs_delivery s', emission f r) = spec_retry (abs_delivery s) f)"
  using assms
  by (auto simp: retry_and_emit_def spec_retry_def setServerRetry_def abs_delivery_def split: option.splits if_splits)

lemma dispatch_refines:
  assumes "delivery_inv s" "dispatch failures s f = (s', r)"
  shows "delivery_inv s' \<and> (abs_delivery s', emission f r) = spec_delivery failures (abs_delivery s) (Dispatch f)"
proof (cases "is_control f")
  case True
  show ?thesis
  proof (cases "validateControl f failures")
    case (Inl e)
    then show ?thesis using assms True by (auto simp: dispatch_def)
  next
    case (Inr u)
    then have nf: "fr_type f \<noteq> ''failure''" by (auto simp: validateControl_def split: option.splits decoded.splits)
    let ?s1 = "s\<lparr>dl_hasBoundary := True\<rparr>"
    let ?s2 = "if fr_type f = ''reset'' then resetCursor ?s1 else ?s1"
    have r: "retry_and_emit ?s2 f = (s', r)" using assms(2) True Inr by (simp add: dispatch_def Let_def)
    have i2: "delivery_inv ?s2" using assms(1) generation_up_inv [of ?s1] by (simp add: resetCursor_def)
    have "abs_delivery ?s2 = (if fr_type f = ''reset''
        then (abs_delivery s)\<lparr>wf_boundary := True, wf_cursor := None, wf_frames := []\<rparr>
        else (abs_delivery s)\<lparr>wf_boundary := True\<rparr>)"
      using generation_up_abs [of ?s1] assms(1) by (simp add: abs_delivery_def resetCursor_def)
    with retry_abs [OF i2 r] nf True Inr show ?thesis by auto
  qed
next
  case False
  then have nf: "fr_type f \<noteq> ''failure''" by (simp add: is_control_def)
  show ?thesis
  proof (cases "already_applied f (dl_lastEventId s)")
    case (Inl e)
    then have "s' = s" "r = Inl e" using assms(2) False by (simp_all add: dispatch_def)
    then show ?thesis using assms(1) False nf Inl by simp
  next
    case (Inr old)
    show ?thesis
    proof (cases old)
      case True
      then show ?thesis using assms False Inr by (auto simp: dispatch_def)
    next
      case nold: False
      then have "retry_and_emit (record_delivery s (fr_obj f)) f = (s', r)"
        using assms False Inr by (simp add: dispatch_def)
      from retry_abs [OF record_delivery_inv [OF assms(1)] this] nf False Inr nold
      show ?thesis by (simp add: record_delivery_abs [OF assms(1)])
    qed
  qed
qed

lemma delivery_step_refines:
  assumes "delivery_inv s"
  shows "delivery_inv (fst (delivery_step failures s i)) \<and>
    spec_delivery failures (abs_delivery s) i = (abs_delivery (fst (delivery_step failures s i)), snd (delivery_step failures s i))"
proof (cases i)
  case (Dispatch f)
  obtain s' r where "dispatch failures s f = (s', r)" by (cases "dispatch failures s f")
  with dispatch_refines [OF assms this] Dispatch show ?thesis by (simp del: spec_delivery.simps)
next
  case (Acknowledge f)
  have "snd (spec_delivery failures (abs_delivery s) (Acknowledge f)) = []" by simp
  then show ?thesis using acknowledge_abs [OF assms, of f failures] Acknowledge
    by (auto simp: prod_eq_iff simp del: spec_delivery.simps)
next
  case ResetCursor
  then show ?thesis using generation_up_inv [OF assms] generation_up_abs [OF assms]
    by (simp add: resetCursor_def abs_delivery_def live_def)
next
  case Invalidate
  then show ?thesis using generation_up_inv [OF assms] generation_up_abs [OF assms]
    by (simp add: invalidate_def abs_delivery_def)
next
  case AttemptStarted
  then show ?thesis using assms by (simp add: attempt_started_def abs_delivery_def)
qed

interpretation delivery: refined_machine "delivery_step failures" delivery_inv abs_delivery "spec_delivery failures"
  for failures by unfold_locales (use delivery_step_refines in blast)+

lemma delivery_start: "delivery_inv (delivery_init l)"
  "abs_delivery (delivery_init l) = \<lparr>wf_cursor = l, wf_retry = None, wf_boundary = False, wf_frames = []\<rparr>"
  by (simp_all add: delivery_inv_def delivery_init_def abs_delivery_def)

section \<open>Canonical cursors\<close>

lemma digit_value: "is_digit c \<Longrightarrow> \<exists>v < 10. c = char_of (48 + v) \<and> of_char c - 48 = (v :: nat)"
  by (rule exI [where x = "of_char c - 48"]) (auto simp: is_digit_def)

lemma digits_value_snoc: "digits_value (xs @ [c]) = digits_value xs * 10 + (of_char c - 48)"
  by (simp add: digits_value_def)

lemma digits_value_pos:
  assumes "list_all is_digit xs" "xs \<noteq> []" "hd xs \<noteq> CHR ''0''"
  shows "0 < digits_value xs"
  using assms
proof (induction xs rule: rev_induct)
  case (snoc c xs)
  show ?case
  proof (cases "xs = []")
    case True
    obtain v where "c = char_of (48 + v)" "of_char c - 48 = (v :: nat)"
      using snoc.prems(1) digit_value by fastforce
    moreover have "c \<noteq> CHR ''0''" using snoc.prems(3) True by simp
    moreover have "char_of (48 + 0 :: nat) = CHR ''0''" by (simp add: char_of_def bit_0)
    ultimately have "v \<noteq> 0" by metis
    then show ?thesis using True \<open>of_char c - 48 = v\<close> by (simp add: digits_value_def)
  next
    case False
    then show ?thesis using snoc by (simp add: digits_value_snoc)
  qed
qed simp

lemma digits_of_value:
  assumes "list_all is_digit xs" "xs \<noteq> []" "hd xs \<noteq> CHR ''0'' \<or> length xs = 1"
  shows "digits_of (digits_value xs) = xs"
  using assms
proof (induction xs rule: rev_induct)
  case (snoc c xs)
  obtain v where v: "v < 10" "c = char_of (48 + v)" "of_char c - 48 = (v :: nat)"
    using snoc.prems(1) digit_value by fastforce
  show ?case
  proof (cases "xs = []")
    case True
    then show ?thesis using v by (subst digits_of.simps) (simp add: digits_value_def)
  next
    case False
    then have hd: "hd xs \<noteq> CHR ''0''" and all: "list_all is_digit xs" using snoc.prems by auto
    have "0 < digits_value xs" by (rule digits_value_pos [OF all False hd])
    moreover have "digits_of (digits_value xs) = xs" using snoc.IH all False hd by blast
    ultimately show ?thesis
      using v by (subst digits_of.simps) (simp add: digits_value_snoc)
  qed
qed simp

lemma digits_of_digits: "list_all is_digit (digits_of n)"
proof (induction n rule: digits_of.induct)
  case (1 n)
  have "is_digit (char_of (48 + d))" if "d < 10" for d :: nat
    using that by (simp add: is_digit_def)
  with 1 show ?case by (subst digits_of.simps) auto
qed

lemma digits_of_head: "0 < n \<Longrightarrow> digits_of n \<noteq> [] \<and> hd (digits_of n) \<noteq> CHR ''0''"
proof (induction n rule: digits_of.induct)
  case (1 n)
  have "(of_char (char_of (48 + n) :: char) :: nat) \<noteq> of_char (CHR ''0'')" if "n < 10"
    using that 1 by simp
  then have "char_of (48 + n) \<noteq> CHR ''0''" if "n < 10" using that by metis
  moreover have "0 < n div 10" if "\<not> n < 10" using that by simp
  ultimately show ?case using 1 by (subst (1 2) digits_of.simps) auto
qed

lemma digits_of_length: "n < 10 ^ k \<Longrightarrow> 0 < k \<Longrightarrow> length (digits_of n) \<le> k"
proof (induction n arbitrary: k rule: digits_of.induct)
  case (1 n)
  show ?case
  proof (cases "n < 10")
    case True
    then show ?thesis using 1 by (subst digits_of.simps) simp
  next
    case False
    then obtain j where k: "k = Suc j" "0 < j" using 1 by (cases k; cases "k = 1") auto
    have "n div 10 < 10 ^ j" using 1(2) k by (simp add: less_mult_imp_div_less mult.commute)
    then show ?thesis using 1(1) False k by (subst digits_of.simps) simp
  qed
qed

lemma digits_of_zero: "digits_of 0 = ''0''"
  by (subst digits_of.simps) (simp add: char_of_def bit_0)

lemma canonical_digits_iff: "canonical_digits d \<and> digits_value d = n \<and> n \<le> MAX_SEQUENCE \<longleftrightarrow> d = digits_of n \<and> n \<le> MAX_SEQUENCE"
proof
  assume d: "canonical_digits d \<and> digits_value d = n \<and> n \<le> MAX_SEQUENCE"
  have "list_all is_digit d \<and> d \<noteq> [] \<and> (hd d \<noteq> CHR ''0'' \<or> length d = 1)"
    using d by (auto simp: canonical_digits_def is_digit_def)
  then show "d = digits_of n \<and> n \<le> MAX_SEQUENCE" using digits_of_value d by metis
next
  assume d: "d = digits_of n \<and> n \<le> MAX_SEQUENCE"
  have "length (digits_of n) \<le> 20" using d by (intro digits_of_length) (simp_all add: MAX_SEQUENCE_def)
  then have "canonical_digits (digits_of n)"
    using digits_of_head [of n] digits_of_digits [of n] digits_of_zero
    by (cases "n = 0") (auto simp: canonical_digits_def)
  with d show "canonical_digits d \<and> digits_value d = n \<and> n \<le> MAX_SEQUENCE"
    by (simp add: digits_value_digits)
qed

section \<open>Properties\<close>

text \<open>Claim C35: any sequence of dispatched frames, acknowledgements, cursor resets and invalidations gives
  the emissions, errors and resume cursor of a plain list of frames waiting to be acknowledged: a frame
  can be acknowledged only while it is in that list, which a reset or the end of a session empties and
  an acknowledgement empties up to and including the frame. The generation and order counters and the
  identity map implement exactly this.\<close>

theorem delivery_refines_waiting_list:
  "run (delivery_step failures) (delivery_init l) is = (s, out) \<longrightarrow>
   run (spec_delivery failures)
     \<lparr>wf_cursor = l, wf_retry = None, wf_boundary = False, wf_frames = []\<rparr> is = (abs_delivery s, out)"
  using delivery.run_refines [OF delivery_start(1), of failures l "is"] by (auto simp: delivery_start(2))

definition data_frame :: "nat \<Rightarrow> string \<Rightarrow> frame" where
  "data_frame obj i = \<lparr>fr_obj = obj, fr_type = ''changed'', fr_id = Some i, fr_data = None, fr_retry = None\<rparr>"

definition ack_run :: "delivery_input list" where
  "ack_run = [Dispatch (data_frame 1 ''a''), Dispatch (data_frame 2 ''b''), Dispatch (data_frame 3 ''c''),
     Acknowledge (data_frame 2 ''b''), Acknowledge (data_frame 1 ''a''), Invalidate, Acknowledge (data_frame 3 ''c'')]"

theorem delivery_refines_waiting_list_witness:
  "\<exists>s out. run (delivery_step (\<lambda>_. OtherError)) (delivery_init None) ack_run = (s, out) \<and>
     dl_lastEventId s = Some ''b'' \<and>
     run (spec_delivery (\<lambda>_. OtherError))
       \<lparr>wf_cursor = None, wf_retry = None, wf_boundary = False, wf_frames = []\<rparr> ack_run = (abs_delivery s, out)"
proof -
  obtain s out where r: "run (delivery_step (\<lambda>_. OtherError)) (delivery_init None) ack_run = (s, out)"
    by (cases "run (delivery_step (\<lambda>_. OtherError)) (delivery_init None) ack_run")
  have "dl_lastEventId (fst (run (delivery_step (\<lambda>_. OtherError)) (delivery_init None) ack_run)) = Some ''b''"
    by (simp add: ack_run_def delivery_init_def data_frame_def dispatch_def is_control_def already_applied_def
        retry_and_emit_def record_delivery_def acknowledge_def find_delivery_def invalidate_def cursor_prefix_def)
  with r delivery_refines_waiting_list [of "\<lambda>_. OtherError" None ack_run s out] show ?thesis by simp
qed

text \<open>A cursor parses exactly when it is written canonically, 32 lower-case hexadecimal digits, a
  colon and the decimal digits, without leading zeros, of a number below 2 to the 64th; it parses to
  that epoch and number, so distinct cursors never parse alike.\<close>

theorem cursor_parses_iff_canonical:
  "parseEventCursor v = Inr (epoch, n) \<longleftrightarrow>
     length epoch = 32 \<and> list_all is_hex epoch \<and> n < 2 ^ 64 \<and> v = epoch @ '':'' @ digits_of n"
proof
  assume p: "parseEventCursor v = Inr (epoch, n)"
  then have c: "cursor_prefix v" "canonical_digits (drop 33 v)" "epoch = take 32 v" "n = digits_value (drop 33 v)"
    "n \<le> MAX_SEQUENCE"
    by (auto simp: parseEventCursor_def Let_def split: if_splits)
  have "v = take 32 v @ v ! 32 # drop (Suc 32) v"
    by (rule id_take_nth_drop) (use c(1) in \<open>simp add: cursor_prefix_def\<close>)
  moreover have "Suc 32 = 33" by simp
  ultimately have v: "v = take 32 v @ v ! 32 # drop 33 v" by metis
  have d: "drop 33 v = digits_of n" using canonical_digits_iff c(2,4,5) by blast
  have e: "length epoch = 32" "list_all is_hex epoch" "v ! 32 = CHR '':''"
    using c(1,3) by (simp_all add: cursor_prefix_def)
  have "v = epoch @ '':'' @ digits_of n"
    using v unfolding c(3) [symmetric] d e(3) by simp
  moreover have "n < 2 ^ 64" using c(5) by (simp add: MAX_SEQUENCE_def)
  ultimately show "length epoch = 32 \<and> list_all is_hex epoch \<and> n < 2 ^ 64 \<and> v = epoch @ '':'' @ digits_of n"
    using e by blast
next
  assume p: "length epoch = 32 \<and> list_all is_hex epoch \<and> n < 2 ^ 64 \<and> v = epoch @ '':'' @ digits_of n"
  then have "n \<le> MAX_SEQUENCE" by (simp add: MAX_SEQUENCE_def)
  then have "canonical_digits (digits_of n)" "digits_value (digits_of n) = n"
    using canonical_digits_iff [of "digits_of n" n] by auto
  with p \<open>n \<le> MAX_SEQUENCE\<close> show "parseEventCursor v = Inr (epoch, n)"
    by (simp add: parseEventCursor_def cursor_prefix_def nth_append)
qed

text \<open>A data frame that reaches the listeners is new: its id is not the resume cursor, and if both
  are event cursors of one epoch its sequence is strictly above the applied one. A data frame that is
  withheld changes nothing.\<close>

theorem only_new_frames_emitted:
  assumes "dispatch failures s f = (s', r)" "\<not> is_control f" "fr_id f = Some i" "dl_lastEventId s = Some l"
  shows "(r = Inr True \<longrightarrow> i \<noteq> l \<and>
       (\<forall>e n m. parseEventCursor i = Inr (e, n) \<longrightarrow> parseEventCursor l = Inr (e, m) \<longrightarrow> m < n)) \<and>
    (r = Inr False \<longrightarrow> s' = s) \<and> dl_lastEventId s' = Some l"
proof -
  have pre: "cursor_prefix v" if "parseEventCursor v = Inr p" for v p
    using that by (auto simp: parseEventCursor_def split: if_splits)
  have keep: "dl_lastEventId (fst (retry_and_emit (record_delivery s (fr_obj f)) f)) = dl_lastEventId s"
    "snd (retry_and_emit (record_delivery s (fr_obj f)) f) \<noteq> Inr False"
    by (auto simp: retry_and_emit_def record_delivery_def setServerRetry_def Let_def split: option.splits)
  show ?thesis
  proof (cases "already_applied f (dl_lastEventId s)")
    case (Inl e)
    then show ?thesis using assms by (auto simp: dispatch_def)
  next
    case (Inr old)
    then have old: "\<not> old \<Longrightarrow> i \<noteq> l \<and> (\<forall>e n m. parseEventCursor i = Inr (e, n) \<longrightarrow> parseEventCursor l = Inr (e, m) \<longrightarrow> m < n)"
      using assms(3,4) pre [of i] pre [of l] by (auto simp: already_applied_def split: if_splits sum.splits)
    have "(s', r) = (if old then (s, Inr False) else retry_and_emit (record_delivery s (fr_obj f)) f)"
      using assms(1,2) Inr by (cases old) (auto simp: dispatch_def)
    then show ?thesis using keep old assms(4) by (cases old) (auto simp: prod_eq_iff)
  qed
qed

theorem only_new_frames_emitted_witness:
  "\<exists>s'. dispatch (\<lambda>_. OtherError) (delivery_init (Some ''a'')) (data_frame 1 ''b'') = (s', Inr True) \<and>
     dl_lastEventId s' = Some ''a''"
proof -
  obtain s' r where d: "dispatch (\<lambda>_. OtherError) (delivery_init (Some ''a'')) (data_frame 1 ''b'') = (s', r)"
    by (cases "dispatch (\<lambda>_. OtherError) (delivery_init (Some ''a'')) (data_frame 1 ''b'')")
  have "r = Inr True"
    using d by (auto simp: dispatch_def data_frame_def is_control_def already_applied_def delivery_init_def
        cursor_prefix_def retry_and_emit_def)
  with only_new_frames_emitted [OF d, of "''b''" "''a''"] d show ?thesis
    by (auto simp: data_frame_def is_control_def delivery_init_def)
qed

end
