(* ===== verification/Failures.thy ===== *)
theory Failures imports Prelude begin

text \<open>
  Remote failures and the shared failure taxonomy: the canonical codes and their HTTP statuses
  (\<^verbatim>\<open>packages/std/src/failure/codes.ts\<close>), the \<open>RemoteFailure\<close> a decoded failure becomes
  (\<^verbatim>\<open>failure/failure.ts\<close>) and the classifier every retry decision reads
  (\<^verbatim>\<open>resilience/classify.ts\<close>).

  A thrown value is the class the classifier tests it against, with the \<open>name\<close> it carries, since the
  classifier compares names before it compares classes.
\<close>

section \<open>Codes and statuses\<close>

datatype failure_code =
    Canceled | UnknownFailure | InvalidArgument | DeadlineExceeded | NotFound | AlreadyExists
  | PermissionDenied | ResourceExhausted | FailedPrecondition | Aborted | OutOfRange | Unimplemented
  | Internal | Unavailable | DataLoss | Unauthenticated

fun httpStatusFor :: "failure_code \<Rightarrow> rat" where
  "httpStatusFor Canceled = 499"
| "httpStatusFor UnknownFailure = 500"
| "httpStatusFor InvalidArgument = 400"
| "httpStatusFor DeadlineExceeded = 504"
| "httpStatusFor NotFound = 404"
| "httpStatusFor AlreadyExists = 409"
| "httpStatusFor PermissionDenied = 403"
| "httpStatusFor ResourceExhausted = 429"
| "httpStatusFor FailedPrecondition = 400"
| "httpStatusFor Aborted = 409"
| "httpStatusFor OutOfRange = 400"
| "httpStatusFor Unimplemented = 501"
| "httpStatusFor Internal = 500"
| "httpStatusFor Unavailable = 503"
| "httpStatusFor DataLoss = 500"
| "httpStatusFor Unauthenticated = 401"

definition is_integer :: "rat \<Rightarrow> bool" where
  "is_integer r = (of_int (floor r) = r)"

fun failureCodeForStatus :: "jsnum \<Rightarrow> failure_code" where
  "failureCodeForStatus (Fin s) =
     (if s = 400 \<or> s = 422 then InvalidArgument
      else if s = 401 then Unauthenticated
      else if s = 403 then PermissionDenied
      else if s = 404 then NotFound
      else if s = 408 \<or> s = 504 then DeadlineExceeded
      else if s = 409 then Aborted
      else if s = 416 then OutOfRange
      else if s = 429 then ResourceExhausted
      else if s = 499 then Canceled
      else if s = 501 then Unimplemented
      else if s = 502 \<or> s = 503 then Unavailable
      else if is_integer s \<and> 400 \<le> s \<and> s < 500 then FailedPrecondition
      else if is_integer s \<and> 500 \<le> s \<and> s < 600 then Internal
      else UnknownFailure)"
| "failureCodeForStatus _ = UnknownFailure"

fun isRetryableStatus :: "jsnum \<Rightarrow> bool" where
  "isRetryableStatus (Fin s) = (is_integer s \<and> (s = 408 \<or> s = 429 \<or> 500 \<le> s \<and> s < 600))"
| "isRetryableStatus _ = False"

section \<open>Remote failures\<close>

datatype failure_authentication = AuthUnauthenticated | AuthUnavailable

record violation =
  vi_field :: string
  vi_reason :: string
  vi_message :: string

text \<open>What a decoder reports (the \<open>Failure\<close> interface) and the error built from it.\<close>

record failure =
  fa_code :: failure_code
  fa_message :: string
  fa_reason :: "string option"
  fa_domain :: "string option"
  fa_metadata :: "(string \<times> string) list option"
  fa_traceId :: "string option"
  fa_violations :: "violation list"
  fa_retryable :: bool
  fa_retryAfterMs :: "jsnum option"
  fa_authentication :: "failure_authentication option"

record remote_failure =
  rf_kind :: string
  rf_message :: string
  rf_code :: failure_code
  rf_reason :: "string option"
  rf_domain :: "string option"
  rf_metadata :: "(string \<times> string) list"
  rf_traceId :: "string option"
  rf_violations :: "violation list"
  rf_authentication :: "failure_authentication option"
  rf_retryable :: bool
  rf_retryAfterMs :: "jsnum option"

definition remoteFailure :: "string \<Rightarrow> failure \<Rightarrow> remote_failure" where
  "remoteFailure kind f =
     (let authentication = (case fa_authentication f of
            Some a \<Rightarrow> Some a
          | None \<Rightarrow> if fa_code f = Unauthenticated then Some AuthUnauthenticated else None);
          retryable = (fa_retryable f \<and> authentication = None)
      in \<lparr>rf_kind = kind, rf_message = fa_message f, rf_code = fa_code f, rf_reason = fa_reason f,
          rf_domain = fa_domain f,
          rf_metadata = (case fa_metadata f of None \<Rightarrow> [] | Some m \<Rightarrow> m),
          rf_traceId = fa_traceId f, rf_violations = fa_violations f,
          rf_authentication = authentication, rf_retryable = retryable,
          rf_retryAfterMs = (if retryable then fa_retryAfterMs f else None)\<rparr>)"

definition failureDecodeError :: remote_failure where
  "failureDecodeError = remoteFailure ''failure/decode''
     \<lparr>fa_code = Internal, fa_message = ''The service returned an invalid failure response.'',
      fa_reason = None, fa_domain = None, fa_metadata = None, fa_traceId = None, fa_violations = [],
      fa_retryable = False, fa_retryAfterMs = None, fa_authentication = None\<rparr>"

section \<open>Classification\<close>

datatype thrown =
    ThrownRemote remote_failure
  | ThrownExhausted string nat thrown  \<comment> \<open>a \<open>std/retry-exhausted\<close> error: its name, attempts and cause\<close>
  | ThrownStatus string jsnum
  | ThrownNetwork string
  | ThrownError string                 \<comment> \<open>any other \<open>Error\<close>, by name\<close>
  | ThrownValue                        \<comment> \<open>a thrown value that is no \<open>Error\<close>, \<open>undefined\<close> included\<close>

datatype failure_category = CNetwork | CTimeout | CTransport | CProtocol | CAuth

datatype disposition = Retryable | Fatal

definition classifyStatus :: "jsnum \<Rightarrow> failure_category \<times> disposition" where
  "classifyStatus status =
     (if \<not> (case num_val status of None \<Rightarrow> False | Some s \<Rightarrow> is_integer s) then (CProtocol, Fatal)
      else if status = Fin 401 \<or> status = Fin 403 then (CAuth, Fatal)
      else if status = Fin 408 then (CTimeout, Retryable)
      else if isRetryableStatus status then (CTransport, Retryable)
      else (CProtocol, Fatal))"

fun errorName :: "thrown \<Rightarrow> string option" where
  "errorName (ThrownRemote _) = Some ''RemoteFailure''"
| "errorName (ThrownExhausted name _ _) = Some name"
| "errorName (ThrownStatus name _) = Some name"
| "errorName (ThrownNetwork name) = Some name"
| "errorName (ThrownError name) = Some name"
| "errorName ThrownValue = None"

definition classifyRemote :: "remote_failure \<Rightarrow> failure_category \<times> disposition" where
  "classifyRemote f =
     (if rf_authentication f = Some AuthUnauthenticated then CAuth else CTransport,
      if rf_retryable f \<and> rf_authentication f = None then Retryable else Fatal)"

text \<open>The two names every class is compared against first.\<close>

definition by_name :: "string \<Rightarrow> failure_category \<times> disposition \<Rightarrow> failure_category \<times> disposition" where
  "by_name name otherwise =
     (if name = ''TimeoutError'' then (CTimeout, Retryable)
      else if name = ''AbortError'' then (CTimeout, Fatal)
      else otherwise)"

fun classifyError :: "thrown \<Rightarrow> failure_category \<times> disposition" where
  "classifyError (ThrownRemote f) = classifyRemote f"
| "classifyError (ThrownExhausted name _ cause) = by_name name (classifyError cause)"
| "classifyError (ThrownStatus name status) = by_name name (classifyStatus status)"
| "classifyError (ThrownNetwork name) = by_name name (CNetwork, Retryable)"
| "classifyError (ThrownError name) = by_name name (CTransport, Fatal)"
| "classifyError ThrownValue = (CTransport, Fatal)"

definition isRetryable :: "thrown \<Rightarrow> bool" where
  "isRetryable e = (snd (classifyError e) = Retryable)"

text \<open>The errors the resilience helpers themselves raise.\<close>

abbreviation abort_error :: thrown where "abort_error \<equiv> ThrownError ''AbortError''"
abbreviation timeout_error :: thrown where "timeout_error \<equiv> ThrownError ''TimeoutError''"
abbreviation range_error :: thrown where "range_error \<equiv> ThrownError ''RangeError''"

section \<open>Properties\<close>

lemma is_integer_numeral [simp]: "is_integer (numeral n)"
  by (simp add: is_integer_def)

lemma classifyStatus_retryable: "snd (classifyStatus s) = Retryable \<longleftrightarrow> isRetryableStatus s"
  by (cases s) (auto simp: classifyStatus_def)

lemma remote_retryable: "isRetryable (ThrownRemote (remoteFailure k f)) \<longleftrightarrow> rf_retryable (remoteFailure k f)"
  by (auto simp: isRetryable_def classifyRemote_def remoteFailure_def Let_def)

text \<open>Every canonical code survives its HTTP status up to the documented ambiguity: the code
  read back from the status of a code is sent with that same status. The classifier retries a failed status
  exactly when the HTTP rule does, a retry-exhausted wrapper exactly when it retries its cause, and never
  an authentication failure, however the server marked it: a remote failure with an authentication outcome
  is fatal, keeps no delay hint, and code \<open>unauthenticated\<close> always has one.\<close>

theorem failure_verdicts_agree:
  "httpStatusFor (failureCodeForStatus (Fin (httpStatusFor c))) = httpStatusFor c \<and>
   isRetryable (ThrownStatus ''StatusError'' s) = isRetryableStatus s \<and>
   isRetryable (ThrownExhausted ''RetryError'' n e) = isRetryable e \<and>
   isRetryable (ThrownRemote (remoteFailure k f)) =
     (fa_retryable f \<and> fa_authentication f = None \<and> fa_code f \<noteq> Unauthenticated) \<and>
   rf_retryAfterMs (remoteFailure k f) =
     (if isRetryable (ThrownRemote (remoteFailure k f)) then fa_retryAfterMs f else None)"
proof (intro conjI)
  show "httpStatusFor (failureCodeForStatus (Fin (httpStatusFor c))) = httpStatusFor c"
    by (cases c) simp_all
  show "isRetryable (ThrownStatus ''StatusError'' s) = isRetryableStatus s"
    by (simp add: isRetryable_def by_name_def classifyStatus_retryable)
  show "isRetryable (ThrownExhausted ''RetryError'' n e) = isRetryable e"
    by (simp add: isRetryable_def by_name_def)
  show "isRetryable (ThrownRemote (remoteFailure k f)) =
     (fa_retryable f \<and> fa_authentication f = None \<and> fa_code f \<noteq> Unauthenticated)"
    unfolding remote_retryable by (auto simp: remoteFailure_def Let_def split: option.splits)
  show "rf_retryAfterMs (remoteFailure k f) =
     (if isRetryable (ThrownRemote (remoteFailure k f)) then fa_retryAfterMs f else None)"
    unfolding remote_retryable by (simp add: remoteFailure_def Let_def)
qed

end
