(* ===== verification/Backoff.thy ===== *)
theory Backoff imports JS_Numbers begin

text \<open>
  Backoff schedules of \<^verbatim>\<open>packages/std/src/resilience/backoff.ts\<close> and the delay before a retry
  (\<^verbatim>\<open>retry-delay.ts\<close>). The value drawn from the random source is an argument.

  The lemmas show that every delay is finite, non-negative and capped, overflow of the exponential and of
  the decorrelated upper bound included.
\<close>

datatype jitter = JNone | JFull | JDecorrelated | JOther string

record backoff_policy =
  bp_baseMs :: jsnum
  bp_maxMs :: jsnum
  bp_factor :: jsnum
  bp_jitter :: jitter

definition defaultBackoff :: backoff_policy where
  "defaultBackoff = \<lparr>bp_baseMs = Fin 100, bp_maxMs = Fin 10000, bp_factor = Fin 2, bp_jitter = JFull\<rparr>"

text \<open>Whether the policy passes; the code throws a \<open>RangeError\<close> otherwise.\<close>

definition assertBackoffPolicy :: "backoff_policy \<Rightarrow> bool" where
  "assertBackoffPolicy p =
     (\<not> (\<not> js_finite (bp_baseMs p) \<or> \<not> js_finite (bp_maxMs p) \<or> \<not> js_finite (bp_factor p) \<or>
         js_less (bp_baseMs p) (Fin 0) \<or> js_less (bp_maxMs p) (bp_baseMs p) \<or> js_less (bp_factor p) (Fin 1) \<or>
         bp_jitter p \<noteq> JNone \<and> bp_jitter p \<noteq> JFull \<and> bp_jitter p \<noteq> JDecorrelated))"

definition exponential :: "backoff_policy \<Rightarrow> nat \<Rightarrow> jsnum" where
  "exponential p attempt =
     (if num_val (bp_baseMs p) = Some 0 then Fin 0
      else js_min (bp_maxMs p) (js_mul (bp_baseMs p) (js_pow (bp_factor p) attempt)))"

definition decorrelated :: "backoff_policy \<Rightarrow> rat \<Rightarrow> jsnum option \<Rightarrow> jsnum" where
  "decorrelated p random previousMs =
     (let previous = js_max (case previousMs of None \<Rightarrow> bp_baseMs p | Some x \<Rightarrow> x) (bp_baseMs p);
          rawUpper = js_mul previous (Fin 3);
          upper = (if js_finite rawUpper then rawUpper else bp_maxMs p)
      in js_min (bp_maxMs p)
           (js_add (bp_baseMs p) (js_mul (Fin random) (js_sub upper (bp_baseMs p)))))"

text \<open>None is the \<open>RangeError\<close>.\<close>

definition nextBackoff :: "backoff_policy \<Rightarrow> jsnum \<Rightarrow> rat \<Rightarrow> jsnum option \<Rightarrow> jsnum option" where
  "nextBackoff p attempt random previousMs =
     (if \<not> assertBackoffPolicy p then None
      else if \<not> isNonNegativeInteger attempt then None
      else if (case previousMs of None \<Rightarrow> False | Some x \<Rightarrow> \<not> js_finite x) then None
      else (case bp_jitter p of
          JNone \<Rightarrow> Some (exponential p (nat_of_num attempt))
        | JFull \<Rightarrow> Some (js_mul (Fin random) (exponential p (nat_of_num attempt)))
        | JDecorrelated \<Rightarrow> Some (decorrelated p random previousMs)
        | JOther _ \<Rightarrow> None))"

definition retryDelay ::
  "backoff_policy \<Rightarrow> jsnum \<Rightarrow> rat \<Rightarrow> jsnum option \<Rightarrow> jsnum option \<Rightarrow> jsnum option" where
  "retryDelay p attempt random previousMs minimumMs =
     (case nextBackoff p attempt random previousMs of
        None \<Rightarrow> None
      | Some backoff \<Rightarrow> Some
          (case minimumMs of
             Some m \<Rightarrow> if js_finite m \<and> js_le (Fin 0) m then js_max m backoff else backoff
           | None \<Rightarrow> backoff))"

section \<open>Bounds\<close>

lemma policy_values:
  assumes "assertBackoffPolicy p"
  obtains b m f where "num_val (bp_baseMs p) = Some b" "num_val (bp_maxMs p) = Some m"
    "num_val (bp_factor p) = Some f" "0 \<le> b" "b \<le> m" "1 \<le> f"
    "bp_jitter p = JNone \<or> bp_jitter p = JFull \<or> bp_jitter p = JDecorrelated"
proof -
  obtain b m f where v: "num_val (bp_baseMs p) = Some b" "num_val (bp_maxMs p) = Some m"
    "num_val (bp_factor p) = Some f"
    using assms by (auto simp: assertBackoffPolicy_def js_finite_iff)
  have "\<not> js_less (bp_baseMs p) (Fin 0)" "\<not> js_less (bp_maxMs p) (bp_baseMs p)" "\<not> js_less (bp_factor p) (Fin 1)"
    using assms by (auto simp: assertBackoffPolicy_def)
  with v have "0 \<le> b" "b \<le> m" "1 \<le> f" by (simp_all add: js_less_vals [of _ _ _ _])
  with v that assms show ?thesis by (auto simp: assertBackoffPolicy_def)
qed

text \<open>The exponential of a schedule with values \<open>b\<close>, \<open>m\<close> and \<open>f\<close> is the capped power; a power beyond the
  largest double gives the cap.\<close>

lemma exponential_value:
  assumes v: "num_val (bp_baseMs p) = Some b" "num_val (bp_maxMs p) = Some m" "num_val (bp_factor p) = Some f"
    and r: "0 \<le> b" "1 \<le> f" and m: "m \<le> max_double"
  shows "num_val (exponential p n) =
    Some (if b = 0 then 0 else if f ^ n > max_double then m else min m (b * f ^ n))"
proof (cases "b = 0")
  case True
  then show ?thesis using v by (simp add: exponential_def)
next
  case b: False
  have f: "1 \<le> f ^ n" using r(2) by (simp add: one_le_power)
  have e: "exponential p n = js_min (bp_maxMs p) (js_mul (bp_baseMs p) (js_of (f ^ n)))"
    using b v by (simp add: exponential_def js_pow_def)
  have inf: "js_mul (bp_baseMs p) PosInf = PosInf"
    using v(1) r(1) b by (cases "bp_baseMs p") (auto simp: js_mul_def js_signum_def sgn_if)
  have small: "js_mul (bp_baseMs p) (js_of (f ^ n)) = (if b * f ^ n > max_double then PosInf else Fin (b * f ^ n))"
    if "\<not> f ^ n > max_double"
    using that f v r by (simp add: js_of_nonneg js_mul_vals)
  have le: "js_mul (bp_baseMs p) (js_of (f ^ n)) = PosInf" if "f ^ n > max_double"
    using that inf by (simp add: js_of_def)
  show ?thesis
    using e b v m le small js_min_vals [OF v(2), of "Fin (b * f ^ n)" "b * f ^ n"]
    by (cases "f ^ n > max_double"; cases "b * f ^ n > max_double") (auto simp: js_min_PosInf min_def)
qed

lemma exponential_within:
  assumes v: "num_val (bp_baseMs p) = Some b" "num_val (bp_maxMs p) = Some m" "num_val (bp_factor p) = Some f"
    and r: "0 \<le> b" "b \<le> m" "1 \<le> f" and m: "m \<le> max_double"
  shows "\<exists>e. num_val (exponential p n) = Some e \<and> b \<le> e \<and> e \<le> m"
proof -
  have "b \<le> b * f ^ n" using r mult_left_mono [of 1 "f ^ n" b] by (simp add: one_le_power)
  then show ?thesis using exponential_value [OF v r(1) r(3) m, of n] r by auto
qed

lemma scale_within:
  fixes x y :: rat
  assumes "0 \<le> x" "x < 1" "0 \<le> y"
  shows "0 \<le> x * y \<and> x * y \<le> y"
  using assms mult_right_mono [of x 1 y] by simp

lemma full_within:
  assumes "num_val e = Some x" "0 \<le> x" "x \<le> max_double" "0 \<le> random" "random < 1"
  shows "js_mul (Fin random) e = Fin (random * x)"
  using assms scale_within [of random x] by (simp add: js_mul_vals js_of_within)

lemma decorrelated_within:
  assumes v: "num_val (bp_baseMs p) = Some b" "num_val (bp_maxMs p) = Some m"
    and r: "0 \<le> b" "b \<le> m" "m \<le> max_double" "0 \<le> random" "random < 1"
    and prev: "num_val (case previousMs of None \<Rightarrow> bp_baseMs p | Some x \<Rightarrow> x) = Some q"
  shows "\<exists>e. num_val (decorrelated p random previousMs) = Some e \<and> b \<le> e \<and> e \<le> m \<and>
    (3 * max q b \<le> max_double \<longrightarrow> e \<le> 3 * max q b)"
proof -
  define previous where "previous = js_max (case previousMs of None \<Rightarrow> bp_baseMs p | Some x \<Rightarrow> x) (bp_baseMs p)"
  define upper where "upper = (if js_finite (js_mul previous (Fin 3)) then js_mul previous (Fin 3) else bp_maxMs p)"
  have pv: "num_val previous = Some (max q b)" using prev v by (simp add: previous_def js_max_vals)
  have raw: "js_mul previous (Fin 3) = (if max q b * 3 > max_double then PosInf else Fin (max q b * 3))"
    using pv r(1) by (simp add: js_mul_vals js_of_nonneg)
  have "\<exists>u. num_val upper = Some u \<and> b \<le> u \<and> u \<le> max_double \<and> (3 * max q b \<le> max_double \<longrightarrow> u = 3 * max q b)"
  proof (cases "max q b * 3 > max_double")
    case True
    then have "upper = bp_maxMs p" using raw by (simp add: upper_def js_finite_def)
    then show ?thesis using True v(2) r by simp
  next
    case False
    then have "upper = Fin (max q b * 3)" using raw by (simp add: upper_def js_finite_def)
    moreover have "b \<le> max q b * 3" using r(1) by linarith
    ultimately show ?thesis using False by simp
  qed
  then obtain u where u: "num_val upper = Some u" "b \<le> u" "u \<le> max_double"
    "3 * max q b \<le> max_double \<longrightarrow> u = 3 * max q b" by blast
  have s: "0 \<le> random * (u - b)" "random * (u - b) \<le> u - b" using scale_within [of random "u - b"] r u by auto
  have sub: "js_sub upper (bp_baseMs p) = Fin (u - b)" using u v r by (simp add: js_sub_vals js_of_within)
  have "js_mul (Fin random) (js_sub upper (bp_baseMs p)) = Fin (random * (u - b))"
    using sub s u(2,3) r(1) by (simp add: js_mul_vals js_of_within)
  moreover have "b + random * (u - b) \<le> max_double" using s(2) u(3) by linarith
  ultimately have "js_add (bp_baseMs p) (js_mul (Fin random) (js_sub upper (bp_baseMs p))) = Fin (b + random * (u - b))"
    using v(1) r(1) s by (simp add: js_add_vals js_of_within)
  moreover have "decorrelated p random previousMs =
      js_min (bp_maxMs p) (js_add (bp_baseMs p) (js_mul (Fin random) (js_sub upper (bp_baseMs p))))"
    unfolding decorrelated_def Let_def previous_def upper_def ..
  ultimately have "num_val (decorrelated p random previousMs) = Some (min m (b + random * (u - b)))"
    using js_min_vals [OF v(2), of "Fin (b + random * (u - b))"] by simp
  then show ?thesis using s r(2) u(4) by auto
qed

lemma backoff_bounds:
  assumes "assertBackoffPolicy p" "is_double (bp_maxMs p)" "isNonNegativeInteger attempt"
    and "0 \<le> random" "random < 1"
    and "num_val (case previousMs of None \<Rightarrow> bp_baseMs p | Some x \<Rightarrow> x) = Some q"
  shows "\<exists>w b m f d. nextBackoff p attempt random previousMs = Some w \<and> num_val w = Some d \<and>
    num_val (bp_baseMs p) = Some b \<and> num_val (bp_maxMs p) = Some m \<and> num_val (bp_factor p) = Some f \<and>
    0 \<le> d \<and> d \<le> m \<and>
    (case bp_jitter p of
       JNone \<Rightarrow> b \<le> d \<and> (f ^ nat_of_num attempt \<le> max_double \<longrightarrow> d = min m (b * f ^ nat_of_num attempt))
     | JFull \<Rightarrow> f ^ nat_of_num attempt \<le> max_double \<longrightarrow> d \<le> b * f ^ nat_of_num attempt
     | _ \<Rightarrow> b \<le> d \<and> (3 * max q b \<le> max_double \<longrightarrow> d \<le> 3 * max q b))"
proof -
  obtain b m f where v: "num_val (bp_baseMs p) = Some b" "num_val (bp_maxMs p) = Some m" "num_val (bp_factor p) = Some f"
    and r: "0 \<le> b" "b \<le> m" "1 \<le> f"
    and j: "bp_jitter p = JNone \<or> bp_jitter p = JFull \<or> bp_jitter p = JDecorrelated"
    using assms(1) by (rule policy_values)
  have m: "m \<le> max_double" using assms(2) v by (simp add: is_double_def)
  let ?n = "nat_of_num attempt"
  obtain e where e: "num_val (exponential p ?n) = Some e" "b \<le> e" "e \<le> m"
    using exponential_within [OF v r m] by blast
  have ev: "f ^ ?n \<le> max_double \<Longrightarrow> e = min m (b * f ^ ?n)"
    using exponential_value [OF v r(1) r(3) m, of ?n] e(1) r by (auto split: if_splits)
  obtain g where g: "num_val (decorrelated p random previousMs) = Some g" "b \<le> g" "g \<le> m"
    "3 * max q b \<le> max_double \<longrightarrow> g \<le> 3 * max q b"
    using decorrelated_within [OF v(1,2) r(1,2) m assms(4-6)] by blast
  have full: "js_mul (Fin random) (exponential p ?n) = Fin (random * e)"
    using full_within [OF e(1)] e r(1) m assms(4,5) by simp
  have sc: "0 \<le> random * e \<and> random * e \<le> e" using scale_within assms(4,5) e(2) r(1) by simp
  have ok: "\<not> (case previousMs of None \<Rightarrow> False | Some x \<Rightarrow> \<not> js_finite x)"
    using assms(6) by (cases previousMs) (auto simp: js_finite_def)
  define w where "w = (case bp_jitter p of JNone \<Rightarrow> exponential p ?n | JFull \<Rightarrow> Fin (random * e) | _ \<Rightarrow> decorrelated p random previousMs)"
  define d where "d = (case bp_jitter p of JNone \<Rightarrow> e | JFull \<Rightarrow> random * e | _ \<Rightarrow> g)"
  have w: "nextBackoff p attempt random previousMs = Some w" "num_val w = Some d"
    using j assms(1,3) ok full e g by (auto simp: nextBackoff_def w_def d_def)
  have "0 \<le> d" "d \<le> m" using j e g sc r by (auto simp: d_def)
  moreover have "case bp_jitter p of
       JNone \<Rightarrow> b \<le> d \<and> (f ^ ?n \<le> max_double \<longrightarrow> d = min m (b * f ^ ?n))
     | JFull \<Rightarrow> f ^ ?n \<le> max_double \<longrightarrow> d \<le> b * f ^ ?n
     | _ \<Rightarrow> b \<le> d \<and> (3 * max q b \<le> max_double \<longrightarrow> d \<le> 3 * max q b)"
    using j e ev g sc by (auto simp: d_def)
  ultimately show ?thesis using w v by blast
qed

text \<open>The delay before a retry is a finite number of milliseconds, at least 0 and at most the cap,
  for every valid schedule, attempt and drawn value, also where the exponential or the decorrelated upper
  bound overflows. Without jitter it is the capped exponential, with full jitter no more than that, and a
  decorrelated delay stays between the base and three times the previous one. A server minimum is
  never shortened, even beyond the cap.\<close>

theorem backoff_within_cap:
  assumes "assertBackoffPolicy p" "is_double (bp_maxMs p)" "isNonNegativeInteger attempt"
    and "0 \<le> random" "random < 1"
    and "num_val (case previousMs of None \<Rightarrow> bp_baseMs p | Some x \<Rightarrow> x) = Some q"
  shows "\<exists>w b m f d. nextBackoff p attempt random previousMs = Some w \<and> num_val w = Some d \<and>
    num_val (bp_baseMs p) = Some b \<and> num_val (bp_maxMs p) = Some m \<and> num_val (bp_factor p) = Some f \<and>
    0 \<le> d \<and> d \<le> m \<and>
    (case bp_jitter p of
       JNone \<Rightarrow> b \<le> d \<and> (f ^ nat_of_num attempt \<le> max_double \<longrightarrow> d = min m (b * f ^ nat_of_num attempt))
     | JFull \<Rightarrow> f ^ nat_of_num attempt \<le> max_double \<longrightarrow> d \<le> b * f ^ nat_of_num attempt
     | _ \<Rightarrow> b \<le> d \<and> (3 * max q b \<le> max_double \<longrightarrow> d \<le> 3 * max q b)) \<and>
    (\<forall>s. 0 \<le> s \<longrightarrow> (\<exists>w'. retryDelay p attempt random previousMs (Some (Fin s)) = Some w' \<and>
       num_val w' = Some (max s d)))"
proof -
  have delay: "\<exists>w'. retryDelay p attempt random previousMs (Some (Fin s)) = Some w' \<and> num_val w' = Some (max s d)"
    if "nextBackoff p attempt random previousMs = Some w" "num_val w = Some d" "0 \<le> s" for s w d
    using that js_max_vals [of "Fin s" s w d] by (simp add: retryDelay_def js_finite_def)
  from backoff_bounds [OF assms] show ?thesis using delay by meson
qed

theorem backoff_within_cap_witness:
  "\<exists>w d. nextBackoff defaultBackoff (Fin 20) (1 / 2) None = Some w \<and> num_val w = Some d \<and> d \<le> 10000"
proof -
  have "assertBackoffPolicy defaultBackoff" "is_double (bp_maxMs defaultBackoff)" "isNonNegativeInteger (Fin 20)"
    "num_val (case None of None \<Rightarrow> bp_baseMs defaultBackoff | Some x \<Rightarrow> x) = Some 100"
    "bp_maxMs defaultBackoff = Fin 10000"
    by (simp_all add: assertBackoffPolicy_def defaultBackoff_def js_finite_def js_less_def is_double_def max_double_def
        isNonNegativeInteger_def is_safe_integer_def max_safe_integer_def)
  with backoff_within_cap [of defaultBackoff "Fin 20" "1 / 2" None 100] show ?thesis by auto
qed

end
