(* ===== verification/Retry.thy ===== *)
theory Retry imports Failures Backoff begin

text \<open>
  The retry driver \<open>runWithRetry\<close> of \<^verbatim>\<open>packages/std/src/resilience/retry.ts\<close> as a machine. Its state is
  the point of the loop it is suspended at: an attempt in flight, a backoff wait, or settled. Its inputs
  are what the suspension waits for: the attempt settles, the combined caller, deadline and owner signal
  aborts, the injected delay resolves or rejects. An input that can reach the \<open>catch\<close> block carries what
  the block reads from outside: the answers of the policy's callbacks, which may throw, the
  value drawn for the jitter and the clock. Outputs are attempts started, waits begun and the outcome.
\<close>

record retry_policy =
  rp_budgetMs :: jsnum
  rp_maxAttempts :: jsnum
  rp_backoff :: backoff_policy
  rp_idempotent :: bool
  rp_custom :: bool  \<comment> \<open>the policy brings its own \<open>isRetryable\<close>\<close>

record answers =
  or_retryable :: "thrown + bool"
  or_retryAfter :: "thrown + jsnum option"  \<comment> \<open>\<open>Inr None\<close> without a \<open>retryAfter\<close> callback\<close>
  or_random :: rat
  or_now :: jsnum

datatype retry_pc = AttemptRunning nat | BackingOff nat | RetrySettled

record retry =
  rt_pc :: retry_pc
  rt_previous :: jsnum
  rt_aborted :: bool
  rt_expiresAt :: jsnum

datatype 'v retry_input =
    AttemptSettled "thrown + 'v" answers
  | SignalAborted answers
  | DelayResolved
  | DelayRejected thrown

datatype 'v retry_output = AttemptStarted nat | WaitBegun jsnum | Returned 'v | Threw thrown

abbreviation retry_error :: "nat \<Rightarrow> thrown \<Rightarrow> thrown" where
  "retry_error \<equiv> ThrownExhausted ''RetryError''"

definition max_attempts :: "retry_policy \<Rightarrow> nat" where
  "max_attempts p = nat_of_num (rp_maxAttempts p)"

section \<open>The loop\<close>

definition settle_with :: "retry \<Rightarrow> 'v retry_output \<Rightarrow> retry \<times> 'v retry_output list" where
  "settle_with s outcome = (s\<lparr>rt_pc := RetrySettled\<rparr>, [outcome])"

text \<open>The top of the loop with counter \<open>attempt\<close>.\<close>

definition enter :: "retry_policy \<Rightarrow> retry \<Rightarrow> nat \<Rightarrow> retry \<times> 'v retry_output list" where
  "enter p s attempt =
     (if attempt < max_attempts p then
        if rt_aborted s then settle_with s (Threw abort_error)
        else (s\<lparr>rt_pc := AttemptRunning attempt\<rparr>, [AttemptStarted attempt])
      else settle_with s (Threw (retry_error (max_attempts p) ThrownValue)))"

definition retry_verdict :: "retry_policy \<Rightarrow> thrown \<Rightarrow> answers \<Rightarrow> thrown + bool" where
  "retry_verdict p e an =
     (if \<not> rp_idempotent p then Inr False
      else if (case e of ThrownRemote _ \<Rightarrow> \<not> isRetryable e | _ \<Rightarrow> False) then Inr False
      else if rp_custom p then or_retryable an
      else Inr (isRetryable e))"

definition retry_hint :: "thrown \<Rightarrow> jsnum option \<Rightarrow> jsnum option" where
  "retry_hint e supplied =
     (case (case e of ThrownRemote f \<Rightarrow> rf_retryAfterMs f | _ \<Rightarrow> None) of
        None \<Rightarrow> supplied
      | Some minimum \<Rightarrow> Some (js_max minimum
          (case supplied of
             Some v \<Rightarrow> if js_finite v \<and> js_le (Fin 0) v then v else Fin 0
           | None \<Rightarrow> Fin 0)))"

definition attempt_caught ::
  "retry_policy \<Rightarrow> retry \<Rightarrow> nat \<Rightarrow> thrown \<Rightarrow> answers \<Rightarrow> retry \<times> 'v retry_output list" where
  "attempt_caught p s attempt e an =
     (case retry_verdict p e an of
        Inl thrown \<Rightarrow> settle_with s (Threw thrown)
      | Inr False \<Rightarrow> settle_with s (Threw e)
      | Inr True \<Rightarrow>
          if attempt + 1 = max_attempts p then settle_with s (Threw (retry_error (max_attempts p) e))
          else (case or_retryAfter an of
              Inl thrown \<Rightarrow> settle_with s (Threw thrown)
            | Inr supplied \<Rightarrow>
                (case retryDelay (rp_backoff p) (Fin (of_nat attempt)) (or_random an) (Some (rt_previous s))
                        (retry_hint e supplied) of
                   None \<Rightarrow> settle_with s (Threw range_error)
                 | Some waitMs \<Rightarrow>
                     if js_le (js_sub (rt_expiresAt s) (or_now an)) waitMs \<or> js_less (Fin MAX_TIMER_MS) waitMs
                     then settle_with s (Threw (retry_error (attempt + 1) e))
                     else (s\<lparr>rt_pc := BackingOff attempt, rt_previous := waitMs\<rparr>, [WaitBegun waitMs]))))"

text \<open>\<open>startedAt\<close> is the clock when the deadline was set, \<open>aborted\<close> whether the caller's signal already is.\<close>

definition runWithRetry :: "retry_policy \<Rightarrow> jsnum \<Rightarrow> bool \<Rightarrow> retry \<times> 'v retry_output list" where
  "runWithRetry p startedAt aborted =
     (let s = \<lparr>rt_pc = RetrySettled, rt_previous = bp_baseMs (rp_backoff p), rt_aborted = aborted,
               rt_expiresAt = js_add startedAt (rp_budgetMs p)\<rparr>
      in if \<not> assertTimerMs (rp_budgetMs p) then settle_with s (Threw range_error)
         else if \<not> isPositiveInteger (rp_maxAttempts p) then settle_with s (Threw range_error)
         else if \<not> assertBackoffPolicy (rp_backoff p) then settle_with s (Threw range_error)
         else enter p s 0)"

text \<open>The abort listener of an attempt in flight rejects it with an \<open>AbortError\<close>, which the \<open>catch\<close> block
  sees; later settlements of the abandoned attempt find no attempt running.\<close>

fun retry_step :: "retry_policy \<Rightarrow> retry \<Rightarrow> 'v retry_input \<Rightarrow> retry \<times> 'v retry_output list" where
  "retry_step p s (AttemptSettled result an) =
     (case rt_pc s of
        AttemptRunning n \<Rightarrow>
          (case result of Inr v \<Rightarrow> settle_with s (Returned v) | Inl e \<Rightarrow> attempt_caught p s n e an)
      | _ \<Rightarrow> (s, []))"
| "retry_step p s (SignalAborted an) =
     (if rt_aborted s then (s, [])
      else let s' = s\<lparr>rt_aborted := True\<rparr>
        in case rt_pc s of AttemptRunning n \<Rightarrow> attempt_caught p s' n abort_error an | _ \<Rightarrow> (s', []))"
| "retry_step p s DelayResolved =
     (case rt_pc s of BackingOff n \<Rightarrow> enter p s (n + 1) | _ \<Rightarrow> (s, []))"
| "retry_step p s (DelayRejected e) =
     (case rt_pc s of BackingOff n \<Rightarrow> settle_with s (Threw e) | _ \<Rightarrow> (s, []))"

definition retry_run ::
  "retry_policy \<Rightarrow> jsnum \<Rightarrow> bool \<Rightarrow> 'v retry_input list \<Rightarrow> retry \<times> 'v retry_output list" where
  "retry_run p startedAt aborted is =
     (let (s, out) = runWithRetry p startedAt aborted; (s', out') = run (retry_step p) s is in (s', out @ out'))"

section \<open>The history of a call\<close>

fun started :: "'v retry_output \<Rightarrow> nat list" where
  "started (AttemptStarted n) = [n]"
| "started _ = []"

fun is_outcome :: "'v retry_output \<Rightarrow> bool" where
  "is_outcome (Returned _) = True"
| "is_outcome (Threw _) = True"
| "is_outcome _ = False"

definition starts :: "'v retry_output list \<Rightarrow> nat list" where
  "starts out = concat (map started out)"

definition outcomes :: "'v retry_output list \<Rightarrow> 'v retry_output list" where
  "outcomes out = filter is_outcome out"

text \<open>Attempts so far in order and bounded, retried only if idempotent, one outcome and it is last.\<close>

definition retry_inv :: "retry_policy \<Rightarrow> 'v retry_input list \<Rightarrow> 'v retry_output list \<Rightarrow> retry \<Rightarrow> bool" where
  "retry_inv p es out s =
     (starts out = [0..<length (starts out)] \<and> length (starts out) \<le> max_attempts p \<and>
      (2 \<le> length (starts out) \<longrightarrow> rp_idempotent p) \<and>
      (\<forall>w. WaitBegun w \<in> set out \<longrightarrow> \<not> js_less (Fin MAX_TIMER_MS) w) \<and>
      (case rt_pc s of
          AttemptRunning n \<Rightarrow> length (starts out) = n + 1 \<and> outcomes out = []
        | BackingOff n \<Rightarrow> length (starts out) = n + 1 \<and> n + 1 < max_attempts p \<and> rp_idempotent p \<and> outcomes out = []
        | RetrySettled \<Rightarrow> out \<noteq> [] \<and> outcomes out = [last out]))"

lemma starts_append [simp]: "starts (out @ [x]) = starts out @ started x" "starts [] = []"
  by (simp_all add: starts_def)

lemma outcomes_append [simp]: "outcomes (out @ [x]) = outcomes out @ (if is_outcome x then [x] else [])" "outcomes [] = []"
  by (simp_all add: outcomes_def)

lemma singleton_histories [simp]: "starts [x] = started x" "outcomes [x] = (if is_outcome x then [x] else [])"
  by (simp_all add: starts_def outcomes_def)

lemma settle_inv:
  assumes "retry_inv p es out s" "is_outcome x" "rt_pc s \<noteq> RetrySettled" "settle_with s x = (s', out')"
  shows "retry_inv p es' (out @ out') s'"
  using assms by (cases x; cases "rt_pc s") (auto simp: retry_inv_def settle_with_def)

lemma enter_inv:
  assumes inv: "retry_inv p es out s" and pc: "rt_pc s = BackingOff n" and eq: "enter p s (n + 1) = (s', out')"
  shows "retry_inv p es' (out @ out') s'"
proof (cases "rt_aborted s")
  case True
  then show ?thesis
    using settle_inv [OF inv, of "Threw abort_error" s' out' es'] inv pc eq
    by (simp add: enter_def retry_inv_def)
next
  case False
  then show ?thesis using assms by (auto simp: enter_def retry_inv_def settle_with_def)
qed

lemma caught_inv:
  assumes inv: "retry_inv p es out s" and pc: "rt_pc s = AttemptRunning n"
    and eq: "attempt_caught p s n e an = (s', out')"
  shows "retry_inv p es' (out @ out') s'"
proof -
  have settle: "retry_inv p es' (out @ out') s'" if "settle_with s x = (s', out')" "is_outcome x" for x
    using settle_inv [OF inv that(2) _ that(1)] pc by simp
  have wait: "retry_inv p es' (out @ [WaitBegun w]) (s\<lparr>rt_pc := BackingOff n, rt_previous := w\<rparr>)"
    if "retry_verdict p e an = Inr True" "n + 1 \<noteq> max_attempts p" "\<not> js_less (Fin MAX_TIMER_MS) w" for w
    using inv pc that by (auto simp: retry_inv_def retry_verdict_def split: if_splits)
  show ?thesis
    using eq settle wait
    by (fastforce simp: attempt_caught_def split: sum.splits bool.splits option.splits if_splits)
qed

lemma retry_step_inv:
  assumes inv: "retry_inv p es out s"
  shows "retry_inv p (es @ [i]) (out @ snd (retry_step p s i)) (fst (retry_step p s i))"
proof -
  obtain s' out' where eq: "retry_step p s i = (s', out')" by (cases "retry_step p s i")
  have stay: "retry_inv p es' out (s\<lparr>rt_aborted := a\<rparr>)" "retry_inv p es' out s" for es' a
    using inv by (auto simp: retry_inv_def cong: retry_pc.case_cong)
  have "retry_inv p (es @ [i]) (out @ out') s'"
  proof (cases i)
    case (AttemptSettled r an)
    then show ?thesis
      using eq stay(2) caught_inv [OF inv, of _ _ an s' out'] settle_inv [OF inv, of "Returned v" s' out' for v]
      by (auto split: retry_pc.splits sum.splits)
  next
    case (SignalAborted an)
    then show ?thesis
      using eq stay caught_inv [OF stay(1) [of es True], of _ abort_error an s' out']
      by (auto simp: Let_def split: retry_pc.splits if_splits)
  next
    case DelayResolved
    then show ?thesis
      using eq stay(2) enter_inv [OF inv, of _ s' out'] by (auto split: retry_pc.splits)
  next
    case (DelayRejected e)
    then show ?thesis
      using eq stay(2) settle_inv [OF inv, of "Threw e" s' out'] by (auto split: retry_pc.splits)
  qed
  with eq show ?thesis by simp
qed

interpretation retry: history_invariant "retry_step p" "retry_inv p" for p
  by unfold_locales (rule retry_step_inv)

lemma runWithRetry_inv:
  "runWithRetry p t a = (s, out) \<Longrightarrow> retry_inv p [] out s"
  using isPositiveInteger_nat [of "rp_maxAttempts p"]
  by (auto simp: runWithRetry_def enter_def retry_inv_def settle_with_def Let_def max_attempts_def split: if_splits)

lemma retry_run_inv:
  fixes out :: "'v retry_output list"
  assumes r: "retry_run p t a is = (s, out)"
  shows "retry_inv p is out s"
proof -
  obtain s0 and out0 :: "'v retry_output list" where s0: "runWithRetry p t a = (s0, out0)" by (cases "runWithRetry p t a :: retry \<times> 'v retry_output list")
  then have "out = out0 @ snd (run (retry_step p) s0 is)" "s = fst (run (retry_step p) s0 is)"
    using r by (auto simp: retry_run_def split: prod.splits)
  with retry.run_history [OF runWithRetry_inv [OF s0], of "is"] show ?thesis by simp
qed

section \<open>Cancellation\<close>

lemma starts_app: "starts (xs @ ys) = starts xs @ starts ys"
  by (simp add: starts_def)

lemma caught_aborted:
  "attempt_caught p s n e an = (s', out') \<Longrightarrow> rt_aborted s' = rt_aborted s \<and> starts out' = []"
  by (auto simp: attempt_caught_def settle_with_def split: sum.splits bool.splits option.splits if_splits)

lemma enter_aborted:
  "enter p s n = (s', out') \<Longrightarrow> rt_aborted s \<Longrightarrow> rt_aborted s' \<and> starts out' = []"
  by (auto simp: enter_def settle_with_def split: if_splits)

lemma aborted_step:
  assumes "retry_step p s i = (s', out')" "rt_aborted s"
  shows "rt_aborted s' \<and> starts out' = []"
  using assms caught_aborted [of p s _ _ _ s' out'] enter_aborted [of p s _ s' out']
  by (cases i) (auto simp: settle_with_def Let_def split: retry_pc.splits sum.splits if_splits)

lemma aborted_run: "rt_aborted s \<Longrightarrow> starts (snd (run (retry_step p) s is)) = []"
proof (induction "is" arbitrary: s)
  case (Cons i "is")
  obtain s' out' where eq: "retry_step p s i = (s', out')" by (cases "retry_step p s i")
  with aborted_step [OF eq Cons.prems] Cons.IH [of s'] show ?case
    by (simp add: run_Cons starts_app del: run.simps(2))
qed simp

lemma abort_sets: "retry_step p s (SignalAborted an) = (s', out') \<Longrightarrow> rt_aborted s'"
  using caught_aborted [of p "s\<lparr>rt_aborted := True\<rparr>" _ abort_error an s' out']
  by (auto simp: Let_def split: if_splits retry_pc.splits)

lemma abort_fatal: "\<not> isRetryable abort_error"
  by (simp add: isRetryable_def by_name_def)

lemma abort_settles:
  assumes "retry_step p s (SignalAborted an) = (s', out')" "\<not> rp_custom p" "\<not> rt_aborted s" "rt_pc s = AttemptRunning n"
  shows "rt_pc s' = RetrySettled \<and> out' = [Threw abort_error]"
proof -
  have "retry_verdict p abort_error an = Inr False"
    using assms(2) abort_fatal by (simp add: retry_verdict_def)
  then show ?thesis using assms by (auto simp: attempt_caught_def settle_with_def Let_def)
qed

text \<open>An attempt runs only under a signal that has not aborted.\<close>

definition attempt_live :: "retry \<Rightarrow> bool" where
  "attempt_live s = (case rt_pc s of AttemptRunning _ \<Rightarrow> \<not> rt_aborted s | _ \<Rightarrow> True)"

lemma caught_live: "attempt_caught p s n e an = (s', out') \<Longrightarrow> attempt_live s'"
  by (auto simp: attempt_caught_def settle_with_def attempt_live_def
      split: sum.splits bool.splits option.splits if_splits)

lemma enter_live: "enter p s n = (s', out') \<Longrightarrow> attempt_live s'"
  by (auto simp: enter_def settle_with_def attempt_live_def split: if_splits)

lemma retry_step_live:
  assumes "attempt_live s"
  shows "attempt_live (fst (retry_step p s i))"
proof -
  obtain s' out' where eq: "retry_step p s i = (s', out')" by (cases "retry_step p s i")
  have "attempt_live s'"
    using assms eq caught_live [of p _ _ _ _ s' out'] enter_live [of p s _ s' out']
    by (cases i; cases "rt_pc s")
      (auto simp: settle_with_def attempt_live_def Let_def split: sum.splits if_splits)
  with eq show ?thesis by simp
qed

interpretation live_attempt: kept_invariant "retry_step p" attempt_live for p
  by unfold_locales (rule retry_step_live)

lemma runWithRetry_live: "runWithRetry p t a = (s, out) \<Longrightarrow> attempt_live s"
  using enter_live [of p _ 0 s out]
  by (auto simp: runWithRetry_def Let_def settle_with_def attempt_live_def split: if_splits)

section \<open>Calls that nothing interrupts\<close>

text \<open>The outcome read off the results of the attempts.\<close>

fun expected :: "retry_policy \<Rightarrow> nat \<Rightarrow> (thrown + 'v) list \<Rightarrow> 'v retry_output list" where
  "expected p n [] = []"
| "expected p n (Inr v # _) = [Returned v]"
| "expected p n (Inl e # rs) =
     (if \<not> (rp_idempotent p \<and> isRetryable e) then [Threw e]
      else if n + 1 = max_attempts p then [Threw (retry_error (max_attempts p) e)]
      else expected p (n + 1) rs)"

lemma expected_total: "max_attempts p \<le> n + length rs \<Longrightarrow> n < max_attempts p \<Longrightarrow> expected p n rs \<noteq> []"
  by (induction p n rs rule: expected.induct) auto

fun script :: "((thrown + 'v) \<times> answers) list \<Rightarrow> 'v retry_input list" where
  "script [] = []"
| "script ((r, an) # rs) = AttemptSettled r an # DelayResolved # script rs"

text \<open>No server minimum, a proper draw, and time left for the longest wait.\<close>

definition calm :: "retry_policy \<Rightarrow> jsnum \<Rightarrow> (thrown + 'v) \<times> answers \<Rightarrow> bool" where
  "calm p expiresAt ra =
     (or_retryAfter (snd ra) = Inr None \<and> 0 \<le> or_random (snd ra) \<and> or_random (snd ra) < 1 \<and>
      js_less (bp_maxMs (rp_backoff p)) (js_sub expiresAt (or_now (snd ra))) \<and>
      (case fst ra of Inl (ThrownRemote f) \<Rightarrow> rf_retryAfterMs f = None | _ \<Rightarrow> True))"

definition valid_policy :: "retry_policy \<Rightarrow> bool" where
  "valid_policy p = (assertTimerMs (rp_budgetMs p) \<and> isPositiveInteger (rp_maxAttempts p) \<and>
     assertBackoffPolicy (rp_backoff p) \<and> is_double (bp_maxMs (rp_backoff p)) \<and>
     js_le (bp_maxMs (rp_backoff p)) (Fin MAX_TIMER_MS) \<and> \<not> rp_custom p)"

lemma settled_run: "rt_pc s = RetrySettled \<Longrightarrow> snd (run (retry_step p) s is) = []"
proof (induction "is" arbitrary: s)
  case (Cons i "is")
  then have "snd (retry_step p s i) = []" "rt_pc (fst (retry_step p s i)) = RetrySettled"
    by (cases i; simp)+
  with Cons.IH show ?case by (simp add: run_Cons del: run.simps(2))
qed simp

lemma attempt_index: "n < max_attempts p \<Longrightarrow> isPositiveInteger (rp_maxAttempts p) \<Longrightarrow> isNonNegativeInteger (Fin (of_nat n))"
proof -
  assume n: "n < max_attempts p" and p: "isPositiveInteger (rp_maxAttempts p)"
  then obtain r where r: "num_val (rp_maxAttempts p) = Some r" "of_int (floor r) = r" "r \<le> max_safe_integer" "0 < r"
    by (auto simp: isPositiveInteger_def is_safe_integer_def split: option.splits)
  have "(of_nat n :: rat) \<le> of_nat (max_attempts p)" using n by simp
  also have "of_nat (max_attempts p) = r"
    using r by (simp add: max_attempts_def nat_of_num_def of_nat_nat less_imp_le)
  finally have "(of_nat n :: rat) \<le> max_safe_integer" using r by simp
  then show ?thesis
    by (auto simp: isNonNegativeInteger_def is_safe_integer_def max_safe_integer_def intro: order_trans [of _ 0])
qed

text \<open>The wait of a calm failure fits, so the loop goes on.\<close>

lemma js_le_less_trans: "js_le x y \<Longrightarrow> js_less y z \<Longrightarrow> \<not> js_le z x"
  by (cases x; cases y; cases z) (auto simp: js_less_def)

lemma js_le_not_less: "js_le x y \<Longrightarrow> \<not> js_less y x"
  by (auto simp: js_less_def)

lemma calm_wait:
  assumes v: "valid_policy p" and n: "n < max_attempts p" and c: "calm p (rt_expiresAt s) (Inl e, an)"
    and q: "num_val (rt_previous s) = Some q" and idem: "rp_idempotent p \<and> isRetryable e" and m: "n + 1 \<noteq> max_attempts p"
  shows "\<exists>w d. attempt_caught p s n e an = (s\<lparr>rt_pc := BackingOff n, rt_previous := w\<rparr>, [WaitBegun w]) \<and> num_val w = Some d"
proof -
  have "isNonNegativeInteger (Fin (of_nat n))" using attempt_index n v by (simp add: valid_policy_def)
  then obtain w m' d where w: "nextBackoff (rp_backoff p) (Fin (of_nat n)) (or_random an) (Some (rt_previous s)) = Some w"
    "num_val w = Some d" "num_val (bp_maxMs (rp_backoff p)) = Some m'" "d \<le> m'"
    using backoff_bounds [of "rp_backoff p" "Fin (of_nat n)" "or_random an" "Some (rt_previous s)" q] v c q
    by (auto simp: valid_policy_def calm_def)
  then have le: "js_le w (bp_maxMs (rp_backoff p))" by (simp add: js_le_vals)
  have "num_val (bp_maxMs (rp_backoff p)) = Some m' \<and> m' \<le> MAX_TIMER_MS"
    using v w(3) by (simp add: valid_policy_def js_le_vals)
  then have "\<not> js_less (Fin MAX_TIMER_MS) w" using w by (simp add: js_less_vals)
  moreover have "\<not> js_le (js_sub (rt_expiresAt s) (or_now an)) w"
    using js_le_less_trans [OF le] c by (simp add: calm_def)
  moreover have "retry_hint e None = None"
    using c by (auto simp: calm_def retry_hint_def split: thrown.splits)
  moreover have "retry_verdict p e an = Inr True"
    using idem v by (auto simp: retry_verdict_def valid_policy_def split: thrown.splits)
  ultimately show ?thesis
    using w(1,2) c m by (auto simp: attempt_caught_def retryDelay_def calm_def)
qed

lemma script_run:
  assumes v: "valid_policy p"
  shows "rt_pc s = AttemptRunning n \<Longrightarrow> \<not> rt_aborted s \<Longrightarrow> n < max_attempts p \<Longrightarrow>
    num_val (rt_previous s) = Some q \<Longrightarrow> list_all (calm p (rt_expiresAt s)) rs \<Longrightarrow>
    outcomes (snd (run (retry_step p) s (script rs))) = expected p n (map fst rs)"
proof (induction rs arbitrary: s n q)
  case (Cons ra rs)
  obtain r an where ra: "ra = (r, an)" by (cases ra)
  have calm: "calm p (rt_expiresAt s) (r, an)" using Cons.prems ra by simp
  have settles: "outcomes (snd (run (retry_step p) s (AttemptSettled r an # is))) = [x]"
    if "retry_step p s (AttemptSettled r an) = settle_with s x" "is_outcome x" for x "is"
    using that settled_run [of "s\<lparr>rt_pc := RetrySettled\<rparr>" p "is"]
    by (simp add: run_Cons settle_with_def del: run.simps(2) retry_step.simps)
  show ?case
  proof (cases r)
    case (Inr x)
    have "retry_step p s (AttemptSettled r an) = settle_with s (Returned x)" using Inr Cons.prems(1) by simp
    from settles [OF this] show ?thesis by (simp add: ra Inr del: run.simps(2) retry_step.simps)
  next
    case (Inl e)
    show ?thesis
    proof (cases "rp_idempotent p \<and> isRetryable e")
      case False
      then have "retry_verdict p e an = Inr False"
        using v by (auto simp: retry_verdict_def valid_policy_def)
      then have "retry_step p s (AttemptSettled r an) = settle_with s (Threw e)"
        using Inl Cons.prems(1) by (simp add: attempt_caught_def)
      from settles [OF this] False show ?thesis by (simp add: ra Inl del: run.simps(2) retry_step.simps)
    next
      case idem: True
      show ?thesis
      proof (cases "n + 1 = max_attempts p")
        case True
        have "retry_verdict p e an = Inr True"
          using idem v by (auto simp: retry_verdict_def valid_policy_def split: thrown.splits)
        then have "retry_step p s (AttemptSettled r an) = settle_with s (Threw (retry_error (max_attempts p) e))"
          using Inl Cons.prems(1) True by (simp add: attempt_caught_def)
        from settles [OF this] idem True show ?thesis by (simp add: ra Inl del: run.simps(2) retry_step.simps)
      next
        case False
        obtain w d where w: "attempt_caught p s n e an =
            (s\<lparr>rt_pc := BackingOff n, rt_previous := w\<rparr>, [WaitBegun w :: 'a retry_output])" "num_val w = Some d"
          using calm_wait [OF v Cons.prems(3) calm [unfolded Inl] Cons.prems(4) idem False] by blast
        let ?s = "s\<lparr>rt_previous := w, rt_pc := AttemptRunning (n + 1)\<rparr>"
        have "outcomes (snd (run (retry_step p) ?s (script rs))) = expected p (n + 1) (map fst rs)"
          using Cons.IH [of ?s "n + 1" d] Cons.prems False w(2) by simp
        then show ?thesis
          using Cons.prems(1-3) ra Inl idem False w(1)
          by (simp add: run_Cons enter_def outcomes_def del: run.simps(2))
      qed
    qed
  qed
qed (simp add: outcomes_def)

section \<open>A sample policy\<close>

definition sample_policy :: retry_policy where
  "sample_policy = \<lparr>rp_budgetMs = Fin 30000, rp_maxAttempts = Fin 3, rp_backoff = defaultBackoff,
     rp_idempotent = True, rp_custom = False\<rparr>"

definition sample_answers :: answers where
  "sample_answers = \<lparr>or_retryable = Inr True, or_retryAfter = Inr None, or_random = 1 / 2, or_now = Fin 1000\<rparr>"

lemma sample_valid: "valid_policy sample_policy"
  by (simp add: valid_policy_def sample_policy_def assertTimerMs_def MAX_TIMER_MS_def isPositiveInteger_def
      is_safe_integer_def max_safe_integer_def assertBackoffPolicy_def defaultBackoff_def js_finite_def js_less_def
      is_double_def max_double_def)

lemma sample_calm: "calm sample_policy (js_add (Fin 0) (Fin 30000)) (Inl timeout_error, sample_answers)"
  "calm sample_policy (js_add (Fin 0) (Fin 30000)) (Inr v, sample_answers)"
  by (simp_all add: calm_def sample_policy_def sample_answers_def defaultBackoff_def js_add_def js_sub_def js_neg_def
      js_of_def max_double_def js_less_def)

lemma sample_retryable: "isRetryable timeout_error"
  by (simp add: isRetryable_def by_name_def)

section \<open>Properties\<close>

text \<open>In every call, whatever its attempts, callbacks, delays and signals do, attempts are numbered
  0, 1, 2 and so on without gaps and never number more than \<open>maxAttempts\<close>; an operation not declared
  idempotent is attempted at most once; no wait exceeds what the host timer takes; and the call has one
  outcome, after which nothing is output, exactly when it has settled.\<close>

theorem attempts_bounded_one_outcome:
  "retry_run p startedAt aborted is = (s, out) \<longrightarrow>
   starts out = [0..<length (starts out)] \<and> length (starts out) \<le> max_attempts p \<and>
   (2 \<le> length (starts out) \<longrightarrow> rp_idempotent p) \<and>
   (\<forall>w. WaitBegun w \<in> set out \<longrightarrow> \<not> js_less (Fin MAX_TIMER_MS) w) \<and>
   outcomes out = (if rt_pc s = RetrySettled then [last out] else [])"
proof
  assume "retry_run p startedAt aborted is = (s, out)"
  then have inv: "retry_inv p is out s" by (rule retry_run_inv)
  then have "starts out = [0..<length (starts out)]" "length (starts out) \<le> max_attempts p"
    "2 \<le> length (starts out) \<longrightarrow> rp_idempotent p"
    "\<forall>w. WaitBegun w \<in> set out \<longrightarrow> \<not> js_less (Fin MAX_TIMER_MS) w"
    unfolding retry_inv_def by blast+
  moreover have "outcomes out = (if rt_pc s = RetrySettled then [last out] else [])"
    using inv by (cases "rt_pc s") (simp_all add: retry_inv_def)
  ultimately show "starts out = [0..<length (starts out)] \<and> length (starts out) \<le> max_attempts p \<and>
   (2 \<le> length (starts out) \<longrightarrow> rp_idempotent p) \<and>
   (\<forall>w. WaitBegun w \<in> set out \<longrightarrow> \<not> js_less (Fin MAX_TIMER_MS) w) \<and>
   outcomes out = (if rt_pc s = RetrySettled then [last out] else [])" by blast
qed

theorem attempts_bounded_one_outcome_witness:
  "\<exists>s out. retry_run sample_policy (Fin 0) False [SignalAborted sample_answers] = (s, out :: nat retry_output list) \<and>
     length (starts out) \<le> 3"
proof -
  obtain s and out :: "nat retry_output list" where r:
    "retry_run sample_policy (Fin 0) False [SignalAborted sample_answers] = (s, out)" by (meson surj_pair)
  have "max_attempts sample_policy = 3" by (simp add: sample_policy_def max_attempts_def nat_of_num_def)
  with attempts_bounded_one_outcome [of sample_policy "Fin 0" False "[SignalAborted sample_answers]" s out] r
  show ?thesis by auto
qed

text \<open>Once the caller's signal or the deadline aborts, no further attempt is started; with the
  default classifier an attempt in flight is abandoned at once with a fatal \<open>AbortError\<close>; and a call made
  with an aborted signal starts none at all.\<close>

theorem no_attempt_after_abort:
  fixes out out1 out2 :: "'v retry_output list"
  assumes before: "retry_run p startedAt aborted is = (s, out)"
    and abort: "retry_run p startedAt aborted (is @ [SignalAborted an]) = (s1, out1)"
    and after: "retry_run p startedAt aborted (is @ SignalAborted an # js) = (s2, out2)"
  shows "starts out2 = starts out \<and> (aborted \<longrightarrow> starts out2 = []) \<and>
    (rt_pc s = AttemptRunning n \<and> \<not> rp_custom p \<longrightarrow> out1 = out @ [Threw abort_error])"
proof -
  obtain s0 and out0 :: "'v retry_output list" where s0: "runWithRetry p startedAt aborted = (s0, out0)"
    by (cases "runWithRetry p startedAt aborted :: retry \<times> 'v retry_output list")
  have outs: "out = out0 @ snd (run (retry_step p) s0 is)" "s = fst (run (retry_step p) s0 is)"
    "out1 = out @ snd (retry_step p s (SignalAborted an))"
    "out2 = out1 @ snd (run (retry_step p) (fst (retry_step p s (SignalAborted an) :: retry \<times> 'v retry_output list)) js)"
    using before abort after s0 by (auto simp: retry_run_def run_append split_beta Let_def)
  obtain s' and o' :: "'v retry_output list" where st: "retry_step p s (SignalAborted an) = (s', o')"
    by (cases "retry_step p s (SignalAborted an) :: retry \<times> 'v retry_output list")
  have "starts o' = []"
    using st caught_aborted [of p "s\<lparr>rt_aborted := True\<rparr>" _ abort_error an s' o']
    by (auto simp: Let_def split: if_splits retry_pc.splits)
  moreover have "starts (snd (run (retry_step p) s' js)) = []" by (rule aborted_run) (rule abort_sets [OF st])
  ultimately have same: "starts out2 = starts out" using outs st by (simp add: starts_app)
  have "starts out = []" if aborted
  proof -
    have "rt_aborted s0 \<and> starts out0 = []"
      using s0 that by (auto simp: runWithRetry_def enter_def settle_with_def Let_def split: if_splits)
    then show ?thesis using outs(1) aborted_run [of s0 p "is"] by (simp add: starts_app)
  qed
  moreover have "out1 = out @ [Threw abort_error]" if "rt_pc s = AttemptRunning n" "\<not> rp_custom p"
  proof -
    have "attempt_live s" using outs(2) live_attempt.run_inv [OF runWithRetry_live [OF s0], of p "is"] by simp
    then have "\<not> rt_aborted s" using that(1) by (simp add: attempt_live_def)
    then show ?thesis using abort_settles [OF st that(2) _ that(1)] outs(3) st by simp
  qed
  ultimately show ?thesis using same by auto
qed

theorem no_attempt_after_abort_witness:
  "\<exists>s out s1 out1 s2 out2. retry_run sample_policy (Fin 0) False [] = (s, out :: nat retry_output list) \<and>
     retry_run sample_policy (Fin 0) False ([] @ [SignalAborted sample_answers]) = (s1, out1 :: nat retry_output list) \<and>
     retry_run sample_policy (Fin 0) False ([] @ SignalAborted sample_answers # [DelayResolved]) =
       (s2, out2 :: nat retry_output list) \<and>
     starts out2 = starts out \<and> out1 = out @ [Threw abort_error]"
proof -
  obtain s out s1 out1 s2 out2 where r:
    "retry_run sample_policy (Fin 0) False [] = (s, out :: nat retry_output list)"
    "retry_run sample_policy (Fin 0) False ([] @ [SignalAborted sample_answers]) = (s1, out1 :: nat retry_output list)"
    "retry_run sample_policy (Fin 0) False ([] @ SignalAborted sample_answers # [DelayResolved]) =
       (s2, out2 :: nat retry_output list)"
    by (meson surj_pair)
  have "0 < max_attempts sample_policy" by (simp add: sample_policy_def max_attempts_def nat_of_num_def)
  then have "rt_pc s = AttemptRunning 0" "\<not> rp_custom sample_policy"
    using r(1) sample_valid by (auto simp: retry_run_def runWithRetry_def Let_def valid_policy_def enter_def)
  with no_attempt_after_abort [OF r, of 0] r show ?thesis by blast
qed

text \<open>Claim C28: an uninterrupted call returns what its attempts decide. The first success is returned; the
  first failure that is not retryable, or any failure of an operation that is not idempotent, is thrown
  as it is; if all \<open>maxAttempts\<close> attempts fail retryably a \<open>RetryError\<close> with that count and the last
  failure as cause is thrown. With at least \<open>maxAttempts\<close> results the call settles, so the loop ends.\<close>

theorem retry_agrees_with_results:
  assumes v: "valid_policy p" and c: "list_all (calm p (js_add startedAt (rp_budgetMs p))) rs"
    and r: "retry_run p startedAt False (script rs) = (s, out)"
  shows "outcomes out = expected p 0 (map fst rs) \<and> (max_attempts p \<le> length rs \<longrightarrow> outcomes out \<noteq> [])"
proof -
  let ?s = "\<lparr>rt_pc = AttemptRunning 0, rt_previous = bp_baseMs (rp_backoff p), rt_aborted = False,
    rt_expiresAt = js_add startedAt (rp_budgetMs p)\<rparr>"
  have pos: "0 < max_attempts p" using v isPositiveInteger_nat by (auto simp: valid_policy_def max_attempts_def)
  obtain q where q: "num_val (bp_baseMs (rp_backoff p)) = Some q"
    using v by (auto simp: valid_policy_def elim: policy_values)
  have "out = AttemptStarted 0 # snd (run (retry_step p) ?s (script rs))"
    using r v pos by (auto simp: retry_run_def runWithRetry_def enter_def valid_policy_def Let_def split: prod.splits)
  moreover have "outcomes (snd (run (retry_step p) ?s (script rs))) = expected p 0 (map fst rs)"
    using script_run [OF v, of ?s 0 q rs] pos q c by simp
  ultimately show ?thesis
    using expected_total [of p 0 "map fst rs"] pos by (simp add: outcomes_def)
qed

theorem retry_agrees_with_results_witness:
  "\<exists>s out. retry_run sample_policy (Fin 0) False
       (script [(Inl timeout_error, sample_answers), (Inr (7::nat), sample_answers)]) = (s, out) \<and>
     outcomes out = [Returned 7]"
proof -
  let ?rs = "[(Inl timeout_error, sample_answers), (Inr (7::nat), sample_answers)]"
  obtain s out where r: "retry_run sample_policy (Fin 0) False (script ?rs) = (s, out)"
    by (cases "retry_run sample_policy (Fin 0) False (script ?rs)")
  have "rp_budgetMs sample_policy = Fin 30000" by (simp add: sample_policy_def)
  then have "list_all (calm sample_policy (js_add (Fin 0) (rp_budgetMs sample_policy))) ?rs"
    by (simp add: sample_calm)
  from retry_agrees_with_results [OF sample_valid this r]
  have "outcomes out = expected sample_policy 0 (map fst ?rs)" by (rule conjunct1)
  also have "\<dots> = [Returned 7]"
    using sample_retryable by (simp add: sample_policy_def max_attempts_def nat_of_num_def)
  finally show ?thesis using r by blast
qed

end
