(* ===== verification/Timeouts.thy ===== *)
theory Timeouts imports Failures JS_Numbers begin

text \<open>
  Timeouts and cancellation of \<^verbatim>\<open>packages/std/src/resilience/timeout.ts\<close>: the host delay, combined
  signals, the race of a promise against a signal, deadlines and \<open>withTimeout\<close>. Each is a machine whose
  inputs are the host running a timer, a signal aborting and promises settling, in the order in which
  they happen; outputs are what the returned promise settles with. A listener or timer is a flag that says
  whether it is attached or armed.

  The lemmas show that each settles once, with the first input that counts, and then holds no listener and
  no timer.
\<close>

datatype 'v settlement = Fulfilled 'v | Rejected thrown

section \<open>The host delay\<close>

record delay_state =
  sd_timer :: bool
  sd_listener :: bool

datatype delay_input = DelayTimerFired | DelaySignalAborted

text \<open>\<open>signal\<close> is None without one, else whether it is aborted.\<close>

definition systemDelay :: "jsnum \<Rightarrow> bool option \<Rightarrow> delay_state \<times> unit settlement list" where
  "systemDelay ms signal =
     (let idle = \<lparr>sd_timer = False, sd_listener = False\<rparr>
      in if \<not> assertTimerMs ms then (idle, [Rejected range_error])
         else if signal = Some True then (idle, [Rejected abort_error])
         else (\<lparr>sd_timer = True, sd_listener = signal \<noteq> None\<rparr>, []))"

text \<open>A rejection after the timer has run would not count: the promise has settled.\<close>

fun delay_step :: "delay_state \<Rightarrow> delay_input \<Rightarrow> delay_state \<times> unit settlement list" where
  "delay_step s DelayTimerFired =
     (if sd_timer s then (s\<lparr>sd_timer := False, sd_listener := False\<rparr>, [Fulfilled ()]) else (s, []))"
| "delay_step s DelaySignalAborted =
     (if sd_listener s then
        (s\<lparr>sd_timer := False, sd_listener := False\<rparr>, if sd_timer s then [Rejected abort_error] else [])
      else (s, []))"

section \<open>Racing a promise against a signal\<close>

record race =
  rc_settled :: bool
  rc_listener :: bool

datatype 'v race_input = RacePromise "'v settlement" | RaceSignalAborted

definition raceAbort :: "bool option \<Rightarrow> race \<times> 'v settlement list" where
  "raceAbort signal =
     (case signal of
        None \<Rightarrow> (\<lparr>rc_settled = False, rc_listener = False\<rparr>, [])
      | Some True \<Rightarrow> (\<lparr>rc_settled = True, rc_listener = False\<rparr>, [Rejected abort_error])
      | Some False \<Rightarrow> (\<lparr>rc_settled = False, rc_listener = True\<rparr>, []))"

text \<open>Settling a promise again has no effect.\<close>

fun race_step :: "race \<Rightarrow> 'v race_input \<Rightarrow> race \<times> 'v settlement list" where
  "race_step s (RacePromise r) =
     (s\<lparr>rc_listener := False, rc_settled := True\<rparr>, if rc_settled s then [] else [r])"
| "race_step s RaceSignalAborted =
     (if rc_listener s then
        (s\<lparr>rc_listener := False, rc_settled := True\<rparr>, if rc_settled s then [] else [Rejected abort_error])
      else (s, []))"

section \<open>Deadlines\<close>

record deadline =
  dd_timer :: bool
  dd_aborted :: "thrown option"
  dd_disposed :: bool

datatype deadline_input = DeadlineTimerFired | DeadlineDisposed

text \<open>None is the \<open>RangeError\<close>.\<close>

definition createDeadline :: "jsnum \<Rightarrow> deadline option" where
  "createDeadline ms =
     (if \<not> assertTimerMs ms then None
      else Some \<lparr>dd_timer = True, dd_aborted = None, dd_disposed = False\<rparr>)"

fun deadline_step :: "deadline \<Rightarrow> deadline_input \<Rightarrow> deadline \<times> thrown list" where
  "deadline_step d DeadlineTimerFired =
     (if dd_timer d then (d\<lparr>dd_timer := False, dd_aborted := Some abort_error\<rparr>, [abort_error]) else (d, []))"
| "deadline_step d DeadlineDisposed =
     (if dd_disposed d then (d, []) else (d\<lparr>dd_disposed := True, dd_timer := False\<rparr>, []))"

section \<open>Combined signals\<close>

text \<open>The abort reason of each present source, which listeners are attached, the combined reason.\<close>

record 'r combined =
  cs_sources :: "'r option list"
  cs_linked :: "bool list"
  cs_reason :: "'r option"

datatype 'r combination = NeverAborts | PassedThrough "'r option" | NewSignal "'r combined"

fun link_sources :: "'r option list \<Rightarrow> bool list \<times> 'r option" where
  "link_sources [] = ([], None)"
| "link_sources (Some r # ss) = (False # map (\<lambda>_. False) ss, Some r)"
| "link_sources (None # ss) = (let (linked, reason) = link_sources ss in (True # linked, reason))"

definition unlink :: "bool list \<Rightarrow> bool list" where
  "unlink links = map (\<lambda>_. False) links"

definition combineSignals :: "'r option option list \<Rightarrow> 'r combination" where
  "combineSignals signals =
     (let present = map the (filter (\<lambda>s. s \<noteq> None) signals)
      in if length present = 0 then NeverAborts
         else if length present = 1 then PassedThrough (hd present)
         else let (linked, reason) = link_sources present
           in NewSignal \<lparr>cs_sources = present,
                cs_linked = (if reason \<noteq> None then unlink linked else linked), cs_reason = reason\<rparr>)"

text \<open>Source \<open>i\<close> aborts: a signal aborts once, and an attached listener aborts the controller, whose own
  listener unlinks every source.\<close>

fun combined_step :: "'r combined \<Rightarrow> nat \<times> 'r \<Rightarrow> 'r combined \<times> 'r list" where
  "combined_step c (i, r) =
     (if i < length (cs_sources c) \<and> cs_sources c ! i = None then
        let c' = c\<lparr>cs_sources := (cs_sources c)[i := Some r]\<rparr>
        in if cs_linked c ! i
           then (c'\<lparr>cs_reason := Some r, cs_linked := unlink (cs_linked c)\<rparr>, [r])
           else (c', [])
      else (c, []))"

definition combined_inv :: "'r combined \<Rightarrow> bool" where
  "combined_inv c =
     (length (cs_linked c) = length (cs_sources c) \<and>
      (cs_reason c = None \<longleftrightarrow> list_all (\<lambda>r. r = None) (cs_sources c)) \<and>
      list_all (\<lambda>b. b = (cs_reason c = None)) (cs_linked c) \<and>
      (case cs_reason c of None \<Rightarrow> True | Some r \<Rightarrow> Some r \<in> set (cs_sources c)))"

section \<open>Operations under a time budget\<close>

text \<open>\<open>withTimeout\<close> is suspended in the call of \<open>delay\<close>, in the call of the operation, or on its promises.
  Either call may throw, and the caller may abort during both.\<close>

datatype timed_pc = InDelay | InOperation | Racing

record timed =
  to_pc :: timed_pc
  to_settled :: bool
  to_callerListener :: bool
  to_timerCancelled :: bool
  to_operationAborted :: bool

datatype 'v timed_input =
    DelayReturned
  | DelayThrew thrown
  | OperationReturned
  | OperationThrew thrown
  | CallerAborted
  | DelayElapsed
  | DelayFailed thrown
  | OperationSettled "'v settlement"

datatype 'v timed_output = OperationStarted bool | Settled "'v settlement"

definition timed_settle :: "timed \<Rightarrow> 'v settlement \<Rightarrow> timed \<times> 'v timed_output list" where
  "timed_settle s r =
     (if to_settled s then (s, [])
      else (s\<lparr>to_settled := True, to_callerListener := False, to_timerCancelled := True,
              to_operationAborted := True\<rparr>, [Settled r]))"

text \<open>None when the promise is already rejected: a bad duration or an aborted caller.\<close>

definition withTimeout :: "jsnum \<Rightarrow> bool option \<Rightarrow> thrown + timed" where
  "withTimeout ms caller =
     (if \<not> assertTimerMs ms then Inl range_error
      else if caller = Some True then Inl abort_error
      else Inr \<lparr>to_pc = InDelay, to_settled = False, to_callerListener = (caller \<noteq> None),
                to_timerCancelled = False, to_operationAborted = False\<rparr>)"

fun timed_step :: "timed \<Rightarrow> 'v timed_input \<Rightarrow> timed \<times> 'v timed_output list" where
  "timed_step s DelayReturned =
     (if to_pc s = InDelay then (s\<lparr>to_pc := InOperation\<rparr>, [OperationStarted (to_operationAborted s)]) else (s, []))"
| "timed_step s (DelayThrew e) =
     (if to_pc s = InDelay then timed_settle (s\<lparr>to_pc := Racing\<rparr>) (Rejected e) else (s, []))"
| "timed_step s OperationReturned =
     (if to_pc s = InOperation then (s\<lparr>to_pc := Racing\<rparr>, []) else (s, []))"
| "timed_step s (OperationThrew e) =
     (if to_pc s = InOperation then timed_settle (s\<lparr>to_pc := Racing\<rparr>) (Rejected e) else (s, []))"
| "timed_step s CallerAborted =
     (if to_callerListener s then timed_settle s (Rejected abort_error) else (s, []))"
| "timed_step s DelayElapsed =
     (if to_pc s = Racing then timed_settle s (Rejected timeout_error) else (s, []))"
| "timed_step s (DelayFailed e) =
     (if to_pc s = Racing then timed_settle s (Rejected e) else (s, []))"
| "timed_step s (OperationSettled r) =
     (if to_pc s = Racing then timed_settle s r else (s, []))"

section \<open>Settling once\<close>

lemma delay_once:
  assumes "delay_step s e = (s', out)"
  shows "(sd_timer s \<longrightarrow> out = [] \<and> sd_timer s' \<or> (\<exists>x. out = [x]) \<and> \<not> sd_timer s') \<and>
    (\<not> sd_timer s \<longrightarrow> out = [] \<and> \<not> sd_timer s')"
  using assms by (cases e) (auto split: if_splits)

interpretation host_delay: one_shot delay_step sd_timer
  by unfold_locales (use delay_once in blast)+

lemma race_once:
  assumes "race_step s e = (s', out)"
  shows "(\<not> rc_settled s \<longrightarrow> out = [] \<and> \<not> rc_settled s' \<or> (\<exists>x. out = [x]) \<and> rc_settled s') \<and>
    (rc_settled s \<longrightarrow> out = [] \<and> rc_settled s')"
  using assms by (cases e) (auto split: if_splits)

interpretation abort_race: one_shot race_step "\<lambda>s. \<not> rc_settled s"
  by unfold_locales (use race_once in blast)+

lemma deadline_once:
  assumes "deadline_step s e = (s', out)"
  shows "(dd_timer s \<longrightarrow> e \<noteq> DeadlineDisposed \<longrightarrow> (\<exists>x. out = [x]) \<and> \<not> dd_timer s') \<and>
    (\<not> dd_timer s \<longrightarrow> out = [] \<and> \<not> dd_timer s')"
  using assms by (cases e) (auto split: if_splits)

abbreviation is_settled :: "'v timed_output \<Rightarrow> bool" where
  "is_settled x \<equiv> (case x of Settled _ \<Rightarrow> True | OperationStarted _ \<Rightarrow> False)"

lemma timed_settle_cases:
  "timed_settle s r = (s', out) \<Longrightarrow>
    (if to_settled s then s' = s \<and> out = []
     else to_settled s' \<and> to_pc s' = to_pc s \<and> \<not> to_callerListener s' \<and> to_timerCancelled s' \<and>
       to_operationAborted s' \<and> out = [Settled r])"
  by (auto simp: timed_settle_def)

lemma timed_once:
  assumes "timed_step s e = (s', out)"
  shows "(\<not> to_settled s \<longrightarrow> filter is_settled out = [] \<and> \<not> to_settled s' \<or>
       (\<exists>x. filter is_settled out = [x]) \<and> to_settled s') \<and>
    (to_settled s \<longrightarrow> filter is_settled out = [] \<and> to_settled s')"
  using assms by (cases e) (auto simp: timed_settle_def split: if_splits)

interpretation time_budget: one_shot "observe is_settled timed_step" "\<lambda>s. \<not> to_settled s"
proof unfold_locales
  fix s :: timed and e :: "'a timed_input" and s' out
  assume st: "observe is_settled timed_step s e = (s', out)"
  obtain s1 out1 where s1: "timed_step s e = (s1, out1)" by (cases "timed_step s e")
  then have "s' = s1" "out = filter is_settled out1" using st by (auto simp: observe_def)
  then show "\<not> to_settled s \<Longrightarrow> out = [] \<and> \<not> to_settled s' \<or> (\<exists>x. out = [x]) \<and> \<not> \<not> to_settled s'"
    "\<not> \<not> to_settled s \<Longrightarrow> out = [] \<and> \<not> \<not> to_settled s'"
    using timed_once [OF s1] by blast+
qed

text \<open>Nothing is left attached after the settlement, nothing torn down before it.\<close>

definition timed_inv :: "bool \<Rightarrow> timed \<Rightarrow> bool" where
  "timed_inv hasCaller s =
     (to_callerListener s = (hasCaller \<and> \<not> to_settled s) \<and> to_timerCancelled s = to_settled s \<and>
      to_operationAborted s = to_settled s)"

interpretation time_budget_inv: kept_invariant timed_step "timed_inv c" for c
proof unfold_locales
  fix s :: timed and e :: "'a timed_input"
  assume "timed_inv c s"
  then show "timed_inv c (fst (timed_step s e))"
    by (cases e) (auto simp: timed_inv_def timed_settle_def)
qed

text \<open>What an input settles a call with that waits on its promises.\<close>

fun racing_outcome :: "bool \<Rightarrow> 'v timed_input \<Rightarrow> 'v settlement option" where
  "racing_outcome hasCaller CallerAborted = (if hasCaller then Some (Rejected abort_error) else None)"
| "racing_outcome _ DelayElapsed = Some (Rejected timeout_error)"
| "racing_outcome _ (DelayFailed e) = Some (Rejected e)"
| "racing_outcome _ (OperationSettled r) = Some r"
| "racing_outcome _ _ = None"

lemma racing_settles:
  assumes "timed_inv c s" "to_pc s = Racing" "\<not> to_settled s" "racing_outcome c e = Some r"
    and st: "timed_step s e = (s', out)"
  shows "out = [Settled r] \<and> to_settled s'"
  using assms by (cases e) (auto simp: timed_settle_def timed_inv_def split: if_splits)

lemma combined_step_inv: "combined_inv c \<Longrightarrow> combined_inv (fst (combined_step c ir))"
proof -
  assume inv: "combined_inv c"
  obtain i r where ir: "ir = (i, r)" by (cases ir)
  show ?thesis
  proof (cases "i < length (cs_sources c) \<and> cs_sources c ! i = None")
    case False
    then show ?thesis using inv ir by auto
  next
    case True
    have linked: "cs_linked c ! i \<longleftrightarrow> cs_reason c = None"
      using inv True by (auto simp: combined_inv_def list_all_length)
    have new: "\<not> list_all (\<lambda>r. r = None) ((cs_sources c)[i := Some r])" "Some r \<in> set ((cs_sources c)[i := Some r])"
      using True by (auto simp: list_all_length set_update_memI intro: exI [where x = i])
    have kept: "Some x \<in> set ((cs_sources c)[i := Some r])" if "Some x \<in> set (cs_sources c)" for x
    proof -
      from that obtain j where "j < length (cs_sources c)" "cs_sources c ! j = Some x" by (auto simp: in_set_conv_nth)
      then show ?thesis using True by (auto simp: in_set_conv_nth intro!: exI [where x = j] simp: nth_list_update)
    qed
    show ?thesis
    proof (cases "cs_reason c")
      case None
      then show ?thesis using True inv ir linked new
        by (auto simp: combined_inv_def unlink_def Let_def list_all_iff)
    next
      case (Some x)
      then show ?thesis using True inv ir linked new kept
        by (auto simp: combined_inv_def Let_def)
    qed
  qed
qed

interpretation combined_signal: kept_invariant combined_step combined_inv
  by unfold_locales (rule combined_step_inv)

lemma link_sources_facts:
  "link_sources ss = (linked, reason) \<Longrightarrow> length linked = length ss \<and>
     (reason = None \<longleftrightarrow> list_all (\<lambda>r. r = None) ss) \<and> (reason = None \<longrightarrow> list_all (\<lambda>b. b) linked) \<and>
     (\<forall>r. reason = Some r \<longrightarrow> find (\<lambda>s. s \<noteq> None) ss = Some (Some r))"
  by (induction ss arbitrary: linked reason rule: link_sources.induct) (auto split: prod.splits)

lemma combineSignals_inv: "combineSignals signals = NewSignal c \<Longrightarrow> combined_inv c"
proof -
  assume c: "combineSignals signals = NewSignal c"
  define present where "present = map the (filter (\<lambda>s. s \<noteq> None) signals)"
  obtain linked reason where l: "link_sources present = (linked, reason)" by (cases "link_sources present")
  have "c = \<lparr>cs_sources = present, cs_linked = (if reason \<noteq> None then unlink linked else linked), cs_reason = reason\<rparr>"
    using c l by (auto simp: combineSignals_def Let_def present_def split: if_splits)
  then show ?thesis using link_sources_facts [OF l]
    by (auto simp: combined_inv_def unlink_def list_all_iff dest: find_SomeD)
qed

section \<open>Properties\<close>

text \<open>A call under a time budget settles at most once, and exactly when it has settled its caller
  listener is gone, its timer cancelled and the signal of its operation aborted. While it waits on its
  promises the first input that counts decides: an abort of the caller (a fatal \<open>AbortError\<close>), the delay
  (a \<open>TimeoutError\<close>, or what the delay failed with) or the operation.\<close>

theorem timeout_settles_with_first:
  fixes out :: "'v timed_output list"
  assumes start: "withTimeout ms caller = Inr s0" and r: "run timed_step s0 is = (s, out)"
  shows "length (filter is_settled out) = (if to_settled s then 1 else 0) \<and>
    to_callerListener s = (caller \<noteq> None \<and> \<not> to_settled s) \<and> to_timerCancelled s = to_settled s \<and>
    to_operationAborted s = to_settled s \<and>
    (\<forall>e x (js :: 'v timed_input list). to_pc s = Racing \<and> \<not> to_settled s \<and> racing_outcome (caller \<noteq> None) e = Some x \<longrightarrow>
       filter is_settled (snd (run timed_step s (e # js))) = [Settled x])"
proof (intro conjI allI impI)
  have s0: "\<not> to_settled s0" "timed_inv (caller \<noteq> None) s0"
    using start by (auto simp: withTimeout_def timed_inv_def split: if_splits)
  have inv: "timed_inv (caller \<noteq> None) s" using time_budget_inv.run_inv [OF s0(2), of "is"] r by simp
  then show "to_callerListener s = (caller \<noteq> None \<and> \<not> to_settled s)" "to_timerCancelled s = to_settled s"
    "to_operationAborted s = to_settled s"
    by (simp_all add: timed_inv_def)
  have "run (observe is_settled timed_step) s0 is = (s, filter is_settled out)"
    using r by (simp add: run_observe)
  from time_budget.run_once [OF s0(1) this]
  show "length (filter is_settled out) = (if to_settled s then 1 else 0)" by auto
  fix e :: "'v timed_input" and x and js :: "'v timed_input list"
  assume e: "to_pc s = Racing \<and> \<not> to_settled s \<and> racing_outcome (caller \<noteq> None) e = Some x"
  obtain s1 out1 where st: "timed_step s e = (s1, out1)" by (cases "timed_step s e")
  have "out1 = [Settled x]" "to_settled s1" using racing_settles [OF inv _ _ _ st, of x] e by auto
  moreover from this have "filter is_settled (snd (run timed_step s1 js)) = []"
    using time_budget.run_quiet [of s1 js] by (simp add: run_observe)
  ultimately show "filter is_settled (snd (run timed_step s (e # js))) = [Settled x]"
    using st by (simp add: run_Cons del: run.simps(2))
qed

theorem timeout_settles_with_first_witness:
  "\<exists>s0 s out. withTimeout (Fin 100) (Some False) = Inr s0 \<and>
     run timed_step s0 [DelayReturned, OperationReturned] = (s, out :: nat timed_output list) \<and>
     filter is_settled (snd (run timed_step s [DelayElapsed, OperationSettled (Fulfilled (7::nat))])) =
       [Settled (Rejected timeout_error)]"
proof -
  let ?s0 = "\<lparr>to_pc = InDelay, to_settled = False, to_callerListener = True, to_timerCancelled = False,
    to_operationAborted = False\<rparr>"
  have s0: "withTimeout (Fin 100) (Some False) = Inr ?s0"
    by (simp add: withTimeout_def assertTimerMs_def MAX_TIMER_MS_def)
  obtain s and out :: "nat timed_output list" where
    r: "run timed_step ?s0 [DelayReturned, OperationReturned] = (s, out)" by (meson surj_pair)
  have "to_pc s = Racing \<and> \<not> to_settled s" using r by auto
  with timeout_settles_with_first [OF s0 r] s0 r show ?thesis by (metis racing_outcome.simps(2))
qed

text \<open>A signal combined from several is aborted exactly when one of them is, with the reason of a
  source that aborted, and it aborts once; it listens to every source until then and to none afterwards,
  so a long-lived source never keeps it.\<close>

theorem combined_signal_follows_sources:
  assumes "combineSignals signals = NewSignal c0" "run combined_step c0 is = (c, out)"
  shows "(cs_reason c \<noteq> None \<longleftrightarrow> (\<exists>r. Some r \<in> set (cs_sources c))) \<and>
    (\<forall>r. cs_reason c = Some r \<longrightarrow> Some r \<in> set (cs_sources c)) \<and>
    list_all (\<lambda>b. b = (cs_reason c = None)) (cs_linked c)"
proof -
  have "combined_inv c"
    using combined_signal.run_inv [OF combineSignals_inv [OF assms(1)], of "is"] assms(2) by simp
  then show ?thesis by (auto simp: combined_inv_def list_all_iff split: option.splits)
qed

theorem combined_signal_follows_sources_witness:
  "\<exists>c0 c out. combineSignals [Some None, None, Some None] = NewSignal c0 \<and>
     run combined_step c0 [(1, 5), (0, 6 :: nat)] = (c, out) \<and> cs_reason c = Some 5 \<and> cs_linked c = [False, False]"
proof -
  obtain c0 where c0: "combineSignals [Some None, None, Some (None :: nat option)] = NewSignal c0"
    by (simp add: combineSignals_def)
  obtain c out where r: "run combined_step c0 [(1, 5), (0, 6 :: nat)] = (c, out)" by (meson surj_pair)
  have "cs_reason c = Some 5 \<and> cs_linked c = [False, False]"
    using c0 r by (auto simp: combineSignals_def unlink_def)
  then show ?thesis using combined_signal_follows_sources [OF c0 r] c0 r by blast
qed

text \<open>A disposed deadline never aborts, and one that aborted does not abort again.\<close>

lemma deadline_quiet: "\<not> dd_timer d \<Longrightarrow> snd (run deadline_step d is) = []"
proof (induction "is" arbitrary: d)
  case (Cons i "is")
  obtain d' out where st: "deadline_step d i = (d', out)" by (cases "deadline_step d i")
  with deadline_once [OF st] Cons.prems Cons.IH [of d'] show ?case by (simp add: run_Cons del: run.simps(2))
qed simp

end
