(* ===== verification/Channel_Errors.thy ===== *)
theory Channel_Errors imports Failures Channel_Delivery begin

text \<open>
  The errors of a channel: \<open>ChannelError\<close> (\<^verbatim>\<open>packages/channel/src/errors/channel-error.ts\<close>), a remote failure
  of kind \<open>channel/...\<close>, and how the reconnect loop turns the failure that ended it into one
  (\<open>toTerminalError\<close>, \<open>toLastFailure\<close> in \<^verbatim>\<open>lifecycle/channel.ts\<close>). How the language prints a thrown value
  or a number in a message is an argument.
\<close>

datatype channel_kind = KConfig | KConnect | KProtocol | KClosed

fun kind_name :: "channel_kind \<Rightarrow> string" where
  "kind_name KConfig = ''config''"
| "kind_name KConnect = ''connect''"
| "kind_name KProtocol = ''protocol''"
| "kind_name KClosed = ''closed''"

text \<open>The constructor; \<open>status\<close> and \<open>failure\<close> are its options.\<close>

definition channelError :: "channel_kind \<Rightarrow> string \<Rightarrow> jsnum option \<Rightarrow> failure option \<Rightarrow> remote_failure" where
  "channelError kind message status f =
     remoteFailure (''channel/'' @ kind_name kind)
       (case f of
          Some f \<Rightarrow> f
        | None \<Rightarrow>
            \<lparr>fa_code = (case status of
                 Some s \<Rightarrow> failureCodeForStatus s
               | None \<Rightarrow> if kind = KConnect then Unavailable else Internal),
             fa_message = message, fa_reason = None, fa_domain = None, fa_metadata = None, fa_traceId = None,
             fa_violations = [],
             fa_retryable = (case status of
                 Some s \<Rightarrow> snd (classifyStatus s) = Retryable
               | None \<Rightarrow> kind = KConnect),
             fa_retryAfterMs = None, fa_authentication = None\<rparr>)"

definition is_channel_error :: "remote_failure \<Rightarrow> bool" where
  "is_channel_error f = (take 8 (rf_kind f) = ''channel/'')"

text \<open>A remote failure read as the failure it implements.\<close>

definition as_failure :: "remote_failure \<Rightarrow> failure" where
  "as_failure f =
     \<lparr>fa_code = rf_code f, fa_message = rf_message f, fa_reason = rf_reason f, fa_domain = rf_domain f,
      fa_metadata = Some (rf_metadata f), fa_traceId = rf_traceId f, fa_violations = rf_violations f,
      fa_retryable = rf_retryable f, fa_retryAfterMs = rf_retryAfterMs f,
      fa_authentication = rf_authentication f\<rparr>"

record messages =
  ms_error :: "thrown \<Rightarrow> string"  \<comment> \<open>\<open>getErrorMessage\<close>\<close>
  ms_number :: "jsnum \<Rightarrow> string"

definition toLastFailure :: "messages \<Rightarrow> thrown \<Rightarrow> remote_failure" where
  "toLastFailure ms cause =
     (case cause of
        ThrownRemote f \<Rightarrow>
          if is_channel_error f then f
          else channelError KProtocol (rf_message f) None (Some (as_failure f))
      | ThrownStatus _ s \<Rightarrow>
          channelError KProtocol (''server responded with status '' @ ms_number ms s) (Some s) None
      | _ \<Rightarrow> channelError KConnect (ms_error ms cause) None None)"

text \<open>The terminal error, with the channel error it has as cause when reconnection was exhausted.\<close>

definition toTerminalError :: "messages \<Rightarrow> thrown \<Rightarrow> remote_failure \<times> remote_failure option" where
  "toTerminalError ms error =
     (case error of
        ThrownExhausted _ n cause \<Rightarrow>
          (channelError KClosed (''reconnection exhausted after '' @ digits_of n @ '' attempt(s)'') None None,
           Some (toLastFailure ms cause))
      | _ \<Rightarrow> (toLastFailure ms error, None))"

text \<open>The errors of frame dispatch as thrown values. A failure frame is thrown with what the decoder read.\<close>

record decoder =
  dc_failures :: "jsval \<Rightarrow> decoded"
  dc_read :: "jsval \<Rightarrow> failure"     \<comment> \<open>the failure a \<open>Decoded\<close> value stands for\<close>
  dc_other :: thrown                \<comment> \<open>what a decoder throws that is no decode error\<close>

fun dispatch_error :: "decoder \<Rightarrow> channel_error \<Rightarrow> thrown" where
  "dispatch_error d (DecodedFailure j) = ThrownRemote (channelError KProtocol (fa_message (dc_read d j)) None (Some (dc_read d j)))"
| "dispatch_error d DecoderThrew = dc_other d"
| "dispatch_error d InvalidRetry = ThrownRemote (channelError KProtocol ''Invalid retry directive.'' None None)"
| "dispatch_error d InvalidControl = ThrownRemote (channelError KProtocol ''Invalid event control.'' None None)"
| "dispatch_error d InvalidSequence = ThrownRemote (channelError KProtocol ''Invalid event sequence.'' None None)"
| "dispatch_error d InvalidCursor = ThrownRemote (channelError KProtocol ''Invalid event cursor.'' None None)"

definition connect_error :: "string \<Rightarrow> thrown" where
  "connect_error message = ThrownRemote (channelError KConnect message None None)"

definition channel_config_error :: "string \<Rightarrow> thrown" where
  "channel_config_error message = ThrownRemote (channelError KConfig message None None)"

section \<open>Which channel failures are retried\<close>

lemma channelError_retryable:
  "isRetryable (ThrownRemote (channelError kind message None None)) \<longleftrightarrow> kind = KConnect"
  unfolding channelError_def remote_retryable by (auto simp: remoteFailure_def Let_def)

lemma connect_error_retryable [simp]: "isRetryable (connect_error m)"
  by (simp add: connect_error_def channelError_retryable)

lemma channel_config_error_fatal [simp]: "\<not> isRetryable (channel_config_error m)"
  by (simp add: channel_config_error_def channelError_retryable)

lemma terminal_is_channel_error: "is_channel_error (fst (toTerminalError ms e))"
  by (cases e) (auto simp: toTerminalError_def toLastFailure_def is_channel_error_def channelError_def
      remoteFailure_def Let_def)

end
