(* ===== verification/Channel_Lifecycle.thy ===== *)
theory Channel_Lifecycle imports Channel_Errors Backoff begin

text \<open>
  The lifecycle of a channel, \<open>createChannel\<close> of \<^verbatim>\<open>packages/channel/src/lifecycle/channel.ts\<close>: sessions,
  connection attempts, the reconnect loop, \<open>connect\<close> and \<open>close\<close>.

  The code is single-threaded but its observers may call back into it. The model makes both explicit. An
  input is either an event of the host (a timer, a promise that settled, a transport callback), taken only
  while no observer runs, or a call of \<open>connect\<close> or \<open>close\<close>, taken at any time, or the return of the
  running observer. A step runs the code up to the next observer call or await; what remains to be done
  after an observer returns is on a stack of continuations, so every reentrant call is a sequence of
  inputs. All listeners of one notification count as one observer. A session's loop is suspended at its
  program counter; sessions and attempts are numbered in the order of their creation, and both outlive
  their use, as their closures do.

  Each step reads the clock once. Durations are validated numbers, times are numbers; a wait comes from the
  backoff schedule. The transport factory is taken not to throw.
\<close>

datatype channel_status = SIdle | SConnecting | SOpen | SReconnecting | SClosing | SClosed

definition isTerminalStatus :: "channel_status \<Rightarrow> bool" where
  "isTerminalStatus s = (s = SClosed)"

record channel_config =
  cf_reconnect :: bool
  cf_backoff :: backoff_policy
  cf_maxRetries :: nat
  cf_retryBudgetMs :: rat
  cf_connectTimeoutMs :: rat
  cf_idleTimeout :: bool        \<comment> \<open>an \<open>idleTimeoutMs\<close> is given\<close>
  cf_minUptimeMs :: rat
  cf_protected :: bool          \<comment> \<open>a \<open>protectedSession\<close> is given\<close>
  cf_decoder :: decoder
  cf_messages :: messages

text \<open>The option checks of \<open>createChannel\<close>; a failed check is a thrown \<open>ChannelError\<close> or \<open>RangeError\<close>.\<close>

definition valid_options ::
  "jsnum \<Rightarrow> backoff_policy \<Rightarrow> jsnum \<Rightarrow> jsnum \<Rightarrow> jsnum \<Rightarrow> jsnum option \<Rightarrow> bool" where
  "valid_options maxRetries backoff connectTimeoutMs retryBudgetMs minUptimeMs idleTimeoutMs =
     (isNonNegativeInteger maxRetries \<and> assertBackoffPolicy backoff \<and> assertTimerMs connectTimeoutMs \<and>
      assertTimerMs retryBudgetMs \<and> assertTimerMs minUptimeMs \<and>
      (case idleTimeoutMs of None \<Rightarrow> True | Some ms \<Rightarrow> assertTimerMs ms))"

section \<open>State\<close>

datatype session_pc =
    Starting                        \<comment> \<open>the observer of \<open>connecting\<close> or \<open>reconnecting\<close> runs before an attempt\<close>
  | Attempting nat
  | AttemptEnded "thrown option"    \<comment> \<open>the attempt's promise settled; the loop has not resumed yet\<close>
  | Announcing                      \<comment> \<open>the observer of \<open>reconnecting\<close> runs before the wait\<close>
  | Revalidating "thrown option"
  | BackingOff
  | LoopCrashed
  | LoopDone

record session =
  se_closed :: bool
  se_aborted :: bool
  se_openedAt :: "rat option"
  se_pc :: session_pc
  se_failures :: nat
  se_failureStartedAt :: "rat option"
  se_burstStartedAt :: rat
  se_previousMs :: jsnum

record attempt =
  at_session :: nat
  at_settled :: bool
  at_opened :: bool
  at_openedAt :: rat
  at_connectTimer :: bool
  at_idleTimer :: bool
  at_leased :: bool
  at_streaming :: bool

datatype continuation =
    JustReturn
  | StartAttempt nat                        \<comment> \<open>the rest of \<open>runOneConnection\<close>\<close>
  | FinishAttempt nat "thrown option"       \<comment> \<open>the rest of \<open>endWithFailure\<close>\<close>
  | AfterOpen nat
  | AfterFrame nat
  | AfterFailureFrame nat thrown
  | AfterReconnecting nat "thrown option"   \<comment> \<open>the loop, with the failure it waits for\<close>
  | AfterClosing nat
  | AfterTerminalStatus nat "(remote_failure \<times> remote_failure option) option"
  | AfterTerminalError nat

datatype observer = StatusObserver | ErrorObserver | FrameObserver

record channel =
  ch_status :: channel_status
  ch_terminalFailure :: "(remote_failure \<times> remote_failure option) option"
  ch_attemptsStarted :: nat
  ch_delivery :: delivery
  ch_active :: "nat option"
  ch_sessions :: "nat \<Rightarrow> session"
  ch_nextSession :: nat
  ch_attempts :: "nat \<Rightarrow> attempt"
  ch_nextAttempt :: nat
  ch_stack :: "(observer \<times> continuation) list"  \<comment> \<open>the running observer first\<close>

definition no_session :: session where
  "no_session = \<lparr>se_closed = True, se_aborted = True, se_openedAt = None, se_pc = LoopDone, se_failures = 0,
     se_failureStartedAt = None, se_burstStartedAt = 0, se_previousMs = Fin 0\<rparr>"

definition no_attempt :: attempt where
  "no_attempt = \<lparr>at_session = 0, at_settled = True, at_opened = False, at_openedAt = 0, at_connectTimer = False,
     at_idleTimer = False, at_leased = False, at_streaming = False\<rparr>"

definition createChannel :: "string option \<Rightarrow> channel" where
  "createChannel lastEventId =
     \<lparr>ch_status = SIdle, ch_terminalFailure = None, ch_attemptsStarted = 0,
      ch_delivery = delivery_init lastEventId, ch_active = None, ch_sessions = (\<lambda>_. no_session),
      ch_nextSession = 0, ch_attempts = (\<lambda>_. no_attempt), ch_nextAttempt = 0, ch_stack = []\<rparr>"

datatype channel_output =
    StatusChanged channel_status
  | TerminalError remote_failure "remote_failure option"
  | ListenerThrew
  | FrameEmitted frame
  | AttemptBegun nat
  | StreamOpened nat
  | WaitStarted nat jsnum
  | SessionInvalidated thrown

type_synonym channel_result = "channel \<times> channel_output list"

definition session_of :: "channel \<Rightarrow> nat \<Rightarrow> session" where
  "session_of c aid = ch_sessions c (at_session (ch_attempts c aid))"

definition set_session :: "nat \<Rightarrow> (session \<Rightarrow> session) \<Rightarrow> channel \<Rightarrow> channel" where
  "set_session sid f c = c\<lparr>ch_sessions := (ch_sessions c)(sid := f (ch_sessions c sid))\<rparr>"

definition set_attempt :: "nat \<Rightarrow> (attempt \<Rightarrow> attempt) \<Rightarrow> channel \<Rightarrow> channel" where
  "set_attempt aid f c = c\<lparr>ch_attempts := (ch_attempts c)(aid := f (ch_attempts c aid))\<rparr>"

definition set_pc :: "nat \<Rightarrow> session_pc \<Rightarrow> channel \<Rightarrow> channel" where
  "set_pc sid pc = set_session sid (\<lambda>s. s\<lparr>se_pc := pc\<rparr>)"

definition call_observer :: "observer \<Rightarrow> continuation \<Rightarrow> channel \<Rightarrow> channel" where
  "call_observer ob k c = c\<lparr>ch_stack := (ob, k) # ch_stack c\<rparr>"

text \<open>\<open>setStatus\<close>: without a change there is no observer call and the code goes on at once.\<close>

definition setStatus ::
  "channel_status \<Rightarrow> continuation \<Rightarrow> (channel \<Rightarrow> channel_result) \<Rightarrow> channel \<Rightarrow> channel_result" where
  "setStatus next k continue c =
     (if ch_status c = next then continue c
      else (call_observer StatusObserver k (c\<lparr>ch_status := next\<rparr>), [StatusChanged next]))"

section \<open>The end of a session\<close>

definition clear_active :: "channel \<Rightarrow> channel_result" where
  "clear_active c = (c\<lparr>ch_active := None\<rparr>, [])"

text \<open>After the \<open>closed\<close> notification of a loop that ended.\<close>

definition terminal_status_sent ::
  "nat \<Rightarrow> (remote_failure \<times> remote_failure option) option \<Rightarrow> channel \<Rightarrow> channel_result" where
  "terminal_status_sent sid err c =
     (case err of
        Some (e, cause) \<Rightarrow> (call_observer ErrorObserver (AfterTerminalError sid) c, [TerminalError e cause])
      | None \<Rightarrow> clear_active c)"

text \<open>What follows the loop of \<open>runReconnectLoop\<close>.\<close>

definition settle_loop ::
  "nat \<Rightarrow> (remote_failure \<times> remote_failure option) option \<Rightarrow> channel \<Rightarrow> channel_result" where
  "settle_loop sid err c =
     (let c1 = set_pc sid LoopDone c
      in if ch_active c \<noteq> Some sid then (c1, [])
         else setStatus SClosed (AfterTerminalStatus sid err) (terminal_status_sent sid err)
           ((set_session sid (\<lambda>s. s\<lparr>se_closed := True\<rparr>) c1)
             \<lparr>ch_delivery := invalidate (ch_delivery c), ch_terminalFailure := err\<rparr>))"

section \<open>Connection attempts\<close>

text \<open>\<open>finish\<close>: settle the attempt's promise once and tear down its timers, listeners and lease.\<close>

definition finishAttempt :: "nat \<Rightarrow> thrown option \<Rightarrow> channel \<Rightarrow> channel" where
  "finishAttempt aid result c =
     (if at_settled (ch_attempts c aid) then c
      else set_pc (at_session (ch_attempts c aid)) (AttemptEnded result)
        (set_attempt aid (\<lambda>a. a\<lparr>at_settled := True, at_connectTimer := False, at_idleTimer := False,
            at_leased := False\<rparr>) c))"

definition isStable :: "channel_config \<Rightarrow> attempt \<Rightarrow> rat \<Rightarrow> bool" where
  "isStable cfg a now = (at_opened a \<and> now - at_openedAt a \<ge> cf_minUptimeMs cfg)"

fun is_remote :: "thrown \<Rightarrow> bool" where
  "is_remote (ThrownRemote _) = True"
| "is_remote _ = False"

fun is_authentication :: "thrown \<Rightarrow> bool" where
  "is_authentication (ThrownRemote f) = (rf_authentication f \<noteq> None)"
| "is_authentication _ = False"

definition endWithFailure :: "channel_config \<Rightarrow> nat \<Rightarrow> thrown \<Rightarrow> rat \<Rightarrow> channel \<Rightarrow> channel_result" where
  "endWithFailure cfg aid e now c =
     (let a = ch_attempts c aid
      in if is_authentication e then
           (finishAttempt aid (Some e) c,
            if \<not> at_settled a \<and> cf_protected cfg then [SessionInvalidated e] else [])
         else if isRetryable e then
           if isStable cfg a now \<and> \<not> is_remote e then (finishAttempt aid None c, [])
           else if cf_reconnect cfg \<and> \<not> se_closed (session_of c aid)
             then setStatus SReconnecting (FinishAttempt aid (Some e)) (\<lambda>c. (finishAttempt aid (Some e) c, [])) c
           else (finishAttempt aid (Some e) c, [])
         else (finishAttempt aid (Some e) c, []))"

definition armIdle :: "channel_config \<Rightarrow> nat \<Rightarrow> channel \<Rightarrow> channel_result" where
  "armIdle cfg aid c =
     (if at_settled (ch_attempts c aid) \<or> \<not> cf_idleTimeout cfg then (c, [])
      else (set_attempt aid (\<lambda>a. a\<lparr>at_idleTimer := True\<rparr>) c, []))"

text \<open>The part of \<open>runOneConnection\<close> behind its status change. The session's signal may have aborted.\<close>

definition start_attempt :: "nat \<Rightarrow> channel \<Rightarrow> channel_result" where
  "start_attempt sid c =
     (let aid = ch_nextAttempt c;
          aborted = se_aborted (ch_sessions c sid);
          c1 = c\<lparr>ch_attemptsStarted := ch_attemptsStarted c + 1, ch_nextAttempt := aid + 1,
                 ch_attempts := (ch_attempts c)(aid := no_attempt\<lparr>at_session := sid, at_settled := aborted,
                   at_connectTimer := \<not> aborted\<rparr>)\<rparr>
      in (set_pc sid (if aborted then AttemptEnded (Some abort_error) else Attempting aid) c1, [AttemptBegun aid]))"

definition runOneConnection :: "nat \<Rightarrow> channel \<Rightarrow> channel_result" where
  "runOneConnection sid c =
     setStatus (if ch_attemptsStarted c = 0 then SConnecting else SReconnecting) (StartAttempt sid) (start_attempt sid)
       (set_session sid (\<lambda>s. s\<lparr>se_openedAt := None, se_pc := Starting\<rparr>)
         (c\<lparr>ch_delivery := attempt_started (ch_delivery c)\<rparr>))"

section \<open>The reconnect loop\<close>

definition retry_exhausted :: "nat \<Rightarrow> thrown \<Rightarrow> thrown" where
  "retry_exhausted n cause = ThrownExhausted ''RetryError'' n cause"

definition loop_top :: "channel_config \<Rightarrow> nat \<Rightarrow> rat \<Rightarrow> channel \<Rightarrow> channel_result" where
  "loop_top cfg sid now c =
     (let s = ch_sessions c sid;
          startedAt = (case se_failureStartedAt s of None \<Rightarrow> now | Some t \<Rightarrow> t);
          admissionBudgetMs = min (cf_connectTimeoutMs cfg) (cf_retryBudgetMs cfg - (now - startedAt));
          c1 = set_session sid (\<lambda>s. s\<lparr>se_failureStartedAt := Some startedAt, se_burstStartedAt := startedAt\<rparr>) c
      in if se_closed s then settle_loop sid None c
         else if admissionBudgetMs \<le> 0
           then settle_loop sid (Some (toTerminalError (cf_messages cfg) (retry_exhausted (max 1 (se_failures s)) ThrownValue))) c1
         else runOneConnection sid c1)"

definition burst_elapsed :: "session \<Rightarrow> rat \<Rightarrow> rat" where
  "burst_elapsed s now = (case se_failureStartedAt s of None \<Rightarrow> 0 | Some t \<Rightarrow> now - t)"

definition minimum_delay :: "channel \<Rightarrow> thrown option \<Rightarrow> jsnum" where
  "minimum_delay c failure =
     js_max (case dl_serverRetryMs (ch_delivery c) of None \<Rightarrow> Fin 0 | Some ms \<Rightarrow> ms)
       (case failure of
          Some (ThrownRemote f) \<Rightarrow> (case rf_retryAfterMs f of None \<Rightarrow> Fin 0 | Some ms \<Rightarrow> ms)
        | _ \<Rightarrow> Fin 0)"

text \<open>The backoff before the next attempt. A \<open>RangeError\<close> of the schedule would leave the loop's promise
  rejected and unobserved.\<close>

definition begin_wait ::
  "channel_config \<Rightarrow> nat \<Rightarrow> thrown option \<Rightarrow> rat \<Rightarrow> rat \<Rightarrow> channel \<Rightarrow> channel_result" where
  "begin_wait cfg sid failure now random c =
     (let s = ch_sessions c sid
      in case retryDelay (cf_backoff cfg) (Fin (of_nat (se_failures s - 1))) random (Some (se_previousMs s))
                (Some (minimum_delay c failure)) of
           None \<Rightarrow> (set_pc sid LoopCrashed c, [])
         | Some waitMs \<Rightarrow>
             if js_le (Fin (cf_retryBudgetMs cfg - burst_elapsed s now)) waitMs
             then settle_loop sid (Some (toTerminalError (cf_messages cfg)
                    (retry_exhausted (max 1 (se_failures s)) (case failure of None \<Rightarrow> ThrownValue | Some e \<Rightarrow> e)))) c
             else (set_session sid (\<lambda>s. s\<lparr>se_previousMs := waitMs, se_pc := BackingOff\<rparr>)
                    (c\<lparr>ch_delivery := (ch_delivery c)\<lparr>dl_serverRetryMs := None\<rparr>\<rparr>), [WaitStarted sid waitMs]))"

text \<open>After the \<open>reconnecting\<close> notification: revalidate a protected session, then wait.\<close>

definition reconnecting_sent ::
  "channel_config \<Rightarrow> nat \<Rightarrow> thrown option \<Rightarrow> rat \<Rightarrow> rat \<Rightarrow> channel \<Rightarrow> channel_result" where
  "reconnecting_sent cfg sid failure now random c =
     (if cf_protected cfg then (set_pc sid (Revalidating failure) c, [])
      else begin_wait cfg sid failure now random c)"

text \<open>The loop resumes when its attempt has settled.\<close>

definition announce ::
  "channel_config \<Rightarrow> nat \<Rightarrow> thrown option \<Rightarrow> rat \<Rightarrow> rat \<Rightarrow> channel \<Rightarrow> channel_result" where
  "announce cfg sid failure now random c =
     (if \<not> cf_reconnect cfg \<or> se_closed (ch_sessions c sid) then settle_loop sid None c
      else setStatus SReconnecting (AfterReconnecting sid failure) (reconnecting_sent cfg sid failure now random)
        (set_pc sid Announcing c))"

definition loop_resumes ::
  "channel_config \<Rightarrow> nat \<Rightarrow> thrown option \<Rightarrow> rat \<Rightarrow> rat \<Rightarrow> channel \<Rightarrow> channel_result" where
  "loop_resumes cfg sid result now random c =
     (case result of
        None \<Rightarrow> announce cfg sid None now random
          (set_session sid (\<lambda>s. s\<lparr>se_failures := 0, se_failureStartedAt := None,
             se_previousMs := bp_baseMs (cf_backoff cfg)\<rparr>) c)
      | Some e \<Rightarrow>
          let s = ch_sessions c sid
          in if se_closed s then settle_loop sid None c
             else if \<not> cf_reconnect cfg \<or> \<not> isRetryable e
               then settle_loop sid (Some (toTerminalError (cf_messages cfg) e)) c
             else let startedAt = (case se_openedAt s of
                        Some t \<Rightarrow> if now - t \<ge> cf_minUptimeMs cfg then Some (se_burstStartedAt s + now - t)
                                  else se_failureStartedAt s
                      | None \<Rightarrow> se_failureStartedAt s);
                    c1 = set_session sid (\<lambda>s. s\<lparr>se_failureStartedAt := startedAt, se_failures := se_failures s + 1\<rparr>) c
               in if se_failures s + 1 > cf_maxRetries cfg
                  then settle_loop sid (Some (toTerminalError (cf_messages cfg) (retry_exhausted (se_failures s + 1) e))) c1
                  else announce cfg sid (Some e) now random c1)"

section \<open>The methods of a channel\<close>

definition connect :: "channel_config \<Rightarrow> rat \<Rightarrow> channel \<Rightarrow> channel_result" where
  "connect cfg now c =
     (if ch_active c \<noteq> None then (c, [])
      else let sid = ch_nextSession c
        in loop_top cfg sid now
             (c\<lparr>ch_terminalFailure := None, ch_attemptsStarted := 0,
                ch_delivery := (ch_delivery c)\<lparr>dl_serverRetryMs := None\<rparr>, ch_active := Some sid,
                ch_nextSession := sid + 1,
                ch_sessions := (ch_sessions c)(sid :=
                  \<lparr>se_closed = False, se_aborted = False, se_openedAt = None, se_pc = Starting, se_failures = 0,
                   se_failureStartedAt = None, se_burstStartedAt = 0,
                   se_previousMs = bp_baseMs (cf_backoff cfg)\<rparr>)\<rparr>))"

text \<open>Aborting the session's controller rejects its attempt, if one is waiting.\<close>

definition abort_session :: "nat \<Rightarrow> channel \<Rightarrow> channel" where
  "abort_session sid c =
     (let c1 = set_session sid (\<lambda>s. s\<lparr>se_aborted := True\<rparr>) c
      in case se_pc (ch_sessions c sid) of
           Attempting aid \<Rightarrow> finishAttempt aid (Some abort_error) c1
         | _ \<Rightarrow> c1)"

definition closing_sent :: "nat \<Rightarrow> channel \<Rightarrow> channel_result" where
  "closing_sent sid c =
     setStatus SClosed JustReturn (\<lambda>c. (c, []))
       ((abort_session sid (c\<lparr>ch_delivery := invalidate (ch_delivery c)\<rparr>))\<lparr>ch_active := None\<rparr>)"

definition close :: "channel \<Rightarrow> channel_result" where
  "close c =
     (case ch_active c of
        None \<Rightarrow> (c, [])
      | Some sid \<Rightarrow>
          if se_closed (ch_sessions c sid) then (c, [])
          else setStatus SClosing (AfterClosing sid) (closing_sent sid)
            (set_session sid (\<lambda>s. s\<lparr>se_closed := True\<rparr>) c))"

text \<open>\<open>get ready\<close>.\<close>

definition ready :: "channel \<Rightarrow> bool" where
  "ready c = (ch_status c = SOpen \<and> dl_hasBoundary (ch_delivery c))"

section \<open>Events of an attempt\<close>

definition on_open :: "channel_config \<Rightarrow> nat \<Rightarrow> rat \<Rightarrow> channel \<Rightarrow> channel_result" where
  "on_open cfg aid now c =
     (if at_settled (ch_attempts c aid) then (c, [])
      else setStatus SOpen (AfterOpen aid) (armIdle cfg aid)
        (set_session (at_session (ch_attempts c aid)) (\<lambda>s. s\<lparr>se_openedAt := Some now\<rparr>)
          (set_attempt aid (\<lambda>a. a\<lparr>at_connectTimer := False, at_opened := True, at_openedAt := now\<rparr>) c)))"

definition on_frame :: "channel_config \<Rightarrow> nat \<Rightarrow> frame \<Rightarrow> rat \<Rightarrow> channel \<Rightarrow> channel_result" where
  "on_frame cfg aid f now c =
     (if at_settled (ch_attempts c aid) then (c, [])
      else let (d, r) = dispatch (dc_failures (cf_decoder cfg)) (ch_delivery c) f;
               c1 = c\<lparr>ch_delivery := d\<rparr>
        in case r of
             Inr True \<Rightarrow> (call_observer FrameObserver (AfterFrame aid) c1, [FrameEmitted f])
           | Inr False \<Rightarrow> armIdle cfg aid c1
           | Inl e \<Rightarrow>
               if fr_type f = ''failure''
               then (call_observer FrameObserver (AfterFailureFrame aid (dispatch_error (cf_decoder cfg) e)) c1, [FrameEmitted f])
               else endWithFailure cfg aid (dispatch_error (cf_decoder cfg) e) now c1)"

definition on_retry :: "channel_config \<Rightarrow> nat \<Rightarrow> jsnum \<Rightarrow> rat \<Rightarrow> channel \<Rightarrow> channel_result" where
  "on_retry cfg aid minimumMs now c =
     (if at_settled (ch_attempts c aid) then (c, [])
      else case setServerRetry (ch_delivery c) minimumMs of
             Inl e \<Rightarrow> endWithFailure cfg aid (dispatch_error (cf_decoder cfg) e) now c
           | Inr d \<Rightarrow> (c\<lparr>ch_delivery := d\<rparr>, []))"

datatype attempt_event =
    LeaseBorrowed "thrown option"  \<comment> \<open>the abort reason of the lease's signal, if it is aborted\<close>
  | LeaseAborted thrown
  | Admitted
  | AdmissionFailed thrown
  | Opened
  | FrameArrived frame
  | RetryDirective jsnum
  | StreamEnded
  | StreamFailed thrown
  | ConnectTimedOut
  | IdleTimedOut
  | TimerFailed bool               \<comment> \<open>the connect timer, or else the idle timer\<close>

definition session_abort_error :: "thrown \<Rightarrow> thrown" where
  "session_abort_error reason = (if is_remote reason then reason else abort_error)"

fun on_attempt_event :: "channel_config \<Rightarrow> nat \<Rightarrow> attempt_event \<Rightarrow> rat \<Rightarrow> channel \<Rightarrow> channel_result" where
  "on_attempt_event cfg aid (LeaseBorrowed aborted) now c =
     (if at_settled (ch_attempts c aid) then (c, [])
      else case aborted of
             Some reason \<Rightarrow> (finishAttempt aid (Some (session_abort_error reason)) c, [])
           | None \<Rightarrow> (set_attempt aid (\<lambda>a. a\<lparr>at_leased := True\<rparr>) c, []))"
| "on_attempt_event cfg aid (LeaseAborted reason) now c =
     (if at_leased (ch_attempts c aid) then (finishAttempt aid (Some (session_abort_error reason)) c, []) else (c, []))"
| "on_attempt_event cfg aid Admitted now c =
     (if at_settled (ch_attempts c aid) then (c, [])
      else (set_attempt aid (\<lambda>a. a\<lparr>at_streaming := True\<rparr>) c, [StreamOpened aid]))"
| "on_attempt_event cfg aid (AdmissionFailed e) now c = (finishAttempt aid (Some e) c, [])"
| "on_attempt_event cfg aid Opened now c = on_open cfg aid now c"
| "on_attempt_event cfg aid (FrameArrived f) now c = on_frame cfg aid f now c"
| "on_attempt_event cfg aid (RetryDirective ms) now c = on_retry cfg aid ms now c"
| "on_attempt_event cfg aid StreamEnded now c =
     (if \<not> at_streaming (ch_attempts c aid) then (c, [])
      else let c1 = set_attempt aid (\<lambda>a. a\<lparr>at_streaming := False\<rparr>) c
        in if isStable cfg (ch_attempts c aid) now then (finishAttempt aid None c1, [])
           else endWithFailure cfg aid (connect_error ''stream ended before stabilizing'') now c1)"
| "on_attempt_event cfg aid (StreamFailed e) now c =
     (if \<not> at_streaming (ch_attempts c aid) then (c, [])
      else endWithFailure cfg aid e now (set_attempt aid (\<lambda>a. a\<lparr>at_streaming := False\<rparr>) c))"
| "on_attempt_event cfg aid ConnectTimedOut now c =
     (if \<not> at_connectTimer (ch_attempts c aid) then (c, [])
      else endWithFailure cfg aid timeout_error now (set_attempt aid (\<lambda>a. a\<lparr>at_connectTimer := False\<rparr>) c))"
| "on_attempt_event cfg aid IdleTimedOut now c =
     (if \<not> at_idleTimer (ch_attempts c aid) then (c, [])
      else endWithFailure cfg aid timeout_error now (set_attempt aid (\<lambda>a. a\<lparr>at_idleTimer := False\<rparr>) c))"
| "on_attempt_event cfg aid (TimerFailed connectTimer) now c =
     (if (if connectTimer then at_connectTimer (ch_attempts c aid) else at_idleTimer (ch_attempts c aid))
      then endWithFailure cfg aid (channel_config_error ''channel timer failed'') now c else (c, []))"

section \<open>Steps\<close>

fun resume :: "channel_config \<Rightarrow> continuation \<Rightarrow> rat \<Rightarrow> rat \<Rightarrow> channel \<Rightarrow> channel_result" where
  "resume cfg JustReturn now random c = (c, [])"
| "resume cfg (StartAttempt sid) now random c = start_attempt sid c"
| "resume cfg (FinishAttempt aid result) now random c = (finishAttempt aid result c, [])"
| "resume cfg (AfterOpen aid) now random c = armIdle cfg aid c"
| "resume cfg (AfterFrame aid) now random c = armIdle cfg aid c"
| "resume cfg (AfterFailureFrame aid e) now random c = endWithFailure cfg aid e now c"
| "resume cfg (AfterReconnecting sid failure) now random c = reconnecting_sent cfg sid failure now random c"
| "resume cfg (AfterClosing sid) now random c = closing_sent sid c"
| "resume cfg (AfterTerminalStatus sid err) now random c = terminal_status_sent sid err c"
| "resume cfg (AfterTerminalError sid) now random c = clear_active c"

datatype loop_event =
    AttemptSettledEvent            \<comment> \<open>the loop continues behind its attempt\<close>
  | Revalidated
  | RevalidationFailed thrown
  | WaitOver
  | WaitFailed thrown

definition on_loop_event ::
  "channel_config \<Rightarrow> nat \<Rightarrow> loop_event \<Rightarrow> rat \<Rightarrow> rat \<Rightarrow> channel \<Rightarrow> channel_result" where
  "on_loop_event cfg sid ev now random c =
     (let s = ch_sessions c sid
      in case (se_pc s, ev) of
           (AttemptEnded result, AttemptSettledEvent) \<Rightarrow> loop_resumes cfg sid result now random c
         | (Revalidating failure, Revalidated) \<Rightarrow> begin_wait cfg sid failure now random c
         | (Revalidating failure, RevalidationFailed e) \<Rightarrow>
             if se_closed s then settle_loop sid None c
             else (let (c1, out) = settle_loop sid (Some (toTerminalError (cf_messages cfg) e)) c
                   in (c1, SessionInvalidated e # out))
         | (BackingOff, WaitOver) \<Rightarrow> loop_top cfg sid now c
         | (BackingOff, WaitFailed e) \<Rightarrow>
             if se_closed s then settle_loop sid None c
             else settle_loop sid (Some (channelError KConfig ''channel timer failed'' None None, None)) c
         | _ \<Rightarrow> (c, []))"

datatype channel_input =
    Connect rat
  | Close
  | ObserverReturns bool rat rat        \<comment> \<open>whether it threw, the clock, the next random draw\<close>
  | AttemptEvent nat attempt_event rat
  | LoopEvent nat loop_event rat rat
  | AcknowledgeFrame frame
  | ResetCursorCall

text \<open>A throw of a status or frame observer is reported to the error observers before the code goes on; an
  error observer's own throw is reported no further.\<close>

fun channel_step :: "channel_config \<Rightarrow> channel \<Rightarrow> channel_input \<Rightarrow> channel_result" where
  "channel_step cfg c (Connect now) = connect cfg now c"
| "channel_step cfg c Close = close c"
| "channel_step cfg c (AcknowledgeFrame f) = (c\<lparr>ch_delivery := acknowledge (ch_delivery c) f\<rparr>, [])"
| "channel_step cfg c ResetCursorCall = (c\<lparr>ch_delivery := resetCursor (ch_delivery c)\<rparr>, [])"
| "channel_step cfg c (ObserverReturns threw now random) =
     (case ch_stack c of
        [] \<Rightarrow> (c, [])
      | (ob, k) # rest \<Rightarrow>
          if threw \<and> ob \<noteq> ErrorObserver
          then (c\<lparr>ch_stack := (ErrorObserver, k) # rest\<rparr>, [ListenerThrew])
          else resume cfg k now random (c\<lparr>ch_stack := rest\<rparr>))"
| "channel_step cfg c (AttemptEvent aid ev now) =
     (if ch_stack c \<noteq> [] then (c, []) else on_attempt_event cfg aid ev now c)"
| "channel_step cfg c (LoopEvent sid ev now random) =
     (if ch_stack c \<noteq> [] then (c, []) else on_loop_event cfg sid ev now random c)"

end
