(* ===== verification/Channel_Safety.thy ===== *)
theory Channel_Safety imports Channel_Lifecycle begin

text \<open>
  The invariant of the channel machine of theory \<open>Channel_Lifecycle\<close> and the safety properties that follow
  from it: one live session, one live attempt, no effect of what a session left behind, a bound on the attempts in
  a row, and where a late failure of a settled attempt changes the status.
\<close>

section \<open>The invariant\<close>

fun loop_of :: "continuation \<Rightarrow> nat list" where
  "loop_of (StartAttempt sid) = [sid]"
| "loop_of (AfterReconnecting sid _) = [sid]"
| "loop_of _ = []"

fun owner_of :: "continuation \<Rightarrow> nat list" where
  "owner_of (AfterClosing sid) = [sid]"
| "owner_of (AfterTerminalStatus sid _) = [sid]"
| "owner_of (AfterTerminalError sid) = [sid]"
| "owner_of _ = []"

fun waits_last :: "continuation \<Rightarrow> bool" where
  "waits_last (AfterReconnecting _ _) = True"
| "waits_last _ = False"

definition loops :: "channel \<Rightarrow> nat list" where
  "loops c = concat (map (loop_of \<circ> snd) (ch_stack c))"

definition owners :: "channel \<Rightarrow> nat list" where
  "owners c = concat (map (owner_of \<circ> snd) (ch_stack c))"

text \<open>What a continuation on the stack relies on.\<close>

fun cont_ok :: "channel \<Rightarrow> continuation \<Rightarrow> bool" where
  "cont_ok c (StartAttempt sid) = (se_pc (ch_sessions c sid) = Starting)"
| "cont_ok c (AfterReconnecting sid _) = (se_pc (ch_sessions c sid) = Announcing)"
| "cont_ok c (AfterClosing sid) = (ch_active c = Some sid \<and> se_closed (ch_sessions c sid))"
| "cont_ok c (AfterTerminalStatus sid _) =
     (ch_active c = Some sid \<and> se_closed (ch_sessions c sid) \<and> se_pc (ch_sessions c sid) = LoopDone)"
| "cont_ok c (AfterTerminalError sid) =
     (ch_active c = Some sid \<and> se_closed (ch_sessions c sid) \<and> se_pc (ch_sessions c sid) = LoopDone)"
| "cont_ok c _ = True"

definition sessions_ok :: "channel \<Rightarrow> bool" where
  "sessions_ok c = (\<forall>sid. let s = ch_sessions c sid in
     (\<not> se_closed s \<longrightarrow> \<not> se_aborted s \<and> se_pc s \<noteq> LoopDone) \<and>
     (se_pc s \<noteq> LoopDone \<and> \<not> se_aborted s \<longrightarrow> ch_active c = Some sid) \<and>
     (ch_nextSession c \<le> sid \<longrightarrow> s = no_session))"

definition attempts_ok :: "channel \<Rightarrow> bool" where
  "attempts_ok c = (\<forall>aid. let a = ch_attempts c aid; s = ch_sessions c (at_session a) in
     (\<not> at_settled a \<longrightarrow> se_pc s = Attempting aid \<and> \<not> se_aborted s \<and> at_session a < ch_nextSession c) \<and>
     (at_connectTimer a \<or> at_idleTimer a \<or> at_leased a \<longrightarrow> \<not> at_settled a) \<and>
     (ch_nextAttempt c \<le> aid \<longrightarrow> a = no_attempt))"

definition stack_ok :: "channel \<Rightarrow> bool" where
  "stack_ok c =
     (list_all (cont_ok c \<circ> snd) (ch_stack c) \<and> distinct (loops c) \<and> length (owners c) \<le> 1 \<and>
      list_all (\<lambda>x. \<not> waits_last (snd x)) (butlast (ch_stack c)))"

definition channel_inv :: "channel \<Rightarrow> bool" where
  "channel_inv c = (sessions_ok c \<and> attempts_ok c \<and> stack_ok c)"

lemmas inv_defs = channel_inv_def sessions_ok_def attempts_ok_def stack_ok_def

lemma stack_views [simp]:
  "loops (c\<lparr>ch_stack := (ob, k) # r\<rparr>) = loop_of k @ loops (c\<lparr>ch_stack := r\<rparr>)"
  "owners (c\<lparr>ch_stack := (ob, k) # r\<rparr>) = owner_of k @ owners (c\<lparr>ch_stack := r\<rparr>)"
  "loops (c\<lparr>ch_stack := []\<rparr>) = []" "owners (c\<lparr>ch_stack := []\<rparr>) = []"
  by (simp_all add: loops_def owners_def)

lemma views_cong: "ch_stack c = ch_stack d \<Longrightarrow> loops c = loops d \<and> owners c = owners d"
  by (simp add: loops_def owners_def)

lemma cont_ok_cong:
  "(\<And>sid. se_pc (ch_sessions c sid) = se_pc (ch_sessions d sid)) \<Longrightarrow>
   (\<And>sid. se_closed (ch_sessions c sid) = se_closed (ch_sessions d sid)) \<Longrightarrow>
   ch_active c = ch_active d \<Longrightarrow> cont_ok c = cont_ok d"
  by (rule ext) (rename_tac k, case_tac k; simp)

text \<open>Fields the invariant does not look at.\<close>

lemma inv_fields [simp]:
  "channel_inv (c\<lparr>ch_status := st\<rparr>) = channel_inv c"
  "channel_inv (c\<lparr>ch_terminalFailure := tf\<rparr>) = channel_inv c"
  "channel_inv (c\<lparr>ch_attemptsStarted := n\<rparr>) = channel_inv c"
  "channel_inv (c\<lparr>ch_delivery := d\<rparr>) = channel_inv c"
proof -
  have "cont_ok (c\<lparr>ch_status := st\<rparr>) = cont_ok c" "cont_ok (c\<lparr>ch_terminalFailure := tf\<rparr>) = cont_ok c"
    "cont_ok (c\<lparr>ch_attemptsStarted := n\<rparr>) = cont_ok c" "cont_ok (c\<lparr>ch_delivery := d\<rparr>) = cont_ok c"
    by (rule cont_ok_cong; simp)+
  then show "channel_inv (c\<lparr>ch_status := st\<rparr>) = channel_inv c"
    "channel_inv (c\<lparr>ch_terminalFailure := tf\<rparr>) = channel_inv c"
    "channel_inv (c\<lparr>ch_attemptsStarted := n\<rparr>) = channel_inv c"
    "channel_inv (c\<lparr>ch_delivery := d\<rparr>) = channel_inv c"
    by (simp_all add: inv_defs loops_def owners_def)
qed

lemma session_facts:
  assumes "channel_inv c"
  shows "(\<not> se_closed (ch_sessions c x) \<longrightarrow> \<not> se_aborted (ch_sessions c x) \<and> se_pc (ch_sessions c x) \<noteq> LoopDone) \<and>
    (se_pc (ch_sessions c x) \<noteq> LoopDone \<and> \<not> se_aborted (ch_sessions c x) \<longrightarrow> Some x = ch_active c) \<and>
    (ch_nextSession c \<le> x \<longrightarrow> ch_sessions c x = no_session)"
  using assms unfolding channel_inv_def sessions_ok_def Let_def by metis

section \<open>Pushing and popping continuations\<close>

text \<open>When a continuation may be pushed.\<close>

definition pushable :: "channel \<Rightarrow> continuation \<Rightarrow> bool" where
  "pushable c k = (cont_ok c k \<and> set (loop_of k) \<inter> set (loops c) = {} \<and>
     (owner_of k \<noteq> [] \<longrightarrow> owners c = []) \<and> (waits_last k \<longrightarrow> ch_stack c = []))"

lemma cont_ok_stack [simp]: "cont_ok (c\<lparr>ch_stack := r\<rparr>) = cont_ok c"
  by (rule cont_ok_cong) simp_all

lemma single_loop: "distinct (loop_of k)" "length (owner_of k) \<le> 1"
  by (cases k; simp)+

lemma push_inv:
  assumes "channel_inv c" "pushable c k"
  shows "channel_inv (call_observer ob k c)"
proof -
  have v: "loops (call_observer ob k c) = loop_of k @ loops c" "owners (call_observer ob k c) = owner_of k @ owners c"
    by (simp_all add: call_observer_def loops_def owners_def)
  have "list_all (\<lambda>x. \<not> waits_last (snd x)) (butlast (ch_stack (call_observer ob k c)))"
    using assms by (cases "ch_stack c") (auto simp: call_observer_def pushable_def inv_defs)
  moreover have "length (owner_of k @ owners c) \<le> 1"
    using assms single_loop [of k] by (cases "owner_of k = []") (auto simp: pushable_def inv_defs)
  ultimately show ?thesis
    using assms v single_loop [of k] by (simp add: inv_defs pushable_def) (simp add: call_observer_def)
qed

lemma pop_inv:
  assumes "channel_inv c" "ch_stack c = (ob, k) # r"
  shows "channel_inv (c\<lparr>ch_stack := r\<rparr>)" "cont_ok (c\<lparr>ch_stack := r\<rparr>) k"
    "set (loop_of k) \<inter> set (loops (c\<lparr>ch_stack := r\<rparr>)) = {}"
    "owner_of k \<noteq> [] \<Longrightarrow> owners (c\<lparr>ch_stack := r\<rparr>) = []" "waits_last k \<Longrightarrow> r = []"
proof -
  have v: "loops c = loop_of k @ loops (c\<lparr>ch_stack := r\<rparr>)" "owners c = owner_of k @ owners (c\<lparr>ch_stack := r\<rparr>)"
    using assms(2) by (simp_all add: loops_def owners_def)
  show "channel_inv (c\<lparr>ch_stack := r\<rparr>)"
    using assms v by (cases r) (auto simp: inv_defs)
  show "cont_ok (c\<lparr>ch_stack := r\<rparr>) k" "set (loop_of k) \<inter> set (loops (c\<lparr>ch_stack := r\<rparr>)) = {}"
    using assms v by (auto simp: inv_defs)
  show "owners (c\<lparr>ch_stack := r\<rparr>) = []" if "owner_of k \<noteq> []"
    using assms(1) v that by (cases "owner_of k") (auto simp: inv_defs)
  show "r = []" if "waits_last k"
    using assms that by (cases r) (auto simp: inv_defs)
qed

lemma status_inv:
  assumes "channel_inv c" "pushable c k" "channel_inv (fst (continue c))"
  shows "channel_inv (fst (setStatus next k continue c))"
proof -
  have "cont_ok (c\<lparr>ch_status := next\<rparr>) = cont_ok c" by (rule cont_ok_cong) simp_all
  then have "pushable (c\<lparr>ch_status := next\<rparr>) k"
    using assms(2) by (simp add: pushable_def loops_def owners_def)
  with assms show ?thesis by (simp add: setStatus_def push_inv)
qed

section \<open>Updates\<close>

text \<open>Updates of a session that keep what the invariant looks at.\<close>

lemma session_fields_inv:
  assumes f: "\<And>s. se_pc (f s) = se_pc s" "\<And>s. se_closed (f s) = se_closed s" "\<And>s. se_aborted (f s) = se_aborted s"
    and sid: "sid < ch_nextSession c" and inv: "channel_inv c"
  shows "channel_inv (set_session sid f c)"
proof -
  let ?d = "set_session sid f c"
  have v: "\<And>x. se_pc (ch_sessions ?d x) = se_pc (ch_sessions c x)"
    "\<And>x. se_closed (ch_sessions ?d x) = se_closed (ch_sessions c x)"
    "\<And>x. se_aborted (ch_sessions ?d x) = se_aborted (ch_sessions c x)"
    "\<And>x. ch_nextSession c \<le> x \<Longrightarrow> ch_sessions ?d x = ch_sessions c x"
    using f sid by (simp_all add: set_session_def)
  have w: "ch_active ?d = ch_active c" "ch_nextSession ?d = ch_nextSession c" "ch_attempts ?d = ch_attempts c"
    "ch_nextAttempt ?d = ch_nextAttempt c" "ch_stack ?d = ch_stack c" "loops ?d = loops c" "owners ?d = owners c"
    by (simp_all add: set_session_def loops_def owners_def)
  have "cont_ok ?d = cont_ok c" by (rule cont_ok_cong) (use v w in simp_all)
  moreover have "sessions_ok ?d"
    using inv unfolding inv_defs Let_def w v(1-3) using v(4) by auto
  ultimately show ?thesis
    using inv unfolding channel_inv_def attempts_ok_def stack_ok_def Let_def w v(1-3) by simp
qed

text \<open>Updates of a session whose loop owns the thread of control.\<close>

definition loop_here :: "channel \<Rightarrow> nat \<Rightarrow> bool" where
  "loop_here c sid = (sid \<notin> set (loops c) \<and> owners c = [] \<and> se_pc (ch_sessions c sid) \<noteq> LoopDone \<and>
     (\<forall>aid. at_session (ch_attempts c aid) = sid \<longrightarrow> at_settled (ch_attempts c aid)) \<and> sid < ch_nextSession c)"

lemma cont_ok_other_session:
  assumes "cont_ok c k" "set (loop_of k) \<inter> {sid} = {}" "owner_of k = []"
  shows "cont_ok (set_session sid f c) k"
  using assms by (cases k) (auto simp: set_session_def)

lemma loop_update_inv:
  assumes inv: "channel_inv c" and here: "loop_here c sid" and f: "se_pc (f (ch_sessions c sid)) \<noteq> LoopDone"
    "se_closed (f (ch_sessions c sid)) = se_closed (ch_sessions c sid)"
    "se_aborted (f (ch_sessions c sid)) = se_aborted (ch_sessions c sid)"
  shows "channel_inv (set_session sid f c)" "loop_here (set_session sid f c) sid"
proof -
  have v: "loops (set_session sid f c) = loops c" "owners (set_session sid f c) = owners c"
    by (simp_all add: set_session_def loops_def owners_def)
  have "list_all (cont_ok (set_session sid f c) \<circ> snd) (ch_stack c)"
    using inv here cont_ok_other_session [of c _ sid f]
    by (auto simp: inv_defs list_all_iff loop_here_def loops_def owners_def)
  moreover have "attempts_ok (set_session sid f c)"
    using inv here by (auto simp: inv_defs set_session_def loop_here_def Let_def)
  moreover have "sessions_ok (set_session sid f c)"
    using inv here f unfolding inv_defs by (auto simp: set_session_def loop_here_def Let_def)
  ultimately show "channel_inv (set_session sid f c)"
    using inv v by (simp add: channel_inv_def stack_ok_def) (simp add: set_session_def)
  show "loop_here (set_session sid f c) sid"
    using here f v by (simp add: loop_here_def) (auto simp: set_session_def)
qed

text \<open>Updates of an attempt that neither settle nor revive it.\<close>

lemma attempt_fields_inv:
  assumes inv: "channel_inv c"
    and f: "at_session (f (ch_attempts c aid)) = at_session (ch_attempts c aid)"
    "at_settled (f (ch_attempts c aid)) = at_settled (ch_attempts c aid)"
    "at_connectTimer (f (ch_attempts c aid)) \<or> at_idleTimer (f (ch_attempts c aid)) \<or> at_leased (f (ch_attempts c aid)) \<Longrightarrow>
       \<not> at_settled (ch_attempts c aid)"
    "f no_attempt = no_attempt \<or> aid < ch_nextAttempt c"
  shows "channel_inv (set_attempt aid f c)"
proof -
  have "cont_ok (set_attempt aid f c) = cont_ok c"
    by (rule cont_ok_cong) (simp_all add: set_attempt_def)
  moreover have "attempts_ok (set_attempt aid f c)"
    using inv f by (auto simp: inv_defs set_attempt_def Let_def)
  ultimately show ?thesis
    using inv views_cong [of "set_attempt aid f c" c]
    by (simp add: inv_defs) (simp add: set_attempt_def)
qed

lemma finishAttempt_inv:
  assumes inv: "channel_inv c"
  shows "channel_inv (finishAttempt aid result c)"
proof (cases "at_settled (ch_attempts c aid)")
  case True
  then show ?thesis using inv by (simp add: finishAttempt_def)
next
  case False
  let ?sid = "at_session (ch_attempts c aid)" and ?d = "finishAttempt aid result c"
  have pc: "se_pc (ch_sessions c ?sid) = Attempting aid" "\<not> se_aborted (ch_sessions c ?sid)"
    "?sid < ch_nextSession c"
    using inv False by (auto simp: inv_defs Let_def)
  then have act: "ch_active c = Some ?sid" using inv by (auto simp: inv_defs Let_def)
  have others: "at_settled (ch_attempts c b)" if "b \<noteq> aid" "at_session (ch_attempts c b) = ?sid" for b
    using inv that pc by (auto simp: inv_defs Let_def)
  have ok: "cont_ok ?d k" if "cont_ok c k" for k
    using that pc False by (cases k) (auto simp: finishAttempt_def set_pc_def set_session_def set_attempt_def)
  have v: "loops ?d = loops c" "owners ?d = owners c" "ch_stack ?d = ch_stack c"
    by (simp_all add: finishAttempt_def set_pc_def set_session_def set_attempt_def loops_def owners_def)
  have "attempts_ok ?d"
    using inv pc others False
    by (auto simp: inv_defs finishAttempt_def set_pc_def set_session_def set_attempt_def Let_def no_attempt_def)
  moreover have "sessions_ok ?d"
    using inv pc act False by (auto simp: inv_defs finishAttempt_def set_pc_def set_session_def set_attempt_def Let_def)
  moreover have "stack_ok ?d" using inv v ok by (auto simp: inv_defs list_all_iff)
  ultimately show ?thesis by (simp add: channel_inv_def)
qed

section \<open>Attempts keep the invariant\<close>

lemma plain_pushable: "loop_of k = [] \<Longrightarrow> owner_of k = [] \<Longrightarrow> pushable c k"
  by (cases k) (simp_all add: pushable_def)

lemma endWithFailure_inv: "channel_inv c \<Longrightarrow> channel_inv (fst (endWithFailure cfg aid e now c))"
  by (auto simp: endWithFailure_def Let_def intro!: status_inv plain_pushable finishAttempt_inv)

lemma unsettled_allocated: "channel_inv c \<Longrightarrow> \<not> at_settled (ch_attempts c aid) \<Longrightarrow> aid < ch_nextAttempt c"
  by (rule ccontr) (auto simp: inv_defs Let_def no_attempt_def)

lemma armIdle_inv: "channel_inv c \<Longrightarrow> channel_inv (fst (armIdle cfg aid c))"
  by (auto simp: armIdle_def intro!: attempt_fields_inv dest: unsettled_allocated)

lemma call_frame_inv: "channel_inv c \<Longrightarrow> channel_inv (call_observer FrameObserver (AfterFrame aid) c)"
  "channel_inv c \<Longrightarrow> channel_inv (call_observer FrameObserver (AfterFailureFrame aid e) c)"
  by (auto intro!: push_inv plain_pushable)

lemma session_allocated: "channel_inv c \<Longrightarrow> \<not> at_settled (ch_attempts c aid) \<Longrightarrow>
    at_session (ch_attempts c aid) < ch_nextSession c"
  by (auto simp: inv_defs Let_def)

lemma set_attempt_views [simp]:
  "ch_nextSession (set_attempt aid f c) = ch_nextSession c" "ch_nextAttempt (set_attempt aid f c) = ch_nextAttempt c"
  "ch_sessions (set_attempt aid f c) = ch_sessions c"
  by (simp_all add: set_attempt_def)

lemma on_open_inv:
  assumes "channel_inv c"
  shows "channel_inv (fst (on_open cfg aid now c))"
proof (cases "at_settled (ch_attempts c aid)")
  case False
  then show ?thesis
    using assms unsettled_allocated [OF assms False] session_allocated [OF assms False]
    by (auto simp: on_open_def intro!: status_inv plain_pushable armIdle_inv session_fields_inv attempt_fields_inv)
qed (simp add: on_open_def assms)

lemma on_frame_inv:
  assumes "channel_inv c"
  shows "channel_inv (fst (on_frame cfg aid f now c))"
  using assms
  by (auto simp: on_frame_def Let_def call_frame_inv armIdle_inv endWithFailure_inv
      split: prod.splits sum.splits bool.splits)

lemma on_retry_inv: "channel_inv c \<Longrightarrow> channel_inv (fst (on_retry cfg aid ms now c))"
  by (auto simp: on_retry_def endWithFailure_inv split: sum.splits)

lemma stream_field_inv: "channel_inv c \<Longrightarrow> channel_inv (set_attempt aid (\<lambda>a. a\<lparr>at_streaming := False\<rparr>) c)"
  by (rule attempt_fields_inv) (auto simp: no_attempt_def inv_defs Let_def)

lemma timer_field_inv:
  "channel_inv c \<Longrightarrow> channel_inv (set_attempt aid (\<lambda>a. a\<lparr>at_connectTimer := False\<rparr>) c)"
  "channel_inv c \<Longrightarrow> channel_inv (set_attempt aid (\<lambda>a. a\<lparr>at_idleTimer := False\<rparr>) c)"
  by (rule attempt_fields_inv; auto simp: no_attempt_def inv_defs Let_def)+

lemma attempt_event_inv:
  assumes "channel_inv c"
  shows "channel_inv (fst (on_attempt_event cfg aid ev now c))"
proof (cases ev)
  case (LeaseBorrowed r)
  then show ?thesis
    using assms by (auto intro!: finishAttempt_inv attempt_fields_inv dest: unsettled_allocated split: option.splits)
next
  case Admitted
  then show ?thesis
    using assms by (auto intro!: attempt_fields_inv dest: unsettled_allocated)
qed (use assms in \<open>auto simp: Let_def finishAttempt_inv on_open_inv on_frame_inv on_retry_inv endWithFailure_inv
      stream_field_inv timer_field_inv\<close>)

section \<open>The loop keeps the invariant\<close>

lemma alive_active: "channel_inv c \<Longrightarrow> se_pc (ch_sessions c sid) \<noteq> LoopDone \<Longrightarrow>
    \<not> se_aborted (ch_sessions c sid) \<Longrightarrow> ch_active c = Some sid"
  by (auto simp: inv_defs Let_def)

lemma alive_allocated: "channel_inv c \<Longrightarrow> se_pc (ch_sessions c sid) \<noteq> LoopDone \<Longrightarrow> sid < ch_nextSession c"
  by (rule ccontr) (auto simp: inv_defs Let_def no_session_def)

lemma start_attempt_inv:
  assumes inv: "channel_inv c" and pc: "se_pc (ch_sessions c sid) = Starting" and loop: "sid \<notin> set (loops c)"
  shows "channel_inv (fst (start_attempt sid c))"
proof -
  let ?d = "fst (start_attempt sid c)" and ?aborted = "se_aborted (ch_sessions c sid)"
  have sid: "sid < ch_nextSession c" using alive_allocated [OF inv] pc by simp
  have act: "\<not> ?aborted \<Longrightarrow> ch_active c = Some sid" using alive_active [OF inv] pc by simp
  have none: "at_settled (ch_attempts c b)" if "at_session (ch_attempts c b) = sid" for b
    using inv pc that by (auto simp: inv_defs Let_def)
  have v: "loops ?d = loops c" "owners ?d = owners c" "ch_stack ?d = ch_stack c"
    by (simp_all add: start_attempt_def set_pc_def set_session_def Let_def loops_def owners_def)
  have "cont_ok ?d k" if "cont_ok c k" "set (loop_of k) \<inter> {sid} = {}" for k
    using that pc by (cases k) (auto simp: start_attempt_def set_pc_def set_session_def Let_def)
  then have "stack_ok ?d"
    using inv v loop by (fastforce simp: inv_defs list_all_iff loops_def)
  moreover have "attempts_ok ?d"
    using inv none sid
    by (auto simp: inv_defs start_attempt_def set_pc_def set_session_def Let_def no_attempt_def)
  moreover have "sessions_ok ?d"
    using inv sid act by (auto simp: inv_defs start_attempt_def set_pc_def set_session_def Let_def)
  ultimately show ?thesis by (simp add: channel_inv_def)
qed

lemma loop_here_fields [simp]:
  "loop_here (c\<lparr>ch_delivery := d\<rparr>) sid = loop_here c sid"
  "loop_here (c\<lparr>ch_status := st\<rparr>) sid = loop_here c sid"
  by (simp_all add: loop_here_def loops_def owners_def)

lemma set_session_at [simp]: "ch_sessions (set_session sid f c) sid = f (ch_sessions c sid)"
  by (simp add: set_session_def)

lemma set_session_views [simp]:
  "loops (set_session sid f c) = loops c" "owners (set_session sid f c) = owners c"
  "ch_stack (set_session sid f c) = ch_stack c" "ch_active (set_session sid f c) = ch_active c"
  "ch_nextSession (set_session sid f c) = ch_nextSession c"
  by (simp_all add: set_session_def loops_def owners_def)

lemma runOneConnection_inv:
  assumes inv: "channel_inv c" and here: "loop_here c sid"
  shows "channel_inv (fst (runOneConnection sid c))"
proof -
  define d where "d = set_session sid (\<lambda>s. s\<lparr>se_openedAt := None, se_pc := Starting\<rparr>)
    (c\<lparr>ch_delivery := attempt_started (ch_delivery c)\<rparr>)"
  have d: "channel_inv d" "loop_here d sid" "se_pc (ch_sessions d sid) = Starting"
    unfolding d_def using assms by (auto intro!: loop_update_inv)
  then have "pushable d (StartAttempt sid)" by (simp add: pushable_def loop_here_def)
  then show ?thesis
    using d start_attempt_inv [of d sid]
    by (simp add: runOneConnection_def d_def [symmetric] status_inv loop_here_def)
qed

lemma clear_active_inv:
  assumes inv: "channel_inv c" and act: "ch_active c = Some sid" and own: "owners c = []"
    and sid: "se_closed (ch_sessions c sid)" "se_pc (ch_sessions c sid) = LoopDone \<or> se_aborted (ch_sessions c sid)"
  shows "channel_inv (c\<lparr>ch_active := None\<rparr>)"
proof -
  have v: "loops (c\<lparr>ch_active := None\<rparr>) = loops c" "owners (c\<lparr>ch_active := None\<rparr>) = owners c"
    by (simp_all add: loops_def owners_def)
  have "cont_ok (c\<lparr>ch_active := None\<rparr>) k" if "cont_ok c k" "owner_of k = []" for k
    using that by (cases k) auto
  then have "stack_ok (c\<lparr>ch_active := None\<rparr>)"
    using inv v own by (auto simp: inv_defs list_all_iff owners_def)
  moreover have "sessions_ok (c\<lparr>ch_active := None\<rparr>)"
    using inv act sid unfolding inv_defs Let_def by (simp, metis option.inject)
  ultimately show ?thesis using inv by (simp add: inv_defs)
qed

lemma terminal_status_inv:
  assumes inv: "channel_inv c" and k: "cont_ok c (AfterTerminalError sid)" and own: "owners c = []"
  shows "channel_inv (fst (terminal_status_sent sid err c))"
proof (cases err)
  case None
  then show ?thesis using clear_active_inv [OF inv _ own] k by (simp add: terminal_status_sent_def clear_active_def)
next
  case (Some e)
  then show ?thesis using assms
    by (cases e) (auto simp: terminal_status_sent_def pushable_def intro!: push_inv)
qed

text \<open>Ending a loop that owns the thread of control.\<close>

lemma loop_done_inv:
  assumes inv: "channel_inv c" and here: "loop_here c sid"
    and f: "se_pc (f (ch_sessions c sid)) = LoopDone" "se_closed (f (ch_sessions c sid))"
  shows "channel_inv (set_session sid f c)"
proof -
  have "cont_ok (set_session sid f c) k" if "cont_ok c k" "set (loop_of k) \<inter> {sid} = {}" "owner_of k = []" for k
    using cont_ok_other_session that by blast
  then have "stack_ok (set_session sid f c)"
    using inv here by (auto simp: inv_defs list_all_iff loop_here_def loops_def owners_def)
  moreover have "attempts_ok (set_session sid f c)"
    using inv here by (auto simp: inv_defs set_session_def loop_here_def Let_def)
  moreover have "sessions_ok (set_session sid f c)"
    using inv here f unfolding inv_defs by (auto simp: set_session_def loop_here_def Let_def)
  ultimately show ?thesis by (simp add: channel_inv_def)
qed

lemma settle_loop_inv:
  assumes inv: "channel_inv c" and here: "loop_here c sid"
  shows "channel_inv (fst (settle_loop sid err c))"
proof (cases "ch_active c = Some sid")
  case False
  then have "se_closed (ch_sessions c sid)" using inv by (auto simp: inv_defs Let_def)
  with False show ?thesis
    by (simp add: settle_loop_def set_pc_def loop_done_inv [OF inv here])
next
  case True
  define d where "d = (set_session sid (\<lambda>s. s\<lparr>se_closed := True\<rparr>) (set_pc sid LoopDone c))
    \<lparr>ch_delivery := invalidate (ch_delivery c), ch_terminalFailure := err\<rparr>"
  have e: "set_session sid (\<lambda>s. s\<lparr>se_closed := True\<rparr>) (set_pc sid LoopDone c) =
      set_session sid (\<lambda>s. s\<lparr>se_pc := LoopDone, se_closed := True\<rparr>) c"
    by (simp add: set_session_def set_pc_def)
  have d: "channel_inv d"
    unfolding d_def e using loop_done_inv [OF inv here, of "\<lambda>s. s\<lparr>se_pc := LoopDone, se_closed := True\<rparr>"] by simp
  have own: "owners d = []" using here unfolding d_def e by (simp add: loop_here_def owners_def)
  have "cont_ok d (AfterTerminalError sid)" "cont_ok d (AfterTerminalStatus sid err)"
    using True unfolding d_def e by (simp_all add: set_session_def)
  then show ?thesis
    using True d own terminal_status_inv [OF d, of sid err]
    by (simp add: settle_loop_def Let_def d_def [symmetric] status_inv pushable_def)
qed

lemma loop_top_inv: "channel_inv c \<Longrightarrow> loop_here c sid \<Longrightarrow> channel_inv (fst (loop_top cfg sid now c))"
  by (auto simp: loop_top_def Let_def loop_here_def intro!: settle_loop_inv runOneConnection_inv loop_update_inv)

lemma begin_wait_inv:
  assumes inv: "channel_inv c" and here: "loop_here c sid"
  shows "channel_inv (fst (begin_wait cfg sid failure now random c))"
proof -
  have "channel_inv (set_session sid (\<lambda>s. s\<lparr>se_previousMs := w, se_pc := BackingOff\<rparr>)
      (c\<lparr>ch_delivery := d\<rparr>))" for w d
    using inv here by (auto intro!: loop_update_inv(1))
  moreover have "channel_inv (set_pc sid LoopCrashed c)"
    unfolding set_pc_def using inv here by (auto intro!: loop_update_inv(1))
  ultimately show ?thesis
    using settle_loop_inv [OF inv here] by (auto simp: begin_wait_def Let_def split: option.split)
qed

lemma reconnecting_sent_inv:
  assumes inv: "channel_inv c" and here: "loop_here c sid"
  shows "channel_inv (fst (reconnecting_sent cfg sid failure now random c))"
  using begin_wait_inv [OF inv here] loop_update_inv(1) [OF inv here]
  by (auto simp: reconnecting_sent_def set_pc_def)

lemma announce_inv:
  assumes inv: "channel_inv c" and here: "loop_here c sid" and top: "ch_stack c = []"
  shows "channel_inv (fst (announce cfg sid failure now random c))"
proof -
  define d where "d = set_pc sid Announcing c"
  have d: "channel_inv d" "loop_here d sid" "se_pc (ch_sessions d sid) = Announcing" "ch_stack d = []"
    unfolding d_def set_pc_def using assms by (auto intro!: loop_update_inv)
  then have "pushable d (AfterReconnecting sid failure)" by (simp add: pushable_def loop_here_def)
  then show ?thesis
    using d reconnecting_sent_inv [OF d(1,2)] settle_loop_inv [OF inv here]
    by (simp add: announce_def d_def [symmetric] status_inv)
qed

lemma loop_resumes_inv:
  assumes inv: "channel_inv c" and here: "loop_here c sid" and top: "ch_stack c = []"
  shows "channel_inv (fst (loop_resumes cfg sid result now random c))"
proof -
  have upd: "channel_inv (set_session sid f c)" "loop_here (set_session sid f c) sid" "ch_stack (set_session sid f c) = []"
    if "\<And>s. se_pc (f s) = se_pc s" "\<And>s. se_closed (f s) = se_closed s" "\<And>s. se_aborted (f s) = se_aborted s" for f
    using loop_update_inv [OF inv here, of f] that here top by (simp_all add: loop_here_def)
  show ?thesis
    by (auto simp: loop_resumes_def Let_def split: option.split intro!: announce_inv settle_loop_inv upd inv here)
qed

section \<open>The methods keep the invariant\<close>

lemma connect_inv:
  assumes inv: "channel_inv c"
  shows "channel_inv (fst (connect cfg now c))"
proof (cases "ch_active c")
  case (Some sid)
  then show ?thesis using inv by (simp add: connect_def)
next
  case None
  let ?sid = "ch_nextSession c"
  define d where "d = c\<lparr>ch_terminalFailure := None, ch_attemptsStarted := 0,
    ch_delivery := (ch_delivery c)\<lparr>dl_serverRetryMs := None\<rparr>, ch_active := Some ?sid, ch_nextSession := ?sid + 1,
    ch_sessions := (ch_sessions c)(?sid := \<lparr>se_closed = False, se_aborted = False, se_openedAt = None, se_pc = Starting,
      se_failures = 0, se_failureStartedAt = None, se_burstStartedAt = 0, se_previousMs = bp_baseMs (cf_backoff cfg)\<rparr>)\<rparr>"
  have fresh: "ch_sessions c ?sid = no_session" using inv by (auto simp: inv_defs Let_def)
  have quiet: "owner_of k = [] \<and> ?sid \<notin> set (loop_of k)" if "cont_ok c k" for k
    using that None fresh by (cases k) (auto simp: no_session_def)
  have views: "loops d = loops c" "owners d = owners c" "ch_stack d = ch_stack c"
    by (simp_all add: d_def loops_def owners_def)
  have empty: "owners c = []" "?sid \<notin> set (loops c)"
    using inv quiet by (auto simp: inv_defs list_all_iff owners_def loops_def)
  have "cont_ok d k" if "cont_ok c k" for k
    using that quiet [OF that] by (cases k) (auto simp: d_def)
  then have "stack_ok d" using inv views by (auto simp: inv_defs list_all_iff)
  moreover have "attempts_ok d" using inv by (auto simp: inv_defs Let_def d_def)
  moreover have "sessions_ok d" using inv None by (auto simp: inv_defs Let_def d_def)
  ultimately have "channel_inv d" by (simp add: channel_inv_def)
  moreover have "loop_here d ?sid"
    using inv views empty by (auto simp: loop_here_def d_def inv_defs Let_def)
  ultimately show ?thesis using None loop_top_inv [of d ?sid cfg now] by (simp add: connect_def Let_def d_def)
qed

lemma session_update_order: "s\<lparr>se_aborted := b, se_pc := pc\<rparr> = s\<lparr>se_pc := pc, se_aborted := b\<rparr>"
  by simp

lemma abort_session_eq:
  "abort_session sid c = set_session sid (\<lambda>s. s\<lparr>se_aborted := True\<rparr>)
     (case se_pc (ch_sessions c sid) of Attempting aid \<Rightarrow> finishAttempt aid (Some abort_error) c | _ \<Rightarrow> c)"
  by (auto simp: abort_session_def Let_def finishAttempt_def set_pc_def set_session_def set_attempt_def fun_upd_twist
      session_update_order split: session_pc.split)

lemma closing_sent_inv:
  assumes inv: "channel_inv c" and k: "cont_ok c (AfterClosing sid)" and own: "owners c = []"
  shows "channel_inv (fst (closing_sent sid c))"
proof -
  define c0 where "c0 = c\<lparr>ch_delivery := invalidate (ch_delivery c)\<rparr>"
  define d where "d = (case se_pc (ch_sessions c0 sid) of Attempting aid \<Rightarrow> finishAttempt aid (Some abort_error) c0 | _ \<Rightarrow> c0)"
  have c0: "channel_inv c0" "ch_active c0 = Some sid" "se_closed (ch_sessions c0 sid)" "owners c0 = []"
    using inv k own by (simp_all add: c0_def owners_def)
  have d: "channel_inv d" using c0 by (auto simp: d_def finishAttempt_inv split: session_pc.split)
  have same: "ch_active d = ch_active c0" "owners d = owners c0" "ch_sessions d sid = ch_sessions c0 sid \<or>
      se_closed (ch_sessions d sid) = se_closed (ch_sessions c0 sid)"
    by (auto simp: d_def finishAttempt_def set_pc_def set_session_def set_attempt_def owners_def split: session_pc.split)
  have none: "at_settled (ch_attempts d b)" if "at_session (ch_attempts d b) = sid" for b
  proof (rule ccontr)
    assume b: "\<not> at_settled (ch_attempts d b)"
    then have "se_pc (ch_sessions d sid) = Attempting b" using d that by (auto simp: inv_defs Let_def)
    moreover have "at_settled (ch_attempts d aid)" if "se_pc (ch_sessions d sid) = Attempting aid" for aid
      using that by (auto simp: d_def finishAttempt_def set_pc_def set_session_def set_attempt_def
          split: session_pc.splits if_splits)
    ultimately show False using b by blast
  qed
  define e where "e = set_session sid (\<lambda>s. s\<lparr>se_aborted := True\<rparr>) d"
  have "cont_ok e = cont_ok d" by (rule cont_ok_cong) (simp_all add: e_def set_session_def)
  then have "stack_ok e" using d by (simp add: inv_defs e_def)
  moreover have "attempts_ok e" using d none by (auto simp: inv_defs Let_def e_def set_session_def)
  moreover have "sessions_ok e"
    using d c0 same by (auto simp: inv_defs Let_def e_def set_session_def no_session_def)
  ultimately have "channel_inv e" by (simp add: channel_inv_def)
  then have "channel_inv (e\<lparr>ch_active := None\<rparr>)"
    by (rule clear_active_inv [where sid = sid]) (use same c0 in \<open>auto simp: e_def\<close>)
  moreover have "e = abort_session sid c0" by (simp add: abort_session_eq e_def d_def)
  ultimately show ?thesis
    by (simp add: closing_sent_def c0_def [symmetric] status_inv plain_pushable)
qed

lemma close_inv:
  assumes inv: "channel_inv c"
  shows "channel_inv (fst (close c))"
proof (cases "ch_active c")
  case None
  then show ?thesis using inv by (simp add: close_def)
next
  case (Some sid)
  show ?thesis
  proof (cases "se_closed (ch_sessions c sid)")
    case True
    then show ?thesis using inv Some by (simp add: close_def)
  next
    case False
    define d where "d = set_session sid (\<lambda>s. s\<lparr>se_closed := True\<rparr>) c"
    have alive: "\<not> se_aborted (ch_sessions c sid)" "se_pc (ch_sessions c sid) \<noteq> LoopDone" "sid < ch_nextSession c"
      using inv False alive_allocated [OF inv] by (auto simp: inv_defs Let_def)
    have owner: "owner_of k = []" if "cont_ok c k" for k
      using that False Some by (cases k) auto
    then have empty: "owners c = []" using inv by (auto simp: inv_defs list_all_iff owners_def)
    have "cont_ok d k" if "cont_ok c k" for k
      using that owner [OF that] by (cases k) (auto simp: d_def set_session_def)
    then have "stack_ok d" using inv by (auto simp: inv_defs list_all_iff d_def)
    moreover have "attempts_ok d" using inv by (auto simp: inv_defs Let_def d_def set_session_def)
    moreover have "sessions_ok d"
      unfolding sessions_ok_def Let_def
    proof
      fix x
      show "(\<not> se_closed (ch_sessions d x) \<longrightarrow> \<not> se_aborted (ch_sessions d x) \<and> se_pc (ch_sessions d x) \<noteq> LoopDone) \<and>
          (se_pc (ch_sessions d x) \<noteq> LoopDone \<and> \<not> se_aborted (ch_sessions d x) \<longrightarrow> ch_active d = Some x) \<and>
          (ch_nextSession d \<le> x \<longrightarrow> ch_sessions d x = no_session)"
      proof (cases "x = sid")
        case True
        have "ch_sessions d sid = (ch_sessions c sid)\<lparr>se_closed := True\<rparr>" "ch_active d = Some sid"
          "ch_nextSession d = ch_nextSession c"
          using Some by (simp_all add: d_def set_session_def)
        with alive show ?thesis unfolding True by simp
      next
        case False
        then have "ch_sessions d x = ch_sessions c x" "ch_active d = ch_active c" "ch_nextSession d = ch_nextSession c"
          by (simp_all add: d_def set_session_def)
        then show ?thesis using session_facts [OF inv, of x] by metis
      qed
    qed
    ultimately have d: "channel_inv d" by (simp add: channel_inv_def)
    have "cont_ok d (AfterClosing sid)" "owners d = []" using Some empty by (simp_all add: d_def)
    with d Some False show ?thesis
      by (simp add: close_def d_def [symmetric] status_inv closing_sent_inv pushable_def)
  qed
qed

section \<open>Every step keeps the invariant\<close>

lemma waiting_loop:
  assumes inv: "channel_inv c" and top: "ch_stack c = []" and pc: "se_pc (ch_sessions c sid) \<noteq> LoopDone"
    "\<And>aid. se_pc (ch_sessions c sid) \<noteq> Attempting aid"
  shows "loop_here c sid"
proof -
  have "at_settled (ch_attempts c aid)" if "at_session (ch_attempts c aid) = sid" for aid
    using inv pc that by (auto simp: channel_inv_def attempts_ok_def Let_def)
  then show ?thesis
    using top pc alive_allocated [OF inv pc(1)] by (simp add: loop_here_def loops_def owners_def)
qed

lemma loop_event_inv:
  assumes inv: "channel_inv c" and top: "ch_stack c = []"
  shows "channel_inv (fst (on_loop_event cfg sid ev now random c))"
proof -
  note here = waiting_loop [OF inv top]
  show ?thesis
  proof (cases "se_pc (ch_sessions c sid)")
    case (AttemptEnded r)
    then show ?thesis using inv here loop_resumes_inv [OF inv here top, of sid]
      by (cases ev) (simp_all add: on_loop_event_def)
  next
    case (Revalidating f)
    then have "loop_here c sid" using here by simp
    then show ?thesis using inv Revalidating begin_wait_inv [OF inv] settle_loop_inv [OF inv]
      by (cases ev) (auto simp: on_loop_event_def split: prod.splits dest: fstI)
  next
    case BackingOff
    then have "loop_here c sid" using here by simp
    then show ?thesis using inv BackingOff loop_top_inv [OF inv] settle_loop_inv [OF inv]
      by (cases ev) (auto simp: on_loop_event_def)
  qed (use inv in \<open>simp_all add: on_loop_event_def\<close>)
qed

lemma resume_inv:
  assumes inv: "channel_inv c" and stack: "ch_stack c = (ob, k) # r"
  shows "channel_inv (fst (resume cfg k now random (c\<lparr>ch_stack := r\<rparr>)))"
proof -
  note pop = pop_inv [OF inv stack]
  let ?c = "c\<lparr>ch_stack := r\<rparr>"
  show ?thesis
  proof (cases k)
    case (StartAttempt sid)
    then show ?thesis using pop start_attempt_inv [OF pop(1), of sid] by simp
  next
    case (AfterReconnecting sid failure)
    then have "r = []" using pop(5) by simp
    then have "loop_here ?c sid" using pop(2) AfterReconnecting by (intro waiting_loop [OF pop(1)]) auto
    then show ?thesis using reconnecting_sent_inv [OF pop(1)] AfterReconnecting by simp
  next
    case (AfterClosing sid)
    then show ?thesis using closing_sent_inv [OF pop(1), of sid] pop(2,4) by simp
  next
    case (AfterTerminalStatus sid err)
    then show ?thesis using terminal_status_inv [OF pop(1), of sid err] pop(2,4) by simp
  next
    case (AfterTerminalError sid)
    then show ?thesis using clear_active_inv [OF pop(1), of sid] pop(2,4) by (simp add: clear_active_def)
  qed (use pop(1) finishAttempt_inv armIdle_inv endWithFailure_inv in simp_all)
qed

lemma error_observer_inv:
  assumes "channel_inv c" "ch_stack c = (ob, k) # r"
  shows "channel_inv (c\<lparr>ch_stack := (ErrorObserver, k) # r\<rparr>)"
proof -
  have "loops (c\<lparr>ch_stack := (ErrorObserver, k) # r\<rparr>) = loops c" "owners (c\<lparr>ch_stack := (ErrorObserver, k) # r\<rparr>) = owners c"
    using assms(2) by (simp_all add: loops_def owners_def)
  then show ?thesis using assms by (cases r) (auto simp: inv_defs)
qed

lemma channel_step_inv: "channel_inv c \<Longrightarrow> channel_inv (fst (channel_step cfg c i))"
  using resume_inv error_observer_inv
  by (cases i) (auto simp: connect_inv close_inv attempt_event_inv loop_event_inv split: list.split)

interpretation channel_machine: kept_invariant "channel_step cfg" channel_inv for cfg
  by unfold_locales (rule channel_step_inv)

lemma createChannel_inv: "channel_inv (createChannel l)"
  by (auto simp: inv_defs createChannel_def no_session_def no_attempt_def loops_def owners_def Let_def)

lemma reachable_inv: "run (channel_step cfg) (createChannel l) is = (c, out) \<Longrightarrow> channel_inv c"
  using channel_machine.run_inv [OF createChannel_inv, of cfg l "is"] by simp

section \<open>Attempts without a break\<close>

text \<open>The attempts a session has begun, and the input by which its loop starts counting anew: the one that
  resumes it after a connection that was stable.\<close>

definition begun :: "nat \<Rightarrow> channel \<Rightarrow> nat" where
  "begun sid c = length (filter (\<lambda>aid. at_session (ch_attempts c aid) = sid) [0..<ch_nextAttempt c])"

fun recounts :: "nat \<Rightarrow> channel \<Rightarrow> channel_input \<Rightarrow> bool" where
  "recounts sid c (LoopEvent x AttemptSettledEvent now random) =
     (x = sid \<and> ch_stack c = [] \<and> se_pc (ch_sessions c sid) = AttemptEnded None)"
| "recounts sid c i = False"

fun unbroken :: "channel_config \<Rightarrow> nat \<Rightarrow> channel \<Rightarrow> channel_input list \<Rightarrow> bool" where
  "unbroken cfg sid c [] = True"
| "unbroken cfg sid c (i # is) = (\<not> recounts sid c i \<and> unbroken cfg sid (fst (channel_step cfg c i)) is)"

fun in_attempt :: "session_pc \<Rightarrow> bool" where
  "in_attempt (Attempting aid) = True"
| "in_attempt (AttemptEnded r) = True"
| "in_attempt pc = False"

fun over :: "session_pc \<Rightarrow> bool" where
  "over LoopCrashed = True"
| "over LoopDone = True"
| "over pc = False"

text \<open>An attempt that the loop has not counted yet weighs as a failure.\<close>

definition weight :: "session \<Rightarrow> nat" where
  "weight s = se_failures s + (if in_attempt (se_pc s) then 1 else 0)"

text \<open>Since \<open>B\<close> attempts had been begun, the loop of \<open>x\<close> counted every one; \<open>held\<close> is the same while the
  loop itself runs.\<close>

definition capped :: "nat \<Rightarrow> nat \<Rightarrow> nat \<Rightarrow> channel \<Rightarrow> bool" where
  "capped B m x c = (begun x c \<le> B + m + 1 \<and> (ch_nextSession c \<le> x \<longrightarrow> begun x c = B))"

definition counted :: "nat \<Rightarrow> nat \<Rightarrow> nat \<Rightarrow> channel \<Rightarrow> bool" where
  "counted B m x c = (capped B m x c \<and> (\<not> over (se_pc (ch_sessions c x)) \<longrightarrow>
     se_failures (ch_sessions c x) \<le> m \<and> begun x c \<le> B + weight (ch_sessions c x)))"

definition held :: "nat \<Rightarrow> nat \<Rightarrow> nat \<Rightarrow> channel \<Rightarrow> bool" where
  "held B m x c = (x < ch_nextSession c \<and> se_failures (ch_sessions c x) \<le> m \<and>
     begun x c \<le> B + se_failures (ch_sessions c x))"

definition own :: "nat \<Rightarrow> nat \<Rightarrow> nat \<Rightarrow> nat \<Rightarrow> channel \<Rightarrow> bool" where
  "own B m x sid c = (counted B m x c \<and> (sid = x \<longrightarrow> held B m x c))"

definition attempts_held :: "channel \<Rightarrow> bool" where
  "attempts_held c = (\<forall>aid. \<not> at_settled (ch_attempts c aid) \<longrightarrow>
     se_pc (ch_sessions c (at_session (ch_attempts c aid))) = Attempting aid)"

lemma inv_attempts_held: "channel_inv c \<Longrightarrow> attempts_held c"
  by (simp add: channel_inv_def attempts_ok_def attempts_held_def Let_def)

lemma begun_fields [simp]:
  "begun x (c\<lparr>ch_status := a\<rparr>) = begun x c" "begun x (c\<lparr>ch_stack := b\<rparr>) = begun x c"
  "begun x (c\<lparr>ch_delivery := d\<rparr>) = begun x c" "begun x (c\<lparr>ch_active := e\<rparr>) = begun x c"
  "begun x (c\<lparr>ch_terminalFailure := f\<rparr>) = begun x c" "begun x (c\<lparr>ch_attemptsStarted := n\<rparr>) = begun x c"
  "begun x (c\<lparr>ch_nextSession := g\<rparr>) = begun x c" "begun x (c\<lparr>ch_sessions := h\<rparr>) = begun x c"
  "begun x (set_session sid k c) = begun x c"
  by (simp_all add: begun_def set_session_def)

lemma counted_fields [simp]:
  "counted B m x (c\<lparr>ch_status := a\<rparr>) = counted B m x c" "counted B m x (c\<lparr>ch_stack := b\<rparr>) = counted B m x c"
  "counted B m x (c\<lparr>ch_delivery := d\<rparr>) = counted B m x c" "counted B m x (c\<lparr>ch_active := e\<rparr>) = counted B m x c"
  "counted B m x (c\<lparr>ch_terminalFailure := f\<rparr>) = counted B m x c"
  "counted B m x (call_observer ob k c) = counted B m x c"
  by (simp_all add: counted_def capped_def call_observer_def)

lemma own_fields [simp]:
  "own B m x sid (c\<lparr>ch_status := a\<rparr>) = own B m x sid c" "own B m x sid (c\<lparr>ch_stack := b\<rparr>) = own B m x sid c"
  "own B m x sid (c\<lparr>ch_delivery := d\<rparr>) = own B m x sid c"
  by (simp_all add: own_def held_def)

lemma held_fields [simp]:
  "attempts_held (c\<lparr>ch_status := a\<rparr>) = attempts_held c" "attempts_held (c\<lparr>ch_stack := b\<rparr>) = attempts_held c"
  "attempts_held (c\<lparr>ch_delivery := d\<rparr>) = attempts_held c"
  by (simp_all add: attempts_held_def)

lemma begun_attempt [simp]:
  assumes "\<And>a. at_session (f a) = at_session a"
  shows "begun x (set_attempt aid f c) = begun x c" 
proof -
  have "at_session (((ch_attempts c)(aid := f (ch_attempts c aid))) b) = at_session (ch_attempts c b)" for b
    using assms by simp
  then show ?thesis by (simp add: begun_def set_attempt_def del: fun_upd_apply)
qed

lemma counted_attempt [simp]:
  "(\<And>a. at_session (f a) = at_session a) \<Longrightarrow> counted B m x (set_attempt aid f c) = counted B m x c"
  by (simp add: counted_def capped_def)

lemma held_attempt:
  "attempts_held c \<Longrightarrow> (\<And>a. at_session (f a) = at_session a) \<Longrightarrow> (\<And>a. at_settled a \<Longrightarrow> at_settled (f a)) \<Longrightarrow>
   attempts_held (set_attempt aid f c)"
  by (fastforce simp: attempts_held_def set_attempt_def)

lemma held_counted: "held B m x c \<Longrightarrow> counted B m x c"
  by (simp add: held_def counted_def capped_def weight_def)

lemma counted_other: "sid \<noteq> x \<Longrightarrow> counted B m x (set_session sid f c) = counted B m x c"
  by (simp add: counted_def capped_def) (simp add: set_session_def)

lemma own_session:
  assumes "own B m x sid c" "\<And>s. se_failures (f s) = se_failures s"
  shows "own B m x sid (set_session sid f c)"
proof (cases "sid = x")
  case True
  then have "held B m x (set_session sid f c)" using assms by (simp add: own_def held_def)
  then show ?thesis by (simp only: own_def held_counted True simp_thms)
qed (use assms in \<open>simp add: own_def counted_other\<close>)

lemma own_counted: "own B m x sid c \<Longrightarrow> counted B m x c"
  by (simp add: own_def)

text \<open>Updates that leave the count and the position of a loop alone.\<close>

lemma counted_session:
  assumes "counted B m x c" "\<And>s. se_failures (f s) = se_failures s" "\<And>s. se_pc (f s) = se_pc s"
  shows "counted B m x (set_session sid f c)"
  using assms by (cases "sid = x") (simp_all add: counted_other, simp add: counted_def capped_def weight_def)

lemma counted_over:
  assumes "counted B m x c \<or> sid = x \<and> capped B m x c" "\<And>s. over (se_pc (f s))"
  shows "counted B m x (set_session sid f c)"
proof (cases "sid = x")
  case True
  then show ?thesis using assms by (simp add: counted_def capped_def) blast
qed (use assms in \<open>simp add: counted_other\<close>)

lemma counted_status:
  assumes "counted B m x c" "counted B m x (fst (continue c))"
  shows "counted B m x (fst (setStatus next k continue c))"
  using assms by (simp add: setStatus_def)

lemma counted_finish: "counted B m x c \<Longrightarrow> attempts_held c \<Longrightarrow> counted B m x (finishAttempt aid r c)"
proof (cases "at_settled (ch_attempts c aid)")
  case False
  let ?s = "at_session (ch_attempts c aid)"
  assume c: "counted B m x c" and "attempts_held c"
  with False have pc: "se_pc (ch_sessions c ?s) = Attempting aid" by (simp add: attempts_held_def)
  show ?thesis
  proof (cases "?s = x")
    case True
    then show ?thesis using c pc False
      by (simp add: finishAttempt_def set_pc_def counted_def capped_def weight_def)
  qed (use c False in \<open>simp add: finishAttempt_def set_pc_def counted_other\<close>)
qed (simp add: finishAttempt_def)

lemma counted_end: "counted B m x c \<Longrightarrow> attempts_held c \<Longrightarrow> counted B m x (fst (endWithFailure cfg aid e now c))"
  by (auto simp: endWithFailure_def Let_def intro!: counted_status counted_finish)

lemma counted_terminal: "counted B m x c \<Longrightarrow> counted B m x (fst (terminal_status_sent sid err c))"
  by (auto simp: terminal_status_sent_def clear_active_def split: option.split)

lemma counted_settle:
  assumes "counted B m x c \<or> sid = x \<and> capped B m x c"
  shows "counted B m x (fst (settle_loop sid err c))"
proof -
  have c: "counted B m x (set_pc sid LoopDone c)" unfolding set_pc_def using assms by (rule counted_over) simp
  then have "counted B m x (set_session sid (\<lambda>s. s\<lparr>se_closed := True\<rparr>) (set_pc sid LoopDone c))"
    by (rule counted_session) simp_all
  then show ?thesis using c by (auto simp: settle_loop_def Let_def intro!: counted_status counted_terminal)
qed

lemma counted_idle: "counted B m x c \<Longrightarrow> counted B m x (fst (armIdle cfg aid c))"
  by (simp add: armIdle_def)

lemma counted_abort: "counted B m x c \<Longrightarrow> attempts_held c \<Longrightarrow> counted B m x (abort_session sid c)"
  by (auto simp: abort_session_eq intro!: counted_session counted_finish split: session_pc.split)

lemma counted_closing: "counted B m x c \<Longrightarrow> attempts_held c \<Longrightarrow> counted B m x (fst (closing_sent sid c))"
  by (auto simp: closing_sent_def intro!: counted_status counted_abort)

lemma held_closed: "attempts_held c \<Longrightarrow> (\<And>s. se_pc (f s) = se_pc s) \<Longrightarrow> attempts_held (set_session sid f c)"
  by (auto simp: attempts_held_def set_session_def)

lemma counted_close: "counted B m x c \<Longrightarrow> attempts_held c \<Longrightarrow> counted B m x (fst (close c))"
  by (auto simp: close_def intro!: counted_status counted_session counted_closing held_closed split: option.split)

lemma counted_open: "counted B m x c \<Longrightarrow> counted B m x (fst (on_open cfg aid now c))"
  by (auto simp: on_open_def intro!: counted_status counted_session counted_idle)

lemma counted_frame: "counted B m x c \<Longrightarrow> attempts_held c \<Longrightarrow> counted B m x (fst (on_frame cfg aid f now c))"
  by (auto simp: on_frame_def Let_def intro!: counted_end counted_idle split: prod.split sum.split bool.split)

lemma counted_retry: "counted B m x c \<Longrightarrow> attempts_held c \<Longrightarrow> counted B m x (fst (on_retry cfg aid ms now c))"
  by (auto simp: on_retry_def intro!: counted_end split: sum.split)

lemma counted_attempt_event:
  "counted B m x c \<Longrightarrow> attempts_held c \<Longrightarrow> counted B m x (fst (on_attempt_event cfg aid ev now c))"
  by (cases ev) (auto simp: Let_def counted_open counted_frame counted_retry
      intro!: counted_end counted_finish held_attempt split: option.split)

text \<open>The loop of a session, while it has the thread of control.\<close>

lemma begun_start: "begun x (fst (start_attempt sid c)) = begun x c + (if sid = x then 1 else 0)"
proof -
  have same: "filter (\<lambda>aid. at_session (((ch_attempts c)(ch_nextAttempt c := a)) aid) = x) [0..<ch_nextAttempt c] =
      filter (\<lambda>aid. at_session (ch_attempts c aid) = x) [0..<ch_nextAttempt c]" for a
    by (rule filter_cong) auto
  show ?thesis
    by (simp add: start_attempt_def set_pc_def Let_def) (simp add: begun_def no_attempt_def same del: fun_upd_apply, simp)
qed

lemma start_views:
  "ch_nextSession (fst (start_attempt sid c)) = ch_nextSession c"
  "se_failures (ch_sessions (fst (start_attempt sid c)) x) = se_failures (ch_sessions c x)"
  "sid \<noteq> x \<Longrightarrow> ch_sessions (fst (start_attempt sid c)) x = ch_sessions c x"
  "in_attempt (se_pc (ch_sessions (fst (start_attempt sid c)) sid))"
  by (simp_all add: start_attempt_def set_pc_def set_session_def Let_def)

lemma counted_start: "own B m x sid c \<Longrightarrow> counted B m x (fst (start_attempt sid c))"
  by (cases "sid = x") (auto simp: own_def held_def counted_def capped_def weight_def begun_start start_views)

lemma own_keeps: "own B m x sid c \<Longrightarrow> (\<And>s. se_failures (f s) = se_failures s) \<Longrightarrow> counted B m x (set_session sid f c)"
  by (rule own_counted, rule own_session)

lemma own_settle: "own B m x sid c \<Longrightarrow> counted B m x (fst (settle_loop sid err c))"
  by (rule counted_settle) (simp add: own_counted)

lemma counted_run_one: "own B m x sid c \<Longrightarrow> counted B m x (fst (runOneConnection sid c))"
  by (auto simp: runOneConnection_def intro!: counted_status counted_start own_keeps own_session)

lemma counted_top: "own B m x sid c \<Longrightarrow> counted B m x (fst (loop_top cfg sid now c))"
  by (auto simp: loop_top_def Let_def intro!: own_settle counted_run_one own_session)

lemma counted_wait: "own B m x sid c \<Longrightarrow> counted B m x (fst (begin_wait cfg sid f now random c))"
  by (auto simp: begin_wait_def set_pc_def Let_def intro!: own_settle own_keeps split: option.split)

lemma counted_reconnecting: "own B m x sid c \<Longrightarrow> counted B m x (fst (reconnecting_sent cfg sid f now random c))"
  by (auto simp: reconnecting_sent_def set_pc_def intro!: counted_wait own_keeps)

lemma counted_announce: "own B m x sid c \<Longrightarrow> counted B m x (fst (announce cfg sid f now random c))"
  by (auto simp: announce_def set_pc_def intro!: own_settle counted_status counted_reconnecting own_session own_keeps)

text \<open>A loop that waits for something other than its attempt has counted every failure.\<close>

lemma counted_own:
  assumes "counted B m x c" "\<not> in_attempt (se_pc (ch_sessions c sid))" "\<not> over (se_pc (ch_sessions c sid))"
    "sid < ch_nextSession c"
  shows "own B m x sid c"
  using assms by (auto simp: own_def held_def counted_def weight_def)

lemma counted_resumes_failure:
  assumes c: "counted B (cf_maxRetries cfg) x c" and pc: "se_pc (ch_sessions c sid) = AttemptEnded (Some e)"
    and sid: "sid < ch_nextSession c"
  shows "counted B (cf_maxRetries cfg) x (fst (loop_resumes cfg sid (Some e) now random c))"
proof -
  let ?s = "ch_sessions c sid" and ?m = "cf_maxRetries cfg"
  define startedAt where "startedAt = (case se_openedAt ?s of
      Some t \<Rightarrow> if now - t \<ge> cf_minUptimeMs cfg then Some (se_burstStartedAt ?s + now - t) else se_failureStartedAt ?s
    | None \<Rightarrow> se_failureStartedAt ?s)"
  define d where "d = set_session sid (\<lambda>s. s\<lparr>se_failureStartedAt := startedAt, se_failures := se_failures s + 1\<rparr>) c"
  have r: "loop_resumes cfg sid (Some e) now random c =
      (if se_closed ?s then settle_loop sid None c
       else if \<not> cf_reconnect cfg \<or> \<not> isRetryable e then settle_loop sid (Some (toTerminalError (cf_messages cfg) e)) c
       else if se_failures ?s + 1 > ?m
         then settle_loop sid (Some (toTerminalError (cf_messages cfg) (retry_exhausted (se_failures ?s + 1) e))) d
         else announce cfg sid (Some e) now random d)"
    by (simp add: loop_resumes_def Let_def d_def startedAt_def)
  have cap: "counted B ?m x d \<or> sid = x \<and> capped B ?m x d"
    using c by (cases "sid = x") (simp_all add: d_def counted_other, simp add: counted_def capped_def)
  have "own B ?m x sid d" if "se_failures ?s + 1 \<le> ?m"
  proof (cases "sid = x")
    case True
    then have "held B ?m x d" using c pc sid that by (simp add: d_def held_def counted_def weight_def)
    with True show ?thesis by (simp add: own_def held_counted)
  qed (use cap in \<open>simp add: own_def\<close>)
  then show ?thesis using r c cap by (simp add: counted_settle counted_announce)
qed

lemma counted_resumes_stable:
  assumes c: "counted B m x c" and sid: "sid < ch_nextSession c"
  shows "counted (if sid = x then begun x c else B) m x (fst (loop_resumes cfg sid None now random c))"
proof -
  let ?B = "if sid = x then begun x c else B"
  define d where "d = set_session sid (\<lambda>s. s\<lparr>se_failures := 0, se_failureStartedAt := None,
      se_previousMs := bp_baseMs (cf_backoff cfg)\<rparr>) c"
  have "own ?B m x sid d"
  proof (cases "sid = x")
    case True
    then have "held ?B m x d" using sid by (simp add: d_def held_def)
    with True show ?thesis by (simp add: own_def held_counted)
  qed (use c in \<open>simp add: own_def d_def counted_other\<close>)
  then show ?thesis by (simp add: loop_resumes_def d_def [symmetric] counted_announce)
qed

lemma counted_connect:
  assumes inv: "channel_inv c" and c: "counted B m x c"
  shows "counted B m x (fst (connect cfg now c))"
proof (cases "ch_active c")
  case None
  let ?sid = "ch_nextSession c"
  define d where "d = c\<lparr>ch_terminalFailure := None, ch_attemptsStarted := 0,
    ch_delivery := (ch_delivery c)\<lparr>dl_serverRetryMs := None\<rparr>, ch_active := Some ?sid, ch_nextSession := ?sid + 1,
    ch_sessions := (ch_sessions c)(?sid := \<lparr>se_closed = False, se_aborted = False, se_openedAt = None, se_pc = Starting,
      se_failures = 0, se_failureStartedAt = None, se_burstStartedAt = 0, se_previousMs = bp_baseMs (cf_backoff cfg)\<rparr>)\<rparr>"
  have b: "begun x d = begun x c" by (simp add: d_def)
  have "own B m x ?sid d"
  proof (cases "?sid = x")
    case True
    have "ch_nextSession d = Suc x" "se_failures (ch_sessions d x) = 0" using True by (simp_all add: d_def)
    then have "held B m x d" using b c True by (simp add: held_def counted_def capped_def)
    with True show ?thesis by (simp add: own_def held_counted)
  next
    case False
    have "ch_sessions d x = ch_sessions c x" "ch_nextSession d = Suc ?sid" using False by (simp_all add: d_def)
    then show ?thesis using b c False by (simp add: own_def counted_def capped_def)
  qed
  then show ?thesis using None counted_top [of B m x ?sid d] by (simp add: connect_def Let_def d_def)
qed (use c in \<open>simp add: connect_def\<close>)

lemma counted_loop_event:
  assumes inv: "channel_inv c" and c: "counted B (cf_maxRetries cfg) x c" and pc: "\<not> recounts x c (LoopEvent sid ev now random)"
    and top: "ch_stack c = []"
  shows "counted B (cf_maxRetries cfg) x (fst (on_loop_event cfg sid ev now random c))"
proof -
  have sid: "sid < ch_nextSession c" if "se_pc (ch_sessions c sid) \<noteq> LoopDone" using alive_allocated [OF inv that] .
  note own = counted_own [OF c, of sid]
  have settle: "counted B (cf_maxRetries cfg) x (fst (settle_loop sid err c))" for err using c by (simp add: counted_settle)
  show ?thesis
  proof (cases "se_pc (ch_sessions c sid)")
    case (AttemptEnded r)
    then show ?thesis
      using c pc sid top counted_resumes_failure [OF c, of sid] counted_resumes_stable [OF c, of sid cfg now random]
      by (cases ev; cases r) (auto simp: on_loop_event_def split: if_splits)
  next
    case (Revalidating f)
    then show ?thesis using c own sid counted_wait settle
      by (cases ev) (auto simp: on_loop_event_def split: prod.splits dest: fstI)
  next
    case BackingOff
    then show ?thesis using c own sid counted_top settle by (cases ev) (auto simp: on_loop_event_def)
  qed (use c in \<open>simp_all add: on_loop_event_def\<close>)
qed

lemma counted_resume:
  assumes inv: "channel_inv c" and stack: "ch_stack c = (ob, k) # r" and c: "counted B m x c"
  shows "counted B m x (fst (resume cfg k now random (c\<lparr>ch_stack := r\<rparr>)))"
proof -
  note pop = pop_inv [OF inv stack]
  let ?c = "c\<lparr>ch_stack := r\<rparr>"
  have d: "counted B m x ?c" using c by simp
  have own: "own B m x sid ?c" if "se_pc (ch_sessions ?c sid) = Starting \<or> se_pc (ch_sessions ?c sid) = Announcing" for sid
    by (rule counted_own [OF d]) (use that alive_allocated [OF pop(1), of sid] in auto)
  show ?thesis
    using d pop(2) own inv_attempts_held [OF pop(1)]
    by (cases k) (auto intro: counted_start counted_reconnecting counted_finish counted_idle counted_end counted_closing
        counted_terminal simp: clear_active_def)
qed

lemma counted_step:
  assumes inv: "channel_inv c" and c: "counted B (cf_maxRetries cfg) x c" and i: "\<not> recounts x c i"
  shows "counted B (cf_maxRetries cfg) x (fst (channel_step cfg c i))"
proof (cases i)
  case (ObserverReturns threw now random)
  then show ?thesis using c counted_resume [OF inv _ c] by (auto split: list.split)
next
  case (LoopEvent sid ev now random)
  then show ?thesis using c i counted_loop_event [OF inv c] by auto
qed (use c inv_attempts_held [OF inv] in \<open>auto intro: counted_connect [OF inv] counted_close counted_attempt_event\<close>)

lemma recount_step:
  assumes inv: "channel_inv c" and c: "counted B m x c" and i: "recounts x c i"
  shows "counted (begun x c) m x (fst (channel_step cfg c i))"
proof -
  obtain now random where "i = LoopEvent x AttemptSettledEvent now random" "ch_stack c = []"
    "se_pc (ch_sessions c x) = AttemptEnded None"
    using i by (cases "(x, c, i)" rule: recounts.cases) auto
  then show ?thesis
    using counted_resumes_stable [OF c, of x cfg now random] alive_allocated [OF inv, of x] by (simp add: on_loop_event_def)
qed

definition counted_inv :: "channel_config \<Rightarrow> nat \<Rightarrow> channel \<Rightarrow> bool" where
  "counted_inv cfg x c = (channel_inv c \<and> (\<exists>B. counted B (cf_maxRetries cfg) x c))"

interpretation counted_machine: kept_invariant "channel_step cfg" "counted_inv cfg x" for cfg x
  by unfold_locales (metis channel_step_inv counted_inv_def counted_step recount_step)

lemma createChannel_counted: "counted_inv cfg x (createChannel l)"
  by (simp add: counted_inv_def createChannel_inv counted_def capped_def)
    (simp add: createChannel_def no_session_def begun_def)

lemma counted_run:
  "channel_inv c \<Longrightarrow> counted B (cf_maxRetries cfg) x c \<Longrightarrow> unbroken cfg x c is \<Longrightarrow>
   counted B (cf_maxRetries cfg) x (fst (run (channel_step cfg) c is))"
  by (induction "is" arbitrary: c) (auto simp: run_Cons Let_def channel_step_inv counted_step split: prod.split simp del: run.simps(2))

text \<open>Counting may start over at any state.\<close>

lemma counted_here: "counted B m x c \<Longrightarrow> counted (begun x c) m x c"
  by (simp add: counted_def capped_def)

section \<open>What a session leaves behind\<close>

lemma unsettled_running: "channel_inv c \<Longrightarrow> \<not> at_settled (ch_attempts c aid) \<Longrightarrow>
    se_pc (ch_sessions c (at_session (ch_attempts c aid))) = Attempting aid \<and>
    \<not> se_aborted (ch_sessions c (at_session (ch_attempts c aid)))"
  by (auto simp: channel_inv_def attempts_ok_def Let_def)

lemma gone_closed: "channel_inv c \<Longrightarrow> ch_active c \<noteq> Some sid \<Longrightarrow> se_closed (ch_sessions c sid)"
  using session_facts [of c sid] by metis

lemma gone_settled: "channel_inv c \<Longrightarrow> ch_active c \<noteq> Some (at_session (ch_attempts c aid)) \<Longrightarrow> at_settled (ch_attempts c aid)"
  using unsettled_running [of c aid] alive_active [of c "at_session (ch_attempts c aid)"] by fastforce

lemma settled_end:
  assumes "at_settled (ch_attempts c aid)" "se_closed (session_of c aid)"
  shows "endWithFailure cfg aid e now c = (c, [])"
  using assms by (simp add: endWithFailure_def Let_def finishAttempt_def)

lemma settled_attempt_event:
  assumes inv: "channel_inv c" and a: "at_settled (ch_attempts c aid)" and s: "se_closed (session_of c aid)"
    and eq: "on_attempt_event cfg aid ev now c = (c', out)"
  shows "out = [] \<and> (c' = c \<or> c' = set_attempt aid (\<lambda>a. a\<lparr>at_streaming := False\<rparr>) c)"
proof -
  have timers: "\<not> at_connectTimer (ch_attempts c aid)" "\<not> at_idleTimer (ch_attempts c aid)" "\<not> at_leased (ch_attempts c aid)"
    using inv a by (auto simp: channel_inv_def attempts_ok_def Let_def)
  have ended: "endWithFailure cfg aid e now (set_attempt aid (\<lambda>a. a\<lparr>at_streaming := False\<rparr>) c) =
      (set_attempt aid (\<lambda>a. a\<lparr>at_streaming := False\<rparr>) c, [])" for e
    by (rule settled_end) (use a s in \<open>simp_all add: set_attempt_def session_of_def\<close>)
  show ?thesis
    using eq a timers ended
    by (cases ev) (auto simp: on_open_def on_frame_def on_retry_def finishAttempt_def set_attempt_def Let_def split: if_splits)
qed

text \<open>What a loop whose session is gone still does.\<close>

inductive loop_leaves :: "nat \<Rightarrow> channel \<Rightarrow> loop_event \<Rightarrow> channel \<Rightarrow> channel_output list \<Rightarrow> bool"
  for sid c ev where
  own_record: "se_closed s \<Longrightarrow> loop_leaves sid c ev (set_session sid (\<lambda>_. s) c) []"
| last_wait: "se_closed s \<Longrightarrow> se_pc (ch_sessions c sid) = Revalidating failure \<Longrightarrow> ev = Revalidated \<Longrightarrow>
    loop_leaves sid c ev
      ((set_session sid (\<lambda>_. s) c)\<lparr>ch_delivery := (ch_delivery c)\<lparr>dl_serverRetryMs := None\<rparr>\<rparr>) [WaitStarted sid ms]"

lemma set_session_const: "set_session sid f c = set_session sid (\<lambda>_. f (ch_sessions c sid)) c"
  by (simp add: set_session_def)

lemma leaves_session:
  "se_closed (f (ch_sessions c sid)) \<Longrightarrow> loop_leaves sid c ev (set_session sid f c) []"
  by (subst set_session_const) (rule loop_leaves.own_record)

lemma leaves_nothing: "se_closed (ch_sessions c sid) \<Longrightarrow> loop_leaves sid c ev c []"
  using leaves_session [of "\<lambda>s. s" c sid ev] by (simp add: set_session_def)

lemma leaves_settle:
  assumes "ch_active c \<noteq> Some sid" "se_closed (f (ch_sessions c sid))"
  shows "settle_loop sid err (set_session sid f c) = (c', out) \<Longrightarrow> loop_leaves sid c ev c' out"
    and "settle_loop sid err c = (c', out) \<Longrightarrow> se_closed (ch_sessions c sid) \<Longrightarrow> loop_leaves sid c ev c' out"
proof -
  have "set_pc sid LoopDone (set_session sid f c) = set_session sid (\<lambda>s. (f s)\<lparr>se_pc := LoopDone\<rparr>) c"
    by (simp add: set_pc_def set_session_def)
  then show "settle_loop sid err (set_session sid f c) = (c', out) \<Longrightarrow> loop_leaves sid c ev c' out"
    using assms leaves_session [of "\<lambda>s. (f s)\<lparr>se_pc := LoopDone\<rparr>" c sid ev] by (auto simp: settle_loop_def)
  show "settle_loop sid err c = (c', out) \<Longrightarrow> se_closed (ch_sessions c sid) \<Longrightarrow> loop_leaves sid c ev c' out"
    using assms(1) leaves_session [of "\<lambda>s. s\<lparr>se_pc := LoopDone\<rparr>" c sid ev] by (auto simp: settle_loop_def set_pc_def)
qed

lemma leaves_resumes:
  assumes gone: "ch_active c \<noteq> Some sid" and closed: "se_closed (ch_sessions c sid)"
    and eq: "loop_resumes cfg sid r now random c = (c', out)"
  shows "loop_leaves sid c ev c' out"
proof (cases r)
  case None
  show ?thesis
    by (rule leaves_settle(1) [OF gone]) (use None eq closed in \<open>auto simp: loop_resumes_def announce_def\<close>)
next
  case (Some e)
  then show ?thesis using eq closed leaves_settle(2) [OF gone, where f = "\<lambda>s. s", OF closed] by (simp add: loop_resumes_def)
qed

lemma leaves_wait:
  assumes gone: "ch_active c \<noteq> Some sid" and closed: "se_closed (ch_sessions c sid)"
    and pc: "se_pc (ch_sessions c sid) = Revalidating f" and eq: "begin_wait cfg sid f now random c = (c', out)"
  shows "loop_leaves sid c Revalidated c' out"
proof -
  have w: "loop_leaves sid c Revalidated (set_session sid (\<lambda>s. s\<lparr>se_previousMs := ms, se_pc := BackingOff\<rparr>)
      (c\<lparr>ch_delivery := (ch_delivery c)\<lparr>dl_serverRetryMs := None\<rparr>\<rparr>)) [WaitStarted sid ms]" for ms
  proof -
    have "set_session sid (\<lambda>s. s\<lparr>se_previousMs := ms, se_pc := BackingOff\<rparr>)
        (c\<lparr>ch_delivery := (ch_delivery c)\<lparr>dl_serverRetryMs := None\<rparr>\<rparr>) =
      (set_session sid (\<lambda>_. (ch_sessions c sid)\<lparr>se_previousMs := ms, se_pc := BackingOff\<rparr>) c)
        \<lparr>ch_delivery := (ch_delivery c)\<lparr>dl_serverRetryMs := None\<rparr>\<rparr>"
      by (simp add: set_session_def)
    then show ?thesis using closed pc by (simp only:) (rule loop_leaves.last_wait, simp_all)
  qed
  have k: "loop_leaves sid c Revalidated (set_pc sid LoopCrashed c) []"
    unfolding set_pc_def using closed by (intro leaves_session) simp
  show ?thesis
    using eq w k leaves_settle(2) [OF gone, where f = "\<lambda>s. s", OF closed, where c' = c' and out = out and ev = Revalidated] closed
    by (auto simp: begin_wait_def Let_def split: option.splits if_splits)
qed

lemma leaves_loop_event:
  assumes inv: "channel_inv c" and gone: "ch_active c \<noteq> Some sid"
    and eq: "on_loop_event cfg sid ev now random c = (c', out)"
  shows "loop_leaves sid c ev c' out"
proof -
  have closed: "se_closed (ch_sessions c sid)" by (rule gone_closed [OF inv gone])
  have top: "loop_top cfg sid now c = settle_loop sid None c" using closed by (simp add: loop_top_def Let_def)
  note settle = leaves_settle(2) [OF gone, where f = "\<lambda>s. s", OF closed _ closed]
  show ?thesis
  proof (cases "se_pc (ch_sessions c sid)")
    case (AttemptEnded r)
    then show ?thesis using eq leaves_resumes [OF gone closed] leaves_nothing [OF closed]
      by (cases ev) (auto simp: on_loop_event_def)
  next
    case (Revalidating f)
    then show ?thesis using eq leaves_wait [OF gone closed Revalidating] leaves_nothing [OF closed] settle closed
      by (cases ev) (auto simp: on_loop_event_def)
  next
    case BackingOff
    then show ?thesis using eq top closed settle leaves_nothing [OF closed] by (cases ev) (auto simp: on_loop_event_def)
  qed (use eq leaves_nothing [OF closed] in \<open>auto simp: on_loop_event_def\<close>)
qed

section \<open>Properties\<close>

text \<open>Claim C6: whatever callers, observers (calling back into the channel at any point), timers and
  transports do, a session that is not closed is the active one, a connection attempt that has not settled
  is the current attempt of the active session, so there is never more than one, and a timer is armed or a
  lease held only for that attempt.\<close>

theorem one_live_attempt:
  assumes "run (channel_step cfg) (createChannel l) is = (c, out)"
  shows "(\<not> se_closed (ch_sessions c sid) \<longrightarrow> ch_active c = Some sid) \<and>
    (\<not> at_settled (ch_attempts c aid) \<longrightarrow>
       ch_active c = Some (at_session (ch_attempts c aid)) \<and>
       se_pc (session_of c aid) = Attempting aid \<and>
       (\<forall>other. \<not> at_settled (ch_attempts c other) \<longrightarrow> other = aid)) \<and>
    (at_connectTimer (ch_attempts c aid) \<or> at_idleTimer (ch_attempts c aid) \<or> at_leased (ch_attempts c aid) \<longrightarrow>
       \<not> at_settled (ch_attempts c aid))"
proof -
  have inv: "channel_inv c" using assms by (rule reachable_inv)
  have active: "ch_active c = Some (at_session (ch_attempts c b)) \<and>
      se_pc (ch_sessions c (at_session (ch_attempts c b))) = Attempting b"
    if "\<not> at_settled (ch_attempts c b)" for b
    using unsettled_running [OF inv that] alive_active [OF inv, of "at_session (ch_attempts c b)"] by simp
  have "other = aid" if "\<not> at_settled (ch_attempts c aid)" "\<not> at_settled (ch_attempts c other)" for other
    using active [OF that(1)] active [OF that(2)] by (metis option.inject session_pc.inject(1))
  moreover have "at_connectTimer (ch_attempts c aid) \<or> at_idleTimer (ch_attempts c aid) \<or> at_leased (ch_attempts c aid) \<longrightarrow>
       \<not> at_settled (ch_attempts c aid)"
    using inv by (auto simp: channel_inv_def attempts_ok_def Let_def)
  ultimately show ?thesis using active gone_closed [OF inv, of sid] by (auto simp: session_of_def)
qed

definition sample_config :: channel_config where
  "sample_config = \<lparr>cf_reconnect = True, cf_backoff = defaultBackoff, cf_maxRetries = 10, cf_retryBudgetMs = 100000,
     cf_connectTimeoutMs = 30000, cf_idleTimeout = False, cf_minUptimeMs = 1000, cf_protected = False,
     cf_decoder = \<lparr>dc_failures = (\<lambda>_. OtherError), dc_read = (\<lambda>_. as_failure failureDecodeError),
       dc_other = ThrownValue\<rparr>,
     cf_messages = \<lparr>ms_error = (\<lambda>_. ''failed''), ms_number = (\<lambda>_. ''0'')\<rparr>\<rparr>"

definition first_attempt :: "channel_input list" where
  "first_attempt = [Connect 0, ObserverReturns False 0 0, AttemptEvent 0 Admitted 1]"

lemmas channel_eval = sample_config_def createChannel_def connect_def loop_top_def runOneConnection_def setStatus_def
  call_observer_def start_attempt_def set_session_def set_attempt_def set_pc_def no_attempt_def no_session_def
  attempt_started_def Let_def

lemma first_attempt_facts:
  "\<not> at_settled (ch_attempts (fst (run (channel_step sample_config) (createChannel None) first_attempt)) 0)"
  "ch_active (fst (run (channel_step sample_config) (createChannel None) first_attempt)) = Some 0"
  by (simp_all add: first_attempt_def channel_eval)

theorem one_live_attempt_witness:
  "\<exists>c out. run (channel_step sample_config) (createChannel None) first_attempt = (c, out) \<and>
     \<not> at_settled (ch_attempts c 0) \<and> ch_active c = Some 0 \<and> (\<forall>other. \<not> at_settled (ch_attempts c other) \<longrightarrow> other = 0)"
proof -
  obtain c out where r: "run (channel_step sample_config) (createChannel None) first_attempt = (c, out)" by (meson surj_pair)
  have "\<not> at_settled (ch_attempts c 0)" "ch_active c = Some 0" using r first_attempt_facts by simp_all
  with one_live_attempt [OF r, of 0 0] r show ?thesis by blast
qed

text \<open>Claim C13: what a session leaves behind has no effect. Once a session is not the active one, an event of
  any of its attempts, however late, outputs nothing and changes nothing but the note that the attempt's
  stream has ended; and an event of its loop outputs nothing and changes nothing but that session's own
  record, which stays closed. There is one exception: a loop whose revalidation succeeds only then does
  start one last wait and clears the retry minimum the channel holds, which the code does not check.\<close>

theorem left_behind_has_no_effect:
  assumes r: "run (channel_step cfg) (createChannel l) is = (c, out)"
  shows "(ch_active c \<noteq> Some (at_session (ch_attempts c aid)) \<longrightarrow>
      channel_step cfg c (AttemptEvent aid ev now) = (c', out') \<longrightarrow>
      out' = [] \<and> (c' = c \<or> c' = set_attempt aid (\<lambda>a. a\<lparr>at_streaming := False\<rparr>) c)) \<and>
    (ch_active c \<noteq> Some sid \<longrightarrow> channel_step cfg c (LoopEvent sid lev now random) = (c'', out'') \<longrightarrow>
      (\<exists>s. se_closed s \<and> (out'' = [] \<and> c'' = set_session sid (\<lambda>_. s) c \<or>
         (\<exists>failure ms. se_pc (ch_sessions c sid) = Revalidating failure \<and> lev = Revalidated \<and>
            out'' = [WaitStarted sid ms] \<and>
            c'' = (set_session sid (\<lambda>_. s) c)\<lparr>ch_delivery := (ch_delivery c)\<lparr>dl_serverRetryMs := None\<rparr>\<rparr>))))"
proof (intro conjI impI)
  have inv: "channel_inv c" using r by (rule reachable_inv)
  show "out' = []" "c' = c \<or> c' = set_attempt aid (\<lambda>a. a\<lparr>at_streaming := False\<rparr>) c"
    if gone: "ch_active c \<noteq> Some (at_session (ch_attempts c aid))"
    and st: "channel_step cfg c (AttemptEvent aid ev now) = (c', out')"
    using settled_attempt_event [OF inv gone_settled [OF inv gone], of cfg ev now c' out'] gone_closed [OF inv gone] st
    by (auto simp: session_of_def split: if_splits)
  assume gone: "ch_active c \<noteq> Some sid" and st: "channel_step cfg c (LoopEvent sid lev now random) = (c'', out'')"
  have "loop_leaves sid c lev c'' out''"
    using st leaves_loop_event [OF inv gone] leaves_nothing [OF gone_closed [OF inv gone]] by (auto split: if_splits)
  then show "\<exists>s. se_closed s \<and> (out'' = [] \<and> c'' = set_session sid (\<lambda>_. s) c \<or>
         (\<exists>failure ms. se_pc (ch_sessions c sid) = Revalidating failure \<and> lev = Revalidated \<and>
            out'' = [WaitStarted sid ms] \<and>
            c'' = (set_session sid (\<lambda>_. s) c)\<lparr>ch_delivery := (ch_delivery c)\<lparr>dl_serverRetryMs := None\<rparr>\<rparr>))"
    by (cases rule: loop_leaves.cases) blast+
qed

definition closed_run :: "channel_input list" where
  "closed_run = first_attempt @ [Close, ObserverReturns False 2 0, ObserverReturns False 2 0]"

lemma closed_facts:
  "ch_active (fst (run (channel_step sample_config) (createChannel None) closed_run)) = None"
  "ch_status (fst (run (channel_step sample_config) (createChannel None) closed_run)) = SClosed"
  by (simp_all add: closed_run_def first_attempt_def channel_eval close_def closing_sent_def abort_session_def
      finishAttempt_def invalidate_def)

theorem left_behind_has_no_effect_witness:
  "\<exists>c out c' out'. run (channel_step sample_config) (createChannel None) closed_run = (c, out) \<and>
     channel_step sample_config c (AttemptEvent 0 (StreamFailed (ThrownNetwork ''NetworkError'')) 3) = (c', out') \<and>
     ch_status c' = SClosed \<and> out' = []"
proof -
  obtain c out where r: "run (channel_step sample_config) (createChannel None) closed_run = (c, out)" by (meson surj_pair)
  obtain c' out' where st: "channel_step sample_config c (AttemptEvent 0 (StreamFailed (ThrownNetwork ''NetworkError'')) 3) = (c', out')"
    by (meson surj_pair)
  have c: "ch_active c = None" "ch_status c = SClosed" using r closed_facts by simp_all
  have "out' = [] \<and> (c' = c \<or> c' = set_attempt 0 (\<lambda>a. a\<lparr>at_streaming := False\<rparr>) c)"
    using left_behind_has_no_effect [OF r, THEN conjunct1, THEN mp, THEN mp, OF _ st] c(1) by simp
  then have "ch_status c' = SClosed" "out' = []" using c(2) by (auto simp: set_attempt_def)
  with st r show ?thesis by blast
qed

section \<open>A late end of an earlier attempt\<close>

text \<open>An attempt that timed out, its session's second attempt open: the transport of the first one reports its
  failure only now.\<close>

definition reopened :: "channel_input list" where
  "reopened = first_attempt @ [AttemptEvent 0 ConnectTimedOut 30000, ObserverReturns False 30000 0,
     LoopEvent 0 AttemptSettledEvent 30000 0, LoopEvent 0 WaitOver 30000 0, AttemptEvent 1 Admitted 30001,
     AttemptEvent 1 Opened 30002, ObserverReturns False 30002 0]"

lemma timeout_retryable: "isRetryable timeout_error"
  by (simp add: isRetryable_def by_name_def)

lemma first_wait: "retryDelay defaultBackoff (Fin 0) 0 (Some (bp_baseMs defaultBackoff)) (Some (Fin 0)) = Some (Fin 0)"
  by (simp add: retryDelay_def nextBackoff_def assertBackoffPolicy_def defaultBackoff_def js_finite_def js_less_def
      isNonNegativeInteger_def is_safe_integer_def max_safe_integer_def nat_of_num_def exponential_def js_mul_def
      js_pow_def js_of_def max_double_def js_min_def js_max_def)

lemma reopened_facts:
  "ch_status (fst (run (channel_step sample_config) (createChannel None) reopened)) = SOpen"
  "at_opened (ch_attempts (fst (run (channel_step sample_config) (createChannel None) reopened)) 1)"
  "\<not> at_settled (ch_attempts (fst (run (channel_step sample_config) (createChannel None) reopened)) 1)"
  by (simp_all add: reopened_def first_attempt_def channel_eval endWithFailure_def timeout_retryable isStable_def
      session_of_def finishAttempt_def loop_resumes_def announce_def reconnecting_sent_def begin_wait_def first_wait
      minimum_delay_def delivery_init_def js_max_def on_loop_event_def burst_elapsed_def on_open_def armIdle_def)

lemmas reopened_eval = reopened_def first_attempt_def channel_eval endWithFailure_def timeout_retryable isStable_def
  session_of_def finishAttempt_def loop_resumes_def announce_def reconnecting_sent_def begin_wait_def first_wait
  minimum_delay_def delivery_init_def js_max_def on_loop_event_def burst_elapsed_def on_open_def armIdle_def

text \<open>Claim C37: a late failure of a settled attempt of a session still open changes the channel's status. When
  the transport of an attempt that has settled reports its failure only now, the channel turns to
  \<open>reconnecting\<close>, and so is no longer ready, exactly when the failure is retryable and no authentication
  failure, it is remote or the attempt was not stable, the channel reconnects, the attempt's session is not
  closed and the status is another one; otherwise the status stays. Either way every other attempt, the
  connection that replaced this one among them, the sessions and the delivery state stay as they are:
  \<open>endWithFailure\<close> changes the status before \<open>finish\<close> looks whether the attempt has settled.\<close>

theorem late_failure_hides_open_connection:
  assumes "run (channel_step cfg) (createChannel l) is = (c, out)" and "ch_stack c = []"
    and "at_settled (ch_attempts c aid)"
    and "channel_step cfg c (AttemptEvent aid (StreamFailed e) now) = (c', out')"
  shows "(if at_streaming (ch_attempts c aid) \<and> isRetryable e \<and> \<not> is_authentication e \<and>
        \<not> (isStable cfg (ch_attempts c aid) now \<and> \<not> is_remote e) \<and>
        cf_reconnect cfg \<and> \<not> se_closed (session_of c aid) \<and> ch_status c \<noteq> SReconnecting
      then out' = [StatusChanged SReconnecting] \<and> ch_status c' = SReconnecting \<and> \<not> ready c'
      else out' = [] \<and> ch_status c' = ch_status c) \<and>
    (\<forall>other. other \<noteq> aid \<longrightarrow> ch_attempts c' other = ch_attempts c other) \<and>
    ch_sessions c' = ch_sessions c \<and> ch_active c' = ch_active c \<and> ch_delivery c' = ch_delivery c"
proof -
  define d where "d = set_attempt aid (\<lambda>a. a\<lparr>at_streaming := False\<rparr>) c"
  have d: "at_settled (ch_attempts d aid)" "session_of d aid = session_of c aid" "ch_status d = ch_status c"
    "isStable cfg (ch_attempts d aid) now = isStable cfg (ch_attempts c aid) now"
    "\<forall>other. other \<noteq> aid \<longrightarrow> ch_attempts d other = ch_attempts c other" "ch_sessions d = ch_sessions c"
    "ch_active d = ch_active c" "ch_delivery d = ch_delivery c"
    using assms(3) by (simp_all add: d_def set_attempt_def session_of_def isStable_def)
  have st: "(c', out') = (if at_streaming (ch_attempts c aid) then endWithFailure cfg aid e now d else (c, []))"
    using assms(2,4) by (auto simp: d_def)
  let ?flips = "isRetryable e \<and> \<not> is_authentication e \<and> \<not> (isStable cfg (ch_attempts c aid) now \<and> \<not> is_remote e) \<and>
    cf_reconnect cfg \<and> \<not> se_closed (session_of c aid) \<and> ch_status c \<noteq> SReconnecting"
  define f where "f = call_observer StatusObserver (FinishAttempt aid (Some e)) (d\<lparr>ch_status := SReconnecting\<rparr>)"
  have f: "ch_status f = SReconnecting" "\<not> ready f" "ch_attempts f = ch_attempts d" "ch_sessions f = ch_sessions d"
    "ch_active f = ch_active d" "ch_delivery f = ch_delivery d"
    by (simp_all add: f_def call_observer_def ready_def)
  have "endWithFailure cfg aid e now d = (if ?flips then (f, [StatusChanged SReconnecting]) else (d, []))"
    using d by (simp add: endWithFailure_def Let_def setStatus_def finishAttempt_def f_def)
  with st consider "at_streaming (ch_attempts c aid) \<and> ?flips" "c' = f" "out' = [StatusChanged SReconnecting]"
    | "\<not> (at_streaming (ch_attempts c aid) \<and> ?flips)" "c' = c \<or> c' = d" "out' = []"
    by (auto split: if_splits)
  then show ?thesis
  proof cases
    case 1
    then show ?thesis using d f by simp
  next
    case 2
    then have "ch_status c' = ch_status c" using d by auto
    with 2 d show ?thesis by auto
  qed
qed

theorem late_failure_hides_open_connection_witness:
  "\<exists>c out c'. run (channel_step sample_config) (createChannel None) reopened = (c, out) \<and>
     channel_step sample_config c (AttemptEvent 0 (StreamFailed (ThrownNetwork ''NetworkError'')) 30003) =
       (c', [StatusChanged SReconnecting]) \<and>
     ch_status c = SOpen \<and> ch_status c' = SReconnecting \<and> at_opened (ch_attempts c' 1) \<and> \<not> at_settled (ch_attempts c' 1)"
proof -
  let ?e = "ThrownNetwork ''NetworkError''"
  obtain c out where r: "run (channel_step sample_config) (createChannel None) reopened = (c, out)" by (meson surj_pair)
  then have c: "c = fst (run (channel_step sample_config) (createChannel None) reopened)" by simp
  obtain c' out' where st: "channel_step sample_config c (AttemptEvent 0 (StreamFailed ?e) 30003) = (c', out')" by (meson surj_pair)
  have a: "at_settled (ch_attempts c 0)" "at_streaming (ch_attempts c 0)" "\<not> at_opened (ch_attempts c 0)"
    "at_session (ch_attempts c 0) = 0" "\<not> se_closed (ch_sessions c 0)" "ch_stack c = []"
    unfolding c by (simp_all add: reopened_eval)
  have "isRetryable ?e" "\<not> is_authentication ?e" "cf_reconnect sample_config"
    by (simp_all add: isRetryable_def by_name_def sample_config_def)
  then show ?thesis
    using late_failure_hides_open_connection [OF r a(6,1) st] a r st reopened_facts [folded c]
    by (simp add: isStable_def session_of_def)
qed

section \<open>The attempts of a session\<close>

lemma settle_active:
  assumes "ch_active c = Some sid"
  shows "se_closed (ch_sessions (fst (settle_loop sid err c)) sid) \<and> ch_status (fst (settle_loop sid err c)) = SClosed \<and>
    ch_terminalFailure (fst (settle_loop sid err c)) = err"
  using assms by (cases err) (auto simp: settle_loop_def set_pc_def set_session_def setStatus_def terminal_status_sent_def
      clear_active_def call_observer_def Let_def)

lemma last_failure_closes:
  assumes inv: "channel_inv c" and top: "ch_stack c = []" and pc: "se_pc (ch_sessions c sid) = AttemptEnded (Some e)"
    and live: "\<not> se_closed (ch_sessions c sid)" "cf_reconnect cfg" "isRetryable e"
    and n: "se_failures (ch_sessions c sid) = cf_maxRetries cfg"
    and st: "channel_step cfg c (LoopEvent sid AttemptSettledEvent now random) = (d, out)"
  shows "se_closed (ch_sessions d sid) \<and> ch_status d = SClosed \<and>
    ch_terminalFailure d = Some (toTerminalError (cf_messages cfg) (retry_exhausted (cf_maxRetries cfg + 1) e))"
proof -
  have "ch_active c = Some sid" using session_facts [OF inv, of sid] live(1) by auto
  then have act: "ch_active (set_session sid f c) = Some sid" for f by simp
  let ?err = "Some (toTerminalError (cf_messages cfg) (retry_exhausted (cf_maxRetries cfg + 1) e))"
  obtain f where "d = fst (settle_loop sid ?err (set_session sid f c))"
    using st top pc live n by (auto simp: on_loop_event_def loop_resumes_def Let_def dest!: arg_cong [where f = fst])
  then show ?thesis using settle_active [OF act, of ?err f] by simp
qed

text \<open>Claim C31: a session never makes more than \<open>maxRetries + 1\<close> attempts in a row. From any state a channel
  reaches, over any inputs during which the session's loop never resumes after a stable connection, the
  session begins at most \<open>maxRetries + 1\<close> attempts; and when it has begun that many and the last one fails
  too, retryable as the failure may be, the loop closes the session with a \<open>RetryError\<close> of that many
  attempts.\<close>

theorem consecutive_failures_bounded:
  assumes "run (channel_step cfg) (createChannel l) is = (c0, out0)"
    and "run (channel_step cfg) c0 js = (c1, out1)" and "unbroken cfg sid c0 js"
  shows "begun sid c1 \<le> begun sid c0 + cf_maxRetries cfg + 1 \<and>
    (begun sid c1 = begun sid c0 + cf_maxRetries cfg + 1 \<and> ch_stack c1 = [] \<and>
     se_pc (ch_sessions c1 sid) = AttemptEnded (Some e) \<and> isRetryable e \<and> cf_reconnect cfg \<and>
     \<not> se_closed (ch_sessions c1 sid) \<and>
     channel_step cfg c1 (LoopEvent sid AttemptSettledEvent now random) = (c2, out2) \<longrightarrow>
       se_closed (ch_sessions c2 sid) \<and> ch_status c2 = SClosed \<and>
       ch_terminalFailure c2 = Some (toTerminalError (cf_messages cfg) (retry_exhausted (cf_maxRetries cfg + 1) e)))"
proof (intro conjI impI)
  have "counted_inv cfg sid c0" using counted_machine.run_inv [OF createChannel_counted, of cfg sid l "is"] assms(1) by simp
  then obtain B where inv: "channel_inv c0" and "counted B (cf_maxRetries cfg) sid c0" by (auto simp: counted_inv_def)
  then have c: "counted (begun sid c0) (cf_maxRetries cfg) sid c1"
    using counted_run [OF _ counted_here assms(3)] assms(2) by fastforce
  then show "begun sid c1 \<le> begun sid c0 + cf_maxRetries cfg + 1" by (simp add: counted_def capped_def)
  have inv1: "channel_inv c1" using channel_machine.run_inv [OF inv, of cfg js] assms(2) by simp
  assume a: "begun sid c1 = begun sid c0 + cf_maxRetries cfg + 1 \<and> ch_stack c1 = [] \<and>
     se_pc (ch_sessions c1 sid) = AttemptEnded (Some e) \<and> isRetryable e \<and> cf_reconnect cfg \<and>
     \<not> se_closed (ch_sessions c1 sid) \<and> channel_step cfg c1 (LoopEvent sid AttemptSettledEvent now random) = (c2, out2)"
  then have "se_failures (ch_sessions c1 sid) = cf_maxRetries cfg" using c by (simp add: counted_def weight_def)
  with a have "se_closed (ch_sessions c2 sid) \<and> ch_status c2 = SClosed \<and>
    ch_terminalFailure c2 = Some (toTerminalError (cf_messages cfg) (retry_exhausted (cf_maxRetries cfg + 1) e))"
    by (elim conjE) (rule last_failure_closes [OF inv1])
  then show "se_closed (ch_sessions c2 sid)" "ch_status c2 = SClosed"
    "ch_terminalFailure c2 = Some (toTerminalError (cf_messages cfg) (retry_exhausted (cf_maxRetries cfg + 1) e))" by simp_all
qed

lemma reopened_unbroken: "unbroken sample_config 0 (createChannel None) reopened"
  by (simp add: reopened_eval)

theorem consecutive_failures_bounded_witness:
  "begun 0 (fst (run (channel_step sample_config) (createChannel None) reopened)) \<le> 11 \<and>
   begun 0 (fst (run (channel_step sample_config) (createChannel None) reopened)) = 2"
proof -
  let ?r = "run (channel_step sample_config) (createChannel None)"
  have start: "?r [] = (createChannel None, [])" by simp
  have "begun 0 (createChannel None) = 0" by (simp add: begun_def createChannel_def)
  moreover have "?r reopened = (fst (?r reopened), snd (?r reopened))" by simp
  from consecutive_failures_bounded [OF start this reopened_unbroken]
  have "begun 0 (fst (?r reopened)) \<le> begun 0 (createChannel None) + 10 + 1" by (simp add: sample_config_def)
  moreover have "begun 0 (fst (?r reopened)) = 2" by (simp add: begun_def reopened_eval)
  ultimately show ?thesis by simp
qed

end
