(* ===== verification/Event_Router.thy ===== *)
theory Event_Router imports Bounded_Queue Channel_Delivery begin

text \<open>
  The event router of a channel, \<open>createEventRouter\<close> of \<^verbatim>\<open>packages/channel/src/events/router.ts\<close>: frames are
  decoded and buffered in a bounded queue (theory \<open>Bounded_Queue\<close>), and one drain delivers them to the sinks,
  one event and one sink at a time, and acknowledges the frames applied.

  Inputs are the frames of the channel with what the decoder makes of them, the settlement of a sink's
  delivery, the drain resuming behind \<open>queue.pop\<close>, the channel closing and a call of \<open>close\<close>. Calls of the
  channel, the sinks and the observers are outputs. A delivery's signal is the controller of its
  generation: aborted when the generation has passed or the router is closed, and then a delivery ends
  (\<open>raceAbort\<close>) whether or not its sink settles, so \<open>SinkSettled\<close> may come at any time. Sinks and
  observers are taken not to call the router while it calls them, and the hooks of a sink, which are
  fire and forget, to fail by rejecting rather than by throwing.
\<close>

section \<open>State\<close>

record 'e routed =
  rd_event :: "'e option"  \<comment> \<open>None when the decoder drops the frame\<close>
  rd_frame :: frame
  rd_generation :: nat

datatype 'e drain =
    AwaitingPop nat                  \<comment> \<open>the promise of \<open>queue.pop\<close>\<close>
  | PopSettled "'e routed option"    \<comment> \<open>settled, the drain not resumed yet; None when rejected\<close>
  | Delivering "'e routed" nat       \<comment> \<open>the sink whose promise it waits for\<close>
  | Stopped

record 'e router =
  ro_sinks :: nat
  ro_queue :: "'e routed bqueue"
  ro_generation :: nat
  ro_closed :: bool
  ro_pendingIds :: "string list"
  ro_drain :: "'e drain"

datatype 'e router_output =
    AcknowledgeFrame frame
  | ResetChannelCursor
  | DeliverTo nat 'e
  | ControlSink nat bool           \<comment> \<open>\<open>reset\<close>, or else \<open>connected\<close>\<close>
  | DropReported "'e option"
  | DropCounted "'e option"        \<comment> \<open>the telemetry event\<close>
  | DecodeFailed
  | SinkFailed
  | RecoveryFailed
  | ChannelFailed
  | CloseSink nat

type_synonym 'e router_result = "'e router \<times> 'e router_output list"

section \<open>Operations\<close>

definition control :: "bool \<Rightarrow> 'e router \<Rightarrow> 'e router_output list" where
  "control reset s = (if ro_closed s then [] else map (\<lambda>i. ControlSink i reset) [0..<ro_sinks s])"

definition reset_router :: "'e router \<Rightarrow> 'e router_result" where
  "reset_router s =
     (if ro_closed s then (s, [])
      else (s\<lparr>ro_generation := ro_generation s + 1, ro_pendingIds := []\<rparr>,
            ResetChannelCursor # control True s))"

definition reportDrop :: "'e routed \<Rightarrow> 'e router \<Rightarrow> 'e router_result" where
  "reportDrop d s =
     (let (s', out) = reset_router s
      in (s', (case rd_event d of None \<Rightarrow> [] | Some e \<Rightarrow> [DropReported (Some e)]) @ [DropCounted (rd_event d)] @ out))"

text \<open>What a call of the queue leaves behind: its handed-over item settles the drain's promise, its dropped
  item or refusal is reported.\<close>

fun queue_effect :: "'e routed \<Rightarrow> 'e routed bq_out \<Rightarrow> 'e router \<Rightarrow> 'e router_result" where
  "queue_effect d (Settled p (Inr item)) s = (s\<lparr>ro_drain := PopSettled item\<rparr>, [])"
| "queue_effect d (Settled p (Inl _)) s = (s\<lparr>ro_drain := PopSettled None\<rparr>, [])"
| "queue_effect d (Dropped (Some item)) s = reportDrop item s"
| "queue_effect d (Bounded_Queue.Threw (QueueFullError _)) s = reportDrop d s"
| "queue_effect d _ s = (s, [])"

fun queue_effects :: "'e routed \<Rightarrow> 'e routed bq_out list \<Rightarrow> 'e router \<Rightarrow> 'e router_result" where
  "queue_effects d [] s = (s, [])"
| "queue_effects d (x # xs) s =
     (let (s1, out1) = queue_effect d x s; (s2, out2) = queue_effects d xs s1 in (s2, out1 @ out2))"

definition enqueue_frame :: "'e routed \<Rightarrow> 'e router \<Rightarrow> 'e router_result" where
  "enqueue_frame d s =
     (let s1 = (case fr_id (rd_frame d) of None \<Rightarrow> s | Some i \<Rightarrow> s\<lparr>ro_pendingIds := i # ro_pendingIds s\<rparr>);
          (q, qout) = bq_push d (ro_queue s1)
      in queue_effects d qout (s1\<lparr>ro_queue := q\<rparr>))"

text \<open>\<open>decoded\<close> is what \<open>decode\<close> returns, None when it throws.\<close>

definition onAny :: "frame \<Rightarrow> 'e option option \<Rightarrow> 'e router \<Rightarrow> 'e router_result" where
  "onAny f decoded s =
     (if ro_closed s then (s, [])
      else if fr_type f = ''connected'' then (s, control False s)
      else if fr_type f = ''reset'' then reset_router s
      else if fr_type f = ''failure'' then (s, [])
      else if (case fr_id f of None \<Rightarrow> False | Some i \<Rightarrow> i \<in> set (ro_pendingIds s)) then (s, [])
      else (case decoded of
          None \<Rightarrow> (let (s', out) = reset_router s in (s', DecodeFailed # out))
        | Some event \<Rightarrow>
            enqueue_frame \<lparr>rd_event = event, rd_frame = f, rd_generation = ro_generation s\<rparr> s))"

text \<open>The head of the drain's loop.\<close>

definition await_pop :: "'e router \<Rightarrow> 'e router" where
  "await_pop s =
     (if ro_closed s then s\<lparr>ro_drain := Stopped\<rparr>
      else let (q, qout) = bq_pop (Some 0) False (ro_queue s);
               s1 = s\<lparr>ro_queue := q\<rparr>
        in case qout of
             Settled p (Inr item) # _ \<Rightarrow> s1\<lparr>ro_drain := PopSettled item\<rparr>
           | Settled p (Inl _) # _ \<Rightarrow> s1\<lparr>ro_drain := PopSettled None\<rparr>
           | _ \<Rightarrow> s1\<lparr>ro_drain := AwaitingPop (bq_next (ro_queue s))\<rparr>)"

definition forget_id :: "frame \<Rightarrow> 'e router \<Rightarrow> 'e router" where
  "forget_id f s = (case fr_id f of None \<Rightarrow> s
     | Some i \<Rightarrow> s\<lparr>ro_pendingIds := filter (\<lambda>j. j \<noteq> i) (ro_pendingIds s)\<rparr>)"

text \<open>Whether the signal of a delivery has aborted.\<close>

definition passed :: "'e routed \<Rightarrow> 'e router \<Rightarrow> bool" where
  "passed d s = (ro_closed s \<or> rd_generation d \<noteq> ro_generation s)"

text \<open>The end of a delivery.\<close>

definition delivered :: "'e routed \<Rightarrow> bool \<Rightarrow> 'e router \<Rightarrow> 'e router_result" where
  "delivered d applied s =
     (if rd_generation d = ro_generation s then
        (await_pop (forget_id (rd_frame d) s),
         if applied \<and> \<not> passed d s then [AcknowledgeFrame (rd_frame d)] else [])
      else (await_pop s, []))"

definition drain_resumes :: "'e router \<Rightarrow> 'e router_result" where
  "drain_resumes s =
     (case ro_drain s of
        PopSettled (Some d) \<Rightarrow>
          if rd_generation d \<noteq> ro_generation s then (await_pop s, [])
          else (case rd_event d of
              None \<Rightarrow> (await_pop (forget_id (rd_frame d) s), [AcknowledgeFrame (rd_frame d)])
            | Some e \<Rightarrow>
                if ro_sinks s = 0 then delivered d True s
                else if passed d s then delivered d False s
                else (s\<lparr>ro_drain := Delivering d 0\<rparr>, [DeliverTo 0 e]))
      | PopSettled None \<Rightarrow> (s\<lparr>ro_drain := Stopped\<rparr>, [])
      | _ \<Rightarrow> (s, []))"

definition sink_settled :: "bool \<Rightarrow> 'e router \<Rightarrow> 'e router_result" where
  "sink_settled ok s =
     (case ro_drain s of
        Delivering d i \<Rightarrow>
          if passed d s then delivered d False s
          else if \<not> ok then
            (let (s1, out1) = reset_router s; (s2, out2) = delivered d False s1
             in (s2, SinkFailed # out1 @ out2))
          else if i + 1 < ro_sinks s then
            (case rd_event d of
               Some e \<Rightarrow> (s\<lparr>ro_drain := Delivering d (i + 1)\<rparr>, [DeliverTo (i + 1) e])
             | None \<Rightarrow> delivered d True s)
          else delivered d True s
      | _ \<Rightarrow> (s, []))"

definition close_router :: "'e router \<Rightarrow> 'e router_result" where
  "close_router s =
     (if ro_closed s then (s, [])
      else let (q1, out1) = bq_signalAbort 0 (ro_queue s); (q2, out2) = bq_close q1
        in (s\<lparr>ro_closed := True, ro_pendingIds := [], ro_queue := q2,
               ro_drain := (case ro_drain s of AwaitingPop _ \<Rightarrow> PopSettled None | d \<Rightarrow> d)\<rparr>,
            map CloseSink [0..<ro_sinks s]))"

text \<open>A lifecycle error: only a closed channel's counts.\<close>

definition channel_error_heard :: "bool \<Rightarrow> 'e router \<Rightarrow> 'e router_result" where
  "channel_error_heard channelClosed s =
     (if ro_closed s \<or> \<not> channelClosed then (s, [])
      else (let (s', out) = close_router s in (s', ChannelFailed # out)))"

datatype 'e router_input =
    FrameIn frame "'e option option"
  | DrainResumes
  | SinkSettled bool
  | ControlRejected nat            \<comment> \<open>the generation the control was sent in\<close>
  | ChannelErrorHeard bool
  | CloseRouter

fun router_step :: "'e router \<Rightarrow> 'e router_input \<Rightarrow> 'e router_result" where
  "router_step s (FrameIn f decoded) = onAny f decoded s"
| "router_step s DrainResumes = drain_resumes s"
| "router_step s (SinkSettled ok) = sink_settled ok s"
| "router_step s (ControlRejected g) =
     (s, if \<not> ro_closed s \<and> g = ro_generation s then [RecoveryFailed] else [])"
| "router_step s (ChannelErrorHeard channelClosed) = channel_error_heard channelClosed s"
| "router_step s CloseRouter = close_router s"

text \<open>Construction: the drain awaits its first item; then a channel that is closed with an error closes the
  router, and a ready one announces itself. None is the \<open>RangeError\<close> of the queue.\<close>

definition createEventRouter ::
  "jsnum \<Rightarrow> overflow_policy \<Rightarrow> nat \<Rightarrow> bool \<Rightarrow> bool \<Rightarrow> 'e router_result option" where
  "createEventRouter capacity overflow sinks channelClosedWithError channelReady =
     (case createBoundedQueue capacity (Some overflow) None of
        Inl _ \<Rightarrow> None
      | Inr q \<Rightarrow>
          let s = await_pop \<lparr>ro_sinks = sinks, ro_queue = q, ro_generation = 0, ro_closed = False,
                ro_pendingIds = [], ro_drain = Stopped\<rparr>
          in Some (if channelClosedWithError then channel_error_heard True s
               else (s, if channelReady then control False s else [])))"

section \<open>The frames not yet acknowledged\<close>

definition held :: "'e router \<Rightarrow> 'e routed list" where
  "held s = (case ro_drain s of PopSettled (Some d) \<Rightarrow> [d] | Delivering d _ \<Rightarrow> [d] | _ \<Rightarrow> [])"

definition queued :: "'e router \<Rightarrow> 'e routed list" where
  "queued s = ring_items (bq_ring (ro_queue s))"

text \<open>What the current generation still has to deliver, the oldest first.\<close>

definition outstanding :: "'e router \<Rightarrow> 'e routed list" where
  "outstanding s = filter (\<lambda>d. rd_generation d = ro_generation s) (held s @ queued s)"

definition frame_ids :: "'e routed list \<Rightarrow> string list" where
  "frame_ids ds = concat (map (\<lambda>d. case fr_id (rd_frame d) of None \<Rightarrow> [] | Some i \<Rightarrow> [i]) ds)"

definition acks :: "'e router_output list \<Rightarrow> frame list" where
  "acks out = concat (map (\<lambda>x. case x of AcknowledgeFrame f \<Rightarrow> [f] | _ \<Rightarrow> []) out)"

fun is_awaiting :: "'e drain \<Rightarrow> bool" where
  "is_awaiting (AwaitingPop _) = True"
| "is_awaiting _ = False"

fun sink_within :: "nat \<Rightarrow> 'e drain \<Rightarrow> bool" where
  "sink_within n (Delivering _ i) = (i < n)"
| "sink_within n _ = True"

definition router_inv :: "'e router \<Rightarrow> bool" where
  "router_inv s =
     (bq_inv (ro_queue s) \<and>
      length (bq_waiters (ro_queue s)) = (if is_awaiting (ro_drain s) then 1 else 0) \<and>
      (\<forall>d \<in> set (held s @ queued s). rd_generation d \<le> ro_generation s) \<and>
      (bq_closed (ro_queue s) = ro_closed s) \<and>
      sink_within (ro_sinks s) (ro_drain s) \<and>
      distinct (frame_ids (outstanding s)) \<and>
      (\<not> ro_closed s \<longrightarrow> set (frame_ids (outstanding s)) \<subseteq> set (ro_pendingIds s)))"

lemma frame_ids_simps [simp]:
  "frame_ids [] = []" "frame_ids (ds @ es) = frame_ids ds @ frame_ids es"
  "frame_ids (d # ds) = (case fr_id (rd_frame d) of None \<Rightarrow> [] | Some i \<Rightarrow> [i]) @ frame_ids ds"
  by (simp_all add: frame_ids_def)

lemma acks_simps [simp]:
  "acks [] = []" "acks (x # xs) = (case x of AcknowledgeFrame f \<Rightarrow> [f] | _ \<Rightarrow> []) @ acks xs"
  "acks (xs @ ys) = acks xs @ acks ys" "acks (control b s) = []" "acks (map CloseSink ns) = []"
  by (simp_all add: acks_def control_def)

lemma reset_facts:
  assumes "router_inv s" "\<not> ro_closed s" "reset_router s = (s', out)"
  shows "router_inv s'" "outstanding s' = []" "acks out = []" "ResetChannelCursor \<in> set out"
    "ro_generation s' = ro_generation s + 1" "ro_closed s' = ro_closed s" "ro_drain s' = ro_drain s"
    "ro_queue s' = ro_queue s" "ro_sinks s' = ro_sinks s"
proof -
  have s': "s' = s\<lparr>ro_generation := ro_generation s + 1, ro_pendingIds := []\<rparr>" "out = ResetChannelCursor # control True s"
    using assms by (auto simp: reset_router_def)
  have same: "held s' = held s" "queued s' = queued s" by (simp_all add: s' held_def queued_def)
  have old: "rd_generation d \<le> ro_generation s" if "d \<in> set (held s @ queued s)" for d
    using assms(1) that by (auto simp: router_inv_def)
  show "outstanding s' = []"
    using old unfolding outstanding_def same by (fastforce simp: filter_empty_conv s')
  then show "router_inv s'"
    using assms(1) old same by (auto simp: router_inv_def s' intro: le_SucI)
  show "acks out = []" "ResetChannelCursor \<in> set out"
    "ro_generation s' = ro_generation s + 1" "ro_closed s' = ro_closed s" "ro_drain s' = ro_drain s"
    "ro_queue s' = ro_queue s" "ro_sinks s' = ro_sinks s"
    by (simp_all add: s')
qed

lemma drop_facts:
  assumes "router_inv s" "\<not> ro_closed s" "reportDrop d s = (s', out)"
  shows "router_inv s'" "outstanding s' = []" "acks out = []" "ResetChannelCursor \<in> set out"
proof -
  obtain s1 out1 where r: "reset_router s = (s1, out1)" by (cases "reset_router s")
  have "s' = s1" "out = (case rd_event d of None \<Rightarrow> [] | Some e \<Rightarrow> [DropReported (Some e)]) @ [DropCounted (rd_event d)] @ out1"
    using assms(3) r by (auto simp: reportDrop_def)
  with reset_facts [OF assms(1,2) r]
  show "router_inv s'" "outstanding s' = []" "acks out = []" "ResetChannelCursor \<in> set out"
    by (auto split: option.split)
qed

text \<open>Accepting a frame.\<close>

lemma enqueue_facts:
  assumes inv: "router_inv s" and opened: "\<not> ro_closed s" and gen: "rd_generation d = ro_generation s"
    and new: "\<And>i. fr_id (rd_frame d) = Some i \<Longrightarrow> i \<notin> set (ro_pendingIds s)"
    and eq: "enqueue_frame d s = (s', out)"
  shows "router_inv s' \<and> acks out = [] \<and>
    (outstanding s' = outstanding s @ [d] \<or> outstanding s' = [] \<and> ResetChannelCursor \<in> set out)"
proof -
  let ?q = "ro_queue s"
  define s1 where "s1 = (case fr_id (rd_frame d) of None \<Rightarrow> s | Some i \<Rightarrow> s\<lparr>ro_pendingIds := i # ro_pendingIds s\<rparr>)"
  have s1: "ro_queue s1 = ?q" "ro_drain s1 = ro_drain s" "ro_generation s1 = ro_generation s" "ro_closed s1 = ro_closed s"
    "held s1 = held s" "queued s1 = queued s" "outstanding s1 = outstanding s" "ro_sinks s1 = ro_sinks s"
    by (simp_all add: s1_def held_def queued_def outstanding_def split: option.split)
  have ids: "set (frame_ids [d]) \<union> set (ro_pendingIds s) \<subseteq> set (ro_pendingIds s1)"
    by (auto simp: s1_def split: option.split)
  have bq: "bq_inv ?q" "\<not> bq_closed ?q" using inv opened by (simp_all add: router_inv_def)
  have wf: "ring_wf (bq_ring ?q)" using bq by (simp add: bq_inv_def)
  have fresh: "distinct (frame_ids (outstanding s @ [d]))"
    using inv new opened by (auto simp: router_inv_def split: option.split)
  have within: "set (frame_ids (outstanding s @ [d])) \<subseteq> set (ro_pendingIds s1)"
    using inv ids opened by (auto simp: router_inv_def)
  have inv1: "router_inv s1" using inv s1 ids by (auto simp: router_inv_def)
  have eff: "queue_effects d (snd (bq_push d ?q)) (s1\<lparr>ro_queue := fst (bq_push d ?q)\<rparr>) = (s', out)"
    using eq by (simp add: enqueue_frame_def s1_def [symmetric] s1(1) split_beta Let_def)
  have bqp: "bq_inv (fst (bq_push d ?q))" by (rule bq_inv_push [OF bq(1)])
  show ?thesis
  proof (cases "bq_waiters ?q")
    case (Cons w ws)
    then obtain p where p: "ro_drain s = AwaitingPop p" "ws = []"
      using inv by (cases "ro_drain s") (auto simp: router_inv_def)
    have none: "queued s = []" "held s = []"
      using bq(1) Cons p wf by (auto simp: bq_inv_def queued_def held_def buffered_items)
    have s': "s' = s1\<lparr>ro_queue := ?q\<lparr>bq_waiters := []\<rparr>, ro_drain := PopSettled (Some d)\<rparr>" "out = []"
      using eff bq(2) Cons p by (auto simp: bq_push_def)
    have view: "held s' = [d]" "queued s' = []" "ro_generation s' = ro_generation s"
      using none s1 by (simp_all add: s' held_def queued_def)
    then have o': "outstanding s' = outstanding s @ [d]"
      using none gen by (simp add: outstanding_def)
    moreover have "bq_inv (?q\<lparr>bq_waiters := []\<rparr>)" using bqp bq(2) Cons p by (simp add: bq_push_def)
    ultimately show ?thesis
      using fresh within view gen bq(2) opened s1 by (simp add: router_inv_def s')
  next
    case Nil
    show ?thesis
    proof (cases "buffered (bq_ring ?q) < bq_capacity ?q")
      case True
      let ?q' = "?q\<lparr>bq_ring := ring_put d (bq_ring ?q)\<rparr>"
      have s': "s' = s1\<lparr>ro_queue := ?q'\<rparr>" "out = []" "bq_inv ?q'"
        using eff bqp bq(2) Nil True by (auto simp: bq_push_def)
      have view: "held s' = held s" "queued s' = queued s @ [d]" "ro_generation s' = ro_generation s" "ro_drain s' = ro_drain s"
        using s1 ring.items_put [OF wf] by (simp_all add: s' held_def queued_def)
      then have o': "outstanding s' = outstanding s @ [d]" using gen by (simp add: outstanding_def)
      then show ?thesis
        using fresh within view gen bq(2) opened s1 s'(3) inv Nil
        by (auto simp: router_inv_def s')
    next
      case False
      obtain q' item where q': "fst (bq_push d ?q) = q'" and drop: "queue_effects d (snd (bq_push d ?q)) (s1\<lparr>ro_queue := q'\<rparr>) =
          reportDrop item (s1\<lparr>ro_queue := q'\<rparr>)"
        and items: "bq_waiters q' = []" "bq_closed q' = bq_closed ?q" "set (ring_items (bq_ring q')) \<subseteq> set (queued s) \<union> {d}"
      proof (cases "bq_overflow ?q")
        case Reject
        then have "bq_push d ?q = (?q, [Bounded_Queue.Threw (QueueFullError (bq_capacity ?q))])"
          using bq(2) Nil False by (simp add: bq_push_def)
        then show thesis using Nil by (intro that [of ?q d]) (auto simp: queued_def split_beta)
      next
        case DropNew
        then have "bq_push d ?q = (?q, [Dropped (Some d), Returned False])"
          using bq(2) Nil False by (simp add: bq_push_def)
        then show thesis using Nil by (intro that [of ?q d]) (auto simp: queued_def split_beta)
      next
        case DropOldest
        have "0 < buffered (bq_ring ?q)" using False bq(1) by (simp add: bq_inv_def)
        then obtain y ys where ys: "ring_items (bq_ring ?q) = y # ys" using ring_nonempty by blast
        obtain r' where r': "takeHead (bq_ring ?q) = (Some y, r')" "ring_items r' = ys" "ring_wf r'"
          by (rule bq_take [OF bq(1) ys])
        have "bq_push d ?q = (?q\<lparr>bq_ring := ring_put d r'\<rparr>, [Dropped (Some y), Returned True])"
          using DropOldest bq(2) Nil False r'(1) by (simp add: bq_push_def)
        then show thesis using Nil ys r' ring.items_put [OF r'(3)]
          by (intro that [of "?q\<lparr>bq_ring := ring_put d r'\<rparr>" y]) (auto simp: queued_def split_beta)
      qed
      let ?s = "s1\<lparr>ro_queue := q'\<rparr>"
      have old: "\<forall>x \<in> set (held ?s @ queued ?s). rd_generation x \<le> ro_generation ?s"
        using items(3) inv gen s1 by (fastforce simp: router_inv_def queued_def held_def)
      have dr: "\<not> is_awaiting (ro_drain s)" "sink_within (ro_sinks s) (ro_drain s)" using inv Nil by (auto simp: router_inv_def)
      define s2 where "s2 = ?s\<lparr>ro_generation := ro_generation s + 1, ro_pendingIds := []\<rparr>"
      have same: "held s2 = held ?s" "queued s2 = queued ?s" "ro_generation s2 = ro_generation ?s + 1"
        using s1 by (simp_all add: s2_def held_def queued_def)
      have out2: "outstanding s2 = []"
        using old unfolding outstanding_def same filter_empty_conv by fastforce
      have "router_inv s2"
        using bqp q' items old out2 dr s1 bq(2) opened
        by (auto simp: router_inv_def s2_def held_def queued_def intro: le_SucI)
      moreover have "s' = s2" "acks out = []" "ResetChannelCursor \<in> set out"
        using eff drop q' opened s1 by (auto simp: reportDrop_def reset_router_def s2_def split: option.splits)
      ultimately show ?thesis using out2 by simp
    qed
  qed
qed

text \<open>The drain moves on: what it held is gone, the queue is as it was.\<close>

lemma await_pop_facts:
  assumes inv: "bq_inv (ro_queue s)" and w: "bq_waiters (ro_queue s) = []"
  shows "held (await_pop s) @ queued (await_pop s) = queued s" "bq_inv (ro_queue (await_pop s))"
    "length (bq_waiters (ro_queue (await_pop s))) = (if is_awaiting (ro_drain (await_pop s)) then 1 else 0)"
    "bq_closed (ro_queue (await_pop s)) = bq_closed (ro_queue s)"
    "ro_generation (await_pop s) = ro_generation s" "ro_closed (await_pop s) = ro_closed s"
    "ro_pendingIds (await_pop s) = ro_pendingIds s" "ro_sinks (await_pop s) = ro_sinks s"
    "sink_within n (ro_drain (await_pop s))"
proof -
  let ?q = "ro_queue s"
  have wf: "ring_wf (bq_ring ?q)" using inv by (simp add: bq_inv_def)
  have bqp: "bq_inv (fst (bq_pop (Some 0) False ?q))" by (rule bq_inv_pop [OF inv])
  have rq: "ro_queue (await_pop s) = (if ro_closed s then ?q else fst (bq_pop (Some 0) False ?q))"
    by (auto simp: await_pop_def Let_def split_beta split: list.split bq_out.split sum.split)
  have "held (await_pop s) @ queued (await_pop s) = queued s \<and>
    length (bq_waiters (ro_queue (await_pop s))) = (if is_awaiting (ro_drain (await_pop s)) then 1 else 0) \<and>
    bq_closed (ro_queue (await_pop s)) = bq_closed (ro_queue s)"
  proof (cases "ro_closed s")
    case True
    then show ?thesis using inv w by (simp add: await_pop_def held_def queued_def)
  next
    case False
    show ?thesis
    proof (cases "ring_items (bq_ring ?q)")
      case Nil
      then have "\<not> 0 < buffered (bq_ring ?q)" using wf by (simp add: buffered_items)
      then show ?thesis using False Nil w
        by (auto simp: await_pop_def bq_pop_def Let_def held_def queued_def)
    next
      case (Cons x xs)
      obtain r' where r': "takeHead (bq_ring ?q) = (Some x, r')" "ring_items r' = xs"
        by (rule bq_take [OF inv Cons])
      have "0 < buffered (bq_ring ?q)" using wf Cons by (simp add: buffered_items)
      then show ?thesis using False Cons w r'
        by (simp add: await_pop_def bq_pop_def Let_def held_def queued_def)
    qed
  qed
  then show "held (await_pop s) @ queued (await_pop s) = queued s"
    "length (bq_waiters (ro_queue (await_pop s))) = (if is_awaiting (ro_drain (await_pop s)) then 1 else 0)"
    "bq_closed (ro_queue (await_pop s)) = bq_closed (ro_queue s)" by blast+
  show "bq_inv (ro_queue (await_pop s))" using rq bqp inv by simp
  show "ro_generation (await_pop s) = ro_generation s" "ro_closed (await_pop s) = ro_closed s"
    "ro_pendingIds (await_pop s) = ro_pendingIds s" "ro_sinks (await_pop s) = ro_sinks s"
    "sink_within n (ro_drain (await_pop s))"
    by (auto simp: await_pop_def Let_def split_beta split: list.split bq_out.split sum.split)
qed

lemma await_pop_outstanding:
  assumes "bq_inv (ro_queue s)" "bq_waiters (ro_queue s) = []"
  shows "outstanding (await_pop s) = filter (\<lambda>d. rd_generation d = ro_generation s) (queued s)"
  using await_pop_facts [OF assms] by (simp add: outstanding_def)

lemma frame_ids_filter: "distinct (frame_ids (ds @ es)) \<Longrightarrow> distinct (frame_ids es)"
  by simp

text \<open>A held delivery is let go.\<close>

lemma release_facts:
  assumes inv: "router_inv s" and h: "held s = [d]"
  shows "router_inv (await_pop s)"
    "rd_generation d = ro_generation s \<Longrightarrow> outstanding s = d # outstanding (await_pop s)"
    "rd_generation d \<noteq> ro_generation s \<Longrightarrow> outstanding s = outstanding (await_pop s)"
    "rd_generation d = ro_generation s \<Longrightarrow> router_inv (await_pop (forget_id (rd_frame d) s)) \<and>
       outstanding (await_pop (forget_id (rd_frame d) s)) = outstanding (await_pop s)"
proof -
  have w: "bq_inv (ro_queue s)" "bq_waiters (ro_queue s) = []"
    using inv h by (auto simp: router_inv_def held_def split: drain.splits option.splits)
  note f = await_pop_facts [OF w] await_pop_outstanding [OF w]
  show a: "rd_generation d = ro_generation s \<Longrightarrow> outstanding s = d # outstanding (await_pop s)"
    "rd_generation d \<noteq> ro_generation s \<Longrightarrow> outstanding s = outstanding (await_pop s)"
    using h f by (simp_all add: outstanding_def [of s])
  have sub: "distinct (frame_ids (outstanding (await_pop s)))"
    "\<not> ro_closed s \<Longrightarrow> set (frame_ids (outstanding (await_pop s))) \<subseteq> set (ro_pendingIds s)"
    using a inv by (cases "rd_generation d = ro_generation s"; auto simp: router_inv_def)+
  have gens: "\<forall>x \<in> set (held (await_pop s) @ queued (await_pop s)). rd_generation x \<le> ro_generation (await_pop s)"
    using f inv by (auto simp: router_inv_def)
  show "router_inv (await_pop s)" using inv f sub gens by (simp add: router_inv_def)
  assume cur: "rd_generation d = ro_generation s"
  define t where "t = forget_id (rd_frame d) s"
  have t: "ro_queue t = ro_queue s" "queued t = queued s" "ro_generation t = ro_generation s" "ro_closed t = ro_closed s"
    by (simp_all add: t_def forget_id_def queued_def split: option.split)
  note g = await_pop_facts [of t, unfolded t, OF w] await_pop_outstanding [of t, unfolded t, OF w]
  have same: "outstanding (await_pop t) = outstanding (await_pop s)" using f g by simp
  have dist: "distinct (frame_ids (d # outstanding (await_pop s)))" using inv a(1) [OF cur] by (simp add: router_inv_def)
  have "set (frame_ids (outstanding (await_pop s))) \<subseteq> set (ro_pendingIds t)" if "\<not> ro_closed s"
    using sub(2) [OF that] dist by (auto simp: t_def forget_id_def split: option.split)
  moreover have "\<forall>x \<in> set (held (await_pop t) @ queued (await_pop t)). rd_generation x \<le> ro_generation (await_pop t)"
    using g inv t by (auto simp: router_inv_def)
  ultimately have "router_inv (await_pop t)" using inv g sub same by (simp add: router_inv_def)
  with same show "router_inv (await_pop (forget_id (rd_frame d) s)) \<and>
      outstanding (await_pop (forget_id (rd_frame d) s)) = outstanding (await_pop s)" by (simp add: t_def)
qed

text \<open>What a step may do to the outstanding frames, and what it acknowledges.\<close>

inductive moves :: "'e router \<Rightarrow> 'e router_input \<Rightarrow> 'e router \<Rightarrow> 'e router_output list \<Rightarrow> bool"
  for s i s' out where
  stays: "outstanding s' = outstanding s \<Longrightarrow> acks out = [] \<Longrightarrow> moves s i s' out"
| accepts: "i = FrameIn f (Some e) \<Longrightarrow>
    outstanding s' = outstanding s @ [\<lparr>rd_event = e, rd_frame = f, rd_generation = ro_generation s\<rparr>] \<Longrightarrow>
    acks out = [] \<Longrightarrow> moves s i s' out"
| acknowledges: "outstanding s = d # outstanding s' \<Longrightarrow> acks out = [rd_frame d] \<Longrightarrow>
    rd_event d = None \<or> ro_sinks s = 0 \<or>
      i = SinkSettled True \<and> ro_drain s = Delivering d (ro_sinks s - 1) \<Longrightarrow> moves s i s' out"
| abandons: "ro_closed s \<Longrightarrow> outstanding s = d # outstanding s' \<Longrightarrow> acks out = [] \<Longrightarrow> moves s i s' out"
| restarts: "outstanding s' = [] \<Longrightarrow> acks out = [] \<Longrightarrow> ResetChannelCursor \<in> set out \<Longrightarrow> moves s i s' out"

lemma delivered_facts:
  assumes inv: "router_inv s" and h: "held s = [d]" and eq: "delivered d applied s = (s', out)"
  shows "router_inv s' \<and>
    (if rd_generation d = ro_generation s
     then outstanding s = d # outstanding s' \<and> acks out = (if applied \<and> \<not> ro_closed s then [rd_frame d] else [])
     else outstanding s' = outstanding s \<and> acks out = [])"
  using eq release_facts [OF inv h] by (auto simp: delivered_def passed_def split: if_splits)

lemma held_delivery:
  "held (s\<lparr>ro_drain := Delivering d i\<rparr>) = [d]" "queued (s\<lparr>ro_drain := Delivering d i\<rparr>) = queued s"
  by (simp_all add: held_def queued_def)

lemma deliver_next:
  assumes "router_inv s" "held s = [d]" "i < ro_sinks s"
  shows "router_inv (s\<lparr>ro_drain := Delivering d i\<rparr>) \<and> outstanding (s\<lparr>ro_drain := Delivering d i\<rparr>) = outstanding s"
proof -
  have "\<not> is_awaiting (ro_drain s)" using assms(2) by (cases "ro_drain s") (auto simp: held_def)
  then show ?thesis using assms by (auto simp: router_inv_def outstanding_def held_delivery)
qed

lemma drain_resumes_moves:
  assumes inv: "router_inv s" and eq: "drain_resumes s = (s', out)"
  shows "router_inv s' \<and> moves s DrainResumes s' out"
proof (cases "ro_drain s")
  case (PopSettled item)
  show ?thesis
  proof (cases item)
    case None
    then have "s' = s\<lparr>ro_drain := Stopped\<rparr>" "out = []" using eq PopSettled by (auto simp: drain_resumes_def)
    then show ?thesis using inv PopSettled None
      by (auto simp: router_inv_def held_def queued_def outstanding_def intro!: moves.stays)
  next
    case (Some d)
    then have h: "held s = [d]" using PopSettled by (simp add: held_def)
    note r = release_facts [OF inv h]
    show ?thesis
    proof (cases "rd_generation d = ro_generation s")
      case False
      then have "s' = await_pop s" "out = []" using eq PopSettled Some by (auto simp: drain_resumes_def)
      then show ?thesis using r False by (auto intro: moves.stays)
    next
      case True
      show ?thesis
      proof (cases "rd_event d")
        case None
        then have "s' = await_pop (forget_id (rd_frame d) s)" "out = [AcknowledgeFrame (rd_frame d)]"
          using eq PopSettled Some True by (auto simp: drain_resumes_def)
        then show ?thesis using r True None by (auto intro: moves.acknowledges)
      next
        case (Some e)
        have s': "(s', out) = (if ro_sinks s = 0 then delivered d True s else if passed d s then delivered d False s
            else (s\<lparr>ro_drain := Delivering d 0\<rparr>, [DeliverTo 0 e]))"
          using eq PopSettled \<open>item = Some d\<close> True Some by (simp add: drain_resumes_def split: if_splits)
        show ?thesis
        proof (cases "ro_sinks s = 0 \<or> passed d s")
          case False
          then have "s' = s\<lparr>ro_drain := Delivering d 0\<rparr>" "out = [DeliverTo 0 e]" using s' by auto
          then show ?thesis using deliver_next [OF inv h, of 0] False by (auto intro: moves.stays)
        next
          case c: True
          then obtain b where b: "delivered d b s = (s', out)" "b \<longrightarrow> ro_sinks s = 0" "\<not> b \<longrightarrow> passed d s"
            using s' by (cases "ro_sinks s = 0") (auto split: if_splits)
          note dd = delivered_facts [OF inv h b(1)]
          show ?thesis
          proof (cases "b \<and> \<not> ro_closed s")
            case True
            then show ?thesis using dd b \<open>rd_generation d = ro_generation s\<close> by (auto intro: moves.acknowledges)
          next
            case False
            then have "ro_closed s" using b(3) True by (auto simp: passed_def)
            then show ?thesis using dd True by (auto intro: moves.abandons)
          qed
        qed
      qed
    qed
  qed
qed (use inv eq in \<open>auto simp: drain_resumes_def intro: moves.stays\<close>)

lemma sink_settled_moves:
  assumes inv: "router_inv s" and eq: "sink_settled ok s = (s', out)"
  shows "router_inv s' \<and> moves s (SinkSettled ok) s' out"
proof (cases "ro_drain s")
  case (Delivering d i)
  then have h: "held s = [d]" by (simp add: held_def)
  consider "passed d s" | "\<not> passed d s" "\<not> ok" | "\<not> passed d s" ok "i + 1 < ro_sinks s" "rd_event d \<noteq> None"
    | "\<not> passed d s" ok "\<not> (i + 1 < ro_sinks s \<and> rd_event d \<noteq> None)" by blast
  then show ?thesis
  proof cases
    case 1
    then have "delivered d False s = (s', out)" using eq Delivering by (simp add: sink_settled_def)
    from delivered_facts [OF inv h this] 1 show ?thesis
      by (cases "rd_generation d = ro_generation s") (auto simp: passed_def intro: moves.stays moves.abandons)
  next
    case 2
    obtain s1 out1 where r: "reset_router s = (s1, out1)" by (cases "reset_router s")
    obtain s2 out2 where dl: "delivered d False s1 = (s2, out2)" by (cases "delivered d False s1")
    have opened: "\<not> ro_closed s" using 2 by (simp add: passed_def)
    note rf = reset_facts [OF inv opened r]
    have h1: "held s1 = [d]" using rf(7) Delivering by (simp add: held_def)
    have out: "s' = s2" "out = SinkFailed # out1 @ out2" using eq Delivering 2 r dl by (auto simp: sink_settled_def)
    have "rd_generation d \<noteq> ro_generation s1" using 2 rf(5) by (simp add: passed_def)
    then show ?thesis using delivered_facts [OF rf(1) h1 dl] rf out by (auto intro: moves.restarts)
  next
    case 3
    then have "s' = s\<lparr>ro_drain := Delivering d (i + 1)\<rparr>" "acks out = []"
      using eq Delivering by (auto simp: sink_settled_def split: option.splits)
    then show ?thesis using deliver_next [OF inv h, of "i + 1"] 3 by (auto intro: moves.stays)
  next
    case 4
    then have dl: "delivered d True s = (s', out)" using eq Delivering by (auto simp: sink_settled_def split: if_splits option.splits)
    have cur: "rd_generation d = ro_generation s" "\<not> ro_closed s" using 4 by (auto simp: passed_def)
    have "i < ro_sinks s" using inv Delivering by (simp add: router_inv_def)
    then have "rd_event d = None \<or> ro_sinks s = 0 \<or> SinkSettled ok = SinkSettled True \<and> ro_drain s = Delivering d (ro_sinks s - 1)"
      using 4 Delivering by (cases "rd_event d") auto
    then show ?thesis using delivered_facts [OF inv h dl] cur by (auto intro: moves.acknowledges)
  qed
qed (use inv eq in \<open>auto simp: sink_settled_def intro: moves.stays\<close>)

lemma close_router_moves:
  assumes inv: "router_inv s" and eq: "close_router s = (s', out)"
  shows "router_inv s' \<and> outstanding s' = outstanding s \<and> acks out = []"
proof (cases "ro_closed s")
  case True
  then show ?thesis using eq inv by (simp add: close_router_def)
next
  case False
  obtain q1 o1 where q1: "bq_signalAbort 0 (ro_queue s) = (q1, o1)" by (cases "bq_signalAbort 0 (ro_queue s)")
  obtain q2 o2 where q2: "bq_close q1 = (q2, o2)" by (cases "bq_close q1")
  have s': "s' = s\<lparr>ro_closed := True, ro_pendingIds := [], ro_queue := q2,
      ro_drain := (case ro_drain s of AwaitingPop _ \<Rightarrow> PopSettled None | d \<Rightarrow> d)\<rparr>" "acks out = []"
    using eq False q1 q2 by (auto simp: close_router_def)
  have inv2: "bq_inv q2"
    using bq_inv_close [of q1] bq_inv_signalAbort [of "ro_queue s" 0] inv q1 q2 by (simp add: router_inv_def)
  have q: "bq_ring q2 = bq_ring (ro_queue s)" "bq_closed q2" "bq_waiters q2 = []"
    using q1 q2 inv2 by (auto simp: bq_signalAbort_def bq_close_def bq_inv_def split: if_splits)
  have h: "held s' = held s" "queued s' = queued s" "\<not> is_awaiting (ro_drain s')" "sink_within (ro_sinks s') (ro_drain s')"
    using q inv by (cases "ro_drain s"; simp add: s' held_def queued_def router_inv_def)+
  then have "outstanding s' = outstanding s" by (simp add: outstanding_def s')
  then show ?thesis using inv inv2 q h s'(2) by (simp add: router_inv_def) (simp add: s')
qed

lemma onAny_moves:
  assumes inv: "router_inv s" and eq: "onAny f decoded s = (s', out)"
  shows "router_inv s' \<and> moves s (FrameIn f decoded) s' out"
proof -
  let ?dup = "case fr_id f of None \<Rightarrow> False | Some i \<Rightarrow> i \<in> set (ro_pendingIds s)"
  have resets: "router_inv s' \<and> moves s (FrameIn f decoded) s' out"
    if "reset_router s = (s', o1)" "\<not> ro_closed s" "out = os @ o1" "acks os = []" for o1 os
    using reset_facts [OF inv that(2,1)] that(3,4) by (auto intro: moves.restarts)
  have idle: "router_inv s' \<and> moves s (FrameIn f decoded) s' out" if "s' = s" "acks out = []"
    using that inv by (auto intro: moves.stays)
  consider "ro_closed s \<or> fr_type f = ''connected'' \<or> fr_type f = ''failure''"
    | "\<not> ro_closed s" "fr_type f = ''reset''"
    | "\<not> ro_closed s" "fr_type f \<notin> {''connected'', ''reset'', ''failure''}" ?dup
    | "\<not> ro_closed s" "fr_type f \<notin> {''connected'', ''reset'', ''failure''}" "\<not> ?dup" by auto
  then show ?thesis
  proof cases
    case 1
    then show ?thesis using eq idle by (auto simp: onAny_def split: if_splits)
  next
    case 2
    then have "reset_router s = (s', out)" using eq by (simp add: onAny_def)
    then show ?thesis using resets [of out "[]"] 2 by simp
  next
    case 3
    then show ?thesis using eq idle by (simp add: onAny_def)
  next
    case 4
    show ?thesis
    proof (cases decoded)
      case None
      obtain s1 o1 where "reset_router s = (s1, o1)" by (cases "reset_router s")
      then show ?thesis using eq 4 None resets [of o1 "[DecodeFailed]"] by (auto simp: onAny_def)
    next
      case (Some event)
      let ?d = "\<lparr>rd_event = event, rd_frame = f, rd_generation = ro_generation s\<rparr>"
      have "enqueue_frame ?d s = (s', out)" using eq 4 Some by (simp add: onAny_def)
      from enqueue_facts [OF inv 4(1) _ _ this] 4(3) show ?thesis
        using Some by (auto intro: moves.accepts moves.restarts split: option.splits)
    qed
  qed
qed

lemma router_step_moves:
  assumes inv: "router_inv s" and eq: "router_step s i = (s', out)"
  shows "router_inv s' \<and> moves s i s' out"
proof (cases i)
  case (FrameIn f decoded)
  then show ?thesis using onAny_moves [OF inv] eq by simp
next
  case DrainResumes
  then show ?thesis using drain_resumes_moves [OF inv] eq by simp
next
  case (SinkSettled ok)
  then show ?thesis using sink_settled_moves [OF inv] eq by simp
next
  case (ControlRejected g)
  then show ?thesis using inv eq by (auto intro: moves.stays)
next
  case (ChannelErrorHeard b)
  obtain s1 o1 where c: "close_router s = (s1, o1)" by (cases "close_router s")
  then have "(s', out) = (s, []) \<or> s' = s1 \<and> out = ChannelFailed # o1"
    using eq ChannelErrorHeard by (auto simp: channel_error_heard_def split: if_splits)
  then show ?thesis using close_router_moves [OF inv c] inv by (auto intro: moves.stays)
next
  case CloseRouter
  then show ?thesis using close_router_moves [OF inv] eq by (auto intro: moves.stays)
qed

lemma router_step_inv: "router_inv s \<Longrightarrow> router_inv (fst (router_step s i))"
  using router_step_moves [of s i "fst (router_step s i)" "snd (router_step s i)"] by simp

interpretation event_router: kept_invariant router_step router_inv
  by unfold_locales (rule router_step_inv)

lemma createEventRouter_inv:
  fixes s :: "'e router"
  assumes "createEventRouter c ov n cl rd = Some (s, out)"
  shows "router_inv s"
proof -
  obtain q :: "'e routed bqueue" where q: "createBoundedQueue c (Some ov) None = Inr q"
    using assms by (auto simp: createEventRouter_def split: sum.splits)
  let ?s0 = "\<lparr>ro_sinks = n, ro_queue = q, ro_generation = 0, ro_closed = False, ro_pendingIds = [], ro_drain = Stopped\<rparr>"
  have bq: "bq_inv (ro_queue ?s0)" "bq_waiters (ro_queue ?s0) = []" "bq_closed q = False" "queued ?s0 = []"
    using bq_inv_created [OF q] q by (auto simp: createBoundedQueue_def Let_def queued_def ring_items_def split: if_splits)
  have inv: "router_inv (await_pop ?s0)"
    using await_pop_facts [OF bq(1,2)] await_pop_outstanding [OF bq(1,2)] bq(3,4) by (simp add: router_inv_def)
  obtain s1 o1 where "close_router (await_pop ?s0) = (s1, o1)" by (cases "close_router (await_pop ?s0)")
  from close_router_moves [OF inv this] inv assms q \<open>close_router (await_pop ?s0) = (s1, o1)\<close> show ?thesis
    by (auto simp: createEventRouter_def channel_error_heard_def Let_def split: if_splits)
qed

section \<open>What is lost\<close>

text \<open>The frames a router takes no notice of, and the inputs by which an open router loses frames: a \<open>reset\<close> of
  the channel, a frame that does not decode, a frame for a full queue, a sink that fails.\<close>

definition ignores :: "'e router \<Rightarrow> frame \<Rightarrow> bool" where
  "ignores s f = (ro_closed s \<or> fr_type f = ''connected'' \<or> fr_type f = ''failure'' \<or>
     fr_type f \<noteq> ''reset'' \<and> (case fr_id f of None \<Rightarrow> False | Some i \<Rightarrow> i \<in> set (ro_pendingIds s)))"

definition queue_full :: "'e router \<Rightarrow> bool" where
  "queue_full s = (bq_waiters (ro_queue s) = [] \<and> bq_capacity (ro_queue s) \<le> buffered (bq_ring (ro_queue s)))"

fun loses :: "'e router \<Rightarrow> 'e router_input \<Rightarrow> bool" where
  "loses s (FrameIn f decoded) = (\<not> ignores s f \<and> (fr_type f = ''reset'' \<or> decoded = None \<or> queue_full s))"
| "loses s (SinkSettled ok) =
     (\<not> ok \<and> (case ro_drain s of Delivering d k \<Rightarrow> \<not> passed d s | _ \<Rightarrow> False))"
| "loses s i = False"

text \<open>A reset as an effect on the generation and the channel's cursor.\<close>

definition restarted :: "'e router \<Rightarrow> 'e router \<Rightarrow> 'e router_output list \<Rightarrow> bool" where
  "restarted s s' out = (acks out = [] \<and> ResetChannelCursor \<in> set out \<and> ro_generation s' = ro_generation s + 1 \<and>
     ro_closed s' = ro_closed s)"

definition goes_on :: "'e router \<Rightarrow> 'e router \<Rightarrow> 'e router_output list \<Rightarrow> bool" where
  "goes_on s s' out = (ResetChannelCursor \<notin> set out \<and> ro_generation s' = ro_generation s)"

lemma control_quiet: "acks (control b s) = []" "ResetChannelCursor \<notin> set (control b s)"
  by (auto simp: control_def acks_def)

lemma reset_restarted: "\<not> ro_closed s \<Longrightarrow> reset_router s = (s', out) \<Longrightarrow> restarted s s' out"
  by (auto simp: reset_router_def restarted_def control_quiet)

lemma drop_restarted: "\<not> ro_closed s \<Longrightarrow> reportDrop d s = (s', out) \<Longrightarrow> restarted s s' out"
  by (auto simp: reportDrop_def reset_router_def restarted_def control_quiet split: option.splits)

lemma restarted_queue [simp]: "restarted (s\<lparr>ro_queue := q\<rparr>) = restarted s"
  by (simp add: restarted_def fun_eq_iff)

lemma restarted_ids [simp]: "restarted (s\<lparr>ro_pendingIds := q\<rparr>) = restarted s"
  by (simp add: restarted_def fun_eq_iff)

lemma await_pop_goes [simp]: "ro_generation (await_pop s) = ro_generation s" "ro_closed (await_pop s) = ro_closed s"
  by (auto simp: await_pop_def Let_def split_beta split: list.split bq_out.split sum.split)

lemma forget_id_goes [simp]: "ro_generation (forget_id f s) = ro_generation s"
  by (simp add: forget_id_def split: option.split)

lemma delivered_goes: "delivered d applied s = (s', out) \<Longrightarrow> goes_on s s' out \<and> ro_closed s' = ro_closed s"
  by (auto simp: delivered_def goes_on_def forget_id_def split: if_splits option.splits)

lemma delivered_quiet: "delivered d False s = (s', out) \<Longrightarrow> acks out = []"
  by (auto simp: delivered_def split: if_splits)

lemmas delivered_goes_on = delivered_goes [THEN conjunct1]

lemma enqueue_restarts:
  assumes inv: "router_inv s" and opened: "\<not> ro_closed s" and eq: "enqueue_frame d s = (s', out)"
  shows "(if queue_full s then restarted s s' out else goes_on s s' out)"
proof -
  define s1 where "s1 = (case fr_id (rd_frame d) of None \<Rightarrow> s | Some i \<Rightarrow> s\<lparr>ro_pendingIds := i # ro_pendingIds s\<rparr>)"
  let ?q = "ro_queue s"
  have s1: "ro_queue s1 = ?q" "ro_generation s1 = ro_generation s" "ro_closed s1 = ro_closed s" "restarted s1 = restarted s"
    by (simp_all add: s1_def split: option.split)
  have eff: "queue_effects d (snd (bq_push d ?q)) (s1\<lparr>ro_queue := fst (bq_push d ?q)\<rparr>) = (s', out)"
    using eq by (simp add: enqueue_frame_def s1_def [symmetric] s1(1) split_beta Let_def)
  have bq: "bq_inv ?q" "\<not> bq_closed ?q" using inv opened by (simp_all add: router_inv_def)
  show ?thesis
  proof (cases "queue_full s")
    case False
    then show ?thesis using eff bq(2) s1
      by (auto simp: queue_full_def bq_push_def goes_on_def split: list.splits)
  next
    case True
    have drop: "restarted s s1' o1" if "reportDrop x (s1\<lparr>ro_queue := q\<rparr>) = (s1', o1)" for x q s1' o1
      using drop_restarted [OF _ that] opened s1 by simp
    have "0 < buffered (bq_ring ?q)" using True bq(1) by (simp add: bq_inv_def queue_full_def)
    then obtain y ys where ys: "ring_items (bq_ring ?q) = y # ys" using ring_nonempty by blast
    obtain r' where "takeHead (bq_ring ?q) = (Some y, r')" by (rule bq_take [OF bq(1) ys])
    then show ?thesis using True eff bq(2) drop
      by (cases "bq_overflow ?q") (auto simp: queue_full_def bq_push_def split: prod.splits)
  qed
qed

lemma onAny_restarts:
  assumes inv: "router_inv s" and eq: "onAny f decoded s = (s', out)"
  shows "if loses s (FrameIn f decoded) then restarted s s' out else goes_on s s' out"
proof -
  note en = enqueue_restarts [OF inv, of "\<lparr>rd_event = e, rd_frame = f, rd_generation = ro_generation s\<rparr>" s' out for e]
  show ?thesis
  proof (cases "ignores s f")
    case True
    then show ?thesis using eq by (auto simp: ignores_def onAny_def goes_on_def control_quiet split: if_splits)
  next
    case False
    then show ?thesis
    proof (cases "fr_type f = ''reset''")
      case True
      then show ?thesis using False eq by (auto simp: ignores_def onAny_def intro: reset_restarted)
    next
      case r: False
      then have op: "\<not> ro_closed s" and e: "onAny f decoded s = (case decoded of
          None \<Rightarrow> (let (s', out) = reset_router s in (s', DecodeFailed # out))
        | Some event \<Rightarrow> enqueue_frame \<lparr>rd_event = event, rd_frame = f, rd_generation = ro_generation s\<rparr> s)"
        using False by (auto simp: ignores_def onAny_def)
      show ?thesis
      proof (cases decoded)
        case None
        then show ?thesis using eq e False reset_restarted [OF op]
          by (auto simp: restarted_def split: prod.splits)
      next
        case (Some ev)
        then show ?thesis using eq e False r en [OF op] by simp
      qed
    qed
  qed
qed

lemma sink_settled_restarts:
  assumes eq: "sink_settled ok s = (s', out)"
  shows "if loses s (SinkSettled ok) then restarted s s' out else goes_on s s' out"
proof (cases "ro_drain s")
  case (Delivering d k)
  show ?thesis
  proof (cases "loses s (SinkSettled ok)")
    case True
    obtain s1 out1 where r: "reset_router s = (s1, out1)" by (cases "reset_router s")
    obtain s2 out2 where dl: "delivered d False s1 = (s2, out2)" by (cases "delivered d False s1")
    have "\<not> ro_closed s" using True Delivering by (simp add: passed_def)
    then show ?thesis using True Delivering eq r dl reset_restarted [of s s1 out1] delivered_goes [OF dl] delivered_quiet [OF dl]
      by (auto simp: sink_settled_def restarted_def goes_on_def)
  next
    case False
    have idle: "goes_on s (s\<lparr>ro_drain := x\<rparr>) [DeliverTo j e]" for x j e by (simp add: goes_on_def)
    show ?thesis using False Delivering eq
      by (auto simp: sink_settled_def split: if_splits option.splits intro: idle delivered_goes_on)
  qed
qed (use eq in \<open>auto simp: sink_settled_def goes_on_def\<close>)

lemma close_goes: "close_router s = (s', out) \<Longrightarrow> goes_on s s' out"
  by (auto simp: close_router_def goes_on_def Let_def split: if_splits prod.splits)

lemma step_restarts:
  assumes inv: "router_inv s" and eq: "router_step s i = (s', out)"
  shows "if loses s i then restarted s s' out else goes_on s s' out"
proof (cases i)
  case DrainResumes
  have idle: "goes_on s (s\<lparr>ro_drain := x\<rparr>) [DeliverTo k e]" "goes_on s (s\<lparr>ro_drain := x\<rparr>) []" "goes_on r r []"
    "goes_on s (await_pop s) []" "goes_on s (await_pop (forget_id f s)) [AcknowledgeFrame f]" for x k e f r
    by (simp_all add: goes_on_def)
  show ?thesis using DrainResumes eq
    by (auto simp: drain_resumes_def split: drain.splits option.splits if_splits intro: idle delivered_goes_on)
next
  case (ChannelErrorHeard b)
  then show ?thesis using eq close_goes
    by (auto simp: channel_error_heard_def split: if_splits prod.splits) (auto simp: goes_on_def)
next
  case (FrameIn f decoded)
  then show ?thesis using eq onAny_restarts [OF inv, of f decoded s' out] by simp
next
  case (SinkSettled ok)
  then show ?thesis using eq sink_settled_restarts [of ok s s' out] by simp
next
  case CloseRouter
  then show ?thesis using eq close_goes [of s s' out] by simp
qed (use eq in \<open>auto simp: goes_on_def\<close>)

text \<open>A generation that has passed has nothing outstanding.\<close>

lemma restart_empties:
  assumes "moves s i s' out" "ro_generation s' = ro_generation s + 1"
  shows "outstanding s' = []"
proof -
  have "\<forall>d \<in> set (outstanding s). rd_generation d = ro_generation s"
    "\<forall>d \<in> set (outstanding s'). rd_generation d = ro_generation s + 1"
    using assms(2) by (auto simp: outstanding_def)
  with assms(1) show ?thesis by cases (cases "outstanding s'"; fastforce)+
qed

lemma frame_accepted:
  assumes inv: "router_inv s" and eq: "router_step s (FrameIn f decoded) = (s', out)"
    and l: "\<not> loses s (FrameIn f decoded)"
  shows "acks out = [] \<and> outstanding s' = (if ignores s f then outstanding s
    else outstanding s @ [\<lparr>rd_event = the decoded, rd_frame = f, rd_generation = ro_generation s\<rparr>])"
proof (cases "ignores s f")
  case True
  then have "s' = s" "acks out = []" using eq by (auto simp: ignores_def onAny_def control_quiet split: if_splits)
  then show ?thesis using True by simp
next
  case False
  then obtain e where e: "decoded = Some e" "enqueue_frame \<lparr>rd_event = e, rd_frame = f, rd_generation = ro_generation s\<rparr> s = (s', out)"
    "\<not> ro_closed s" "\<And>i. fr_id f = Some i \<Longrightarrow> i \<notin> set (ro_pendingIds s)"
    using l eq by (auto simp: ignores_def onAny_def split: option.splits)
  have "ResetChannelCursor \<notin> set out" using step_restarts [OF inv eq] l
    by (auto simp: goes_on_def split: if_splits)
  then show ?thesis using enqueue_facts [OF inv e(3) _ _ e(2)] e(1,4) False by simp
qed

section \<open>Properties\<close>

text \<open>Claim C17: acknowledgements never skip a gap. Whatever frames arrive, however the sinks settle, the
  frames of the current generation not yet acknowledged form a queue of distinct ids. A \<open>reset\<close> of the
  channel, a frame that does not decode, a frame for a full queue (whichever frame it drops) and a sink
  that fails empty this queue, reset the channel's resume cursor and start the next generation, and nothing
  is acknowledged; no other step resets the cursor. Every other frame that is not ignored is appended; a
  step acknowledges at most the oldest frame, after its last sink has applied it (or when the decoder dropped
  it or there is no sink), and only a closed router lets go of its oldest frame without acknowledging it.\<close>

theorem acknowledgement_skips_no_gap:
  assumes "createEventRouter capacity overflow n closedWithError channelReady = Some (s0, out0)"
    and "run router_step s0 is = (s, out)" and "router_step s i = (s', out')"
  shows "distinct (frame_ids (outstanding s)) \<and>
    (if loses s i
     then outstanding s' = [] \<and> acks out' = [] \<and> ResetChannelCursor \<in> set out' \<and>
       ro_generation s' = ro_generation s + 1
     else ResetChannelCursor \<notin> set out' \<and> ro_generation s' = ro_generation s \<and>
       (case i of
          FrameIn f decoded \<Rightarrow> acks out' = [] \<and> outstanding s' = (if ignores s f then outstanding s
            else outstanding s @ [\<lparr>rd_event = the decoded, rd_frame = f, rd_generation = ro_generation s\<rparr>])
        | _ \<Rightarrow> outstanding s' = outstanding s \<and> acks out' = [] \<or>
            (\<exists>d. outstanding s = d # outstanding s' \<and>
              (acks out' = [rd_frame d] \<and> (rd_event d = None \<or> ro_sinks s = 0 \<or>
                 i = SinkSettled True \<and> ro_drain s = Delivering d (ro_sinks s - 1)) \<or>
               acks out' = [] \<and> ro_closed s))))"
proof -
  have inv: "router_inv s"
    using event_router.run_inv [OF createEventRouter_inv [OF assms(1)], of "is"] assms(2) by simp
  then have ids: "distinct (frame_ids (outstanding s))" by (simp add: router_inv_def)
  have m: "moves s i s' out'" using router_step_moves [OF inv assms(3)] by blast
  note r = step_restarts [OF inv assms(3)]
  show ?thesis
  proof (cases "loses s i")
    case True
    then show ?thesis using ids r restart_empties [OF m] by (simp add: restarted_def)
  next
    case False
    then have g: "ResetChannelCursor \<notin> set out'" "ro_generation s' = ro_generation s" using r by (simp_all add: goes_on_def)
    show ?thesis
    proof (cases "\<exists>f decoded. i = FrameIn f decoded")
      case True
      then show ?thesis using ids g False frame_accepted [OF inv] assms(3) by auto
    next
      case other: False
      have "outstanding s' = outstanding s \<and> acks out' = [] \<or>
            (\<exists>d. outstanding s = d # outstanding s' \<and>
              (acks out' = [rd_frame d] \<and> (rd_event d = None \<or> ro_sinks s = 0 \<or>
                 i = SinkSettled True \<and> ro_drain s = Delivering d (ro_sinks s - 1)) \<or>
               acks out' = [] \<and> ro_closed s))"
        using m other g by cases auto
      then show ?thesis using ids g False other by (cases i) auto
    qed
  qed
qed

definition routed_frame :: frame where
  "routed_frame = \<lparr>fr_obj = 1, fr_type = ''order'', fr_id = Some ''a'', fr_data = None, fr_retry = None\<rparr>"

definition routed_start :: "nat router" where
  "routed_start = \<lparr>ro_sinks = 1,
     ro_queue = \<lparr>bq_capacity = 4, bq_maxWaiters = 4, bq_overflow = DropOldest, bq_ring = ([], 0),
       bq_waiters = [\<lparr>w_promise = 0, w_signal = Some 0\<rparr>], bq_closed = False, bq_next = 1\<rparr>,
     ro_generation = 0, ro_closed = False, ro_pendingIds = [], ro_drain = AwaitingPop 0\<rparr>"

definition routed_run :: "nat router_input list" where
  "routed_run = [FrameIn routed_frame (Some (Some 7)), DrainResumes]"

lemma routed_created: "createEventRouter (Fin 4) DropOldest 1 False True = Some (routed_start, [ControlSink 0 False])"
  by (simp add: routed_start_def createEventRouter_def createBoundedQueue_def isPositiveInteger_def
      is_safe_integer_def max_safe_integer_def nat_of_num_def await_pop_def bq_pop_def ring_items_def
      control_def takeHead_def Let_def)

lemma routed_delivers:
  "run router_step routed_start routed_run = (routed_start\<lparr>ro_queue := (ro_queue routed_start)\<lparr>bq_waiters := []\<rparr>,
     ro_pendingIds := [''a''],
     ro_drain := Delivering \<lparr>rd_event = Some 7, rd_frame = routed_frame, rd_generation = 0\<rparr> 0\<rparr>, [DeliverTo 0 7])"
  by (simp add: routed_run_def routed_start_def createEventRouter_def createBoundedQueue_def isPositiveInteger_def
      is_safe_integer_def max_safe_integer_def nat_of_num_def await_pop_def bq_pop_def ring_items_def
      control_def takeHead_def Let_def onAny_def enqueue_frame_def routed_frame_def bq_push_def
      drain_resumes_def passed_def)

theorem acknowledgement_skips_no_gap_witness:
  "\<exists>s out s' out'. createEventRouter (Fin 4) DropOldest 1 False True = Some (routed_start, [ControlSink 0 False]) \<and>
     run router_step routed_start routed_run = (s, out) \<and> router_step s (SinkSettled True) = (s', out') \<and>
     acks out' = [routed_frame] \<and> length (outstanding s) = Suc (length (outstanding s'))"
proof -
  obtain s out where r: "run router_step routed_start routed_run = (s, out)" by (meson surj_pair)
  obtain s' out' where st: "router_step s (SinkSettled True) = (s', out')" by (meson surj_pair)
  have s: "ro_drain s = Delivering \<lparr>rd_event = Some 7, rd_frame = routed_frame, rd_generation = 0\<rparr> 0"
    "ro_sinks s = 1" "ro_generation s = 0" "\<not> ro_closed s"
    using r unfolding routed_delivers by (auto simp: routed_start_def)
  have "acks out' = [routed_frame]" using st s by (auto simp: sink_settled_def passed_def delivered_def)
  with acknowledgement_skips_no_gap [OF routed_created r st] r st routed_created show ?thesis by auto
qed

end
