(* ===== verification/Redaction.thy ===== *)
theory Redaction imports JS_Strings JS_Values JS_Map begin

text \<open>
  Redaction of values before they leave a trust boundary, \<^verbatim>\<open>packages/std/src/privacy/redact.ts\<close>: the
  vocabulary of sensitive keys, the shapes of secret strings and the walk over a value. The regular
  expressions are written out as scanners; none of them backtracks, since adjacent classes are
  disjoint. Values are trees (theory \<open>JS_Values\<close>), so cycles, accessors and dates do not occur.
\<close>

section \<open>Sensitive keys\<close>

definition DEFAULT_SENSITIVE_KEYS :: "string list" where
  "DEFAULT_SENSITIVE_KEYS = [''authorization'', ''cookie'', ''set-cookie'', ''token'', ''access_token'',
     ''refresh_token'', ''id_token'', ''password'', ''passwd'', ''secret'', ''client_secret'', ''api_key'',
     ''apikey'', ''session'', ''sessionid'', ''credential'', ''private_key'']"

definition normalizeKey :: "string \<Rightarrow> string" where
  "normalizeKey key = filter (\<lambda>c. c \<notin> {CHR ''-'', CHR ''_'', CHR ''.''}) (toLowerCase key)"

definition NORMALIZED_SENSITIVE_KEYS :: "string list" where
  "NORMALIZED_SENSITIVE_KEYS = map normalizeKey DEFAULT_SENSITIVE_KEYS"

definition isSensitiveKey :: "string \<Rightarrow> string list \<Rightarrow> bool" where
  "isSensitiveKey key extraKeys =
     (list_ex (js_includes (normalizeKey key)) NORMALIZED_SENSITIVE_KEYS \<or>
      list_ex (\<lambda>extra. js_includes (normalizeKey key) (normalizeKey extra)) extraKeys)"

section \<open>Secret strings\<close>

text \<open>\<open>JWT_PATTERN\<close> and \<open>BEARER_PATTERN\<close>.\<close>

definition is_base64url :: "char \<Rightarrow> bool" where
  "is_base64url c = (is_word c \<or> c = CHR ''-'')"

definition jwt_pattern :: "string \<Rightarrow> bool" where
  "jwt_pattern s =
     (startsWith s ''eyJ'' \<and>
      (let r1 = dropWhile is_base64url (drop 3 s); p2 = takeWhile is_base64url (tl r1); r2 = dropWhile is_base64url (tl r1)
       in startsWith r1 ''.'' \<and> p2 \<noteq> [] \<and> startsWith r2 ''.'' \<and> list_all is_base64url (tl r2)))"

definition bearer_pattern :: "string \<Rightarrow> bool" where
  "bearer_pattern s =
     (startsWith (toLowerCase s) ''bearer'' \<and>
      (let r = drop 6 s; r1 = dropWhile is_space r in r1 \<noteq> r \<and> r1 \<noteq> []))"

definition looksSecret :: "string \<Rightarrow> bool" where
  "looksSecret s = (jwt_pattern s \<or> bearer_pattern s)"

text \<open>The class of a masked token, everything but white space and the delimiters.\<close>

definition is_token_char :: "char \<Rightarrow> bool" where
  "is_token_char c = (\<not> is_space c \<and> c \<notin> set [CHR ''&'', CHR '';'', CHR '','', CHR 0x22, CHR 0x27, CHR ''?'', CHR ''#''])"

text \<open>\<open>EMBEDDED_AUTH_SCHEME_PATTERN\<close> at the head of a string: the matched text and the rest.\<close>

definition auth_schemes :: "string list" where
  "auth_schemes = [''bearer'', ''dpop'', ''basic'', ''digest'', ''negotiate'', ''ntlm'']"

definition match_scheme :: "string \<Rightarrow> (string \<times> string) option" where
  "match_scheme s =
     (case find (startsWith (toLowerCase s)) auth_schemes of
        None \<Rightarrow> None
      | Some w \<Rightarrow>
          let r = drop (length w) s; r1 = dropWhile is_space r; r2 = dropWhile is_token_char r1
          in if r1 = r \<or> r2 = r1 then None else Some (take (length s - length r2) s, r2))"

text \<open>The replacement string of \<open>replace\<close>: \<open>$$\<close>, \<open>$&\<close> and the text before or after the match are
  substituted. No group is captured, so other sequences stand for themselves.\<close>

fun substitution :: "string \<Rightarrow> string \<Rightarrow> string \<Rightarrow> string \<Rightarrow> string" where
  "substitution before matched after (c # d # cs) =
     (if c = CHR ''$'' \<and> d = CHR ''$'' then CHR ''$'' # substitution before matched after cs
      else if c = CHR ''$'' \<and> d = CHR ''&'' then matched @ substitution before matched after cs
      else if c = CHR ''$'' \<and> d = CHR 0x60 then before @ substitution before matched after cs
      else if c = CHR ''$'' \<and> d = CHR 0x27 then after @ substitution before matched after cs
      else c # substitution before matched after (d # cs))"
| "substitution before matched after cs = cs"

lemma match_scheme_shorter: "match_scheme s = Some (m, r) \<Longrightarrow> length r < length s"
proof -
  assume eq: "match_scheme s = Some (m, r)"
  then obtain w where "find (startsWith (toLowerCase s)) auth_schemes = Some w"
    by (auto simp: match_scheme_def split: option.splits)
  with eq have w: "dropWhile is_token_char (dropWhile is_space (drop (length w) s)) = r"
    "dropWhile is_space (drop (length w) s) \<noteq> drop (length w) s"
    by (auto simp: match_scheme_def Let_def split: if_splits)
  have "length r \<le> length (dropWhile is_space (drop (length w) s))"
    using w(1) length_dropWhile_le by blast
  moreover have "length (dropWhile is_space (drop (length w) s)) < length (drop (length w) s)"
    using w(2) by (metis append_same_eq append_self_conv2 le_neq_implies_less length_append length_dropWhile_le self_append_conv2 takeWhile_dropWhile_id add_cancel_left_left length_0_conv)
  ultimately show ?thesis by simp
qed

text \<open>\<open>\b\<close> before a letter: what precedes is no word character.\<close>

definition at_boundary :: "string \<Rightarrow> bool" where
  "at_boundary before = (before = [] \<or> \<not> is_word (last before))"

function mask_schemes :: "string \<Rightarrow> string \<Rightarrow> string \<Rightarrow> string" where
  "mask_schemes mk before [] = []"
| "mask_schemes mk before (c # cs) =
     (case (if at_boundary before then match_scheme (c # cs) else None) of
        Some (m, r) \<Rightarrow> substitution before m r mk @ mask_schemes mk (before @ m) r
      | None \<Rightarrow> c # mask_schemes mk (before @ [c]) cs)"
  by pat_completeness auto
termination
  by (relation "measure (\<lambda>(_, _, s). length s)") (auto dest: match_scheme_shorter split: if_splits)

definition maskCredentialSchemes :: "string \<Rightarrow> string \<Rightarrow> string" where
  "maskCredentialSchemes s mk = mask_schemes mk [] s"

text \<open>\<open>EMBEDDED_SECRET_PATTERN\<close> at the head of a string: key, separator, value and the rest.\<close>

definition is_key_char :: "char \<Rightarrow> bool" where
  "is_key_char c = (is_word c \<or> c = CHR ''.'' \<or> c = CHR ''-'')"

definition match_pair :: "string \<Rightarrow> (string \<times> string \<times> string \<times> string) option" where
  "match_pair s =
     (if s = [] \<or> \<not> is_letter (hd s) then None
      else let key = hd s # take 127 (takeWhile is_key_char (tl s));
               r = drop (length key) s;
               s1 = takeWhile is_space r; r1 = dropWhile is_space r;
               s2 = takeWhile is_space (tl r1); r2 = dropWhile is_space (tl r1);
               val = takeWhile is_token_char r2
        in if r1 = [] \<or> hd r1 \<notin> {CHR ''='', CHR '':''} \<or> val = [] then None
           else Some (key, s1 @ [hd r1] @ s2, val, dropWhile is_token_char r2))"

lemma match_pair_splits:
  assumes "match_pair s = Some (key, sep, val, rest)"
  shows "s = key @ sep @ val @ rest" "key \<noteq> []" "sep \<noteq> []" "val \<noteq> []"
proof -
  define k where "k = hd s # take 127 (takeWhile is_key_char (tl s))"
  have s: "s \<noteq> []" "key = k"
    using assms by (auto simp: match_pair_def k_def Let_def split: if_splits)
  have pre: "s = k @ drop (length k) s"
  proof -
    have "take (length (take 127 (takeWhile is_key_char (tl s)))) (tl s) = take 127 (takeWhile is_key_char (tl s))"
      by (metis append_eq_conv_conj append_take_drop_id takeWhile_dropWhile_id append.assoc)
    then show ?thesis using s
      by (cases s) (auto simp: k_def, metis append_take_drop_id)
  qed
  let ?r = "drop (length k) s"
  have eq: "sep = takeWhile is_space ?r @ [hd (dropWhile is_space ?r)] @ takeWhile is_space (tl (dropWhile is_space ?r))"
    "val = takeWhile is_token_char (dropWhile is_space (tl (dropWhile is_space ?r)))"
    "rest = dropWhile is_token_char (dropWhile is_space (tl (dropWhile is_space ?r)))"
    "dropWhile is_space ?r \<noteq> []" "val \<noteq> []"
    using assms by (auto simp: match_pair_def k_def [symmetric] Let_def split: if_splits)
  have "?r = sep @ val @ rest"
    using eq(4) by (simp add: eq)
  with pre s show "s = key @ sep @ val @ rest" by simp
  show "key \<noteq> []" "sep \<noteq> []" "val \<noteq> []" using s eq by (auto simp: k_def)
qed

lemma match_pair_shorter: "match_pair s = Some (key, sep, val, rest) \<Longrightarrow> length rest < length s"
  using match_pair_splits [of s key sep val rest] by auto

function mask_pairs :: "string \<Rightarrow> (string \<Rightarrow> bool) \<Rightarrow> string \<Rightarrow> string" where
  "mask_pairs mk isSensitive [] = []"
| "mask_pairs mk isSensitive (c # cs) =
     (case match_pair (c # cs) of
        Some (key, sep, val, r) \<Rightarrow>
          (if isSensitive key then key @ sep @ mk else key @ sep @ val) @ mask_pairs mk isSensitive r
      | None \<Rightarrow> c # mask_pairs mk isSensitive cs)"
  by pat_completeness auto
termination
  by (relation "measure (\<lambda>(_, _, s). length s)") (auto dest: match_pair_shorter)

definition maskEmbeddedSecrets :: "string \<Rightarrow> string \<Rightarrow> (string \<Rightarrow> bool) \<Rightarrow> string" where
  "maskEmbeddedSecrets s mk isSensitive = mask_pairs mk isSensitive s"

section \<open>The walk\<close>

record redact_options =
  rx_keys :: "string list"
  rx_mask :: "string option"
  rx_maxDepth :: "jsnum option"
  rx_maxItems :: "jsnum option"

definition default_mask :: string where
  "default_mask = ''[REDACTED]''"

definition mask_string :: "string \<Rightarrow> string list \<Rightarrow> string \<Rightarrow> string" where
  "mask_string mk keys s =
     (if looksSecret s then mk
      else maskEmbeddedSecrets (maskCredentialSchemes s mk) mk (\<lambda>key. isSensitiveKey key keys))"

text \<open>\<open>maxItems\<close> is None for the largest safe integer, which no object reaches; \<open>count_text\<close> prints a count.
  An own property stored under \<open>[truncated]\<close> is overwritten by the marker (\<open>Object.fromEntries\<close>).\<close>

fun redact_walk :: "(nat \<Rightarrow> string) \<Rightarrow> string \<Rightarrow> string list \<Rightarrow> nat \<Rightarrow> nat option \<Rightarrow> nat \<Rightarrow> jsval \<Rightarrow> jsval" where
  "redact_walk count_text mk keys maxDepth maxItems depth (JStr s) = JStr (mask_string mk keys s)"
| "redact_walk count_text mk keys maxDepth maxItems depth (JFunction f) = JStr ''[Function]''"
| "redact_walk count_text mk keys maxDepth maxItems depth (JArray xs) =
     (if maxDepth \<le> depth then JStr ''[Truncated]''
      else let items = map (redact_walk count_text mk keys maxDepth maxItems (depth + 1)) xs
        in JArray (case maxItems of
             None \<Rightarrow> items
           | Some n \<Rightarrow> take n items @
               (if length xs > n then [JStr (''[+'' @ count_text (length xs - n) @ '' more]'')] else [])))"
| "redact_walk count_text mk keys maxDepth maxItems depth (JObject plain ps) =
     (if maxDepth \<le> depth then JStr ''[Truncated]''
      else let entries = map (\<lambda>(k, v).
             (k, if isSensitiveKey k keys then JStr mk
                 else redact_walk count_text mk keys maxDepth maxItems (depth + 1) v)) ps
        in JObject True (map_new (case maxItems of
             None \<Rightarrow> entries
           | Some n \<Rightarrow> take n entries @
               (if length ps > n then [(''[truncated]'', JStr ''[Truncated]'')] else []))))"
| "redact_walk count_text mk keys maxDepth maxItems depth v = v"

text \<open>None stands for the \<open>RangeError\<close> of an invalid limit.\<close>

definition redact :: "(nat \<Rightarrow> string) \<Rightarrow> redact_options \<Rightarrow> jsval \<Rightarrow> jsval option" where
  "redact count_text opts v =
     (let maxDepth = (case rx_maxDepth opts of None \<Rightarrow> Fin 6 | Some d \<Rightarrow> d);
          mk = (case rx_mask opts of None \<Rightarrow> default_mask | Some m \<Rightarrow> m)
      in if \<not> isNonNegativeInteger maxDepth then None
         else if (case rx_maxItems opts of None \<Rightarrow> False | Some n \<Rightarrow> \<not> isNonNegativeInteger n) then None
         else Some (redact_walk count_text mk (rx_keys opts) (nat_of_num maxDepth)
           (map_option nat_of_num (rx_maxItems opts)) 0 v))"

section \<open>No value survives under a sensitive key\<close>

definition is_marker :: "string \<times> jsval \<Rightarrow> bool" where
  "is_marker p = (p = (''[truncated]'', JStr ''[Truncated]''))"

fun masked_keys :: "string \<Rightarrow> string list \<Rightarrow> jsval \<Rightarrow> bool" where
  "masked_keys mk keys (JArray xs) = (\<forall>x \<in> set xs. masked_keys mk keys x)"
| "masked_keys mk keys (JObject _ ps) =
     (\<forall>p \<in> set ps. if isSensitiveKey (fst p) keys then snd p = JStr mk \<or> is_marker p
        else masked_keys mk keys (snd p))"
| "masked_keys mk keys _ = True"

lemma map_new_subset: "set (map_new es) \<subseteq> set es"
proof -
  have "set (foldl (\<lambda>m (k, v). map_set k v m) m es) \<subseteq> set m \<union> set es" for m :: "('a \<times> 'b) list"
  proof (induction es arbitrary: m)
    case (Cons e es)
    have "set (map_set (fst e) (snd e) m) \<subseteq> insert e (set m)" using map_set_values by fastforce
    with Cons.IH [of "map_set (fst e) (snd e) m"] show ?case by (auto simp: split_beta)
  qed simp
  from this [of "[]"] show ?thesis by (simp add: map_new_def)
qed

text \<open>The entries of a redacted object.\<close>

lemma walk_object:
  assumes "\<not> md \<le> depth"
  shows "\<exists>es. redact_walk ct mk keys md mi depth (JObject plain ps) = JObject True es \<and> wf_map es \<and>
    (\<forall>p \<in> set es. is_marker p \<or> (\<exists>v. (fst p, v) \<in> set ps \<and>
       snd p = (if isSensitiveKey (fst p) keys then JStr mk else redact_walk ct mk keys md mi (depth + 1) v)))"
proof -
  let ?e = "\<lambda>(k, v). (k, if isSensitiveKey k keys then JStr mk else redact_walk ct mk keys md mi (depth + 1) v)"
  let ?es = "case mi of None \<Rightarrow> map ?e ps | Some n \<Rightarrow> take n (map ?e ps) @
    (if length ps > n then [(''[truncated]'', JStr ''[Truncated]'')] else [])"
  have "set ?es \<subseteq> insert (''[truncated]'', JStr ''[Truncated]'') (?e ` set ps)"
    by (auto dest!: in_set_takeD split: option.splits if_splits)
  then have "set (map_new ?es) \<subseteq> insert (''[truncated]'', JStr ''[Truncated]'') (?e ` set ps)"
    using map_new_subset [of ?es] by blast
  moreover have "\<forall>p \<in> insert (''[truncated]'', JStr ''[Truncated]'') (?e ` set ps). is_marker p \<or> (\<exists>v. (fst p, v) \<in> set ps \<and>
       snd p = (if isSensitiveKey (fst p) keys then JStr mk else redact_walk ct mk keys md mi (depth + 1) v))"
    by (auto simp: is_marker_def)
  ultimately have "\<forall>p \<in> set (map_new ?es). is_marker p \<or> (\<exists>v. (fst p, v) \<in> set ps \<and>
       snd p = (if isSensitiveKey (fst p) keys then JStr mk else redact_walk ct mk keys md mi (depth + 1) v))"
    by (meson subsetD)
  then show ?thesis using assms by (simp only: redact_walk.simps Let_def if_False) blast
qed

lemma walk_masks: "masked_keys mk keys (redact_walk count_text mk keys maxDepth maxItems depth v)"
proof (induction count_text mk keys maxDepth maxItems depth v rule: redact_walk.induct)
  case (3 ct mk keys md mi depth xs)
  then show ?case by (cases mi) (auto simp: Let_def dest!: in_set_takeD)
next
  case (4 ct mk keys md mi depth plain ps)
  show ?case
  proof (cases "md \<le> depth")
    case False
    from walk_object [OF this, of ct mk keys mi plain ps] 4 False show ?thesis
      by (auto simp: is_marker_def split: if_splits simp del: redact_walk.simps)
  qed simp
qed auto

lemma walk_wf: "wf_val (redact_walk count_text mk keys maxDepth maxItems depth v)"
proof (induction count_text mk keys maxDepth maxItems depth v rule: redact_walk.induct)
  case (3 ct mk keys md mi depth xs)
  then show ?case by (cases mi) (auto simp: Let_def dest!: in_set_takeD)
next
  case (4 ct mk keys md mi depth plain ps)
  show ?case
  proof (cases "md \<le> depth")
    case False
    from walk_object [OF this, of ct mk keys mi plain ps] 4 False show ?thesis
      by (auto simp: is_marker_def split: if_splits simp del: redact_walk.simps)
  qed simp
qed auto

end
