(* ===== verification/Bounded_Json.thy ===== *)
theory Bounded_Json imports Redaction "HOL-Library.Sublist" begin

text \<open>
  Bounding a value to a JSON tree, \<open>toBoundedJson\<close> of \<^verbatim>\<open>packages/std/src/encoding/json.ts\<close>, and the
  size \<open>JSON.stringify\<close> gives a tree. How the language prints a number is an argument.
\<close>

section \<open>The text of a JSON tree\<close>

text \<open>\<open>JSON.stringify\<close> of a string: quotes, backslashes and control characters are escaped.\<close>

definition hex_digit :: "nat \<Rightarrow> char" where
  "hex_digit n = (if n < 10 then char_of (48 + n) else char_of (87 + n))"

definition json_char :: "char \<Rightarrow> string" where
  "json_char c =
     (let n = unit_of c
      in if c = CHR 0x22 \<or> c = CHR 0x5C then [CHR 0x5C, c]
         else if n = 8 then [CHR 0x5C, CHR ''b'']
         else if n = 9 then [CHR 0x5C, CHR ''t'']
         else if n = 10 then [CHR 0x5C, CHR ''n'']
         else if n = 12 then [CHR 0x5C, CHR ''f'']
         else if n = 13 then [CHR 0x5C, CHR ''r'']
         else if n < 32 then [CHR 0x5C, CHR ''u'', CHR ''0'', CHR ''0'', hex_digit (n div 16), hex_digit (n mod 16)]
         else [c])"

definition json_string :: "string \<Rightarrow> string" where
  "json_string s = CHR 0x22 # concat (map json_char s) @ [CHR 0x22]"

fun json_text :: "(jsnum \<Rightarrow> string) \<Rightarrow> jsval \<Rightarrow> string" where
  "json_text num_text JNull = ''null''"
| "json_text num_text (JBool b) = (if b then ''true'' else ''false'')"
| "json_text num_text (JNum n) = num_text n"
| "json_text num_text (JStr s) = json_string s"
| "json_text num_text (JArray xs) = ''['' @ js_join '','' (map (json_text num_text) xs) @ '']''"
| "json_text num_text (JObject _ ps) =
     ''{'' @ js_join '','' (map (\<lambda>(k, v). json_string k @ '':'' @ json_text num_text v) ps) @ ''}''"
| "json_text num_text _ = []"

section \<open>The bounded walk\<close>

text \<open>\<open>remaining\<close>, the byte budget of the traversal.\<close>

definition spend :: "int \<Rightarrow> int \<Rightarrow> bool \<times> int" where
  "spend bytes remaining = (0 \<le> remaining - bytes, remaining - bytes)"

definition js_TRUNCATED :: jsval where "js_TRUNCATED = JStr ''[Truncated]''"
definition js_FUNCTION :: jsval where "js_FUNCTION = JStr ''[Function]''"

text \<open>Printing: numbers, counts and integers.\<close>

record printing =
  pr_num :: "jsnum \<Rightarrow> string"
  pr_count :: "nat \<Rightarrow> string"
  pr_int :: "int \<Rightarrow> string"

fun leaf_size :: "printing \<Rightarrow> jsval \<Rightarrow> int" where
  "leaf_size pr (JStr s) = int (utf8ByteLength s) + 2"
| "leaf_size pr (JNum n) = int (length (pr_num pr n))"
| "leaf_size pr (JBool b) = (if b then 4 else 5)"
| "leaf_size pr _ = 4"

definition keepLeaf :: "printing \<Rightarrow> jsval \<Rightarrow> int \<Rightarrow> jsval \<times> int" where
  "keepLeaf pr leaf remaining = (leaf, snd (spend (leaf_size pr leaf) remaining))"

text \<open>\<open>?? keepLeaf(walk, null)\<close> of an array item, which also charges an item that is null a second time.\<close>

definition or_null :: "printing \<Rightarrow> jsval \<times> int \<Rightarrow> jsval \<times> int" where
  "or_null pr kept = (if fst kept = JNull then keepLeaf pr JNull (snd kept) else kept)"

text \<open>What \<open>coerce\<close> makes of a value that is no container; what JSON has no form for is reported.\<close>

fun coerce_leaf :: "printing \<Rightarrow> jsval \<Rightarrow> jsval" where
  "coerce_leaf pr JNull = JNull"
| "coerce_leaf pr (JBool b) = JBool b"
| "coerce_leaf pr (JStr s) = JStr s"
| "coerce_leaf pr (JNum n) = (if js_finite n then JNum n else JNull)"
| "coerce_leaf pr (JBigInt i) = JStr (pr_int pr i)"
| "coerce_leaf pr (JFunction f) = js_FUNCTION"
| "coerce_leaf pr _ = js_TRUNCATED"

text \<open>The recursion over a value with its loops over items and properties. An object that is not
  plain is reported as truncated.\<close>

lemma size_parts:
  "size_list size (items_of v) \<le> size v" "size_list (size_prod (\<lambda>_. 0) size) (props_of v) \<le> size v"
  by (cases v; simp)+

function coerce :: "printing \<Rightarrow> nat \<Rightarrow> jsval \<Rightarrow> nat \<Rightarrow> int \<Rightarrow> jsval \<times> int"
  and coerce_items :: "printing \<Rightarrow> nat \<Rightarrow> jsval list \<Rightarrow> nat \<Rightarrow> nat \<Rightarrow> int \<Rightarrow> jsval list \<times> int"
  and coerce_props :: "printing \<Rightarrow> nat \<Rightarrow> (string \<times> jsval) list \<Rightarrow> nat \<Rightarrow> nat \<Rightarrow> int \<Rightarrow> (string \<times> jsval) list \<times> int"
where
  "coerce pr maxItems v depth remaining =
     (if remaining < 0 then (js_TRUNCATED, remaining)
      else if \<not> is_container v then keepLeaf pr (coerce_leaf pr v) remaining
      else if depth = 0 then keepLeaf pr js_TRUNCATED remaining
      else if \<not> isRecord v then
        (let xs = items_of v; kept = min (length xs) maxItems;
             (items, r) = coerce_items pr maxItems xs kept depth (snd (spend 2 remaining))
         in if length xs > kept then
              (let (m, r') = keepLeaf pr (JStr (''[+'' @ pr_count pr (length xs - kept) @ '' more]'')) r
               in (JArray (items @ [m]), r'))
            else (JArray items, r))
      else if v = JObject True (props_of v) then
        (let (qs, r) = coerce_props pr maxItems (props_of v) maxItems depth (snd (spend 2 remaining)) in (JObject True qs, r))
      else keepLeaf pr js_TRUNCATED remaining)"
| "coerce_items pr maxItems [] left depth remaining = ([], remaining)"
| "coerce_items pr maxItems (x # xs) left depth remaining =
     (if left = 0 then ([], remaining)
      else let (ok, r) = spend 1 remaining
        in if \<not> ok then ([], r)
           else let (j, r1) = (if x = JUndefined then keepLeaf pr JNull r
                     else or_null pr (coerce pr maxItems x (depth - 1) r));
                    (js, r2) = coerce_items pr maxItems xs (left - 1) depth r1
             in (j # js, r2))"
| "coerce_props pr maxItems [] left depth remaining = ([], remaining)"
| "coerce_props pr maxItems (p # ps) left depth remaining =
     (if left = 0 then ([], remaining)
      else let (ok, r) = spend (int (utf8ByteLength (fst p)) + 4) remaining
        in if \<not> ok then ([], r)
           else if snd p = JUndefined then coerce_props pr maxItems ps left depth r
           else let (j, r1) = coerce pr maxItems (snd p) (depth - 1) r;
                    (qs, r2) = coerce_props pr maxItems ps (left - 1) depth r1
             in ((fst p, j) # qs, r2))"
  by pat_completeness auto
termination
proof (relation "measure (\<lambda>x. case x of
      Inl (_, _, v, _, _) \<Rightarrow> 2 * size v + 1
    | Inr (Inl (_, _, xs, _, _, _)) \<Rightarrow> 2 * size_list size xs
    | Inr (Inr (_, _, ps, _, _, _)) \<Rightarrow> 2 * size_list (size_prod (\<lambda>_. 0) size) ps)", goal_cases)
  case (2 pr n v)
  then show ?case using size_parts [of v] by simp
next
  case (3 pr n v)
  then show ?case using size_parts [of v] by simp
next
  case (6 pr n p)
  then show ?case by (cases p) simp
next
  case (7 pr n p)
  then show ?case by (cases p) simp
next
  case (8 pr n p)
  then show ?case by (cases p) simp
qed simp_all

declare coerce.simps [simp del]

section \<open>Bounding\<close>

record bounded_options =
  bo_maxDepth :: jsnum
  bo_maxItems :: jsnum
  bo_maxBytes :: jsnum

text \<open>None stands for the \<open>RangeError\<close> of an invalid limit.\<close>

definition toBoundedJson :: "printing \<Rightarrow> bounded_options \<Rightarrow> jsval \<Rightarrow> jsval option" where
  "toBoundedJson pr opts v =
     (if \<not> isNonNegativeInteger (bo_maxDepth opts) \<or> \<not> isNonNegativeInteger (bo_maxItems opts) then None
      else if \<not> isPositiveInteger (bo_maxBytes opts) then None
      else let maxBytes = nat_of_num (bo_maxBytes opts);
               (bounded, remaining) = coerce pr (nat_of_num (bo_maxItems opts)) v (nat_of_num (bo_maxDepth opts)) (int maxBytes)
        in Some (if remaining < 0 then js_TRUNCATED
             else if utf8ByteLength (json_text (pr_num pr) bounded) > maxBytes then js_TRUNCATED else bounded))"

section \<open>What the walk keeps\<close>

text \<open>Containers nest at most \<open>depth\<close> deep, with at most so many items and properties each.\<close>

fun bounded_tree :: "nat \<Rightarrow> nat \<Rightarrow> nat \<Rightarrow> jsval \<Rightarrow> bool" where
  "bounded_tree depth items props (JArray xs) =
     (0 < depth \<and> length xs \<le> items \<and> (\<forall>x \<in> set xs. bounded_tree (depth - 1) items props x))"
| "bounded_tree depth items props (JObject _ ps) =
     (0 < depth \<and> length ps \<le> props \<and> (\<forall>p \<in> set ps. bounded_tree (depth - 1) items props (snd p)))"
| "bounded_tree depth items props _ = True"

lemma leaf_size_nonneg: "0 \<le> leaf_size pr v"
  by (cases v) auto

lemma coerce_leaf_facts: "is_json (coerce_leaf pr v)" "bounded_tree d n m (coerce_leaf pr v)"
  "wf_val (coerce_leaf pr v)" "masked_keys mk keys (coerce_leaf pr v)"
  by (cases v; simp add: js_TRUNCATED_def js_FUNCTION_def)+

lemma keepLeaf_facts: "keepLeaf pr v r = (j, r') \<Longrightarrow> j = v \<and> r' \<le> r"
  using leaf_size_nonneg [of pr v] by (auto simp: keepLeaf_def spend_def)

definition key_masked :: "string \<Rightarrow> string list \<Rightarrow> string \<times> jsval \<Rightarrow> bool" where
  "key_masked mk keys p = (if isSensitiveKey (fst p) keys then snd p = JStr mk \<or> is_marker p
     else masked_keys mk keys (snd p))"

lemma masked_object: "masked_keys mk keys (JObject plain ps) \<longleftrightarrow> (\<forall>p \<in> set ps. key_masked mk keys p)"
  by (simp add: key_masked_def)

lemma truncated_facts [simp]: "is_json js_TRUNCATED" "bounded_tree d (Suc n) n js_TRUNCATED" "wf_val js_TRUNCATED"
  "masked_keys mk keys js_TRUNCATED"
  by (simp_all add: js_TRUNCATED_def)

lemma or_null_facts: "or_null pr c = (j, r') \<Longrightarrow> j = fst c \<and> r' \<le> snd c"
  using keepLeaf_facts [of pr JNull "snd c" j r'] by (auto simp: or_null_def split: if_splits)

lemma coerce_string: "0 \<le> r \<Longrightarrow> fst (coerce pr n (JStr s) d r) = JStr s"
  by (simp add: coerce.simps keepLeaf_def)

text \<open>The equations of the walk, with the pairs taken apart.\<close>

abbreviation more_marker :: "printing \<Rightarrow> nat \<Rightarrow> jsval" where
  "more_marker pr k \<equiv> JStr (''[+'' @ pr_count pr k @ '' more]'')"

lemma coerce_negative: "r < 0 \<Longrightarrow> coerce pr n v d r = (js_TRUNCATED, r)"
  by (simp add: coerce.simps)

lemma coerce_leaf_eq: "0 \<le> r \<Longrightarrow> \<not> is_container v \<Longrightarrow>
    coerce pr n v d r = (coerce_leaf pr v, r - leaf_size pr (coerce_leaf pr v))"
  by (simp add: coerce.simps keepLeaf_def spend_def)

lemma coerce_at_depth: "0 \<le> r \<Longrightarrow> is_container v \<Longrightarrow>
    coerce pr n v 0 r = (js_TRUNCATED, r - leaf_size pr js_TRUNCATED)"
  by (simp add: coerce.simps keepLeaf_def spend_def)

lemma coerce_array:
  "0 \<le> r \<Longrightarrow> 0 < d \<Longrightarrow> coerce_items pr n xs (min (length xs) n) d (r - 2) = (js, r1) \<Longrightarrow>
   coerce pr n (JArray xs) d r =
     (if n < length xs then (JArray (js @ [more_marker pr (length xs - n)]), r1 - leaf_size pr (more_marker pr (length xs - n)))
      else (JArray js, r1))"
  by (subst coerce.simps) (simp add: keepLeaf_def spend_def Let_def)

lemma coerce_object:
  "0 \<le> r \<Longrightarrow> 0 < d \<Longrightarrow> coerce_props pr n ps n d (r - 2) = (qs, r1) \<Longrightarrow>
   coerce pr n (JObject True ps) d r = (JObject True qs, r1)"
  by (subst coerce.simps) (simp add: spend_def)

lemma coerce_not_plain: "0 \<le> r \<Longrightarrow> 0 < d \<Longrightarrow>
    coerce pr n (JObject False ps) d r = (js_TRUNCATED, r - leaf_size pr js_TRUNCATED)"
  by (subst coerce.simps) (simp add: keepLeaf_def spend_def)

lemma items_stop:
  "coerce_items pr n (x # xs) 0 d r = ([], r)" "0 < left \<Longrightarrow> r < 1 \<Longrightarrow> coerce_items pr n (x # xs) left d r = ([], r - 1)"
  by (simp_all add: spend_def)

lemma items_step:
  "0 < left \<Longrightarrow> 1 \<le> r \<Longrightarrow>
   (if x = JUndefined then keepLeaf pr JNull (r - 1) else or_null pr (coerce pr n x (d - 1) (r - 1))) = (j, r1) \<Longrightarrow>
   coerce_items pr n xs (left - 1) d r1 = (js, r2) \<Longrightarrow> coerce_items pr n (x # xs) left d r = (j # js, r2)"
  by (simp add: spend_def)

abbreviation key_cost :: "string \<Rightarrow> int" where
  "key_cost k \<equiv> int (utf8ByteLength k) + 4"

lemma props_stop:
  "coerce_props pr n (p # ps) 0 d r = ([], r)"
  "0 < left \<Longrightarrow> r < key_cost (fst p) \<Longrightarrow> coerce_props pr n (p # ps) left d r = ([], r - key_cost (fst p))"
  by (simp_all add: spend_def)

lemma props_skip:
  "0 < left \<Longrightarrow> key_cost (fst p) \<le> r \<Longrightarrow> snd p = JUndefined \<Longrightarrow>
   coerce_props pr n (p # ps) left d r = coerce_props pr n ps left d (r - key_cost (fst p))"
  by (simp add: spend_def)

lemma props_step:
  "0 < left \<Longrightarrow> key_cost (fst p) \<le> r \<Longrightarrow> snd p \<noteq> JUndefined \<Longrightarrow>
   coerce pr n (snd p) (d - 1) (r - key_cost (fst p)) = (j, r1) \<Longrightarrow>
   coerce_props pr n ps (left - 1) d r1 = (qs, r2) \<Longrightarrow> coerce_props pr n (p # ps) left d r = ((fst p, j) # qs, r2)"
  by (simp add: spend_def)

lemma subseq_distinct: "subseq xs ys \<Longrightarrow> distinct ys \<Longrightarrow> distinct xs"
  by (auto simp: subseq_conv_nths intro: distinct_nthsI)

lemma coerce_facts:
  fixes mk :: string and keys :: "string list"
  shows "coerce pr n v d r = (j, r') \<Longrightarrow>
    is_json j \<and> bounded_tree d (Suc n) n j \<and> r' \<le> r \<and> (wf_val v \<longrightarrow> wf_val j) \<and>
    (0 \<le> r' \<longrightarrow> masked_keys mk keys v \<longrightarrow> masked_keys mk keys j)"
    and "coerce_items pr n xs left d r = (js, r') \<Longrightarrow> 0 < d \<Longrightarrow>
    length js \<le> left \<and> r' \<le> r \<and> (\<forall>j \<in> set js. is_json j \<and> bounded_tree (d - 1) (Suc n) n j) \<and>
    ((\<forall>x \<in> set xs. wf_val x) \<longrightarrow> (\<forall>j \<in> set js. wf_val j)) \<and>
    (0 \<le> r' \<longrightarrow> (\<forall>x \<in> set xs. masked_keys mk keys x) \<longrightarrow> (\<forall>j \<in> set js. masked_keys mk keys j))"
    and "coerce_props pr n ps left d r = (qs, r') \<Longrightarrow> 0 < d \<Longrightarrow>
    length qs \<le> left \<and> r' \<le> r \<and> (\<forall>q \<in> set qs. is_json (snd q) \<and> bounded_tree (d - 1) (Suc n) n (snd q)) \<and>
    subseq (map fst qs) (map fst ps) \<and>
    ((\<forall>p \<in> set ps. wf_val (snd p)) \<longrightarrow> (\<forall>q \<in> set qs. wf_val (snd q))) \<and>
    (0 \<le> r' \<longrightarrow> (\<forall>p \<in> set ps. key_masked mk keys p) \<longrightarrow> (\<forall>q \<in> set qs. key_masked mk keys q))"
proof (induction pr n v d r and pr n xs left d r and pr n ps left d r
    arbitrary: j r' and js r' and qs r' rule: coerce_coerce_items_coerce_props.induct)
  case (1 pr n v d r)
  show ?case
  proof (cases "r < 0")
    case True
    then show ?thesis using 1(3) coerce_negative by auto
  next
    case pos: False
    show ?thesis
    proof (cases "is_container v \<and> 0 < d")
      case False
      then have "j = coerce_leaf pr v \<and> r' \<le> r \<or> j = js_TRUNCATED \<and> r' \<le> r"
        using 1(3) pos coerce_leaf_eq [of r v pr n d] coerce_at_depth [of r v pr n]
          leaf_size_nonneg [of pr js_TRUNCATED] leaf_size_nonneg [of pr "coerce_leaf pr v"]
        by (cases "is_container v") auto
      then show ?thesis by (auto simp: coerce_leaf_facts)
    next
      case ok: True
      show ?thesis
      proof (cases v)
        case (JArray xs)
        obtain js r1 where it: "coerce_items pr n xs (min (length xs) n) d (snd (spend 2 r)) = (js, r1)" by (meson surj_pair)
        have ih: "length js \<le> min (length xs) n \<and> r1 \<le> snd (spend 2 r) \<and> (\<forall>j \<in> set js. is_json j \<and> bounded_tree (d - 1) (Suc n) n j) \<and>
            ((\<forall>x \<in> set xs. wf_val x) \<longrightarrow> (\<forall>j \<in> set js. wf_val j)) \<and>
            (0 \<le> r1 \<longrightarrow> (\<forall>x \<in> set xs. masked_keys mk keys x) \<longrightarrow> (\<forall>j \<in> set js. masked_keys mk keys j))"
          by (rule 1(1)) (use pos ok it JArray in simp_all)
        have "j = JArray js \<and> r' = r1 \<or> j = JArray (js @ [more_marker pr (length xs - n)]) \<and> r' \<le> r1"
          using 1(3) coerce_array [of r d pr n xs js r1] pos ok it JArray
          by (auto simp: spend_def split: if_splits)
        then show ?thesis using ih ok JArray by (auto simp: spend_def)
      next
        case (JObject plain ps)
        show ?thesis
        proof (cases plain)
          case True
          obtain qs r1 where it: "coerce_props pr n ps n d (snd (spend 2 r)) = (qs, r1)" by (meson surj_pair)
          have ih: "length qs \<le> n \<and> r1 \<le> snd (spend 2 r) \<and> (\<forall>q \<in> set qs. is_json (snd q) \<and> bounded_tree (d - 1) (Suc n) n (snd q)) \<and>
              subseq (map fst qs) (map fst ps) \<and> ((\<forall>p \<in> set ps. wf_val (snd p)) \<longrightarrow> (\<forall>q \<in> set qs. wf_val (snd q))) \<and>
              (0 \<le> r1 \<longrightarrow> (\<forall>p \<in> set ps. key_masked mk keys p) \<longrightarrow> (\<forall>q \<in> set qs. key_masked mk keys q))"
            using 1(2) [of qs r1] pos ok it JObject True by simp
          have "j = JObject True qs" "r' = r1"
            using 1(3) coerce_object [of r d pr n ps qs r1] pos ok it JObject True by (auto simp: spend_def)
          then show ?thesis using ih ok JObject subseq_distinct by (auto simp: spend_def masked_object simp del: masked_keys.simps(2))
        next
          case False
          then show ?thesis using 1(3) pos ok JObject coerce_not_plain [of r d pr n ps] leaf_size_nonneg [of pr js_TRUNCATED] by auto
        qed
      qed (use ok in auto)
    qed
  qed
next
  case (2 pr n left d r)
  then show ?case by simp
next
  case (3 pr n x xs left d r)
  show ?case
  proof (cases "left = 0 \<or> r < 1")
    case True
    then show ?thesis using 3(3) by (cases "left = 0") (auto simp: items_stop simp del: coerce_items.simps)
  next
    case False
    obtain j1 r1 where c: "(if x = JUndefined then keepLeaf pr JNull (r - 1) else or_null pr (coerce pr n x (d - 1) (r - 1))) = (j1, r1)"
      by (meson surj_pair)
    obtain js2 r2 where it: "coerce_items pr n xs (left - 1) d r1 = (js2, r2)" by (meson surj_pair)
    have eq: "js = j1 # js2" "r' = r2" using 3(3) False items_step [OF _ _ c it] by auto
    have "is_json j1 \<and> bounded_tree (d - 1) (Suc n) n j1 \<and> r1 \<le> r - 1 \<and> (wf_val x \<longrightarrow> wf_val j1) \<and>
        (0 \<le> r1 \<longrightarrow> masked_keys mk keys x \<longrightarrow> masked_keys mk keys j1)"
    proof (cases "x = JUndefined")
      case True
      then show ?thesis using c keepLeaf_facts [of pr JNull "r - 1" j1 r1] by auto
    next
      case nu: False
      obtain j2 r2 where x: "coerce pr n x (d - 1) (r - 1) = (j2, r2)" by (meson surj_pair)
      have "j1 = j2" "r1 \<le> r2" using c nu x or_null_facts [of pr "(j2, r2)" j1 r1] by auto
      moreover have "is_json j2 \<and> bounded_tree (d - 1) (Suc n) n j2 \<and> r2 \<le> r - 1 \<and> (wf_val x \<longrightarrow> wf_val j2) \<and>
          (0 \<le> r2 \<longrightarrow> masked_keys mk keys x \<longrightarrow> masked_keys mk keys j2)"
        by (rule 3(1) [of "spend 1 r" True "r - 1" j2 r2]) (use x nu False in \<open>simp_all add: spend_def\<close>)
      ultimately show ?thesis by auto
    qed
    moreover have "length js2 \<le> left - 1 \<and> r2 \<le> r1 \<and> (\<forall>j \<in> set js2. is_json j \<and> bounded_tree (d - 1) (Suc n) n j) \<and>
        ((\<forall>x \<in> set xs. wf_val x) \<longrightarrow> (\<forall>j \<in> set js2. wf_val j)) \<and>
        (0 \<le> r2 \<longrightarrow> (\<forall>x \<in> set xs. masked_keys mk keys x) \<longrightarrow> (\<forall>j \<in> set js2. masked_keys mk keys j))"
      using 3(2) [of "spend 1 r" True "r - 1" "(j1, r1)" j1 r1 js2 r2] c it False 3(4) by (auto simp: spend_def)
    ultimately show ?thesis using False by (auto simp: eq)
  qed
next
  case (4 pr n left d r)
  then show ?case by simp
next
  case (5 pr n p ps left d r)
  let ?r = "r - key_cost (fst p)"
  show ?case
  proof (cases "left = 0 \<or> ?r < 0")
    case True
    then show ?thesis using 5(4) by (cases "left = 0") (auto simp: props_stop simp del: coerce_props.simps)
  next
    case False
    show ?thesis
    proof (cases "snd p = JUndefined")
      case True
      then show ?thesis using 5(1) [of "spend (key_cost (fst p)) r" True ?r qs r'] 5(4,5) False props_skip [of left p r pr n ps d]
        by (auto simp: spend_def simp del: coerce_props.simps intro: list_emb_Cons)
    next
      case nu: False
      obtain j1 r1 where c: "coerce pr n (snd p) (d - 1) ?r = (j1, r1)" by (meson surj_pair)
      obtain qs2 r2 where it: "coerce_props pr n ps (left - 1) d r1 = (qs2, r2)" by (meson surj_pair)
      have eq: "qs = (fst p, j1) # qs2" "r' = r2" using 5(4) False nu props_step [OF _ _ nu c it] by auto
      note h = 5(2) [of "spend (key_cost (fst p)) r" True ?r j1 r1]
      note tl = 5(3) [of "spend (key_cost (fst p)) r" True ?r "(j1, r1)" j1 r1 qs2 r2]
      have "is_json j1 \<and> bounded_tree (d - 1) (Suc n) n j1 \<and> r1 \<le> ?r \<and> (wf_val (snd p) \<longrightarrow> wf_val j1) \<and>
          (0 \<le> r1 \<longrightarrow> masked_keys mk keys (snd p) \<longrightarrow> masked_keys mk keys j1)"
        using h c False nu by (auto simp: spend_def)
      moreover have "length qs2 \<le> left - 1 \<and> r2 \<le> r1 \<and> (\<forall>q \<in> set qs2. is_json (snd q) \<and> bounded_tree (d - 1) (Suc n) n (snd q)) \<and>
          subseq (map fst qs2) (map fst ps) \<and>
          ((\<forall>p \<in> set ps. wf_val (snd p)) \<longrightarrow> (\<forall>q \<in> set qs2. wf_val (snd q))) \<and>
          (0 \<le> r2 \<longrightarrow> (\<forall>p \<in> set ps. key_masked mk keys p) \<longrightarrow> (\<forall>q \<in> set qs2. key_masked mk keys q))"
        using tl c it False nu 5(5) by (auto simp: spend_def)
      moreover have "key_masked mk keys p \<longrightarrow> 0 \<le> r1 \<longrightarrow> key_masked mk keys (fst p, j1)"
      proof (cases "isSensitiveKey (fst p) keys")
        case True
        have "j1 = snd p" if "snd p = JStr w" for w using c that False coerce_string [of ?r pr n w "d - 1"] by simp
        then show ?thesis using True by (cases p) (auto simp: key_masked_def is_marker_def)
      qed (use calculation in \<open>auto simp: key_masked_def\<close>)
      ultimately show ?thesis using False by (auto simp: eq)
    qed
  qed
qed

section \<open>Values within the limits stay as they are\<close>

text \<open>What the walk charges for a value it keeps: the size of its text, escapes left out, one byte more
  for every container that is not empty, and four more for every item of an array that is null.\<close>

definition item_extra :: "jsval \<Rightarrow> int" where
  "item_extra v = (if v = JNull then 5 else 1)"

fun walk_cost :: "printing \<Rightarrow> jsval \<Rightarrow> int" where
  "walk_cost pr (JArray xs) = 2 + sum_list (map (\<lambda>x. item_extra x + walk_cost pr x) xs)"
| "walk_cost pr (JObject _ ps) = 2 + sum_list (map (\<lambda>(k, v). key_cost k + walk_cost pr v) ps)"
| "walk_cost pr v = leaf_size pr v"

lemma walk_cost_nonneg: "0 \<le> walk_cost pr v"
proof (induction v)
  case (JArray xs)
  then have "0 \<le> sum_list (map (\<lambda>x. item_extra x + walk_cost pr x) xs)"
    by (auto intro!: sum_list_nonneg add_nonneg_nonneg simp: item_extra_def)
  then show ?case by simp
next
  case (JObject pl ps)
  then have "0 \<le> sum_list (map (\<lambda>(k, v). key_cost k + walk_cost pr v) ps)"
    by (auto intro!: sum_list_nonneg add_nonneg_nonneg simp: snds.simps)
  then show ?case by simp
qed (simp_all add: leaf_size_nonneg)

lemma leaf_kept: "is_json v \<Longrightarrow> \<not> is_container v \<Longrightarrow> coerce_leaf pr v = v \<and> walk_cost pr v = leaf_size pr v"
  by (cases v) auto

lemma coerce_keeps:
  "is_json v \<Longrightarrow> bounded_tree d n n v \<Longrightarrow> walk_cost pr v \<le> r \<Longrightarrow> coerce pr n v d r = (v, r - walk_cost pr v)"
  "\<forall>x \<in> set xs. is_json x \<and> bounded_tree (d - 1) n n x \<Longrightarrow> length xs \<le> left \<Longrightarrow>
   sum_list (map (\<lambda>x. item_extra x + walk_cost pr x) xs) \<le> r \<Longrightarrow>
   coerce_items pr n xs left d r = (xs, r - sum_list (map (\<lambda>x. item_extra x + walk_cost pr x) xs))"
  "\<forall>p \<in> set ps. is_json (snd p) \<and> bounded_tree (d - 1) n n (snd p) \<Longrightarrow> length ps \<le> left \<Longrightarrow>
   sum_list (map (\<lambda>(k, v). key_cost k + walk_cost pr v) ps) \<le> r \<Longrightarrow>
   coerce_props pr n ps left d r = (ps, r - sum_list (map (\<lambda>(k, v). key_cost k + walk_cost pr v) ps))"
proof (induction pr n v d r and pr n xs left d r and pr n ps left d r rule: coerce_coerce_items_coerce_props.induct)
  case (1 pr n v d r)
  have pos: "0 \<le> r" using 1(5) walk_cost_nonneg [of pr v] by simp
  have two: "snd (spend 2 r) = r - 2" by (simp add: spend_def)
  show ?case
  proof (cases v)
    case (JArray xs)
    have d: "0 < d" "min (length xs) n = length xs" using 1(4) JArray by auto
    have "coerce_items pr n xs (length xs) d (r - 2) = (xs, r - 2 - sum_list (map (\<lambda>x. item_extra x + walk_cost pr x) xs))"
      by (rule 1(1) [of xs "length xs", unfolded two]) (use 1(3-5) pos d JArray in simp_all)
    then show ?thesis using coerce_array [of r d pr n xs] pos d 1(4) JArray by simp
  next
    case (JObject plain ps)
    have d: "0 < d" "length ps \<le> n" plain using 1(3,4) JObject by auto
    have "coerce_props pr n ps n d (r - 2) = (ps, r - 2 - sum_list (map (\<lambda>(k, v). key_cost k + walk_cost pr v) ps))"
      using 1(2) [unfolded two JObject] 1(3-5) pos d JObject by simp
    then show ?thesis using coerce_object [of r d pr n ps] pos d JObject by simp
  qed (use 1(3-5) pos leaf_kept [of v pr] coerce_leaf_eq [of r v pr n d] in auto)
next
  case (3 pr n x xs left d r)
  let ?sum = "sum_list (map (\<lambda>x. item_extra x + walk_cost pr x) xs)"
  have sum: "0 \<le> ?sum" "0 \<le> walk_cost pr x" "item_extra x + walk_cost pr x + ?sum \<le> r"
    using 3(5) walk_cost_nonneg [of pr] by (auto intro!: sum_list_nonneg add_nonneg_nonneg simp: item_extra_def)
  have x: "x \<noteq> JUndefined" "left \<noteq> 0" using 3(3,4) by auto
  let ?left = "r - (item_extra x + walk_cost pr x)"
  have one: "1 \<le> r" "walk_cost pr x \<le> r - 1" using sum by (auto simp: item_extra_def split: if_splits)
  have "coerce pr n x (d - 1) (r - 1) = (x, r - 1 - walk_cost pr x)"
    by (rule 3(1) [of "spend 1 r" True "r - 1"]) (use 3(3) x one in \<open>simp_all add: spend_def\<close>)
  then have c: "or_null pr (coerce pr n x (d - 1) (r - 1)) = (x, ?left)"
    by (simp add: or_null_def keepLeaf_def spend_def item_extra_def)
  have tl: "coerce_items pr n xs (left - 1) d ?left = (xs, ?left - ?sum)"
    by (rule 3(2) [of "spend 1 r" True "r - 1" "(x, ?left)" x])
      (use 3(3,4) x one sum c in \<open>simp_all add: spend_def\<close>)
  have "coerce_items pr n (x # xs) left d r = (x # xs, ?left - ?sum)"
    by (rule items_step [OF _ _ _ tl]) (use c x one in simp_all)
  then show ?case by simp
next
  case (5 pr n p ps left d r)
  obtain k v where p: "p = (k, v)" by (cases p)
  let ?sum = "sum_list (map (\<lambda>(k, v). key_cost k + walk_cost pr v) ps)"
  have sum: "0 \<le> ?sum" "0 \<le> walk_cost pr v" "key_cost k + walk_cost pr v + ?sum \<le> r"
    using 5(6) walk_cost_nonneg [of pr] p by (auto intro!: sum_list_nonneg add_nonneg_nonneg)
  have v: "v \<noteq> JUndefined" "left \<noteq> 0" using 5(4,5) p by auto
  have c: "coerce pr n v (d - 1) (r - key_cost k) = (v, r - key_cost k - walk_cost pr v)"
    by (rule 5(2) [of "spend (key_cost k) r" True "r - key_cost k", unfolded p snd_conv])
      (use 5(4) v sum p in \<open>simp_all add: spend_def\<close>)
  have tl: "coerce_props pr n ps (left - 1) d (r - key_cost k - walk_cost pr v) = (ps, r - key_cost k - walk_cost pr v - ?sum)"
    by (rule 5(3) [of "spend (key_cost k) r" True "r - key_cost k" "(v, r - key_cost k - walk_cost pr v)" v])
      (use 5(4,5) v sum c p in \<open>simp_all add: spend_def\<close>)
  have "coerce_props pr n (p # ps) left d r = ((fst p, v) # ps, r - key_cost k - walk_cost pr v - ?sum)"
    by (rule props_step [OF _ _ _ _ tl]) (use c v sum p in simp_all)
  then show ?case by (simp add: p)
qed simp_all

lemma item_sum_nonneg: "0 \<le> sum_list (map (\<lambda>x. item_extra x + walk_cost pr x) xs)"
  "0 \<le> sum_list (map (\<lambda>(k, v). key_cost k + walk_cost pr v) ps)"
  using walk_cost_nonneg [of pr] by (auto intro!: sum_list_nonneg add_nonneg_nonneg simp: item_extra_def)

lemma or_null_spends: "snd (or_null pr c) \<le> snd c"
  by (simp add: or_null_def keepLeaf_def spend_def)

text \<open>A value of higher cost than the budget overdraws it.\<close>

lemma coerce_overdraws:
  "is_json v \<Longrightarrow> bounded_tree d n n v \<Longrightarrow> r < walk_cost pr v \<Longrightarrow> snd (coerce pr n v d r) < 0"
  "\<forall>x \<in> set xs. is_json x \<and> bounded_tree (d - 1) n n x \<Longrightarrow> length xs \<le> left \<Longrightarrow>
   r < sum_list (map (\<lambda>x. item_extra x + walk_cost pr x) xs) \<Longrightarrow> snd (coerce_items pr n xs left d r) < 0"
  "\<forall>p \<in> set ps. is_json (snd p) \<and> bounded_tree (d - 1) n n (snd p) \<Longrightarrow> length ps \<le> left \<Longrightarrow>
   r < sum_list (map (\<lambda>(k, v). key_cost k + walk_cost pr v) ps) \<Longrightarrow> snd (coerce_props pr n ps left d r) < 0"
proof (induction pr n v d r and pr n xs left d r and pr n ps left d r rule: coerce_coerce_items_coerce_props.induct)
  case (1 pr n v d r)
  have two: "snd (spend 2 r) = r - 2" by (simp add: spend_def)
  show ?case
  proof (cases "r < 0")
    case True
    then show ?thesis by (simp add: coerce_negative)
  next
    case pos: False
    show ?thesis
    proof (cases v)
      case (JArray xs)
      have d: "0 < d" "min (length xs) n = length xs" using 1(4) JArray by auto
      obtain js r1 where i: "coerce_items pr n xs (length xs) d (r - 2) = (js, r1)" by (meson surj_pair)
      have "snd (coerce_items pr n xs (length xs) d (r - 2)) < 0"
        by (rule 1(1) [of xs "length xs", unfolded two]) (use 1(3-5) pos d JArray in simp_all)
      then show ?thesis using coerce_array [of r d pr n xs js r1] pos d i 1(4) JArray by simp
    next
      case (JObject plain ps)
      have d: "0 < d" "length ps \<le> n" plain using 1(3,4) JObject by auto
      obtain qs r1 where i: "coerce_props pr n ps n d (r - 2) = (qs, r1)" by (meson surj_pair)
      have "snd (coerce_props pr n ps n d (r - 2)) < 0"
        using 1(2) [unfolded two JObject] 1(3-5) pos d JObject by simp
      then show ?thesis using coerce_object [of r d pr n ps qs r1] pos d i JObject by simp
    qed (use 1(3-5) pos leaf_kept [of v pr] coerce_leaf_eq [of r v pr n d] in auto)
  qed
next
  case (3 pr n x xs left d r)
  let ?sum = "sum_list (map (\<lambda>x. item_extra x + walk_cost pr x) xs)"
  have x: "x \<noteq> JUndefined" "0 < left" using 3(3,4) by auto
  show ?case
  proof (cases "r < 1")
    case True
    then show ?thesis using items_stop(2) [OF x(2) True, of pr n x xs d] by simp
  next
    case one: False
    obtain j r1 where c: "or_null pr (coerce pr n x (d - 1) (r - 1)) = (j, r1)" by (meson surj_pair)
    obtain js r2 where tl: "coerce_items pr n xs (left - 1) d r1 = (js, r2)" by (meson surj_pair)
    have "r1 < ?sum"
    proof (cases "walk_cost pr x \<le> r - 1")
      case True
      have "coerce pr n x (d - 1) (r - 1) = (x, r - 1 - walk_cost pr x)"
        by (rule coerce_keeps(1)) (use 3(3) True in simp_all)
      then have "r1 = r - (item_extra x + walk_cost pr x)" using c
        by (auto simp: or_null_def keepLeaf_def spend_def item_extra_def split: if_splits)
      then show ?thesis using 3(5) by simp
    next
      case False
      have "snd (coerce pr n x (d - 1) (r - 1)) < 0"
        by (rule 3(1) [of "spend 1 r" True "r - 1"]) (use 3(3) x one False in \<open>simp_all add: spend_def\<close>)
      then have "r1 < 0" using or_null_spends [of pr "coerce pr n x (d - 1) (r - 1)"] c by simp
      then show ?thesis using item_sum_nonneg(1) [of pr xs] by simp
    qed
    then have "snd (coerce_items pr n xs (left - 1) d r1) < 0"
      by (intro 3(2) [of "spend 1 r" True "r - 1" "(j, r1)" j]) (use 3(3,4) x one c in \<open>simp_all add: spend_def\<close>)
    then have "r2 < 0" using tl by simp
    moreover have "coerce_items pr n (x # xs) left d r = (j # js, r2)"
      by (rule items_step [OF x(2) _ _ tl]) (use c one x in simp_all)
    ultimately show ?thesis by (simp only: snd_conv)
  qed
next
  case (5 pr n p ps left d r)
  obtain k v where p: "p = (k, v)" by (cases p)
  let ?sum = "sum_list (map (\<lambda>(k, v). key_cost k + walk_cost pr v) ps)"
  have v: "v \<noteq> JUndefined" "0 < left" using 5(4,5) p by auto
  show ?case
  proof (cases "r < key_cost k")
    case True
    then show ?thesis using props_stop(2) [OF v(2), of r p pr n ps d] p by simp
  next
    case one: False
    obtain j r1 where c: "coerce pr n v (d - 1) (r - key_cost k) = (j, r1)" by (meson surj_pair)
    obtain qs r2 where tl: "coerce_props pr n ps (left - 1) d r1 = (qs, r2)" by (meson surj_pair)
    have "r1 < ?sum"
    proof (cases "walk_cost pr v \<le> r - key_cost k")
      case True
      have "coerce pr n v (d - 1) (r - key_cost k) = (v, r - key_cost k - walk_cost pr v)"
        by (rule coerce_keeps(1)) (use 5(4) p True in simp_all)
      then have "r1 = r - key_cost k - walk_cost pr v" using c by auto
      then show ?thesis using 5(6) p by simp
    next
      case False
      have "snd (coerce pr n v (d - 1) (r - key_cost k)) < 0"
        by (rule 5(2) [of "spend (key_cost k) r" True "r - key_cost k", unfolded p snd_conv])
          (use 5(4) v one False p in \<open>simp_all add: spend_def\<close>)
      then show ?thesis using c item_sum_nonneg(2) [of pr ps] by simp
    qed
    then have "snd (coerce_props pr n ps (left - 1) d r1) < 0"
      by (intro 5(3) [of "spend (key_cost k) r" True "r - key_cost k" "(j, r1)" j]) (use 5(4,5) v one c p in \<open>simp_all add: spend_def\<close>)
    then have "r2 < 0" using tl by simp
    moreover have "coerce_props pr n (p # ps) left d r = ((fst p, j) # qs, r2)"
      by (rule props_step [OF v(2) _ _ _ tl]) (use c one v p in simp_all)
    ultimately show ?thesis by (simp only: snd_conv)
  qed
qed (simp_all add: spend_def)

section \<open>The cost of a value and its text\<close>

text \<open>Strings that are printed as they are, and a value's containers that are not empty and null items.\<close>

definition unescaped :: "string \<Rightarrow> bool" where
  "unescaped s = list_all (\<lambda>c. json_char c = [c]) s"

fun unescaped_value :: "jsval \<Rightarrow> bool" where
  "unescaped_value (JStr s) = unescaped s"
| "unescaped_value (JArray xs) = (\<forall>x \<in> set xs. unescaped_value x)"
| "unescaped_value (JObject _ ps) = (\<forall>p \<in> set ps. unescaped (fst p) \<and> unescaped_value (snd p))"
| "unescaped_value _ = True"

fun overcharge :: "jsval \<Rightarrow> nat" where
  "overcharge (JArray xs) = (if xs = [] then 0 else 1) + sum_list (map (\<lambda>x. (if x = JNull then 4 else 0) + overcharge x) xs)"
| "overcharge (JObject _ ps) = (if ps = [] then 0 else 1) + sum_list (map (\<lambda>p. overcharge (snd p)) ps)"
| "overcharge _ = 0"

lemma unescaped_size: "unescaped s \<Longrightarrow> utf8ByteLength (json_string s) = utf8ByteLength s + 2"
proof -
  assume "unescaped s"
  then have "concat (map json_char s) = s" by (induction s) (simp_all add: unescaped_def)
  then show ?thesis by (simp add: json_string_def unit_of_def)
qed

lemma join_size_items: "int (utf8ByteLength (js_join '','' ss)) + (if ss = [] then 0 else 1) =
    sum_list (map (\<lambda>s. 1 + int (utf8ByteLength s)) ss)"
  by (induction ss) (auto simp: js_join_Cons unit_of_def)

lemma sum_list_of_nat: "int (sum_list (map f xs)) = sum_list (map (\<lambda>x. int (f x)) xs)"
  by (induction xs) simp_all

lemma walk_cost_text:
  "is_json v \<Longrightarrow> unescaped_value v \<Longrightarrow> \<forall>x. utf8ByteLength (pr_num pr x) = length (pr_num pr x) \<Longrightarrow>
   walk_cost pr v = int (utf8ByteLength (json_text (pr_num pr) v)) + int (overcharge v)"
proof (induction v)
  case (JArray xs)
  have one: "item_extra x + walk_cost pr x =
      (1 + int (utf8ByteLength (json_text (pr_num pr) x))) + int ((if x = JNull then 4 else 0) + overcharge x)" if "x \<in> set xs" for x
    using JArray that by (simp add: item_extra_def)
  have "sum_list (map (\<lambda>x. item_extra x + walk_cost pr x) xs) =
      sum_list (map (\<lambda>x. (1 + int (utf8ByteLength (json_text (pr_num pr) x))) + int ((if x = JNull then 4 else 0) + overcharge x)) xs)"
    using one by (auto intro!: arg_cong [where f = sum_list] map_cong)
  also have "\<dots> = (int (utf8ByteLength (js_join '','' (map (json_text (pr_num pr)) xs))) + (if xs = [] then 0 else 1)) +
      int (sum_list (map (\<lambda>x. (if x = JNull then 4 else 0) + overcharge x) xs))"
    using join_size_items [of "map (json_text (pr_num pr)) xs"]
    by (simp only: sum_list_addf [symmetric] sum_list_of_nat comp_def list.map_comp) (simp add: sum_list_addf comp_def)
  finally show ?case by (simp add: unit_of_def)
next
  case (JObject plain ps)
  let ?text = "\<lambda>(k, v). json_string k @ '':'' @ json_text (pr_num pr) v"
  have one: "key_cost k + walk_cost pr v = (1 + int (utf8ByteLength (?text (k, v)))) + int (overcharge v)" if "(k, v) \<in> set ps" for k v
  proof -
    have "is_json v" "unescaped_value v" "unescaped k" using JObject.prems that by fastforce+
    then have "walk_cost pr v = int (utf8ByteLength (json_text (pr_num pr) v)) + int (overcharge v)"
      using JObject.IH [of "(k, v)" v] JObject.prems(3) that by (simp add: snds.simps)
    with \<open>unescaped k\<close> show ?thesis by (simp add: unescaped_size unit_of_def)
  qed
  have "sum_list (map (\<lambda>(k, v). key_cost k + walk_cost pr v) ps) =
      sum_list (map (\<lambda>p. (1 + int (utf8ByteLength (?text p))) + int (overcharge (snd p))) ps)"
    using one by (auto intro!: arg_cong [where f = sum_list] map_cong)
  also have "\<dots> = (int (utf8ByteLength (js_join '','' (map ?text ps))) + (if ps = [] then 0 else 1)) +
      int (sum_list (map (\<lambda>p. overcharge (snd p)) ps))"
    using join_size_items [of "map ?text ps"] by (simp add: sum_list_addf sum_list_of_nat comp_def)
  finally show ?case by (simp add: unit_of_def)
qed (auto simp: unescaped_size unit_of_def)

section \<open>Properties\<close>

text \<open>Claim C29: which JSON trees within the limits of depth and items survive the limit of bytes. Such a tree is
  returned unchanged exactly when its text and what the walk charges for it both fit \<open>maxBytes\<close>, and is the
  marker otherwise. For a tree whose strings need no escapes, with numbers printed in ASCII, the charge is the
  size of its text and one byte for every container that is not empty and four for every null in an array;
  so a tree whose text has exactly \<open>maxBytes\<close> bytes is truncated unless all its containers are empty.\<close>

theorem bounded_json_exact:
  assumes "isNonNegativeInteger d" "isNonNegativeInteger n" "isPositiveInteger b"
    and "is_json v" "bounded_tree (nat_of_num d) (nat_of_num n) (nat_of_num n) v"
  shows "toBoundedJson pr \<lparr>bo_maxDepth = d, bo_maxItems = n, bo_maxBytes = b\<rparr> v =
      Some (if walk_cost pr v \<le> int (nat_of_num b) \<and> utf8ByteLength (json_text (pr_num pr) v) \<le> nat_of_num b
        then v else js_TRUNCATED) \<and>
    (unescaped_value v \<and> (\<forall>x. utf8ByteLength (pr_num pr x) = length (pr_num pr x)) \<longrightarrow>
     toBoundedJson pr \<lparr>bo_maxDepth = d, bo_maxItems = n, bo_maxBytes = b\<rparr> v =
      Some (if utf8ByteLength (json_text (pr_num pr) v) + overcharge v \<le> nat_of_num b then v else js_TRUNCATED))"
proof -
  let ?b = "int (nat_of_num b)"
  obtain j r where c: "coerce pr (nat_of_num n) v (nat_of_num d) ?b = (j, r)" by (meson surj_pair)
  have "r < 0" if "?b < walk_cost pr v" using coerce_overdraws(1) [OF assms(4,5) that] c by simp
  moreover have "j = v \<and> r = ?b - walk_cost pr v" if "walk_cost pr v \<le> ?b" using coerce_keeps(1) [OF assms(4,5) that] c by simp
  ultimately have e: "toBoundedJson pr \<lparr>bo_maxDepth = d, bo_maxItems = n, bo_maxBytes = b\<rparr> v =
      Some (if walk_cost pr v \<le> ?b \<and> utf8ByteLength (json_text (pr_num pr) v) \<le> nat_of_num b then v else js_TRUNCATED)"
    using assms(1-3) c by (cases "walk_cost pr v \<le> ?b") (auto simp: toBoundedJson_def)
  moreover have "walk_cost pr v \<le> ?b \<and> utf8ByteLength (json_text (pr_num pr) v) \<le> nat_of_num b \<longleftrightarrow>
      utf8ByteLength (json_text (pr_num pr) v) + overcharge v \<le> nat_of_num b"
    if "unescaped_value v" "\<forall>x. utf8ByteLength (pr_num pr x) = length (pr_num pr x)"
    using walk_cost_text [OF assms(4) that] by auto
  ultimately show ?thesis by simp
qed

theorem bounded_json_exact_witness:
  "let pr = \<lparr>pr_num = \<lambda>_. ''0'', pr_count = \<lambda>_. ''1'', pr_int = \<lambda>_. ''0''\<rparr>;
       bound = (\<lambda>b v. toBoundedJson pr \<lparr>bo_maxDepth = Fin 6, bo_maxItems = Fin 100, bo_maxBytes = Fin b\<rparr> v)
   in utf8ByteLength (json_text (pr_num pr) (JArray [JNull])) = 6 \<and> bound 10 (JArray [JNull]) = Some js_TRUNCATED \<and>
      bound 11 (JArray [JNull]) = Some (JArray [JNull])"
proof -
  let ?pr = "\<lparr>pr_num = \<lambda>_. ''0'', pr_count = \<lambda>_. ''1'', pr_int = \<lambda>_. ''0''\<rparr>"
  have lims: "isNonNegativeInteger (Fin 6)" "isNonNegativeInteger (Fin 100)" "isPositiveInteger (Fin 10)" "isPositiveInteger (Fin 11)"
    by (simp_all add: isNonNegativeInteger_def isPositiveInteger_def is_safe_integer_def max_safe_integer_def)
  have v: "is_json (JArray [JNull])" "bounded_tree (nat_of_num (Fin 6)) (nat_of_num (Fin 100)) (nat_of_num (Fin 100)) (JArray [JNull])"
    by (simp_all add: nat_of_num_def)
  note e = bounded_json_exact [OF lims(1,2) _ v, of _ ?pr, THEN conjunct2]
  have "\<forall>x. utf8ByteLength (pr_num ?pr x) = length (pr_num ?pr x)" "utf8ByteLength (json_text (pr_num ?pr) (JArray [JNull])) = 6"
    by (simp_all add: unit_of_def)
  then show ?thesis using e [OF lims(3)] e [OF lims(4)] by (simp add: nat_of_num_def del: json_text.simps)
qed

end
