(* ===== verification/Devtools_Sanitize.thy ===== *)
theory Devtools_Sanitize imports Bounded_Json begin

text \<open>
  \<open>sanitize\<close> of \<^verbatim>\<open>packages/devtools/src/privacy/sanitize.ts\<close>, the boundary every payload of a source
  crosses: an allowlist of top-level keys, redaction (theory \<open>Redaction\<close>) and the bounded JSON tree
  (theory \<open>Bounded_Json\<close>).
\<close>

record sanitize_options =
  sz_allow :: "string list option"
  sz_redactKeys :: "string list option"
  sz_maxDepth :: "jsnum option"
  sz_maxItems :: "jsnum option"
  sz_maxBytes :: "jsnum option"

definition pick :: "jsval \<Rightarrow> string list \<Rightarrow> jsval" where
  "pick v allow =
     (if \<not> isRecord v then v
      else JObject True (map_new (concat (map (\<lambda>k. case map_get (props_of v) k of None \<Rightarrow> [] | Some x \<Rightarrow> [(k, x)]) allow))))"

definition option_or :: "jsnum option \<Rightarrow> jsnum \<Rightarrow> jsnum" where
  "option_or x d = (case x of None \<Rightarrow> d | Some y \<Rightarrow> y)"

definition sanitize :: "printing \<Rightarrow> sanitize_options \<Rightarrow> jsval \<Rightarrow> jsval option" where
  "sanitize pr opts v =
     (let maxDepth = option_or (sz_maxDepth opts) (Fin 6);
          maxItems = option_or (sz_maxItems opts) (Fin 100);
          maxBytes = option_or (sz_maxBytes opts) (Fin 16384);
          allowed = (case sz_allow opts of None \<Rightarrow> v | Some allow \<Rightarrow> pick v allow);
          keys = (case sz_redactKeys opts of None \<Rightarrow> [] | Some ks \<Rightarrow> ks)
      in case redact (pr_count pr) \<lparr>rx_keys = keys, rx_mask = None, rx_maxDepth = Some maxDepth, rx_maxItems = Some maxItems\<rparr> allowed of
           None \<Rightarrow> None
         | Some x \<Rightarrow> toBoundedJson pr \<lparr>bo_maxDepth = maxDepth, bo_maxItems = maxItems, bo_maxBytes = maxBytes\<rparr> x)"

definition valid_sanitize :: "sanitize_options \<Rightarrow> bool" where
  "valid_sanitize opts =
     (isNonNegativeInteger (option_or (sz_maxDepth opts) (Fin 6)) \<and>
      isNonNegativeInteger (option_or (sz_maxItems opts) (Fin 100)) \<and>
      isPositiveInteger (option_or (sz_maxBytes opts) (Fin 16384)))"

definition sanitize_keys :: "sanitize_options \<Rightarrow> string list" where
  "sanitize_keys opts = (case sz_redactKeys opts of None \<Rightarrow> [] | Some ks \<Rightarrow> ks)"

section \<open>Properties\<close>

text \<open>Claim C11: what leaves a source is safe. With valid limits, \<open>sanitize\<close> returns for every value, and the
  result is a JSON tree without duplicate keys, nested and sized within the limits (an array may have one
  item more, the count of what was left out), whose text has at most \<open>maxBytes\<close> bytes unless it is the
  marker itself, and in which every sensitive key at any depth holds the mask.\<close>

theorem sanitize_safe:
  assumes "valid_sanitize opts"
  shows "\<exists>r. sanitize pr opts v = Some r \<and> is_json r \<and> wf_val r \<and>
    masked_keys default_mask (sanitize_keys opts) r \<and>
    (let items = nat_of_num (option_or (sz_maxItems opts) (Fin 100))
     in bounded_tree (nat_of_num (option_or (sz_maxDepth opts) (Fin 6))) (Suc items) items r) \<and>
    (r = js_TRUNCATED \<or>
     utf8ByteLength (json_text (pr_num pr) r) \<le> nat_of_num (option_or (sz_maxBytes opts) (Fin 16384)))"
proof -
  define d n b where "d = nat_of_num (option_or (sz_maxDepth opts) (Fin 6))"
    and "n = nat_of_num (option_or (sz_maxItems opts) (Fin 100))"
    and "b = nat_of_num (option_or (sz_maxBytes opts) (Fin 16384))"
  define x where "x = redact_walk (pr_count pr) default_mask (sanitize_keys opts) d (Some n) 0
    (case sz_allow opts of None \<Rightarrow> v | Some allow \<Rightarrow> pick v allow)"
  obtain j r where c: "coerce pr n x d (int b) = (j, r)" by (meson surj_pair)
  have "sanitize pr opts v = Some (if r < 0 then js_TRUNCATED
      else if utf8ByteLength (json_text (pr_num pr) j) > b then js_TRUNCATED else j)"
    using assms c by (simp add: sanitize_def redact_def toBoundedJson_def valid_sanitize_def d_def n_def b_def x_def
        sanitize_keys_def Let_def)
  moreover have "wf_val x" "masked_keys default_mask (sanitize_keys opts) x" by (simp_all add: x_def walk_wf walk_masks)
  ultimately show ?thesis
    using coerce_facts(1) [OF c, of default_mask "sanitize_keys opts"] by (auto simp: Let_def d_def n_def b_def)
qed

definition default_sanitize :: sanitize_options where
  "default_sanitize = \<lparr>sz_allow = None, sz_redactKeys = None, sz_maxDepth = None, sz_maxItems = None, sz_maxBytes = None\<rparr>"

theorem sanitize_safe_witness:
  "valid_sanitize default_sanitize \<and>
   (\<exists>r. sanitize \<lparr>pr_num = \<lambda>_. ''0'', pr_count = \<lambda>_. ''1'', pr_int = \<lambda>_. ''0''\<rparr> default_sanitize
      (JArray [JStr ''a'', JObject True [(''password'', JStr ''b'')]]) = Some r \<and> is_json r)"
proof -
  have v: "valid_sanitize default_sanitize"
    by (simp add: valid_sanitize_def default_sanitize_def option_or_def isNonNegativeInteger_def isPositiveInteger_def
        is_safe_integer_def max_safe_integer_def)
  with sanitize_safe [OF v] show ?thesis by blast
qed

section \<open>Arrays are cut twice\<close>

lemma items_all_kept:
  "coerce_items pr n xs left d r = (js, r') \<Longrightarrow> 0 \<le> r' \<Longrightarrow> left \<le> length xs \<Longrightarrow> length js = left"
proof (induction xs arbitrary: left r js r')
  case (Cons x xs)
  show ?case
  proof (cases "left = 0")
    case False
    show ?thesis
    proof (cases "r < 1")
      case True
      then show ?thesis using Cons.prems items_stop(2) [of left r pr n x xs d] False by simp
    next
      case one: False
      obtain j r1 where c: "(if x = JUndefined then keepLeaf pr JNull (r - 1) else or_null pr (coerce pr n x (d - 1) (r - 1))) = (j, r1)"
        by (meson surj_pair)
      obtain ks r2 where tl: "coerce_items pr n xs (left - 1) d r1 = (ks, r2)" by (meson surj_pair)
      have "coerce_items pr n (x # xs) left d r = (j # ks, r2)"
        by (rule items_step [OF _ _ c tl]) (use False one in simp_all)
      then have "js = j # ks" "r' = r2" using Cons.prems(1) by simp_all
      then show ?thesis using Cons.IH [OF tl] Cons.prems(2,3) False by simp
    qed
  qed (use Cons.prems in simp)
qed simp

text \<open>Claim C39: a cut array always reports one item left out. However many items more than \<open>maxItems\<close> an array
  has, \<open>sanitize\<close> returns the truncation marker or an array of \<open>maxItems\<close> items and the note that one more was
  there: redaction cuts it to \<open>maxItems\<close> items and its own note of the true count, which bounding then takes
  for an item and cuts again.\<close>

theorem cut_arrays_report_one:
  assumes "valid_sanitize opts" "sz_allow opts = None"
    and "0 < nat_of_num (option_or (sz_maxDepth opts) (Fin 6))"
    and "nat_of_num (option_or (sz_maxItems opts) (Fin 100)) < length xs"
  shows "sanitize pr opts (JArray xs) = Some js_TRUNCATED \<or>
    (\<exists>ys. length ys = nat_of_num (option_or (sz_maxItems opts) (Fin 100)) \<and>
       sanitize pr opts (JArray xs) = Some (JArray (ys @ [JStr (''[+'' @ pr_count pr 1 @ '' more]'')])))"
proof -
  define d n b where "d = nat_of_num (option_or (sz_maxDepth opts) (Fin 6))"
    and "n = nat_of_num (option_or (sz_maxItems opts) (Fin 100))"
    and "b = nat_of_num (option_or (sz_maxBytes opts) (Fin 16384))"
  define zs where "zs = take n (map (redact_walk (pr_count pr) default_mask (sanitize_keys opts) d (Some n) 1) xs) @
    [JStr (''[+'' @ pr_count pr (length xs - n) @ '' more]'')]"
  have n: "n < length xs" "0 < d" using assms(3,4) by (simp_all add: n_def d_def)
  then have len: "length zs = Suc n" by (simp add: zs_def)
  have x: "redact_walk (pr_count pr) default_mask (sanitize_keys opts) d (Some n) 0 (JArray xs) = JArray zs"
    using n by (simp add: zs_def Let_def)
  obtain js r1 where i: "coerce_items pr n zs n d (int b - 2) = (js, r1)" by (meson surj_pair)
  have j: "coerce pr n (JArray zs) d (int b) = (JArray (js @ [more_marker pr 1]), r1 - leaf_size pr (more_marker pr 1))"
    using coerce_array [of "int b" d pr n zs js r1] n len i by (simp add: min_def)
  have s: "sanitize pr opts (JArray xs) = Some (if r1 - leaf_size pr (more_marker pr 1) < 0 then js_TRUNCATED
      else if utf8ByteLength (json_text (pr_num pr) (JArray (js @ [more_marker pr 1]))) > b then js_TRUNCATED
      else JArray (js @ [more_marker pr 1]))"
    using assms(1,2) j x by (simp add: sanitize_def redact_def toBoundedJson_def valid_sanitize_def d_def n_def b_def
        sanitize_keys_def Let_def del: json_text.simps redact_walk.simps)
  have "length js = n" if "\<not> r1 - leaf_size pr (more_marker pr 1) < 0"
    using items_all_kept [OF i] that leaf_size_nonneg [of pr "more_marker pr 1"] len by simp
  then show ?thesis using s by (auto simp: n_def [symmetric])
qed

definition two_items :: sanitize_options where
  "two_items = \<lparr>sz_allow = None, sz_redactKeys = None, sz_maxDepth = None, sz_maxItems = Some (Fin 2), sz_maxBytes = None\<rparr>"

lemmas limit_guards = isNonNegativeInteger_def isPositiveInteger_def is_safe_integer_def max_safe_integer_def nat_of_num_def

definition sample_printing :: printing where
  "sample_printing = \<lparr>pr_num = \<lambda>_. ''0'', pr_count = \<lambda>n. if n = 1 then ''1'' else ''2'', pr_int = \<lambda>_. ''0''\<rparr>"

lemma four_items_kept: "sanitize sample_printing two_items (JArray [JNull, JNull, JNull, JNull]) \<noteq> Some js_TRUNCATED"
  by (simp add: sanitize_def two_items_def sample_printing_def option_or_def redact_def toBoundedJson_def limit_guards Let_def
      coerce.simps keepLeaf_def or_null_def spend_def js_TRUNCATED_def json_string_def json_char_def unit_of_def)

theorem cut_arrays_report_one_witness:
  "\<exists>ys. length ys = 2 \<and> sanitize sample_printing two_items (JArray [JNull, JNull, JNull, JNull]) =
     Some (JArray (ys @ [JStr ''[+1 more]'']))"
proof -
  let ?xs = "[JNull, JNull, JNull, JNull]"
  have "valid_sanitize two_items" "sz_allow two_items = None" "0 < nat_of_num (option_or (sz_maxDepth two_items) (Fin 6))"
    "nat_of_num (option_or (sz_maxItems two_items) (Fin 100)) = 2"
    by (simp_all add: valid_sanitize_def two_items_def option_or_def limit_guards)
  with cut_arrays_report_one [of two_items ?xs sample_printing] four_items_kept
  show ?thesis by (simp add: sample_printing_def)
qed

section \<open>What the pattern of a credential misses\<close>

text \<open>A credential is masked on its own, but not right behind a label, whose value it is taken for.\<close>

lemmas string_scanning = mask_string_def looksSecret_def jwt_pattern_def bearer_pattern_def maskCredentialSchemes_def
  maskEmbeddedSecrets_def match_scheme_def match_pair_def auth_schemes_def startsWith_def at_boundary_def is_word_def
  is_letter_def is_digit_char_def is_space_def is_token_char_def is_key_char_def unit_of_def toLowerCase_def
  lower_char_def isSensitiveKey_def NORMALIZED_SENSITIVE_KEYS_def DEFAULT_SENSITIVE_KEYS_def normalizeKey_def is_base64url_def

lemma label_hides_credential:
  "mask_string default_mask [] ''password=x'' = ''password=[REDACTED]''"
  "mask_string default_mask [] ''error: password=x'' = ''error: password=x''"
  by (simp_all add: string_scanning Let_def default_mask_def)

end
