(* ===== verification/Json_Check.thy ===== *)
theory Json_Check imports Bounded_Json begin

text \<open>
  Strict JSON, \<open>isJson\<close> with its limits, \<open>stringifyJson\<close> and \<open>escapeJsonForHtml\<close> of
  \<^verbatim>\<open>packages/std/src/encoding/json.ts\<close>. How the language prints a finite number is an argument; the
  text is plain ASCII. Values are trees: a cycle, an accessor, a hole or a \<open>toJSON\<close> method does not occur.
\<close>

section \<open>isJson\<close>

text \<open>What is left of the limits; None where there is none.\<close>

record json_walk =
  jw_nodes :: "int option"
  jw_bytes :: "int option"

fun left_ok :: "int option \<Rightarrow> bool" where
  "left_ok None = True"
| "left_ok (Some b) = (0 \<le> b)"

text \<open>A check that fails ends the whole walk, so the walk is returned only when it succeeds.\<close>

definition jsonSpend :: "nat \<Rightarrow> json_walk \<Rightarrow> json_walk option" where
  "jsonSpend bytes w =
     (let left = map_option (\<lambda>b. b - int bytes) (jw_bytes w)
      in if left_ok left then Some (w\<lparr>jw_bytes := left\<rparr>) else None)"

definition jsonString :: "string \<Rightarrow> json_walk \<Rightarrow> json_walk option" where
  "jsonString v w =
     (if left_ok (map_option (\<lambda>b. b - int (length v)) (jw_bytes w)) then jsonSpend (utf8ByteLength (json_string v)) w
      else None)"

definition spend_node :: "json_walk \<Rightarrow> json_walk option" where
  "spend_node w =
     (let left = map_option (\<lambda>n. n - 1) (jw_nodes w)
      in if left_ok left then Some (w\<lparr>jw_nodes := left\<rparr>) else None)"

definition fits_nodes :: "nat \<Rightarrow> json_walk \<Rightarrow> bool" where
  "fits_nodes n w = left_ok (map_option (\<lambda>left. left - int n) (jw_nodes w))"

fun primitive_text :: "(jsnum \<Rightarrow> string) \<Rightarrow> jsval \<Rightarrow> string option" where
  "primitive_text num_text JNull = Some ''null''"
| "primitive_text num_text (JBool b) = Some (if b then ''true'' else ''false'')"
| "primitive_text num_text (JNum n) = (if js_finite n then Some (num_text n) else None)"
| "primitive_text num_text _ = None"

function isJsonValue :: "(jsnum \<Rightarrow> string) \<Rightarrow> nat option \<Rightarrow> jsval \<Rightarrow> nat \<Rightarrow> json_walk \<Rightarrow> json_walk option"
  and check_items :: "(jsnum \<Rightarrow> string) \<Rightarrow> nat option \<Rightarrow> jsval list \<Rightarrow> bool \<Rightarrow> nat \<Rightarrow> json_walk \<Rightarrow> json_walk option"
  and check_props :: "(jsnum \<Rightarrow> string) \<Rightarrow> nat option \<Rightarrow> (string \<times> jsval) list \<Rightarrow> bool \<Rightarrow> nat \<Rightarrow> json_walk \<Rightarrow> json_walk option"
where
  "isJsonValue nt mx v depth w =
     Option.bind (spend_node w) (\<lambda>w1.
       if (case mx of None \<Rightarrow> False | Some d \<Rightarrow> depth > d) then None
       else if is_container v then
         (if isRecord v \<and> v \<noteq> JObject True (props_of v) then None
          else Option.bind (jsonSpend 2 w1) (\<lambda>w2.
            if isRecord v then
              (if fits_nodes (length (props_of v)) w2 then check_props nt mx (props_of v) True depth w2 else None)
            else if fits_nodes (length (items_of v)) w2 then check_items nt mx (items_of v) True depth w2 else None))
       else case v of
         JStr s \<Rightarrow> jsonString s w1
       | _ \<Rightarrow> (case primitive_text nt v of None \<Rightarrow> None | Some t \<Rightarrow> jsonSpend (length t) w1))"
| "check_items nt mx [] first depth w = Some w"
| "check_items nt mx (x # xs) first depth w =
     Option.bind (if first then Some w else jsonSpend 1 w) (\<lambda>w1.
       Option.bind (isJsonValue nt mx x (depth + 1) w1) (\<lambda>w2. check_items nt mx xs False depth w2))"
| "check_props nt mx [] first depth w = Some w"
| "check_props nt mx (p # ps) first depth w =
     Option.bind (if first then Some w else jsonSpend 1 w) (\<lambda>w1.
       Option.bind (Option.bind (jsonString (fst p) w1) (jsonSpend 1)) (\<lambda>w2.
         Option.bind (isJsonValue nt mx (snd p) (depth + 1) w2) (\<lambda>w3. check_props nt mx ps False depth w3)))"
  by pat_completeness auto
termination
proof (relation "measure (\<lambda>x. case x of
      Inl (_, _, v, _, _) \<Rightarrow> 2 * size v + 1
    | Inr (Inl (_, _, xs, _, _, _)) \<Rightarrow> 2 * size_list size xs
    | Inr (Inr (_, _, ps, _, _, _)) \<Rightarrow> 2 * size_list (size_prod (\<lambda>_. 0) size) ps)", goal_cases)
  case (2 nt mx v)
  then show ?case using size_parts [of v] by simp
next
  case (3 nt mx v)
  then show ?case using size_parts [of v] by simp
next
  case (6 nt mx p)
  then show ?case by (cases p) simp
next
  case (7 nt mx p)
  then show ?case by (cases p) simp
qed simp_all

declare isJsonValue.simps [simp del]

record json_limits =
  jl_maxDepth :: "jsnum option"
  jl_maxNodes :: "jsnum option"
  jl_maxBytes :: "jsnum option"

text \<open>None stands for the \<open>RangeError\<close> of an invalid limit.\<close>

definition isJson :: "(jsnum \<Rightarrow> string) \<Rightarrow> json_limits \<Rightarrow> jsval \<Rightarrow> bool option" where
  "isJson nt limits v =
     (if (case jl_maxDepth limits of None \<Rightarrow> False | Some d \<Rightarrow> \<not> isNonNegativeInteger d) \<or>
         (case jl_maxNodes limits of None \<Rightarrow> False | Some n \<Rightarrow> \<not> isPositiveInteger n) \<or>
         (case jl_maxBytes limits of None \<Rightarrow> False | Some b \<Rightarrow> \<not> isPositiveInteger b) then None
      else Some (isJsonValue nt (map_option nat_of_num (jl_maxDepth limits)) v 0
        \<lparr>jw_nodes = map_option (int \<circ> nat_of_num) (jl_maxNodes limits),
         jw_bytes = map_option (int \<circ> nat_of_num) (jl_maxBytes limits)\<rparr> \<noteq> None))"

section \<open>The measures of a value\<close>

fun json_nodes :: "jsval \<Rightarrow> nat" where
  "json_nodes (JArray xs) = 1 + sum_list (map json_nodes xs)"
| "json_nodes (JObject _ ps) = 1 + sum_list (map (\<lambda>p. json_nodes (snd p)) ps)"
| "json_nodes _ = 1"

text \<open>The root is at depth zero.\<close>

fun depth_within :: "nat option \<Rightarrow> nat \<Rightarrow> jsval \<Rightarrow> bool" where
  "depth_within mx depth (JArray xs) =
     ((case mx of None \<Rightarrow> True | Some d \<Rightarrow> depth \<le> d) \<and> (\<forall>x \<in> set xs. depth_within mx (depth + 1) x))"
| "depth_within mx depth (JObject _ ps) =
     ((case mx of None \<Rightarrow> True | Some d \<Rightarrow> depth \<le> d) \<and> (\<forall>p \<in> set ps. depth_within mx (depth + 1) (snd p)))"
| "depth_within mx depth _ = (case mx of None \<Rightarrow> True | Some d \<Rightarrow> depth \<le> d)"

abbreviation json_size :: "(jsnum \<Rightarrow> string) \<Rightarrow> jsval \<Rightarrow> nat" where
  "json_size nt v \<equiv> utf8ByteLength (json_text nt v)"

section \<open>The walk charges exactly the size\<close>

definition charge :: "nat \<Rightarrow> nat \<Rightarrow> json_walk \<Rightarrow> json_walk option" where
  "charge n b w =
     (let nodes = map_option (\<lambda>left. left - int n) (jw_nodes w); bytes = map_option (\<lambda>left. left - int b) (jw_bytes w)
      in if left_ok nodes \<and> left_ok bytes then Some (w\<lparr>jw_nodes := nodes, jw_bytes := bytes\<rparr>) else None)"

definition affordable :: "json_walk \<Rightarrow> bool" where
  "affordable w = (left_ok (jw_nodes w) \<and> left_ok (jw_bytes w))"

lemma charge_affordable: "charge n b w = Some w' \<Longrightarrow> affordable w'"
  by (auto simp: charge_def affordable_def Let_def split: if_splits)

lemma charge_charge: "Option.bind (charge n b w) (charge n' b') = charge (n + n') (b + b') w"
  by (cases "jw_nodes w"; cases "jw_bytes w") (auto simp: charge_def Let_def)

lemma charge_zero: "affordable w \<Longrightarrow> charge 0 0 w = Some w"
  by (cases "jw_nodes w"; cases "jw_bytes w") (auto simp: charge_def affordable_def)

lemma spends:
  "affordable w \<Longrightarrow> jsonSpend b w = charge 0 b w" "affordable w \<Longrightarrow> spend_node w = charge 1 0 w"
  by (cases "jw_nodes w"; cases "jw_bytes w"; auto simp: jsonSpend_def spend_node_def charge_def affordable_def Let_def)+

lemma utf8_at_least: "length s \<le> utf8ByteLength s"
  by (induction s) auto

lemma json_char_long: "1 \<le> utf8ByteLength (json_char c)"
  using utf8_at_least [of "json_char c"] by (simp add: json_char_def Let_def split: if_splits)

lemma json_string_long: "length s \<le> utf8ByteLength (json_string s)"
proof -
  have "length s \<le> utf8ByteLength (concat (map json_char s))"
    using json_char_long by (induction s) (auto intro: add_le_mono [of 1, simplified])
  then show ?thesis by (simp add: json_string_def)
qed

lemma jsonString_charge:
  assumes "affordable w"
  shows "jsonString s w = charge 0 (utf8ByteLength (json_string s)) w"
proof -
  have "jsonString s w = jsonSpend (utf8ByteLength (json_string s)) w"
    using json_string_long [of s] by (cases "jw_bytes w") (auto simp: jsonString_def jsonSpend_def Let_def)
  then show ?thesis using spends(1) [OF assms] by simp
qed

lemma join_size: "utf8ByteLength (js_join '','' ss) = sum_list (map utf8ByteLength ss) + (length ss - 1)"
  by (induction ss) (auto simp: js_join_Cons unit_of_def)

text \<open>A step that continues after a charge, compared with one charge for both.\<close>

lemma then_charge:
  assumes "\<And>w'. charge n b w = Some w' \<Longrightarrow> affordable w' \<Longrightarrow> F w' = (if ok then charge n' b' w' else None)"
  shows "Option.bind (charge n b w) F = (if ok then charge (n + n') (b + b') w else None)"
proof -
  have "Option.bind (charge n b w) F = Option.bind (charge n b w) (\<lambda>w'. if ok then charge n' b' w' else None)"
    using assms charge_affordable by (cases "charge n b w") auto
  then show ?thesis by (simp add: charge_charge [symmetric] bind_eq_None_conv)
qed

lemma then_both:
  assumes "A = (if ok then charge n b w else None)"
    and "\<And>w'. ok \<Longrightarrow> charge n b w = Some w' \<Longrightarrow> affordable w' \<Longrightarrow> F w' = (if ok' then charge n' b' w' else None)"
  shows "Option.bind A F = (if ok \<and> ok' then charge (n + n') (b + b') w else None)"
  using assms then_charge [of n b w F ok' n' b'] by (cases ok) auto

definition comma_count :: "bool \<Rightarrow> 'a list \<Rightarrow> nat" where
  "comma_count first xs = (if first then length xs - 1 else length xs)"

lemma fits_affordable:
  assumes "\<not> fits_nodes n w" "n \<le> m"
  shows "charge m b w = None"
  using assms by (cases "jw_nodes w") (auto simp: fits_nodes_def charge_def Let_def)

lemma nodes_at_least: "length xs \<le> sum_list (map json_nodes xs)"
proof -
  have "1 \<le> json_nodes v" for v by (cases v) auto
  then show ?thesis by (induction xs) (auto intro: add_mono [of "Suc 0", simplified])
qed

lemma container_size:
  "json_size nt (JArray xs) = 2 + (sum_list (map (json_size nt) xs) + comma_count True xs)"
  "json_size nt (JObject pl ps) = 2 + (sum_list (map (\<lambda>p. utf8ByteLength (json_string (fst p)) + 1 + json_size nt (snd p)) ps) + comma_count True ps)"
  by (simp_all add: join_size comma_count_def comp_def split_beta unit_of_def)

text \<open>The equations of the walk, by shape.\<close>

definition too_deep :: "nat option \<Rightarrow> nat \<Rightarrow> bool" where
  "too_deep mx depth = (case mx of None \<Rightarrow> False | Some d \<Rightarrow> depth > d)"

lemma value_deep: "too_deep mx depth \<Longrightarrow> isJsonValue nt mx v depth w = None"
  by (subst isJsonValue.simps) (simp add: too_deep_def bind_eq_None_conv)

lemma value_array: "\<not> too_deep mx depth \<Longrightarrow> isJsonValue nt mx (JArray xs) depth w =
    Option.bind (spend_node w) (\<lambda>w1. Option.bind (jsonSpend 2 w1)
      (\<lambda>w2. if fits_nodes (length xs) w2 then check_items nt mx xs True depth w2 else None))"
  by (subst isJsonValue.simps) (simp add: too_deep_def cong: if_cong)

lemma value_object: "\<not> too_deep mx depth \<Longrightarrow> isJsonValue nt mx (JObject plain ps) depth w =
    Option.bind (spend_node w) (\<lambda>w1. if plain then Option.bind (jsonSpend 2 w1)
      (\<lambda>w2. if fits_nodes (length ps) w2 then check_props nt mx ps True depth w2 else None) else None)"
  by (subst isJsonValue.simps) (cases plain; simp add: too_deep_def cong: if_cong)

definition leaf_text :: "(jsnum \<Rightarrow> string) \<Rightarrow> jsval \<Rightarrow> json_walk \<Rightarrow> json_walk option" where
  "leaf_text nt v w1 = (case v of
     JStr s \<Rightarrow> jsonString s w1
   | _ \<Rightarrow> (case primitive_text nt v of None \<Rightarrow> None | Some t \<Rightarrow> jsonSpend (length t) w1))"

lemma value_leaf: "\<not> too_deep mx depth \<Longrightarrow> \<not> is_container v \<Longrightarrow>
    isJsonValue nt mx v depth w = Option.bind (spend_node w) (leaf_text nt v)"
  by (subst isJsonValue.simps) (simp add: too_deep_def leaf_text_def [abs_def])

lemma deep_not_within: "too_deep mx depth \<Longrightarrow> \<not> depth_within mx depth v"
  by (cases v) (auto simp: too_deep_def split: option.splits)

lemma deep_array: "\<not> too_deep mx depth \<Longrightarrow>
    depth_within mx depth (JArray xs) \<longleftrightarrow> (\<forall>x \<in> set xs. depth_within mx (depth + 1) x)"
  by (auto simp: too_deep_def split: option.splits)

lemma deep_object: "\<not> too_deep mx depth \<Longrightarrow>
    depth_within mx depth (JObject plain ps) \<longleftrightarrow> (\<forall>p \<in> set ps. depth_within mx (depth + 1) (snd p))"
  by (auto simp: too_deep_def split: option.splits)

lemma leaf_within: "\<not> too_deep mx depth \<Longrightarrow> \<not> is_container v \<Longrightarrow> depth_within mx depth v"
  by (cases v) (auto simp: too_deep_def split: option.splits)

text \<open>The language prints finite numbers in ASCII.\<close>

definition ascii_numbers :: "(jsnum \<Rightarrow> string) \<Rightarrow> bool" where
  "ascii_numbers nt = (\<forall>n. js_finite n \<longrightarrow> utf8ByteLength (nt n) = length (nt n))"

lemma leaf_charge:
  assumes ascii: "ascii_numbers nt" and w: "affordable w" and v: "\<not> is_container v"
  shows "Option.bind (charge 1 0 w) (leaf_text nt v) = (if is_json v then charge (json_nodes v) (json_size nt v) w else None)"
proof -
  have "leaf_text nt v w1 = (if is_json v then charge 0 (json_size nt v) w1 else None)" if "affordable w1" for w1
    using that v ascii by (cases v) (auto simp: leaf_text_def jsonString_charge spends unit_of_def ascii_numbers_def)
  then have "Option.bind (charge 1 0 w) (leaf_text nt v) = (if is_json v then charge (1 + 0) (0 + json_size nt v) w else None)"
    by (intro then_charge)
  moreover have "json_nodes v = 1" using v by (cases v) auto
  ultimately show ?thesis by simp
qed

lemma walk_exact:
  "affordable w \<Longrightarrow> ascii_numbers nt \<Longrightarrow> isJsonValue nt mx v depth w =
      (if is_json v \<and> depth_within mx depth v then charge (json_nodes v) (json_size nt v) w else None)"
  "affordable w \<Longrightarrow> ascii_numbers nt \<Longrightarrow> check_items nt mx xs first depth w =
      (if \<forall>x \<in> set xs. is_json x \<and> depth_within mx (depth + 1) x
       then charge (sum_list (map json_nodes xs)) (sum_list (map (json_size nt) xs) + comma_count first xs) w else None)"
  "affordable w \<Longrightarrow> ascii_numbers nt \<Longrightarrow> check_props nt mx ps first depth w =
      (if \<forall>p \<in> set ps. is_json (snd p) \<and> depth_within mx (depth + 1) (snd p)
       then charge (sum_list (map (\<lambda>p. json_nodes (snd p)) ps))
         (sum_list (map (\<lambda>p. utf8ByteLength (json_string (fst p)) + 1 + json_size nt (snd p)) ps) + comma_count first ps) w
       else None)"
proof (induction nt mx v depth w and nt mx xs first depth w and nt mx ps first depth w
    rule: isJsonValue_check_items_check_props.induct)
  case (1 nt mx v depth w)
  have start: "spend_node w = charge 1 0 w" using 1(3) by (simp add: spends)
  show ?case
  proof (cases "too_deep mx depth")
    case True
    then show ?thesis by (simp add: value_deep deep_not_within)
  next
    case shallow: False
    have leaf: ?thesis if "\<not> is_container v"
      using leaf_within [OF shallow that] by (simp only: value_leaf [OF shallow that] start leaf_charge [OF 1(4,3) that] simp_thms)
    show ?thesis
    proof (cases v)
      case (JArray xs)
      let ?oks = "\<forall>x \<in> set xs. is_json x \<and> depth_within mx (depth + 1) x"
      let ?n = "sum_list (map json_nodes xs)" and ?b = "sum_list (map (json_size nt) xs) + comma_count True xs"
      have "isJsonValue nt mx v depth w = (if ?oks then charge (1 + (0 + ?n)) (0 + (2 + ?b)) w else None)"
        unfolding JArray value_array [OF shallow] start
      proof (rule then_charge)
        fix w1 assume w1: "charge 1 0 w = Some w1" "affordable w1"
        show "Option.bind (jsonSpend 2 w1) (\<lambda>w2. if fits_nodes (length xs) w2 then check_items nt mx xs True depth w2 else None) =
            (if ?oks then charge (0 + ?n) (2 + ?b) w1 else None)"
          unfolding spends(1) [OF w1(2)]
        proof (rule then_charge)
          fix w2 assume w2: "charge 0 2 w1 = Some w2" "affordable w2"
          have "check_items nt mx xs True depth w2 = (if ?oks then charge ?n ?b w2 else None)" if "fits_nodes (length xs) w2"
            by (rule 1(2) [unfolded JArray items_of.simps])
              (use start w1 w2 that shallow 1(4) spends(1) [OF w1(2), of 2] in \<open>simp_all add: too_deep_def\<close>)
          then show "(if fits_nodes (length xs) w2 then check_items nt mx xs True depth w2 else None) =
              (if ?oks then charge ?n ?b w2 else None)"
            using fits_affordable [OF _ nodes_at_least [of xs], of w2] by simp
        qed
      qed
      moreover have "json_size nt v = 2 + ?b" "json_nodes v = 1 + ?n" using container_size(1) [of nt xs] by (simp_all add: JArray)
      moreover have "is_json v \<and> depth_within mx depth v \<longleftrightarrow> ?oks"
        using deep_array [OF shallow, of xs] by (auto simp: JArray)
      ultimately show ?thesis by (simp only: add_0)
    next
      case (JObject plain ps)
      let ?oks = "\<forall>p \<in> set ps. is_json (snd p) \<and> depth_within mx (depth + 1) (snd p)"
      let ?n = "sum_list (map (\<lambda>p. json_nodes (snd p)) ps)"
      let ?b = "sum_list (map (\<lambda>p. utf8ByteLength (json_string (fst p)) + 1 + json_size nt (snd p)) ps) + comma_count True ps"
      have "isJsonValue nt mx v depth w = (if ?oks then charge (1 + (0 + ?n)) (0 + (2 + ?b)) w else None)" if plain
        unfolding JObject value_object [OF shallow] start using that
      proof (simp only: simp_thms if_True, intro then_charge)
        fix w1 assume w1: "charge 1 0 w = Some w1" "affordable w1"
        show "Option.bind (jsonSpend 2 w1) (\<lambda>w2. if fits_nodes (length ps) w2 then check_props nt mx ps True depth w2 else None) =
            (if ?oks then charge (0 + ?n) (2 + ?b) w1 else None)"
          unfolding spends(1) [OF w1(2)]
        proof (rule then_charge)
          fix w2 assume w2: "charge 0 2 w1 = Some w2" "affordable w2"
          have "check_props nt mx ps True depth w2 = (if ?oks then charge ?n ?b w2 else None)" if "fits_nodes (length ps) w2"
            by (rule 1(1) [unfolded JObject props_of.simps])
              (use start w1 w2 that shallow 1(4) spends(1) [OF w1(2), of 2] \<open>plain\<close> in \<open>simp_all add: too_deep_def\<close>)
          then show "(if fits_nodes (length ps) w2 then check_props nt mx ps True depth w2 else None) =
              (if ?oks then charge ?n ?b w2 else None)"
            using fits_affordable [OF _ nodes_at_least [of "map snd ps"], of w2] by (simp add: comp_def)
        qed
      qed
      moreover have "isJsonValue nt mx v depth w = None" if "\<not> plain"
        using that value_object [OF shallow, of nt plain ps w] by (simp add: JObject bind_eq_None_conv)
      moreover have "json_size nt v = 2 + ?b" "json_nodes v = 1 + ?n"
        using container_size(2) [of nt plain ps] by (simp_all add: JObject)
      moreover have "is_json v \<and> depth_within mx depth v \<longleftrightarrow> plain \<and> ?oks"
        using deep_object [OF shallow, of plain ps] by (auto simp: JObject)
      ultimately show ?thesis by (cases plain) (simp_all only: add_0 simp_thms if_False)
    qed (rule leaf, simp)+
  qed
next
  case (2 nt mx first depth w)
  then show ?case by (simp add: charge_zero comma_count_def)
next
  case (3 nt mx x xs first depth w)
  let ?ok = "is_json x \<and> depth_within mx (depth + 1) x"
  let ?oks = "\<forall>x \<in> set xs. is_json x \<and> depth_within mx (depth + 1) x"
  let ?c = "if first then 0 else 1"
  have first: "(if first then Some w else jsonSpend 1 w) = charge 0 ?c w"
    using 3(3) by (simp add: charge_zero spends)
  have "check_items nt mx (x # xs) first depth w = Option.bind (charge 0 ?c w)
      (\<lambda>w1. Option.bind (isJsonValue nt mx x (depth + 1) w1) (\<lambda>w2. check_items nt mx xs False depth w2))"
    by (simp only: check_items.simps first)
  also have "\<dots> = (if ?ok \<and> ?oks then charge (0 + (json_nodes x + sum_list (map json_nodes xs)))
      (?c + (json_size nt x + (sum_list (map (json_size nt) xs) + comma_count False xs))) w else None)"
  proof (rule then_charge, rule then_both)
    fix w1 assume w1: "charge 0 ?c w = Some w1" "affordable w1"
    show v: "isJsonValue nt mx x (depth + 1) w1 = (if ?ok then charge (json_nodes x) (json_size nt x) w1 else None)"
      by (rule 3(1)) (use w1 first 3(4) in simp_all)
    show "check_items nt mx xs False depth w2 = (if ?oks then charge (sum_list (map json_nodes xs))
        (sum_list (map (json_size nt) xs) + comma_count False xs) w2 else None)"
      if "?ok" "charge (json_nodes x) (json_size nt x) w1 = Some w2" "affordable w2" for w2
      by (rule 3(2)) (use that w1 first v 3(4) in simp_all)
  qed
  also have "?c + (json_size nt x + (sum_list (map (json_size nt) xs) + comma_count False xs)) =
      sum_list (map (json_size nt) (x # xs)) + comma_count first (x # xs)"
    by (simp add: comma_count_def)
  finally show ?case by simp
next
  case (4 nt mx first depth w)
  then show ?case by (simp add: charge_zero comma_count_def)
next
  case (5 nt mx p ps first depth w)
  obtain k x where p: "p = (k, x)" by (cases p)
  let ?ok = "is_json x \<and> depth_within mx (depth + 1) x"
  let ?oks = "\<forall>p \<in> set ps. is_json (snd p) \<and> depth_within mx (depth + 1) (snd p)"
  let ?nodes = "sum_list (map (\<lambda>p. json_nodes (snd p)) ps)"
  let ?bytes = "sum_list (map (\<lambda>p. utf8ByteLength (json_string (fst p)) + 1 + json_size nt (snd p)) ps) + comma_count False ps"
  let ?c = "if first then 0 else 1"
  let ?k = "utf8ByteLength (json_string k)"
  have first: "(if first then Some w else jsonSpend 1 w) = charge 0 ?c w"
    using 5(3) by (simp add: charge_zero spends)
  have key: "Option.bind (jsonString k w1) (jsonSpend 1) = charge 0 (?k + 1) w1" if "affordable w1" for w1
  proof -
    have "Option.bind (jsonString k w1) (jsonSpend 1) = Option.bind (charge 0 ?k w1) (jsonSpend 1)"
      by (simp add: jsonString_charge [OF that])
    also have "\<dots> = (if True then charge (0 + 0) (?k + 1) w1 else None)"
      by (rule then_charge) (simp add: spends)
    finally show ?thesis by simp
  qed
  have "check_props nt mx (p # ps) first depth w = Option.bind (charge 0 ?c w)
      (\<lambda>w1. Option.bind (Option.bind (jsonString k w1) (jsonSpend 1))
        (\<lambda>w2. Option.bind (isJsonValue nt mx x (depth + 1) w2) (\<lambda>w3. check_props nt mx ps False depth w3)))"
    by (simp only: check_props.simps first p fst_conv snd_conv)
  also have "\<dots> = (if ?ok \<and> ?oks then charge (0 + (0 + (json_nodes x + ?nodes))) (?c + ((?k + 1) + (json_size nt x + ?bytes))) w else None)"
  proof (rule then_charge)
    fix w1 assume w1: "charge 0 ?c w = Some w1" "affordable w1"
    show "Option.bind (Option.bind (jsonString k w1) (jsonSpend 1))
        (\<lambda>w2. Option.bind (isJsonValue nt mx x (depth + 1) w2) (\<lambda>w3. check_props nt mx ps False depth w3)) =
        (if ?ok \<and> ?oks then charge (0 + (json_nodes x + ?nodes)) ((?k + 1) + (json_size nt x + ?bytes)) w1 else None)"
      unfolding key [OF w1(2)]
    proof (rule then_charge, rule then_both)
      fix w2 assume w2: "charge 0 (?k + 1) w1 = Some w2" "affordable w2"
      show v: "isJsonValue nt mx x (depth + 1) w2 = (if ?ok then charge (json_nodes x) (json_size nt x) w2 else None)"
        by (rule 5(1) [unfolded p fst_conv snd_conv]) (use w1 w2 5(4) first key [OF w1(2)] in simp_all)
      show "check_props nt mx ps False depth w3 = (if ?oks then charge ?nodes ?bytes w3 else None)"
        if "?ok" "charge (json_nodes x) (json_size nt x) w2 = Some w3" "affordable w3" for w3
        by (rule 5(2) [unfolded p fst_conv snd_conv]) (use that w1 w2 5(4) first key [OF w1(2)] v in simp_all)
    qed
  qed
  finally show ?case by (simp add: p comma_count_def algebra_simps split_beta)
qed

section \<open>stringifyJson\<close>

text \<open>A value that would be lost or changed, with the key it stands at (None at the top level).\<close>

datatype json_encode_error = LossyValue "string option" string

fun number_name :: "jsnum \<Rightarrow> string" where
  "number_name NaN = ''NaN''"
| "number_name PosInf = ''Infinity''"
| "number_name NegInf = ''-Infinity''"
| "number_name _ = []"

text \<open>What the replacer leaves of a value, visited in the order of \<open>JSON.stringify\<close>; \<open>index\<close> prints the key of an
  array item.\<close>

fun rejectLossy :: "(nat \<Rightarrow> string) \<Rightarrow> bool \<Rightarrow> string option \<Rightarrow> jsval \<Rightarrow> json_encode_error + jsval"
  and reject_items :: "(nat \<Rightarrow> string) \<Rightarrow> bool \<Rightarrow> nat \<Rightarrow> jsval list \<Rightarrow> json_encode_error + jsval list"
  and reject_props :: "(nat \<Rightarrow> string) \<Rightarrow> bool \<Rightarrow> (string \<times> jsval) list \<Rightarrow> json_encode_error + (string \<times> jsval) list"
where
  "rejectLossy index omit key JUndefined = Inl (LossyValue key ''undefined'')"
| "rejectLossy index omit key (JFunction f) = Inl (LossyValue key ''function'')"
| "rejectLossy index omit key (JSymbol f) = Inl (LossyValue key ''symbol'')"
| "rejectLossy index omit key (JBigInt i) = Inl (LossyValue key ''bigint'')"
| "rejectLossy index omit key (JNum n) = (if js_finite n then Inr (JNum n) else Inl (LossyValue key (number_name n)))"
| "rejectLossy index omit key (JArray xs) =
     (case reject_items index omit 0 xs of Inl e \<Rightarrow> Inl e | Inr ys \<Rightarrow> Inr (JArray ys))"
| "rejectLossy index omit key (JObject plain ps) =
     (case reject_props index omit ps of Inl e \<Rightarrow> Inl e | Inr qs \<Rightarrow> Inr (JObject True qs))"
| "rejectLossy index omit key v = Inr v"
| "reject_items index omit i [] = Inr []"
| "reject_items index omit i (x # xs) =
     (case rejectLossy index omit (Some (index i)) x of
        Inl e \<Rightarrow> Inl e
      | Inr y \<Rightarrow> (case reject_items index omit (i + 1) xs of Inl e \<Rightarrow> Inl e | Inr ys \<Rightarrow> Inr (y # ys)))"
| "reject_props index omit [] = Inr []"
| "reject_props index omit ((k, x) # ps) =
     (if omit \<and> x = JUndefined then reject_props index omit ps
      else case rejectLossy index omit (Some k) x of
        Inl e \<Rightarrow> Inl e
      | Inr y \<Rightarrow> (case reject_props index omit ps of Inl e \<Rightarrow> Inl e | Inr qs \<Rightarrow> Inr ((k, y) # qs)))"

definition stringifyJson ::
  "(jsnum \<Rightarrow> string) \<Rightarrow> (nat \<Rightarrow> string) \<Rightarrow> bool \<Rightarrow> jsval \<Rightarrow> json_encode_error + string" where
  "stringifyJson nt index omitUndefined v =
     (case rejectLossy index omitUndefined None v of Inl e \<Rightarrow> Inl e | Inr w \<Rightarrow> Inr (json_text nt w))"

lemma reject_sound:
  "rejectLossy index omit key v = Inr w \<Longrightarrow> is_json w"
  "reject_items index omit i xs = Inr ys \<Longrightarrow> \<forall>y \<in> set ys. is_json y"
  "reject_props index omit ps = Inr qs \<Longrightarrow> \<forall>q \<in> set qs. is_json (snd q)"
proof (induction index omit key v and index omit i xs and index omit ps arbitrary: w and ys and qs
    rule: rejectLossy_reject_items_reject_props.induct)
  case (12 index omit k x ps)
  show ?case
  proof (cases "omit \<and> x = JUndefined")
    case True
    then show ?thesis using 12 by simp
  next
    case False
    then obtain y rest where "rejectLossy index omit (Some k) x = Inr y" "reject_props index omit ps = Inr rest" "qs = (k, y) # rest"
      using 12(4) by (auto simp del: de_Morgan_conj split: sum.splits)
    then show ?thesis using 12(2,3) False by simp
  qed
qed (auto split: sum.splits if_splits)

lemma reject_keeps:
  "is_json v \<Longrightarrow> rejectLossy index omit key v = Inr v"
  "\<forall>x \<in> set xs. is_json x \<Longrightarrow> reject_items index omit i xs = Inr xs"
  "\<forall>p \<in> set ps. is_json (snd p) \<Longrightarrow> reject_props index omit ps = Inr ps"
  by (induction index omit key v and index omit i xs and index omit ps
      rule: rejectLossy_reject_items_reject_props.induct) auto

section \<open>escapeJsonForHtml\<close>

definition html_escape :: "char \<Rightarrow> string" where
  "html_escape c =
     (if c = CHR ''<'' then CHR 0x5C # ''u003c'' else if c = CHR ''>'' then CHR 0x5C # ''u003e''
      else if c = CHR ''&'' then CHR 0x5C # ''u0026'' else [c])"

definition escapeJsonForHtml :: "string \<Rightarrow> string" where
  "escapeJsonForHtml json = concat (map html_escape json)"

lemma escaped_is_inert: "set (escapeJsonForHtml json) \<inter> {CHR ''<'', CHR ''>'', CHR ''&''} = {}"
  by (induction json) (auto simp: escapeJsonForHtml_def html_escape_def)

section \<open>Properties\<close>

lemma isJson_verdict:
  assumes "ascii_numbers nt" "isJson nt limits v = Some accepted"
  shows "accepted = (is_json v \<and> depth_within (map_option nat_of_num (jl_maxDepth limits)) 0 v \<and>
    (case jl_maxNodes limits of None \<Rightarrow> True | Some n \<Rightarrow> json_nodes v \<le> nat_of_num n) \<and>
    (case jl_maxBytes limits of None \<Rightarrow> True | Some b \<Rightarrow> json_size nt v \<le> nat_of_num b))"
proof -
  define w where "w = \<lparr>jw_nodes = map_option (int \<circ> nat_of_num) (jl_maxNodes limits),
    jw_bytes = map_option (int \<circ> nat_of_num) (jl_maxBytes limits)\<rparr>"
  have "affordable w" by (cases "jl_maxNodes limits"; cases "jl_maxBytes limits") (auto simp: w_def affordable_def)
  from walk_exact(1) [OF this assms(1)]
  have "accepted = (is_json v \<and> depth_within (map_option nat_of_num (jl_maxDepth limits)) 0 v \<and>
      charge (json_nodes v) (json_size nt v) w \<noteq> None)"
    using assms(2) by (auto simp: isJson_def w_def split: if_splits)
  then show ?thesis
    by (cases "jl_maxNodes limits"; cases "jl_maxBytes limits") (auto simp: w_def charge_def Let_def)
qed

text \<open>Claim C27: the limits of \<open>isJson\<close> are exact. With valid limits it accepts exactly the JSON values whose
  depth, number of values and serialized size in bytes (that of \<open>JSON.stringify\<close>) are within them, although it
  spends its budgets while it walks and never serializes the value.\<close>

theorem isJson_exact:
  assumes "ascii_numbers nt" "isJson nt limits v = Some accepted"
  shows "accepted = (is_json v \<and> depth_within (map_option nat_of_num (jl_maxDepth limits)) 0 v \<and>
    (case jl_maxNodes limits of None \<Rightarrow> True | Some n \<Rightarrow> json_nodes v \<le> nat_of_num n) \<and>
    (case jl_maxBytes limits of None \<Rightarrow> True | Some b \<Rightarrow> json_size nt v \<le> nat_of_num b))"
  by (rule isJson_verdict [OF assms])

definition json_zero :: "jsnum \<Rightarrow> string" where "json_zero n = ''0''"

theorem isJson_exact_witness:
  "ascii_numbers json_zero \<and>
   (let v = JArray [JStr ''a'', JNum (Fin 0)];
        limits = \<lparr>jl_maxDepth = Some (Fin 1), jl_maxNodes = Some (Fin 3), jl_maxBytes = Some (Fin 7)\<rparr>
    in isJson json_zero limits v = Some True \<and> isJson json_zero (limits\<lparr>jl_maxBytes := Some (Fin 6)\<rparr>) v = Some False)"
proof -
  let ?v = "JArray [JStr ''a'', JNum (Fin 0)]"
  let ?l = "\<lambda>b. \<lparr>jl_maxDepth = Some (Fin 1), jl_maxNodes = Some (Fin 3), jl_maxBytes = Some (Fin b)\<rparr>"
  have a: "ascii_numbers json_zero" by (simp add: ascii_numbers_def json_zero_def unit_of_def)
  have valid: "\<exists>x. isJson json_zero (?l b) ?v = Some x" if "b = 6 \<or> b = 7" for b :: rat
    using that by (auto simp: isJson_def isPositiveInteger_def isNonNegativeInteger_def is_safe_integer_def max_safe_integer_def)
  obtain x where x: "isJson json_zero (?l 7) ?v = Some x" using valid [of 7] by auto
  obtain y where y: "isJson json_zero (?l 6) ?v = Some y" using valid [of 6] by auto
  have "x = True" "y = False"
    using isJson_exact [OF a x] isJson_exact [OF a y]
    by (simp_all add: nat_of_num_def js_finite_def json_zero_def json_string_def json_char_def unit_of_def)
  with a x y show ?thesis by (simp add: Let_def)
qed

text \<open>\<open>stringifyJson\<close> never changes a value: what it returns is the text of a JSON value, and a JSON value is
  serialized as it is.\<close>

theorem stringify_faithful:
  "(stringifyJson nt index omit v = Inr s \<longrightarrow> (\<exists>w. is_json w \<and> s = json_text nt w)) \<and>
   (is_json v \<longrightarrow> stringifyJson nt index omit v = Inr (json_text nt v))"
  using reject_sound(1) reject_keeps(1) by (fastforce simp: stringifyJson_def split: sum.splits)

end
