(* ===== verification/List_Dialect.thy ===== *)
theory List_Dialect imports Redaction begin

text \<open>
  List queries on the wire: the request of \<^verbatim>\<open>packages/std/src/list/params.ts\<close>, the operators and the
  escape codec of \<^verbatim>\<open>packages/http/src/list\<close>, the request builder \<open>buildListQuery\<close>, the query encoding of
  \<^verbatim>\<open>packages/http/src/url/query.ts\<close> and the reading half, \<^verbatim>\<open>packages/mocks/src/filter/api.ts\<close>.

  Filters come from untyped callers too, so an operator is a string and a value any value. \<open>str\<close> is
  how the language prints a value that is no string, \<open>inherited\<close> how it prints a member of
  \<open>Object.prototype\<close>. The query is a map in insertion order (integer-like keys first in the language; the
  order of different keys is not observed below). The percent encoding of the URL is the host's.
\<close>

section \<open>Operators\<close>

definition FILTER_OPERATOR_TOKENS :: "(string \<times> string) list" where
  "FILTER_OPERATOR_TOKENS = [(''eq'', ''eq''), (''neq'', ''neq''), (''gt'', ''gt''), (''gte'', ''gte''),
     (''lt'', ''lt''), (''lte'', ''lte''), (''like'', ''like''), (''ilike'', ''ilike''), (''in'', ''in''),
     (''nin'', ''not.in''), (''null'', ''is.null''), (''notNull'', ''not.is.null'')]"

definition FILTER_OPERATOR_TOKENS_LONGEST_FIRST :: "string list" where
  "FILTER_OPERATOR_TOKENS_LONGEST_FIRST = sort_key (\<lambda>t. - int (length t)) (map snd FILTER_OPERATOR_TOKENS)"

definition filterOperatorFromToken :: "string \<Rightarrow> string option" where
  "filterOperatorFromToken token = map_option fst (find (\<lambda>p. snd p = token) FILTER_OPERATOR_TOKENS)"

fun split_token :: "string list \<Rightarrow> string \<Rightarrow> (string \<times> string) option" where
  "split_token [] raw = None"
| "split_token (token # tokens) raw =
     (if raw = token then Some (token, [])
      else if startsWith raw (token @ ''.'') then Some (token, drop (length token + 1) raw)
      else split_token tokens raw)"

definition splitOperatorToken :: "string \<Rightarrow> (string \<times> string) option" where
  "splitOperatorToken raw = split_token FILTER_OPERATOR_TOKENS_LONGEST_FIRST raw"

text \<open>Reading the table at an untrusted name also finds what it inherits from \<open>Object.prototype\<close>.\<close>

definition object_prototype_members :: "string list" where
  "object_prototype_members = [''constructor'', ''__defineGetter__'', ''__defineSetter__'', ''hasOwnProperty'',
     ''__lookupGetter__'', ''__lookupSetter__'', ''isPrototypeOf'', ''propertyIsEnumerable'', ''toString'',
     ''valueOf'', ''__proto__'', ''toLocaleString'']"

definition operator_prefix :: "(string \<Rightarrow> string) \<Rightarrow> string \<Rightarrow> string option" where
  "operator_prefix inherited op =
     (case map_of FILTER_OPERATOR_TOKENS op of
        Some token \<Rightarrow> Some token
      | None \<Rightarrow> if op \<in> set object_prototype_members then Some (inherited op) else None)"

section \<open>The value codec\<close>

abbreviation backslash :: char where "backslash \<equiv> CHR 0x5C"

datatype list_error =
    PageAndCursor | ReservedField string | UnknownOperator string string | TakesNoValue string string
  | RequiresArray string string | EmptyItem string string | RequiresScalar string string | EmptyListValue

definition escapeListValue :: "string \<Rightarrow> list_error + string" where
  "escapeListValue v =
     (if v = [] then Inl EmptyListValue
      else Inr (replace_char (CHR '','') [backslash, CHR '',''] (replace_char backslash [backslash, backslash] v)))"

definition escapeScalarValue :: "string \<Rightarrow> string" where
  "escapeScalarValue v = replace_char backslash [backslash, backslash] v"

text \<open>\<open>replace(/\(.)/g, "$1")\<close>; the dot matches no line terminator.\<close>

fun unescapeValue :: "string \<Rightarrow> string" where
  "unescapeValue (c # d # cs) =
     (if c = backslash \<and> unit_of d \<notin> {10, 13} then d # unescapeValue cs else c # unescapeValue (d # cs))"
| "unescapeValue cs = cs"

fun parse_items :: "string \<Rightarrow> bool \<Rightarrow> string \<Rightarrow> string list" where
  "parse_items current escaped [] = [if escaped then current @ [backslash] else current]"
| "parse_items current escaped (c # cs) =
     (if escaped then parse_items (current @ [c]) False cs
      else if c = backslash then parse_items current True cs
      else if c = CHR '','' then current # parse_items [] False cs
      else parse_items (current @ [c]) False cs)"

definition parseDelimitedList :: "string \<Rightarrow> string list" where
  "parseDelimitedList inner = (if inner = [] then [] else parse_items [] False inner)"

section \<open>Building the query\<close>

record list_filter =
  fl_field :: string
  fl_op :: string
  fl_value :: jsval  \<comment> \<open>\<open>undefined\<close> when absent\<close>

record list_params =
  lp_filters :: "list_filter list"
  lp_page :: jsval
  lp_pageSize :: jsval
  lp_cursor :: jsval
  lp_sortBy :: jsval
  lp_order :: jsval
  lp_search :: jsval
  lp_includes :: "string list"
  lp_facets :: "string list"

fun js_text :: "(jsval \<Rightarrow> string) \<Rightarrow> jsval \<Rightarrow> string" where
  "js_text str (JStr s) = s"
| "js_text str v = str v"

fun is_array :: "jsval \<Rightarrow> bool" where
  "is_array (JArray _) = True"
| "is_array _ = False"

fun escape_items :: "string list \<Rightarrow> list_error + string list" where
  "escape_items [] = Inr []"
| "escape_items (v # vs) =
     (case escapeListValue v of
        Inl e \<Rightarrow> Inl e
      | Inr w \<Rightarrow> (case escape_items vs of Inl e \<Rightarrow> Inl e | Inr ws \<Rightarrow> Inr (w # ws)))"

definition serializeFilter :: "(jsval \<Rightarrow> string) \<Rightarrow> (string \<Rightarrow> string) \<Rightarrow> list_filter \<Rightarrow> list_error + string" where
  "serializeFilter str inherited f =
     (let op = fl_op f; field = fl_field f
      in case operator_prefix inherited op of
           None \<Rightarrow> Inl (UnknownOperator op field)
         | Some prefix \<Rightarrow>
             if op = ''null'' \<or> op = ''notNull'' then
               (if fl_value f \<noteq> JUndefined then Inl (TakesNoValue op field) else Inr prefix)
             else if op = ''in'' \<or> op = ''nin'' then
               (case fl_value f of
                  JArray vs \<Rightarrow>
                    if list_ex (\<lambda>v. js_text str v = []) vs then Inl (EmptyItem op field)
                    else (case escape_items (map (js_text str) vs) of
                        Inl e \<Rightarrow> Inl e
                      | Inr ws \<Rightarrow> Inr (prefix @ ''.('' @ js_join '','' ws @ '')''))
                | _ \<Rightarrow> Inl (RequiresArray op field))
             else if fl_value f = JUndefined \<or> is_array (fl_value f) then Inl (RequiresScalar op field)
             else Inr (prefix @ ''.'' @ escapeScalarValue (js_text str (fl_value f))))"

definition RESERVED_FIELDS :: "string list" where
  "RESERVED_FIELDS = [''page'', ''pageSize'', ''cursor'', ''sortBy'', ''order'', ''search'', ''includes'', ''facets'']"

datatype query_entry = OneValue jsval | ManyValues "jsval list"

type_synonym query_params = "(string \<times> query_entry) list"

definition appendFilter ::
  "(jsval \<Rightarrow> string) \<Rightarrow> (string \<Rightarrow> string) \<Rightarrow> list_filter \<Rightarrow> query_params \<Rightarrow> list_error + query_params" where
  "appendFilter str inherited f target =
     (if fl_field f \<in> set RESERVED_FIELDS then Inl (ReservedField (fl_field f))
      else case serializeFilter str inherited f of
        Inl e \<Rightarrow> Inl e
      | Inr token \<Rightarrow> Inr (map_set (fl_field f)
          (case map_get target (fl_field f) of
             None \<Rightarrow> OneValue (JStr token)
           | Some (ManyValues vs) \<Rightarrow> ManyValues (vs @ [JStr token])
           | Some (OneValue v) \<Rightarrow> ManyValues [v, JStr token]) target))"

fun append_filters ::
  "(jsval \<Rightarrow> string) \<Rightarrow> (string \<Rightarrow> string) \<Rightarrow> list_filter list \<Rightarrow> query_params \<Rightarrow> list_error + query_params" where
  "append_filters str inherited [] target = Inr target"
| "append_filters str inherited (f # fs) target =
     (case appendFilter str inherited f target of
        Inl e \<Rightarrow> Inl e
      | Inr target' \<Rightarrow> append_filters str inherited fs target')"

definition assignScalar :: "string \<Rightarrow> jsval \<Rightarrow> query_params \<Rightarrow> query_params" where
  "assignScalar key v target = (if v = JUndefined then target else map_set key (OneValue v) target)"

definition assignList :: "string \<Rightarrow> string list \<Rightarrow> query_params \<Rightarrow> query_params" where
  "assignList key vs target = (if vs = [] then target else map_set key (OneValue (JStr (js_join '','' vs))) target)"

definition buildListQuery ::
  "(jsval \<Rightarrow> string) \<Rightarrow> (string \<Rightarrow> string) \<Rightarrow> list_params \<Rightarrow> list_error + query_params" where
  "buildListQuery str inherited p =
     (if lp_page p \<noteq> JUndefined \<and> lp_cursor p \<noteq> JUndefined then Inl PageAndCursor
      else case append_filters str inherited (lp_filters p) [] of
        Inl e \<Rightarrow> Inl e
      | Inr result \<Rightarrow> Inr
          (assignList ''facets'' (lp_facets p) (assignList ''includes'' (lp_includes p)
            (assignScalar ''search'' (lp_search p) (assignScalar ''order'' (lp_order p)
              (assignScalar ''sortBy'' (lp_sortBy p) (assignScalar ''cursor'' (lp_cursor p)
                (assignScalar ''pageSize'' (lp_pageSize p) (assignScalar ''page'' (lp_page p) result)))))))))"

section \<open>The query of the URL\<close>

text \<open>\<open>URLSearchParams\<close> as its list of pairs.\<close>

type_synonym search_params = "(string \<times> string) list"

definition search_append :: "string \<Rightarrow> string \<Rightarrow> search_params \<Rightarrow> search_params" where
  "search_append k v sp = sp @ [(k, v)]"

fun search_set :: "string \<Rightarrow> string \<Rightarrow> search_params \<Rightarrow> search_params" where
  "search_set k v [] = [(k, v)]"
| "search_set k v (p # sp) = (if fst p = k then (k, v) # filter (\<lambda>q. fst q \<noteq> k) sp else p # search_set k v sp)"

definition getAll :: "string \<Rightarrow> search_params \<Rightarrow> string list" where
  "getAll k sp = map snd (filter (\<lambda>p. fst p = k) sp)"

text \<open>None is the refusal of a credential-shaped key.\<close>

fun applyQuery :: "(jsval \<Rightarrow> string) \<Rightarrow> query_params \<Rightarrow> search_params \<Rightarrow> search_params option" where
  "applyQuery str [] url = Some url"
| "applyQuery str ((key, entry) # ps) url =
     (if entry = OneValue JUndefined \<or> entry = OneValue JNull then applyQuery str ps url
      else if isSensitiveKey key [] then None
      else applyQuery str ps
        (case entry of
           ManyValues vs \<Rightarrow> foldl (\<lambda>u v. search_append key (js_text str v) u) url vs
         | OneValue v \<Rightarrow> search_set key (js_text str v) url))"

definition assertNoCredentialQuery :: "search_params \<Rightarrow> bool" where
  "assertNoCredentialQuery url = list_all (\<lambda>p. \<not> isSensitiveKey (fst p) []) url"

section \<open>The reading half\<close>

datatype condition_value = NoValue | ListValue "string list" | ScalarValue string

record filter_condition =
  fc_field :: string
  fc_operator :: string
  fc_value :: condition_value

definition parseApiCondition :: "string \<Rightarrow> string \<Rightarrow> filter_condition option" where
  "parseApiCondition field apiValue =
     (case splitOperatorToken apiValue of
        None \<Rightarrow> None
      | Some (token, rest) \<Rightarrow>
          (case filterOperatorFromToken token of
             None \<Rightarrow> None
           | Some op \<Rightarrow>
               if op = ''null'' \<or> op = ''notNull'' then
                 (if rest \<noteq> [] then None else Some \<lparr>fc_field = field, fc_operator = op, fc_value = NoValue\<rparr>)
               else if op = ''in'' \<or> op = ''nin'' then
                 (if \<not> startsWith rest ''('' \<or> \<not> endsWith rest '')'' then None
                  else Some \<lparr>fc_field = field, fc_operator = op,
                    fc_value = ListValue (parseDelimitedList (butlast (tl rest)))\<rparr>)
               else Some \<lparr>fc_field = field, fc_operator = op, fc_value = ScalarValue (unescapeValue rest)\<rparr>))"

fun parseApiParams :: "(string \<times> string) list \<Rightarrow> filter_condition list" where
  "parseApiParams [] = []"
| "parseApiParams ((field, v) # ps) =
     (case parseApiCondition field v of None \<Rightarrow> [] | Some c \<Rightarrow> [c]) @ parseApiParams ps"

section \<open>The codec\<close>

lemma unescape_plain: "c \<noteq> backslash \<Longrightarrow> unescapeValue (c # cs) = c # unescapeValue cs"
  by (cases cs) auto

lemma unescape_escape: "unescapeValue (escapeScalarValue v) = v"
  by (induction v) (auto simp: escapeScalarValue_def unescape_plain unit_of_def)

definition escaped_item :: "string \<Rightarrow> string" where
  "escaped_item v = replace_char (CHR '','') [backslash, CHR '',''] (replace_char backslash [backslash, backslash] v)"

lemma escape_items_eq: "\<forall>v \<in> set vs. v \<noteq> [] \<Longrightarrow> escape_items vs = Inr (map escaped_item vs)"
  by (induction vs) (auto simp: escapeListValue_def escaped_item_def)

lemma parse_escaped: "parse_items current False (escaped_item v @ rest) = parse_items (current @ v) False rest"
  by (induction v arbitrary: current) (auto simp: escaped_item_def)

lemma escaped_empty [simp]: "escaped_item v = [] \<longleftrightarrow> v = []"
  by (cases v) (auto simp: escaped_item_def)

lemma parse_joined:
  "vs \<noteq> [] \<Longrightarrow> parse_items [] False (js_join '','' (map escaped_item vs)) = vs"
proof (induction vs)
  case (Cons v vs)
  show ?case
  proof (cases vs)
    case Nil
    then show ?thesis using parse_escaped [of "[]" v "[]"] by simp
  next
    case (Cons w ws)
    then show ?thesis using Cons.IH by (simp add: js_join_Cons parse_escaped)
  qed
qed simp

lemma parse_list: "\<forall>v \<in> set vs. v \<noteq> [] \<Longrightarrow> parseDelimitedList (js_join '','' (map escaped_item vs)) = vs"
  using parse_joined [of vs] by (cases vs) (auto simp: parseDelimitedList_def js_join_Cons)

section \<open>Tokens\<close>

lemma longest_first: "FILTER_OPERATOR_TOKENS_LONGEST_FIRST =
    [''not.is.null'', ''is.null'', ''not.in'', ''ilike'', ''like'', ''neq'', ''gte'', ''lte'', ''eq'', ''gt'', ''lt'', ''in'']"
  by (simp add: FILTER_OPERATOR_TOKENS_LONGEST_FIRST_def FILTER_OPERATOR_TOKENS_def sort_key_def)

definition vocabulary :: "string list" where
  "vocabulary = map fst FILTER_OPERATOR_TOKENS"

lemma split_tokens: "\<forall>p \<in> set FILTER_OPERATOR_TOKENS.
    filterOperatorFromToken (snd p) = Some (fst p) \<and> splitOperatorToken (snd p) = Some (snd p, []) \<and>
    splitOperatorToken (snd p @ ''.'' @ x) = Some (snd p, x)"
  by (simp add: FILTER_OPERATOR_TOKENS_def filterOperatorFromToken_def splitOperatorToken_def longest_first startsWith_def)

lemma vocabulary_token: "op \<in> set vocabulary \<longleftrightarrow> (\<exists>token. map_of FILTER_OPERATOR_TOKENS op = Some token)"
  using map_of_eq_None_iff [of FILTER_OPERATOR_TOKENS op] by (auto simp: vocabulary_def)

lemma split_serialized:
  assumes "map_of FILTER_OPERATOR_TOKENS op = Some token"
  shows "filterOperatorFromToken token = Some op" "splitOperatorToken token = Some (token, [])"
    "splitOperatorToken (token @ ''.'' @ x) = Some (token, x)"
  using split_tokens map_of_SomeD [OF assms] by force+

text \<open>The condition a filter stands for.\<close>

definition condition_of :: "(jsval \<Rightarrow> string) \<Rightarrow> list_filter \<Rightarrow> filter_condition" where
  "condition_of str f = \<lparr>fc_field = fl_field f, fc_operator = fl_op f,
     fc_value = (if fl_op f = ''null'' \<or> fl_op f = ''notNull'' then NoValue
       else if fl_op f = ''in'' \<or> fl_op f = ''nin'' then ListValue (map (js_text str) (items_of (fl_value f)))
       else ScalarValue (js_text str (fl_value f)))\<rparr>"

text \<open>The shapes \<open>serializeFilter\<close> accepts.\<close>

definition shape_ok :: "(jsval \<Rightarrow> string) \<Rightarrow> list_filter \<Rightarrow> bool" where
  "shape_ok str f =
     (if fl_op f = ''null'' \<or> fl_op f = ''notNull'' then fl_value f = JUndefined
      else if fl_op f = ''in'' \<or> fl_op f = ''nin'' then
        is_array (fl_value f) \<and> (\<forall>v \<in> set (items_of (fl_value f)). js_text str v \<noteq> [])
      else fl_value f \<noteq> JUndefined \<and> \<not> is_array (fl_value f))"

definition wire_token :: "(jsval \<Rightarrow> string) \<Rightarrow> string \<Rightarrow> list_filter \<Rightarrow> string" where
  "wire_token str prefix f =
     (if fl_op f = ''null'' \<or> fl_op f = ''notNull'' then prefix
      else if fl_op f = ''in'' \<or> fl_op f = ''nin'' then
        prefix @ ''.'' @ ''('' @ js_join '','' (map escaped_item (map (js_text str) (items_of (fl_value f)))) @ '')''
      else prefix @ ''.'' @ escapeScalarValue (js_text str (fl_value f)))"

lemma serialize_iff: "serializeFilter str inherited f = Inr token \<longleftrightarrow>
    (\<exists>prefix. operator_prefix inherited (fl_op f) = Some prefix \<and> shape_ok str f \<and> token = wire_token str prefix f)"
proof (cases "operator_prefix inherited (fl_op f)")
  case (Some prefix)
  consider "fl_op f = ''null'' \<or> fl_op f = ''notNull''" | "fl_op f = ''in'' \<or> fl_op f = ''nin''"
    | "fl_op f \<notin> {''null'', ''notNull'', ''in'', ''nin''}" by auto
  then show ?thesis
  proof cases
    case 2
    show ?thesis
    proof (cases "fl_value f")
      case (JArray vs)
      show ?thesis
      proof (cases "\<forall>v \<in> set vs. js_text str v \<noteq> []")
        case True
        then have "escape_items (map (js_text str) vs) = Inr (map escaped_item (map (js_text str) vs))"
          by (intro escape_items_eq) auto
        then show ?thesis using 2 Some JArray True
          by (auto simp: serializeFilter_def shape_ok_def wire_token_def Let_def list_ex_iff)
      qed (use 2 Some JArray in \<open>auto simp: serializeFilter_def shape_ok_def Let_def list_ex_iff\<close>)
    qed (use 2 Some in \<open>auto simp: serializeFilter_def shape_ok_def Let_def\<close>)
  qed (use Some in \<open>auto simp: serializeFilter_def shape_ok_def wire_token_def Let_def\<close>)
qed (simp add: serializeFilter_def)

lemma parse_serialized:
  assumes "serializeFilter str inherited f = Inr token" "fl_op f \<in> set vocabulary"
  shows "parseApiCondition (fl_field f) token = Some (condition_of str f)"
proof -
  obtain prefix where p: "map_of FILTER_OPERATOR_TOKENS (fl_op f) = Some prefix"
    using assms(2) by (auto simp: vocabulary_token)
  then have tok: "shape_ok str f" "token = wire_token str prefix f"
    using assms(1) by (auto simp: serialize_iff operator_prefix_def)
  note split = split_serialized [OF p]
  consider "fl_op f = ''null'' \<or> fl_op f = ''notNull''" | "fl_op f = ''in'' \<or> fl_op f = ''nin''"
    | "fl_op f \<notin> {''null'', ''notNull'', ''in'', ''nin''}" by auto
  then show ?thesis
  proof cases
    case 1
    then show ?thesis using tok split by (simp add: parseApiCondition_def wire_token_def condition_of_def)
  next
    case 2
    let ?vs = "map (js_text str) (items_of (fl_value f))"
    have ne: "\<forall>v \<in> set ?vs. v \<noteq> []" using tok 2 by (auto simp: shape_ok_def split: if_splits)
    let ?r = "''('' @ js_join '','' (map escaped_item ?vs) @ '')''"
    have tk: "token = prefix @ ''.'' @ ?r" using tok(2) 2 by (auto simp: wire_token_def)
    have r: "startsWith ?r ''(''" "endsWith ?r '')''" "butlast (tl ?r) = js_join '','' (map escaped_item ?vs)"
      by (simp_all add: startsWith_def endsWith_def)
    have op: "fl_op f \<noteq> ''null''" "fl_op f \<noteq> ''notNull''" using 2 by auto
    have "parseApiCondition (fl_field f) token = Some \<lparr>fc_field = fl_field f, fc_operator = fl_op f,
        fc_value = ListValue (parseDelimitedList (butlast (tl ?r)))\<rparr>"
      unfolding parseApiCondition_def tk split using 2 op r(1,2) split(1) by simp
    then show ?thesis using 2 op parse_list [OF ne] unfolding r(3) by (simp add: condition_of_def)
  next
    case 3
    then show ?thesis using tok split by (simp add: parseApiCondition_def wire_token_def condition_of_def unescape_escape)
  qed
qed

section \<open>The query, key by key\<close>

definition entry_values :: "query_params \<Rightarrow> string \<Rightarrow> jsval list" where
  "entry_values q k = (case map_get q k of None \<Rightarrow> [] | Some (OneValue v) \<Rightarrow> [v] | Some (ManyValues vs) \<Rightarrow> vs)"

lemma appendFilter_facts:
  assumes "appendFilter str inherited f q = Inr q'" "wf_map q"
  shows "\<exists>token. serializeFilter str inherited f = Inr token \<and> fl_field f \<notin> set RESERVED_FIELDS \<and> wf_map q' \<and>
    (\<forall>k. entry_values q' k = entry_values q k @ (if fl_field f = k then [JStr token] else []))"
  using assms by (cases "serializeFilter str inherited f")
    (auto simp: appendFilter_def entry_values_def split: if_splits option.split query_entry.split
      simp del: map_of_eq_Some_iff)

lemma append_filters_facts:
  "append_filters str inherited fs q = Inr q' \<Longrightarrow> wf_map q \<Longrightarrow>
   wf_map q' \<and> (\<forall>f \<in> set fs. fl_field f \<notin> set RESERVED_FIELDS \<and> (\<exists>token. serializeFilter str inherited f = Inr token)) \<and>
   (\<forall>k. entry_values q' k = entry_values q k @
      map (\<lambda>f. JStr (projr (serializeFilter str inherited f))) (filter (\<lambda>f. fl_field f = k) fs))"
proof (induction fs arbitrary: q)
  case (Cons f fs)
  obtain q1 where q1: "appendFilter str inherited f q = Inr q1"
    using Cons.prems(1) by (auto split: sum.splits)
  obtain token where tk: "serializeFilter str inherited f = Inr token" "fl_field f \<notin> set RESERVED_FIELDS" "wf_map q1"
    "\<And>k. entry_values q1 k = entry_values q k @ (if fl_field f = k then [JStr token] else [])"
    using appendFilter_facts [OF q1 Cons.prems(2)] by auto
  from Cons.IH [of q1] Cons.prems q1 tk show ?case by (simp add: tk(4))
qed simp

lemma append_filters_total:
  "\<forall>f \<in> set fs. fl_field f \<notin> set RESERVED_FIELDS \<and> (\<exists>token. serializeFilter str inherited f = Inr token) \<Longrightarrow>
   \<exists>q'. append_filters str inherited fs q = Inr q'"
  by (induction fs arbitrary: q) (auto simp: appendFilter_def)

lemma assign_facts:
  "wf_map q \<Longrightarrow> wf_map (assignScalar key v q)" "wf_map q \<Longrightarrow> wf_map (assignList key vs q)"
  "k \<noteq> key \<Longrightarrow> entry_values (assignScalar key v q) k = entry_values q k"
  "k \<noteq> key \<Longrightarrow> entry_values (assignList key vs q) k = entry_values q k"
  by (auto simp: assignScalar_def assignList_def entry_values_def)

lemma getAll_set: "getAll k (search_set k' v sp) = (if k = k' then [v] else getAll k sp)"
proof (induction sp)
  case (Cons p sp)
  have "filter (\<lambda>q. fst q \<noteq> k' \<and> fst q = k) sp = (if k = k' then [] else filter (\<lambda>q. fst q = k) sp)"
    by (auto intro: filter_cong)
  then show ?case using Cons by (auto simp: getAll_def)
qed (simp add: getAll_def)

lemma getAll_appends:
  "getAll k (foldl (\<lambda>u v. search_append key (g v) u) sp vs) = getAll k sp @ (if k = key then map g vs else [])"
  by (induction vs arbitrary: sp) (auto simp: getAll_def search_append_def)

lemma getAll_fresh: "k \<notin> fst ` set sp \<Longrightarrow> getAll k sp = []"
  by (induction sp) (auto simp: getAll_def)

lemma search_set_keys: "fst ` set (search_set k v sp) \<subseteq> insert k (fst ` set sp)"
  by (induction sp) auto

lemma appends_keys: "fst ` set (foldl (\<lambda>u v. search_append key (g v) u) sp vs) \<subseteq> insert key (fst ` set sp)"
proof (induction vs arbitrary: sp)
  case (Cons v vs)
  from Cons.IH [of "search_append key (g v) sp"] show ?case by (simp add: search_append_def)
qed auto

text \<open>What \<open>applyQuery\<close> leaves under a key, given what the URL had there.\<close>

definition encoded :: "(jsval \<Rightarrow> string) \<Rightarrow> query_entry option \<Rightarrow> string list \<Rightarrow> string list" where
  "encoded str entry old =
     (case entry of
        None \<Rightarrow> old
      | Some (OneValue v) \<Rightarrow> if v = JUndefined \<or> v = JNull then old else [js_text str v]
      | Some (ManyValues vs) \<Rightarrow> old @ map (js_text str) vs)"

lemma applyQuery_facts:
  "applyQuery str q url = Some url' \<Longrightarrow> wf_map q \<Longrightarrow>
   (\<forall>k. getAll k url' = encoded str (map_get q k) (getAll k url)) \<and>
   (assertNoCredentialQuery url \<longrightarrow> assertNoCredentialQuery url')"
proof (induction q arbitrary: url)
  case (Cons p ps)
  obtain key entry where p: "p = (key, entry)" by (cases p)
  have fresh: "map_get ps key = None" and wf: "wf_map ps" using Cons.prems(2) p by (auto simp: map_of_eq_None_iff)
  show ?case
  proof (cases "entry = OneValue JUndefined \<or> entry = OneValue JNull")
    case True
    then have "applyQuery str ps url = Some url'" using Cons.prems(1) p by simp
    from Cons.IH [OF this wf] True fresh p show ?thesis by (auto simp: encoded_def)
  next
    case False
    define u where "u = (case entry of
        ManyValues vs \<Rightarrow> foldl (\<lambda>u v. search_append key (js_text str v) u) url vs
      | OneValue v \<Rightarrow> search_set key (js_text str v) url)"
    have safe: "\<not> isSensitiveKey key []" and st: "applyQuery str ps u = Some url'"
      using Cons.prems(1) p False by (auto simp: u_def split: if_splits)
    have "fst ` set u \<subseteq> insert key (fst ` set url)"
      by (cases entry) (simp_all add: u_def search_set_keys appends_keys)
    then have keys: "assertNoCredentialQuery url \<longrightarrow> assertNoCredentialQuery u"
      using safe by (fastforce simp: assertNoCredentialQuery_def list_all_iff)
    have get: "getAll k u = (if k = key then encoded str (Some entry) (getAll k url) else getAll k url)" for k
      using False by (cases entry) (simp_all add: u_def getAll_set getAll_appends encoded_def)
    have "getAll k url' = encoded str (map_get (p # ps) k) (getAll k url)" for k
      using Cons.IH [OF st wf] fresh get [of k]
      by (cases "k = key") (auto simp: p encoded_def [of _ None])
    then show ?thesis using Cons.IH [OF st wf] keys by blast
  qed
qed (simp add: encoded_def)

section \<open>Properties\<close>

lemma build_facts:
  assumes "buildListQuery str inherited p = Inr q"
  shows "wf_map q"
    "\<forall>f \<in> set (lp_filters p). fl_field f \<notin> set RESERVED_FIELDS \<and> (\<exists>token. serializeFilter str inherited f = Inr token)"
    "k \<notin> set RESERVED_FIELDS \<Longrightarrow> entry_values q k =
       map (\<lambda>f. JStr (projr (serializeFilter str inherited f))) (filter (\<lambda>f. fl_field f = k) (lp_filters p))"
proof -
  obtain r where r: "append_filters str inherited (lp_filters p) [] = Inr r"
    using assms by (auto simp: buildListQuery_def split: if_splits sum.splits)
  note f = append_filters_facts [OF r]
  have q: "q = assignList ''facets'' (lp_facets p) (assignList ''includes'' (lp_includes p)
      (assignScalar ''search'' (lp_search p) (assignScalar ''order'' (lp_order p)
        (assignScalar ''sortBy'' (lp_sortBy p) (assignScalar ''cursor'' (lp_cursor p)
          (assignScalar ''pageSize'' (lp_pageSize p) (assignScalar ''page'' (lp_page p) r)))))))"
    using assms r by (auto simp: buildListQuery_def split: if_splits)
  show "wf_map q" "\<forall>f \<in> set (lp_filters p). fl_field f \<notin> set RESERVED_FIELDS \<and> (\<exists>token. serializeFilter str inherited f = Inr token)"
    using f by (simp_all add: q assign_facts)
  show "entry_values q k =
       map (\<lambda>f. JStr (projr (serializeFilter str inherited f))) (filter (\<lambda>f. fl_field f = k) (lp_filters p))"
    if "k \<notin> set RESERVED_FIELDS"
    using f that by (simp add: q assign_facts RESERVED_FIELDS_def) (simp add: entry_values_def)
qed

lemma parse_column:
  "\<forall>x \<in> set sp. fst x = k \<Longrightarrow> parseApiParams sp =
     concat (map (\<lambda>v. case parseApiCondition k v of None \<Rightarrow> [] | Some c \<Rightarrow> [c]) (map snd sp))"
  by (induction sp) auto

lemma concat_parsed:
  "\<forall>f \<in> set fs. g (h f) = Some (c f) \<Longrightarrow>
   concat (map (\<lambda>v. case g v of None \<Rightarrow> [] | Some x \<Rightarrow> [x]) (map h fs)) = map c fs"
  by (induction fs) auto

text \<open>Claim C16: filters survive the wire. When \<open>buildListQuery\<close> accepts a request and its query fits into a
  URL, reading the values of any field back gives exactly the filters on that field, in order, with the
  same operators and values as text; and no key of the query names a credential.\<close>

theorem filters_round_trip:
  assumes "buildListQuery str inherited p = Inr q" "applyQuery str q [] = Some url"
    and "\<forall>f \<in> set (lp_filters p). fl_op f \<in> set vocabulary"
  shows "assertNoCredentialQuery url \<and>
    (\<forall>field. field \<notin> set RESERVED_FIELDS \<longrightarrow>
       parseApiParams (filter (\<lambda>x. fst x = field) url) =
         map (condition_of str) (filter (\<lambda>f. fl_field f = field) (lp_filters p)))"
proof -
  note b = build_facts [OF assms(1)]
  have a: "\<forall>k. getAll k url = encoded str (map_get q k) []" "assertNoCredentialQuery url"
    using applyQuery_facts [OF assms(2) b(1)] by (simp_all add: getAll_def assertNoCredentialQuery_def)
  have "parseApiParams (filter (\<lambda>x. fst x = k) url) =
      map (condition_of str) (filter (\<lambda>f. fl_field f = k) (lp_filters p))" if k: "k \<notin> set RESERVED_FIELDS" for k
  proof -
    let ?fs = "filter (\<lambda>f. fl_field f = k) (lp_filters p)"
    let ?tok = "\<lambda>f. projr (serializeFilter str inherited f)"
    have strings: "\<forall>v \<in> set (entry_values q k). \<exists>s. v = JStr s" using b(3) [OF k] by auto
    have "getAll k url = map (js_text str) (entry_values q k)"
      using a(1) strings by (auto simp: encoded_def entry_values_def split: option.split query_entry.split)
    then have col: "getAll k url = map ?tok ?fs" using b(3) [OF k] by simp
    have "parseApiCondition k (?tok f) = Some (condition_of str f)" if "f \<in> set ?fs" for f
      using parse_serialized [of str inherited f] b(2) assms(3) that by fastforce
    then have "concat (map (\<lambda>v. case parseApiCondition k v of None \<Rightarrow> [] | Some c \<Rightarrow> [c]) (map ?tok ?fs)) =
        map (condition_of str) ?fs" by (intro concat_parsed) blast
    moreover have "parseApiParams (filter (\<lambda>x. fst x = k) url) =
        concat (map (\<lambda>v. case parseApiCondition k v of None \<Rightarrow> [] | Some c \<Rightarrow> [c]) (getAll k url))"
      unfolding getAll_def by (rule parse_column) simp
    ultimately show ?thesis by (simp only: col)
  qed
  with a(2) show ?thesis by blast
qed

text \<open>Claim C38: what the builder accepts: not both a page and a cursor, no field named like a control
  parameter, a value of the shape the operator asks for, and an operator of the vocabulary, or, against the
  intent of the check for unknown operators, the name of any member of \<open>Object.prototype\<close>.\<close>

theorem list_query_accepted_iff:
  "(\<exists>q. buildListQuery str inherited p = Inr q) =
   ((lp_page p = JUndefined \<or> lp_cursor p = JUndefined) \<and>
    (\<forall>f \<in> set (lp_filters p). fl_field f \<notin> set RESERVED_FIELDS \<and> shape_ok str f \<and>
       (fl_op f \<in> set vocabulary \<or> fl_op f \<in> set object_prototype_members)))"
proof -
  have "(\<exists>token. serializeFilter str inherited f = Inr token) \<longleftrightarrow>
      shape_ok str f \<and> (fl_op f \<in> set vocabulary \<or> fl_op f \<in> set object_prototype_members)" for f
    by (auto simp: serialize_iff operator_prefix_def vocabulary_token split: option.split)
  moreover have "(\<exists>q'. append_filters str inherited (lp_filters p) [] = Inr q') \<longleftrightarrow>
      (\<forall>f \<in> set (lp_filters p). fl_field f \<notin> set RESERVED_FIELDS \<and> (\<exists>token. serializeFilter str inherited f = Inr token))"
    using append_filters_facts [of str inherited "lp_filters p" "[]"] append_filters_total [of "lp_filters p" str inherited "[]"]
    by auto
  ultimately show ?thesis by (auto simp: buildListQuery_def split: sum.split)
qed

definition sample_request :: list_params where
  "sample_request = \<lparr>lp_filters = [\<lparr>fl_field = ''tags'', fl_op = ''in'', fl_value = JArray [JStr ''a,b'', JStr ''c'']\<rparr>,
       \<lparr>fl_field = ''price'', fl_op = ''gte'', fl_value = JStr ''10''\<rparr>, \<lparr>fl_field = ''price'', fl_op = ''lt'', fl_value = JStr ''20''\<rparr>],
     lp_page = JUndefined, lp_pageSize = JUndefined, lp_cursor = JUndefined, lp_sortBy = JUndefined, lp_order = JUndefined,
     lp_search = JStr ''x'', lp_includes = [''owner''], lp_facets = []\<rparr>"

definition sample_query :: query_params where
  "sample_query = [(''tags'', OneValue (JStr (''in.(a'' @ [backslash] @ '',b,c)''))),
     (''price'', ManyValues [JStr ''gte.10'', JStr ''lt.20'']), (''search'', OneValue (JStr ''x'')), (''includes'', OneValue (JStr ''owner''))]"

lemma sample_built: "buildListQuery (\<lambda>_. []) (\<lambda>_. []) sample_request = Inr sample_query"
  by (simp add: sample_request_def sample_query_def buildListQuery_def appendFilter_def RESERVED_FIELDS_def serializeFilter_def
      operator_prefix_def FILTER_OPERATOR_TOKENS_def escapeListValue_def escapeScalarValue_def assignScalar_def assignList_def)

lemma sample_applied: "\<exists>url. applyQuery (\<lambda>_. []) sample_query [] = Some url"
  by (simp add: sample_query_def isSensitiveKey_def NORMALIZED_SENSITIVE_KEYS_def DEFAULT_SENSITIVE_KEYS_def
      normalizeKey_def toLowerCase_def lower_char_def unit_of_def startsWith_def)

theorem filters_round_trip_witness:
  "buildListQuery (\<lambda>_. []) (\<lambda>_. []) sample_request = Inr sample_query \<and>
   (\<exists>url. applyQuery (\<lambda>_. []) sample_query [] = Some url \<and>
     map fc_value (parseApiParams (filter (\<lambda>x. fst x = ''tags'') url)) = [ListValue [''a,b'', ''c'']] \<and>
     map fc_operator (parseApiParams (filter (\<lambda>x. fst x = ''price'') url)) = [''gte'', ''lt''])"
proof -
  obtain url where u: "applyQuery (\<lambda>_. []) sample_query [] = Some url" using sample_applied by blast
  have "\<forall>f \<in> set (lp_filters sample_request). fl_op f \<in> set vocabulary"
    by (simp add: sample_request_def vocabulary_def FILTER_OPERATOR_TOKENS_def)
  from filters_round_trip [OF sample_built u this]
  have "parseApiParams (filter (\<lambda>x. fst x = ''tags'') url) = map (condition_of (\<lambda>_. [])) (filter (\<lambda>f. fl_field f = ''tags'') (lp_filters sample_request))"
    "parseApiParams (filter (\<lambda>x. fst x = ''price'') url) = map (condition_of (\<lambda>_. [])) (filter (\<lambda>f. fl_field f = ''price'') (lp_filters sample_request))"
    by (simp_all add: RESERVED_FIELDS_def)
  with u sample_built show ?thesis by (simp add: sample_request_def condition_of_def)
qed

text \<open>The accepted request with an operator outside the vocabulary.\<close>

theorem list_query_accepted_iff_witness:
  "let f = \<lparr>fl_field = ''status'', fl_op = ''toString'', fl_value = JStr ''x''\<rparr>
   in fl_op f \<notin> set vocabulary \<and> (\<exists>q. buildListQuery (\<lambda>_. []) (\<lambda>_. []) (sample_request\<lparr>lp_filters := [f]\<rparr>) = Inr q)"
  unfolding Let_def list_query_accepted_iff
  by (simp add: sample_request_def vocabulary_def FILTER_OPERATOR_TOKENS_def object_prototype_members_def RESERVED_FIELDS_def shape_ok_def)

end
