(* ===== verification/Session_Records.thy ===== *)
theory Session_Records imports Json_Check begin

text \<open>
  The error codes of auth (\<^verbatim>\<open>packages/auth/src/errors/auth-error.ts\<close>), the admission rules of the opaque
  session store (\<^verbatim>\<open>packages/auth/src/server/opaque-store/policy.ts\<close>) and its persisted records
  (\<^verbatim>\<open>record.ts\<close>). Times are numbers of milliseconds. A persisted text is either the text of a JSON value
  or no JSON; \<open>nt\<close> prints a number.
\<close>

datatype auth_error_code =
    AuthNoSession | RefreshFailed | AuthConfig | CryptoUnavailable | AuthAdapter | LoginTransaction
  | TokenInvalid | SessionInvalid | SessionExpired | SessionRevoked | StoreUnavailable | AuthCsrf

section \<open>Admission\<close>

definition MAX_SESSION_LIFETIME_MS :: rat where "MAX_SESSION_LIFETIME_MS = 3600000"
definition MAX_LOGIN_LIFETIME_MS :: rat where "MAX_LOGIN_LIFETIME_MS = 600000"
definition REVOCATION_RETENTION_MS :: rat where "REVOCATION_RETENTION_MS = 600000"

record store_capacity =
  cap_sessions :: nat
  cap_logins :: nat

definition sessionStoreCapacity :: "jsnum option \<Rightarrow> jsnum option \<Rightarrow> auth_error_code + store_capacity" where
  "sessionStoreCapacity capacity transactionCapacity =
     (let sessions = (case capacity of None \<Rightarrow> Fin 1024 | Some n \<Rightarrow> n);
          logins = (case transactionCapacity of None \<Rightarrow> Fin 256 | Some n \<Rightarrow> n)
      in if \<not> isPositiveInteger sessions \<or> \<not> isPositiveInteger logins then Inl AuthConfig
         else Inr \<lparr>cap_sessions = nat_of_num sessions, cap_logins = nat_of_num logins\<rparr>)"

text \<open>The family and the time until which a new generation is retained; \<open>current\<close> is the live generation it
  replaces, with its family and expiry.\<close>

definition admitSession ::
  "string \<Rightarrow> rat \<Rightarrow> string option \<Rightarrow> (string \<times> rat) option \<Rightarrow> rat \<Rightarrow> auth_error_code + (string \<times> rat)" where
  "admitSession reference expiresAt previous current now =
     (if previous \<noteq> None \<and> current = None then Inl SessionRevoked
      else if \<not> (now < expiresAt \<and> expiresAt \<le> now + MAX_SESSION_LIFETIME_MS) \<or>
              (case current of None \<Rightarrow> False | Some (_, expiry) \<Rightarrow> expiresAt \<noteq> expiry) then Inl SessionInvalid
      else Inr (case current of None \<Rightarrow> reference | Some (family, _) \<Rightarrow> family, expiresAt + REVOCATION_RETENTION_MS))"

definition admitLogin :: "rat \<Rightarrow> rat \<Rightarrow> auth_error_code + unit" where
  "admitLogin expiresAt now =
     (if \<not> (now < expiresAt \<and> expiresAt \<le> now + MAX_LOGIN_LIFETIME_MS) then Inl LoginTransaction else Inr ())"

lemma admitSession_Inr: "admitSession reference expiresAt previous current now = Inr (family, retain) \<longleftrightarrow>
    (previous = None \<or> current \<noteq> None) \<and> now < expiresAt \<and> expiresAt \<le> now + MAX_SESSION_LIFETIME_MS \<and>
    (case current of None \<Rightarrow> family = reference | Some (f, expiry) \<Rightarrow> family = f \<and> expiresAt = expiry) \<and>
    retain = expiresAt + REVOCATION_RETENTION_MS"
  by (auto simp: admitSession_def split: option.splits)

section \<open>Persisted records\<close>

datatype persisted = JsonText jsval | NotJson string

fun persisted_text :: "(jsnum \<Rightarrow> string) \<Rightarrow> persisted \<Rightarrow> string" where
  "persisted_text nt (JsonText v) = json_text nt v"
| "persisted_text nt (NotJson s) = s"

text \<open>What \<open>JSON.parse\<close> makes of the text of a JSON value: the value, with negative zeros as zeros.\<close>

fun json_reread :: "jsval \<Rightarrow> jsval" where
  "json_reread (JNum NegZero) = JNum (Fin 0)"
| "json_reread (JArray xs) = JArray (map json_reread xs)"
| "json_reread (JObject _ ps) = JObject True (map (\<lambda>(k, v). (k, json_reread v)) ps)"
| "json_reread v = v"

fun json_parse :: "persisted \<Rightarrow> jsval option" where
  "json_parse (JsonText v) = Some (json_reread v)"
| "json_parse (NotJson s) = None"

definition record_limits :: json_limits where
  "record_limits = \<lparr>jl_maxDepth = Some (Fin 32), jl_maxNodes = Some (Fin 8192), jl_maxBytes = Some (Fin 65536)\<rparr>"

fun is_reference :: "jsval \<Rightarrow> bool" where
  "is_reference (JStr s) = (0 < length s \<and> length s \<le> 128)"
| "is_reference _ = False"

definition encodeSessionRecord :: "(jsnum \<Rightarrow> string) \<Rightarrow> jsval \<Rightarrow> auth_error_code + persisted" where
  "encodeSessionRecord nt v =
     (if isJson nt record_limits v \<noteq> Some True then Inl SessionInvalid else Inr (JsonText v))"

definition decodeRecord :: "(jsnum \<Rightarrow> string) \<Rightarrow> persisted \<Rightarrow> auth_error_code + jsval" where
  "decodeRecord nt raw =
     (if length (persisted_text nt raw) > 65536 \<or> utf8ByteLength (persisted_text nt raw) > 65536 then Inl SessionInvalid
      else case json_parse raw of
        None \<Rightarrow> Inl SessionInvalid
      | Some v \<Rightarrow> if \<not> isRecord v \<or> isJson nt record_limits v \<noteq> Some True then Inl SessionInvalid else Inr v)"

text \<open>A number that passed \<open>Number.isSafeInteger\<close>, and a string that passed a check.\<close>

fun time_of :: "jsval \<Rightarrow> rat" where
  "time_of (JNum n) = the (num_val n)"
| "time_of _ = 0"

fun string_of :: "jsval \<Rightarrow> string" where
  "string_of (JStr s) = s"
| "string_of _ = []"

definition optional_string :: "jsval \<Rightarrow> string option" where
  "optional_string v = (if v = JUndefined then None else Some (string_of v))"

record stored_session =
  ss_reference :: string
  ss_value :: jsval
  ss_expiresAt :: rat
  ss_providerHandle :: "string option"

record stored_login =
  sl_reference :: string
  sl_transaction :: string
  sl_returnTo :: string
  sl_previous :: "string option"
  sl_expiresAt :: rat

definition decodeSessionMetadata :: "(jsnum \<Rightarrow> string) \<Rightarrow> persisted \<Rightarrow> auth_error_code + stored_session" where
  "decodeSessionMetadata nt raw =
     (case decodeRecord nt raw of
        Inl e \<Rightarrow> Inl e
      | Inr v \<Rightarrow>
          if \<not> is_reference (prop_of v ''reference'') \<or> \<not> num_check is_safe_integer (prop_of v ''expiresAt'') \<or>
             \<not> isAbsentOr (prop_of v ''providerHandle'') is_reference then Inl SessionInvalid
          else Inr \<lparr>ss_reference = string_of (prop_of v ''reference''), ss_value = prop_of v ''value'',
            ss_expiresAt = time_of (prop_of v ''expiresAt''), ss_providerHandle = optional_string (prop_of v ''providerHandle'')\<rparr>)"

text \<open>What the schema, which may be asynchronous, answers.\<close>

datatype schema_answer = Validated jsval | SchemaIssues

text \<open>\<open>decodeSessionRecord\<close> after the schema has answered.\<close>

definition schema_checked ::
  "(jsnum \<Rightarrow> string) \<Rightarrow> stored_session \<Rightarrow> schema_answer \<Rightarrow> auth_error_code + stored_session" where
  "schema_checked nt record answer =
     (case answer of
        SchemaIssues \<Rightarrow> Inl SessionInvalid
      | Validated v \<Rightarrow> if isJson nt record_limits v \<noteq> Some True then Inl SessionInvalid else Inr (record\<lparr>ss_value := v\<rparr>))"

definition decodeLoginRecord :: "(jsnum \<Rightarrow> string) \<Rightarrow> persisted \<Rightarrow> auth_error_code + stored_login" where
  "decodeLoginRecord nt raw =
     (case decodeRecord nt raw of
        Inl e \<Rightarrow> Inl e
      | Inr v \<Rightarrow>
          if \<not> is_reference (prop_of v ''reference'') \<or> \<not> isNonEmptyString (prop_of v ''transaction'') \<or>
             \<not> typeof_string (prop_of v ''returnTo'') \<or> length (string_of (prop_of v ''returnTo'')) > 2048 \<or>
             \<not> isAbsentOr (prop_of v ''previous'') is_reference \<or> \<not> num_check is_safe_integer (prop_of v ''expiresAt'')
          then Inl LoginTransaction
          else Inr \<lparr>sl_reference = string_of (prop_of v ''reference''), sl_transaction = string_of (prop_of v ''transaction''),
            sl_returnTo = string_of (prop_of v ''returnTo''), sl_previous = optional_string (prop_of v ''previous''),
            sl_expiresAt = time_of (prop_of v ''expiresAt'')\<rparr>)"

text \<open>The object a store writes for a session.\<close>

definition session_object :: "stored_session \<Rightarrow> jsval" where
  "session_object r = JObject True ([(''reference'', JStr (ss_reference r)), (''value'', ss_value r),
     (''expiresAt'', JNum (Fin (ss_expiresAt r)))] @
     (case ss_providerHandle r of None \<Rightarrow> [] | Some h \<Rightarrow> [(''providerHandle'', JStr h)]))"

section \<open>What is written can be read\<close>

definition same_zero :: "(jsnum \<Rightarrow> string) \<Rightarrow> bool" where
  "same_zero nt = (nt NegZero = nt (Fin 0))"

lemma reread_same:
  assumes "same_zero nt" "is_json v"
  shows "is_json (json_reread v) \<and> json_text nt (json_reread v) = json_text nt v \<and> json_nodes (json_reread v) = json_nodes v \<and>
    depth_within mx d (json_reread v) = depth_within mx d v"
  using assms(2)
proof (induction v arbitrary: d)
  case (JNum n)
  then show ?case using assms(1) by (cases n) (auto simp: same_zero_def js_finite_def)
next
  case (JArray xs)
  then have "\<And>x d. x \<in> set xs \<Longrightarrow> is_json (json_reread x) \<and> json_text nt (json_reread x) = json_text nt x \<and>
      json_nodes (json_reread x) = json_nodes x \<and> depth_within mx d (json_reread x) = depth_within mx d x" by auto
  then show ?case by (auto simp: comp_def cong: map_cong)
next
  case (JObject pl ps)
  then have "\<And>p d. p \<in> set ps \<Longrightarrow> is_json (json_reread (snd p)) \<and> json_text nt (json_reread (snd p)) = json_text nt (snd p) \<and>
      json_nodes (json_reread (snd p)) = json_nodes (snd p) \<and> depth_within mx d (json_reread (snd p)) = depth_within mx d (snd p)"
    by (auto simp: snds.simps)
  then show ?case by (auto simp: comp_def split_beta cong: map_cong)
qed simp_all

lemma record_accepted:
  assumes "ascii_numbers nt"
  shows "isJson nt record_limits v = Some True \<longleftrightarrow>
    is_json v \<and> depth_within (Some 32) 0 v \<and> json_nodes v \<le> 8192 \<and> json_size nt v \<le> 65536"
proof -
  have "\<exists>b. isJson nt record_limits v = Some b"
    by (simp add: isJson_def record_limits_def isPositiveInteger_def isNonNegativeInteger_def is_safe_integer_def max_safe_integer_def)
  then obtain b where b: "isJson nt record_limits v = Some b" by blast
  from isJson_verdict [OF assms b] b show ?thesis by (simp add: record_limits_def nat_of_num_def)
qed

theorem stored_record_read_back:
  assumes "ascii_numbers nt" "same_zero nt" "encodeSessionRecord nt v = Inr raw" "isRecord v"
  shows "decodeRecord nt raw = Inr (json_reread v)"
proof -
  have v: "is_json v" "depth_within (Some 32) 0 v" "json_nodes v \<le> 8192" "json_size nt v \<le> 65536" and raw: "raw = JsonText v"
    using assms(3) record_accepted [OF assms(1), of v] by (auto simp: encodeSessionRecord_def split: if_splits)
  have "isJson nt record_limits (json_reread v) = Some True"
    unfolding record_accepted [OF assms(1)] using reread_same [OF assms(2) v(1)] v by simp
  moreover have "isRecord (json_reread v)" using assms(4) by (cases v) auto
  ultimately show ?thesis using v(4) utf8_at_least [of "json_text nt v"] by (simp add: decodeRecord_def raw)
qed

end
