(* ===== verification/Opaque_Store.thy ===== *)
theory Opaque_Store imports Session_Records JS_Map begin

text \<open>
  The memory store of server sessions, \<open>createMemorySessionStore\<close> of
  \<^verbatim>\<open>packages/auth/src/server/opaque-store/memory.ts\<close>: generations of session families, their rotation and
  revocation, and login transactions.

  An entry is a mutable object that a read may still hold after it left the map, so entries live in a heap.
  \<open>read\<close> and \<open>create\<close> wait for the schema in the middle; what they wait with is pending in the state, and
  the answer is one more input. Each step reads the clock once; clock and abort signals are inputs.
\<close>

section \<open>State\<close>

record entry =
  en_serialized :: persisted
  en_expiresAt :: rat
  en_providerHandle :: "string option"
  en_family :: string
  en_active :: bool
  en_revoked :: bool
  en_retainUntil :: rat

datatype pending_call =
    Reading nat                                   \<comment> \<open>the entry found\<close>
  | Creating stored_session "string option"       \<comment> \<open>the record encoded and read back, and \<open>previous\<close>\<close>

record opaque_store =
  os_heap :: "nat \<Rightarrow> entry"
  os_next :: nat
  os_records :: "(string \<times> nat) list"
  os_transactions :: "(string \<times> stored_login) list"
  os_pending :: "nat \<Rightarrow> pending_call option"
  os_calls :: nat

definition no_entry :: entry where
  "no_entry = \<lparr>en_serialized = NotJson [], en_expiresAt = 0, en_providerHandle = None, en_family = [], en_active = False,
     en_revoked = True, en_retainUntil = 0\<rparr>"

definition createMemorySessionStore :: opaque_store where
  "createMemorySessionStore = \<lparr>os_heap = (\<lambda>_. no_entry), os_next = 0, os_records = [], os_transactions = [],
     os_pending = (\<lambda>_. None), os_calls = 0\<rparr>"

datatype store_error = AuthFailure auth_error_code | SignalAborted

datatype sessions_output =
    ReadDone nat "store_error + stored_session option"
  | CreateDone nat "store_error + unit"
  | RevokeDone "store_error + string list"
  | LoginCreated "store_error + unit"
  | LoginConsumed "store_error + stored_login option"

text \<open>The abort flag says whether the signal of the call is aborted when it is checked.\<close>

datatype sessions_input =
    Read string bool rat
  | Create jsval "string option" bool
  | SchemaAnswered nat schema_answer bool rat
  | Revoke string bool rat
  | CreateLogin jsval bool rat
  | ConsumeLogin string bool rat

type_synonym store_result = "opaque_store \<times> sessions_output list"

section \<open>Operations\<close>

definition cleanup_expired :: "rat \<Rightarrow> opaque_store \<Rightarrow> opaque_store" where
  "cleanup_expired now s = s\<lparr>os_records := filter (\<lambda>(r, e). \<not> en_retainUntil (os_heap s e) \<le> now) (os_records s),
     os_transactions := filter (\<lambda>(r, t). \<not> sl_expiresAt t \<le> now) (os_transactions s)\<rparr>"

definition is_live :: "rat \<Rightarrow> entry \<Rightarrow> bool" where
  "is_live now e = (en_active e \<and> \<not> en_revoked e \<and> now < en_expiresAt e)"

definition await_schema :: "pending_call \<Rightarrow> opaque_store \<Rightarrow> opaque_store" where
  "await_schema p s = s\<lparr>os_pending := (os_pending s)(os_calls s \<mapsto> p), os_calls := os_calls s + 1\<rparr>"

text \<open>A call that is answered at once takes a number too.\<close>

definition answered :: "opaque_store \<Rightarrow> opaque_store" where
  "answered s = s\<lparr>os_calls := os_calls s + 1\<rparr>"

definition read_begin :: "(jsnum \<Rightarrow> string) \<Rightarrow> string \<Rightarrow> bool \<Rightarrow> rat \<Rightarrow> opaque_store \<Rightarrow> store_result" where
  "read_begin nt reference aborted now s =
     (if aborted then (answered s, [ReadDone (os_calls s) (Inl SignalAborted)])
      else let s1 = cleanup_expired now s in
        case map_get (os_records s1) reference of
          None \<Rightarrow> (answered s1, [ReadDone (os_calls s1) (Inr None)])
        | Some e \<Rightarrow>
            if \<not> is_live now (os_heap s1 e) then (answered s1, [ReadDone (os_calls s1) (Inr None)])
            else (case decodeSessionMetadata nt (en_serialized (os_heap s1 e)) of
                Inl err \<Rightarrow> (answered s1, [ReadDone (os_calls s1) (Inl (AuthFailure err))])
              | Inr _ \<Rightarrow> (await_schema (Reading e) s1, [])))"

definition read_end ::
  "(jsnum \<Rightarrow> string) \<Rightarrow> nat \<Rightarrow> schema_answer \<Rightarrow> bool \<Rightarrow> rat \<Rightarrow> nat \<Rightarrow> opaque_store \<Rightarrow> store_result" where
  "read_end nt call answer aborted now e s =
     (s, [ReadDone call
        (case Option.bind (case decodeSessionMetadata nt (en_serialized (os_heap s e)) of Inl err \<Rightarrow> None | Inr r \<Rightarrow> Some r)
             (\<lambda>r. case schema_checked nt r answer of Inl err \<Rightarrow> None | Inr record \<Rightarrow> Some record) of
           None \<Rightarrow> Inl (AuthFailure SessionInvalid)
         | Some record \<Rightarrow>
             if aborted then Inl SignalAborted
             else Inr (if is_live now (os_heap s e) then Some record else None))])"

definition create_begin ::
  "(jsnum \<Rightarrow> string) \<Rightarrow> jsval \<Rightarrow> string option \<Rightarrow> bool \<Rightarrow> opaque_store \<Rightarrow> store_result" where
  "create_begin nt record previous aborted s =
     (if aborted then (answered s, [CreateDone (os_calls s) (Inl SignalAborted)])
      else case encodeSessionRecord nt record of
        Inl err \<Rightarrow> (answered s, [CreateDone (os_calls s) (Inl (AuthFailure err))])
      | Inr encoded \<Rightarrow>
          (case decodeSessionMetadata nt encoded of
             Inl err \<Rightarrow> (answered s, [CreateDone (os_calls s) (Inl (AuthFailure err))])
           | Inr r \<Rightarrow> (await_schema (Creating r previous) s, [])))"

text \<open>Writing an admitted generation: the replaced one ends, the family is retained as long as the new one.\<close>

definition retain_family :: "string \<Rightarrow> rat \<Rightarrow> entry \<Rightarrow> entry" where
  "retain_family family retainUntil e =
     (if en_family e = family then e\<lparr>en_retainUntil := max (en_retainUntil e) retainUntil\<rparr> else e)"

definition deactivate :: "nat option \<Rightarrow> (nat \<Rightarrow> entry) \<Rightarrow> nat \<Rightarrow> entry" where
  "deactivate old heap = (case old of None \<Rightarrow> heap | Some e \<Rightarrow> heap(e := (heap e)\<lparr>en_active := False\<rparr>))"

definition on_records :: "(string \<times> nat) list \<Rightarrow> (entry \<Rightarrow> entry) \<Rightarrow> (nat \<Rightarrow> entry) \<Rightarrow> nat \<Rightarrow> entry" where
  "on_records records f heap = (\<lambda>e. if e \<in> snd ` set records then f (heap e) else heap e)"

definition write_generation ::
  "persisted \<Rightarrow> stored_session \<Rightarrow> nat option \<Rightarrow> string \<Rightarrow> rat \<Rightarrow> opaque_store \<Rightarrow> opaque_store" where
  "write_generation serialized owned old family retainUntil s =
     (let heap = on_records (os_records s) (retain_family family retainUntil) (deactivate old (os_heap s))
      in s\<lparr>os_heap := heap(os_next s := \<lparr>en_serialized = serialized, en_expiresAt = ss_expiresAt owned,
             en_providerHandle = ss_providerHandle owned, en_family = family, en_active = True, en_revoked = False,
             en_retainUntil = retainUntil\<rparr>),
           os_next := os_next s + 1,
           os_records := map_set (ss_reference owned) (os_next s) (os_records s)\<rparr>)"

definition live_entry :: "rat \<Rightarrow> string option \<Rightarrow> opaque_store \<Rightarrow> nat option" where
  "live_entry now previous s =
     (case Option.bind previous (map_get (os_records s)) of
        None \<Rightarrow> None
      | Some e \<Rightarrow> if is_live now (os_heap s e) then Some e else None)"

definition create_end ::
  "(jsnum \<Rightarrow> string) \<Rightarrow> store_capacity \<Rightarrow> schema_answer \<Rightarrow> bool \<Rightarrow> rat \<Rightarrow> stored_session \<Rightarrow> string option \<Rightarrow> opaque_store \<Rightarrow>
    opaque_store \<times> (store_error + unit)" where
  "create_end nt cap answer aborted now record previous s =
     (case schema_checked nt record answer of
        Inl err \<Rightarrow> (s, Inl (AuthFailure err))
      | Inr owned \<Rightarrow>
          (case encodeSessionRecord nt (session_object owned) of
             Inl err \<Rightarrow> (s, Inl (AuthFailure err))
           | Inr serialized \<Rightarrow>
               if aborted then (s, Inl SignalAborted)
               else let s1 = cleanup_expired now s; old = live_entry now previous s1 in
                 case admitSession (ss_reference owned) (ss_expiresAt owned) previous
                     (map_option (\<lambda>e. (en_family (os_heap s1 e), en_expiresAt (os_heap s1 e))) old) now of
                   Inl err \<Rightarrow> (s1, Inl (AuthFailure err))
                 | Inr (family, retainUntil) \<Rightarrow>
                     if cap_sessions cap \<le> length (os_records s1) \<or> map_has (os_records s1) (ss_reference owned)
                     then (s1, Inl (AuthFailure StoreUnavailable))
                     else (write_generation serialized owned old family retainUntil s1, Inr ())))"

definition schema_settled ::
  "(jsnum \<Rightarrow> string) \<Rightarrow> store_capacity \<Rightarrow> nat \<Rightarrow> schema_answer \<Rightarrow> bool \<Rightarrow> rat \<Rightarrow> opaque_store \<Rightarrow> store_result" where
  "schema_settled nt cap call answer aborted now s =
     (let s1 = s\<lparr>os_pending := (os_pending s)(call := None)\<rparr> in
      case os_pending s call of
        None \<Rightarrow> (s, [])
      | Some (Reading e) \<Rightarrow> read_end nt call answer aborted now e s1
      | Some (Creating record previous) \<Rightarrow>
          (let (s2, result) = create_end nt cap answer aborted now record previous s1 in (s2, [CreateDone call result])))"

text \<open>A \<open>Set\<close> in insertion order, as a list.\<close>

definition set_list :: "'a list \<Rightarrow> 'a list" where
  "set_list xs = map fst (map_new (map (\<lambda>x. (x, ())) xs))"

definition revoke :: "string \<Rightarrow> bool \<Rightarrow> rat \<Rightarrow> opaque_store \<Rightarrow> store_result" where
  "revoke reference aborted now s =
     (if aborted then (s, [RevokeDone (Inl SignalAborted)])
      else let s1 = cleanup_expired now s in
        case map_get (os_records s1) reference of
          None \<Rightarrow> (s1, [RevokeDone (Inr [])])
        | Some found \<Rightarrow>
            let family = en_family (os_heap s1 found);
                ended = (\<lambda>e. if en_family e = family then e\<lparr>en_revoked := True\<rparr> else e);
                members = filter (\<lambda>e. en_family (os_heap s1 e) = family) (map_values (os_records s1));
                handles = List.map_filter (\<lambda>e. en_providerHandle (os_heap s1 e)) members
            in (s1\<lparr>os_heap := on_records (os_records s1) ended (os_heap s1)\<rparr>, [RevokeDone (Inr (set_list handles))]))"

definition create_login ::
  "(jsnum \<Rightarrow> string) \<Rightarrow> store_capacity \<Rightarrow> jsval \<Rightarrow> bool \<Rightarrow> rat \<Rightarrow> opaque_store \<Rightarrow> store_result" where
  "create_login nt cap record aborted now s =
     (if aborted then (s, [LoginCreated (Inl SignalAborted)])
      else case encodeSessionRecord nt record of
        Inl err \<Rightarrow> (s, [LoginCreated (Inl (AuthFailure err))])
      | Inr encoded \<Rightarrow>
          (case decodeLoginRecord nt encoded of
             Inl err \<Rightarrow> (s, [LoginCreated (Inl (AuthFailure err))])
           | Inr owned \<Rightarrow>
               (case admitLogin (sl_expiresAt owned) now of
                  Inl err \<Rightarrow> (s, [LoginCreated (Inl (AuthFailure err))])
                | Inr _ \<Rightarrow>
                    let s1 = cleanup_expired now s in
                    if cap_logins cap \<le> length (os_transactions s1) \<or> map_has (os_transactions s1) (sl_reference owned)
                    then (s1, [LoginCreated (Inl (AuthFailure StoreUnavailable))])
                    else (s1\<lparr>os_transactions := map_set (sl_reference owned) owned (os_transactions s1)\<rparr>,
                      [LoginCreated (Inr ())]))))"

definition consume_login :: "string \<Rightarrow> bool \<Rightarrow> rat \<Rightarrow> opaque_store \<Rightarrow> store_result" where
  "consume_login reference aborted now s =
     (if aborted then (s, [LoginConsumed (Inl SignalAborted)])
      else let s1 = cleanup_expired now s
        in (s1\<lparr>os_transactions := map_delete reference (os_transactions s1)\<rparr>,
            [LoginConsumed (Inr (map_get (os_transactions s1) reference))]))"

fun sessions_step :: "(jsnum \<Rightarrow> string) \<Rightarrow> store_capacity \<Rightarrow> opaque_store \<Rightarrow> sessions_input \<Rightarrow> store_result" where
  "sessions_step nt cap s (Read reference aborted now) = read_begin nt reference aborted now s"
| "sessions_step nt cap s (Create record previous aborted) = create_begin nt record previous aborted s"
| "sessions_step nt cap s (SchemaAnswered call answer aborted now) = schema_settled nt cap call answer aborted now s"
| "sessions_step nt cap s (Revoke reference aborted now) = revoke reference aborted now s"
| "sessions_step nt cap s (CreateLogin record aborted now) = create_login nt cap record aborted now s"
| "sessions_step nt cap s (ConsumeLogin reference aborted now) = consume_login reference aborted now s"

section \<open>The invariant\<close>

text \<open>Generations of one family expire, are retained and are revoked together, and one of them is active.\<close>

definition family_agrees :: "(nat \<Rightarrow> entry) \<Rightarrow> nat set \<Rightarrow> bool" where
  "family_agrees heap es = (\<forall>e \<in> es. \<forall>e' \<in> es. en_family (heap e) = en_family (heap e') \<longrightarrow>
     en_expiresAt (heap e) = en_expiresAt (heap e') \<and> en_revoked (heap e) = en_revoked (heap e') \<and>
     (en_active (heap e) \<and> en_active (heap e') \<longrightarrow> e = e'))"

definition records_inv :: "(nat \<Rightarrow> entry) \<Rightarrow> nat \<Rightarrow> (string \<times> nat) list \<Rightarrow> bool" where
  "records_inv heap n records =
     (wf_map records \<and> inj_on snd (set records) \<and> (\<forall>(r, e) \<in> set records. e < n) \<and>
      (\<forall>(r, e) \<in> set records. en_retainUntil (heap e) = en_expiresAt (heap e) + REVOCATION_RETENTION_MS) \<and>
      (\<forall>(r, e) \<in> set records. \<exists>e'. (en_family (heap e), e') \<in> set records \<and> en_family (heap e') = en_family (heap e)) \<and>
      family_agrees heap (snd ` set records))"

definition sessions_inv :: "store_capacity \<Rightarrow> opaque_store \<Rightarrow> bool" where
  "sessions_inv cap s =
     (records_inv (os_heap s) (os_next s) (os_records s) \<and> length (os_records s) \<le> cap_sessions cap \<and>
      wf_map (os_transactions s) \<and> (\<forall>(r, t) \<in> set (os_transactions s). sl_reference t = r) \<and>
      length (os_transactions s) \<le> cap_logins cap \<and>
      (\<forall>call e. os_pending s call = Some (Reading e) \<longrightarrow> e < os_next s))"

lemma records_invD:
  assumes "records_inv heap n records"
  shows "wf_map records" "inj_on snd (set records)" "\<And>e. e \<in> snd ` set records \<Longrightarrow> e < n"
    "\<And>e. e \<in> snd ` set records \<Longrightarrow> en_retainUntil (heap e) = en_expiresAt (heap e) + REVOCATION_RETENTION_MS"
    "\<And>e. e \<in> snd ` set records \<Longrightarrow>
       \<exists>e'. (en_family (heap e), e') \<in> set records \<and> en_family (heap e') = en_family (heap e)"
    "\<And>e e'. e \<in> snd ` set records \<Longrightarrow> e' \<in> snd ` set records \<Longrightarrow> en_family (heap e) = en_family (heap e') \<Longrightarrow>
       en_expiresAt (heap e) = en_expiresAt (heap e') \<and> en_revoked (heap e) = en_revoked (heap e') \<and>
       (en_active (heap e) \<and> en_active (heap e') \<longrightarrow> e = e')"
  using assms unfolding records_inv_def family_agrees_def by (simp, simp, force, force, force, blast)

lemma records_invI:
  assumes "wf_map records" "inj_on snd (set records)" "\<And>e. e \<in> snd ` set records \<Longrightarrow> e < n"
    "\<And>e. e \<in> snd ` set records \<Longrightarrow> en_retainUntil (heap e) = en_expiresAt (heap e) + REVOCATION_RETENTION_MS"
    "\<And>e. e \<in> snd ` set records \<Longrightarrow>
       \<exists>e'. (en_family (heap e), e') \<in> set records \<and> en_family (heap e') = en_family (heap e)"
    "\<And>e e'. e \<in> snd ` set records \<Longrightarrow> e' \<in> snd ` set records \<Longrightarrow> en_family (heap e) = en_family (heap e') \<Longrightarrow>
       en_expiresAt (heap e) = en_expiresAt (heap e') \<and> en_revoked (heap e) = en_revoked (heap e') \<and>
       (en_active (heap e) \<and> en_active (heap e') \<longrightarrow> e = e')"
  shows "records_inv heap n records"
  unfolding records_inv_def family_agrees_def
proof (intro conjI)
  show "\<forall>(r, e) \<in> set records. e < n" using assms(3) by force
  show "\<forall>(r, e) \<in> set records. en_retainUntil (heap e) = en_expiresAt (heap e) + REVOCATION_RETENTION_MS" using assms(4) by force
  show "\<forall>(r, e) \<in> set records. \<exists>e'. (en_family (heap e), e') \<in> set records \<and> en_family (heap e') = en_family (heap e)"
  proof clarify
    fix r e assume "(r, e) \<in> set records"
    then show "\<exists>e'. (en_family (heap e), e') \<in> set records \<and> en_family (heap e') = en_family (heap e)"
      by (intro assms(5)) force
  qed
  show "\<forall>e \<in> snd ` set records. \<forall>e' \<in> snd ` set records. en_family (heap e) = en_family (heap e') \<longrightarrow>
      en_expiresAt (heap e) = en_expiresAt (heap e') \<and> en_revoked (heap e) = en_revoked (heap e') \<and>
      (en_active (heap e) \<and> en_active (heap e') \<longrightarrow> e = e')" using assms(6) by blast
qed (fact assms(1,2))+

lemma in_values: "(r, e) \<in> set records \<Longrightarrow> e \<in> snd ` set records"
  by force

lemma wf_filter: "wf_map m \<Longrightarrow> wf_map (filter P m)"
  by (induction m) auto

lemma records_inv_filter:
  assumes inv: "records_inv heap n records"
  shows "records_inv heap n (filter (\<lambda>(r, e). \<not> en_retainUntil (heap e) \<le> now) records)" (is "records_inv _ _ ?rs")
proof (rule records_invI)
  note d = records_invD [OF inv]
  have sub: "e \<in> snd ` set ?rs \<Longrightarrow> e \<in> snd ` set records" for e by auto
  show "wf_map ?rs" using d(1) by (rule wf_filter)
  show "inj_on snd (set ?rs)" using d(2) by (rule inj_on_subset) auto
  fix e assume e: "e \<in> snd ` set ?rs"
  show "e < n" "en_retainUntil (heap e) = en_expiresAt (heap e) + REVOCATION_RETENTION_MS" using d(3,4) sub [OF e] by simp_all
  obtain e' where e': "(en_family (heap e), e') \<in> set records" "en_family (heap e') = en_family (heap e)"
    using d(5) [OF sub [OF e]] by blast
  have "en_retainUntil (heap e') = en_retainUntil (heap e)"
    using d(4,6) [OF sub [OF e]] d(4) [OF in_values [OF e'(1)]] d(6) [OF in_values [OF e'(1)] sub [OF e] e'(2)] by simp
  moreover have "\<not> en_retainUntil (heap e) \<le> now" using e by auto
  ultimately show "\<exists>e'. (en_family (heap e), e') \<in> set ?rs \<and> en_family (heap e') = en_family (heap e)" using e' by auto
qed (use records_invD(6) [OF inv] in auto)

lemma cleanup_inv: "sessions_inv cap s \<Longrightarrow> sessions_inv cap (cleanup_expired now s)"
  by (auto simp: sessions_inv_def cleanup_expired_def records_inv_filter wf_filter intro: order_trans [OF length_filter_le])

lemma quiet_inv: "sessions_inv cap s \<Longrightarrow> sessions_inv cap (answered s)"
  "sessions_inv cap s \<Longrightarrow> (\<And>e. p = Reading e \<Longrightarrow> e < os_next s) \<Longrightarrow> sessions_inv cap (await_schema p s)"
  "sessions_inv cap s \<Longrightarrow> sessions_inv cap (s\<lparr>os_pending := (os_pending s)(call := None)\<rparr>)"
  by (auto simp: sessions_inv_def answered_def await_schema_def)

lemma live_entry_in: "live_entry now previous s = Some e \<Longrightarrow>
    (the previous, e) \<in> set (os_records s) \<and> previous \<noteq> None \<and> is_live now (os_heap s e)"
  by (auto simp: live_entry_def dest: map_get_in split: option.splits if_splits bind_splits)

text \<open>A new generation keeps the retention of its family as it is.\<close>

lemma retention_kept:
  fixes old :: "nat option"
  assumes inv: "records_inv heap n records"
    and family: "case old of None \<Rightarrow> family \<notin> fst ` set records
      | Some e \<Rightarrow> e \<in> snd ` set records \<and> family = en_family (heap e) \<and> retainUntil = en_expiresAt (heap e) + REVOCATION_RETENTION_MS"
  shows "on_records records (retain_family family retainUntil) (deactivate old heap) = deactivate old heap"
proof -
  note d = records_invD [OF inv]
  have "retain_family family retainUntil (deactivate old heap e) = deactivate old heap e" if e: "e \<in> snd ` set records" for e
  proof (cases "en_family (heap e) = family")
    case True
    obtain l where "(family, l) \<in> set records" using d(5) [OF e] True by auto
    then have "old \<noteq> None" using family by (cases old) force+
    then obtain o' where o': "old = Some o'" by auto
    have "en_retainUntil (heap e) = retainUntil"
      using d(4) [OF e] d(6) [OF e, of o'] family True o' by simp
    then show ?thesis using o' by (cases "e = o'") (simp_all add: retain_family_def deactivate_def)
  qed (simp add: retain_family_def deactivate_def split: option.split)
  then show ?thesis by (auto simp: on_records_def fun_eq_iff)
qed

lemma write_inv:
  assumes inv: "sessions_inv cap s" and room: "length (os_records s) < cap_sessions cap"
    and fresh: "\<not> map_has (os_records s) (ss_reference owned)"
    and old: "case old of None \<Rightarrow> family = ss_reference owned
      | Some e \<Rightarrow> e \<in> snd ` set (os_records s) \<and> \<not> en_revoked (os_heap s e) \<and> en_active (os_heap s e) \<and>
          family = en_family (os_heap s e) \<and> ss_expiresAt owned = en_expiresAt (os_heap s e)"
    and ret: "retainUntil = ss_expiresAt owned + REVOCATION_RETENTION_MS"
  shows "sessions_inv cap (write_generation serialized owned old family retainUntil s)"
proof -
  let ?n = "os_next s" and ?h = "deactivate old (os_heap s)"
  let ?new = "\<lparr>en_serialized = serialized, en_expiresAt = ss_expiresAt owned, en_providerHandle = ss_providerHandle owned,
    en_family = family, en_active = True, en_revoked = False, en_retainUntil = retainUntil\<rparr>"
  have ri: "records_inv (os_heap s) ?n (os_records s)" using inv by (simp add: sessions_inv_def)
  have nin: "ss_reference owned \<notin> fst ` set (os_records s)" using fresh by (simp add: map_has_iff)
  have eq: "write_generation serialized owned old family retainUntil s =
      s\<lparr>os_heap := ?h(?n := ?new), os_next := ?n + 1, os_records := os_records s @ [(ss_reference owned, ?n)]\<rparr>"
    using retention_kept [OF ri, where old = old and family = family and retainUntil = retainUntil] old ret nin
    by (auto simp: write_generation_def map_set_fresh split: option.splits)
  have fields: "en_family (?h e) = en_family (os_heap s e)" "en_expiresAt (?h e) = en_expiresAt (os_heap s e)"
    "en_revoked (?h e) = en_revoked (os_heap s e)" "en_retainUntil (?h e) = en_retainUntil (os_heap s e)"
    "en_active (?h e) = (en_active (os_heap s e) \<and> old \<noteq> Some e)" for e
    by (auto simp: deactivate_def split: option.split)
  note d = records_invD [OF ri]
  let ?rs = "os_records s @ [(ss_reference owned, ?n)]" and ?h' = "?h(?n := ?new)"
  have agree: "en_expiresAt (os_heap s e) = ss_expiresAt owned \<and> \<not> en_revoked (os_heap s e) \<and> (en_active (os_heap s e) \<longrightarrow> old = Some e)"
    if e: "e \<in> snd ` set (os_records s)" "en_family (os_heap s e) = family" for e
  proof -
    obtain l where "(family, l) \<in> set (os_records s)" using d(5) [OF e(1)] e(2) by auto
    then have "old \<noteq> None" using old nin by (cases old) force+
    then obtain o' where o': "old = Some o'" by auto
    show ?thesis using d(6) [OF e(1), of o'] e(2) old o' by auto
  qed
  have ne: "e \<noteq> ?n" if "e \<in> snd ` set (os_records s)" for e using d(3) [OF that] by simp
  have "records_inv ?h' (?n + 1) ?rs"
  proof (rule records_invI)
    show "wf_map ?rs" using d(1) nin by auto
    show "inj_on snd (set ?rs)" using d(2) ne by (force simp: inj_on_def)
    fix e assume "e \<in> snd ` set ?rs"
    then consider (new) "e = ?n" | (kept) "e \<in> snd ` set (os_records s)" "e \<noteq> ?n" using ne by auto
    note cases = this
    show "e < ?n + 1" using cases d(3) by cases force+
    show "en_retainUntil (?h' e) = en_expiresAt (?h' e) + REVOCATION_RETENTION_MS"
      using cases d(4) ret by cases (simp_all add: fields)
    show "\<exists>e'. (en_family (?h' e), e') \<in> set ?rs \<and> en_family (?h' e') = en_family (?h' e)"
      using cases
    proof cases
      case new
      show ?thesis
      proof (cases old)
        case None
        then show ?thesis using old new by auto
      next
        case (Some o')
        then have o': "o' \<in> snd ` set (os_records s)" "family = en_family (os_heap s o')" using old by simp_all
        obtain l where l: "(family, l) \<in> set (os_records s)" "en_family (os_heap s l) = family"
          using d(5) [OF o'(1)] unfolding o'(2) [symmetric] by (elim exE conjE) 
        then have "l \<noteq> ?n" using ne [OF in_values] by simp
        then show ?thesis using l new by (auto simp: fields intro!: exI [of _ l])
      qed
    next
      case kept
      obtain l where l: "(en_family (os_heap s e), l) \<in> set (os_records s)" "en_family (os_heap s l) = en_family (os_heap s e)"
        using d(5) [OF kept(1)] by auto
      then have "l \<noteq> ?n" using ne [OF in_values] by simp
      then show ?thesis using l kept by (auto simp: fields intro!: exI [of _ l])
    qed
    fix e' assume "e' \<in> snd ` set ?rs"
    then consider (new') "e' = ?n" | (kept') "e' \<in> snd ` set (os_records s)" "e' \<noteq> ?n" using ne by auto
    note cases' = this
    assume fam: "en_family (?h' e) = en_family (?h' e')"
    show "en_expiresAt (?h' e) = en_expiresAt (?h' e') \<and> en_revoked (?h' e) = en_revoked (?h' e') \<and>
        (en_active (?h' e) \<and> en_active (?h' e') \<longrightarrow> e = e')"
      using cases
    proof cases
      case new
      from cases' show ?thesis
      proof cases
        case kept'
        then show ?thesis using agree [of e'] fam new by (auto simp: fields)
      qed (use new in simp)
    next
      case kept
      from cases' show ?thesis
      proof cases
        case new'
        then show ?thesis using agree [of e] fam kept by (auto simp: fields)
      next
        case kept'
        then show ?thesis using d(6) [of e e'] fam kept by (auto simp: fields)
      qed
    qed
  qed
  then show ?thesis using inv room by (auto simp: eq sessions_inv_def less_Suc_eq)
qed

lemma create_end_inv:
  assumes "sessions_inv cap s"
  shows "sessions_inv cap (fst (create_end nt cap answer aborted now record previous s))"
proof -
  let ?s = "cleanup_expired now s"
  have c: "sessions_inv cap ?s" using cleanup_inv [OF assms] .
  have w: "sessions_inv cap (write_generation serialized owned old family retainUntil ?s)"
    if old: "old = live_entry now previous ?s"
      and adm: "admitSession (ss_reference owned) (ss_expiresAt owned) previous
        (map_option (\<lambda>e. (en_family (os_heap ?s e), en_expiresAt (os_heap ?s e))) old) now = Inr (family, retainUntil)"
      and room: "\<not> cap_sessions cap \<le> length (os_records ?s)" "\<not> map_has (os_records ?s) (ss_reference owned)"
    for serialized owned old family retainUntil
  proof (rule write_inv [OF c])
    show "length (os_records ?s) < cap_sessions cap" "\<not> map_has (os_records ?s) (ss_reference owned)" using room by auto
    show "retainUntil = ss_expiresAt owned + REVOCATION_RETENTION_MS" using adm by (simp add: admitSession_Inr)
    show "case old of None \<Rightarrow> family = ss_reference owned
      | Some e \<Rightarrow> e \<in> snd ` set (os_records ?s) \<and> \<not> en_revoked (os_heap ?s e) \<and> en_active (os_heap ?s e) \<and>
          family = en_family (os_heap ?s e) \<and> ss_expiresAt owned = en_expiresAt (os_heap ?s e)"
    proof (cases old)
      case None
      then show ?thesis using adm by (simp add: admitSession_Inr)
    next
      case (Some e)
      then have "(the previous, e) \<in> set (os_records ?s)" "is_live now (os_heap ?s e)"
        using live_entry_in [of now previous ?s e] old by simp_all
      then show ?thesis using adm Some in_values [of "the previous" e] by (simp add: admitSession_Inr is_live_def)
    qed
  qed
  let ?old = "live_entry now previous ?s"
  have written: "sessions_inv cap (fst (case admitSession (ss_reference owned) (ss_expiresAt owned) previous
        (map_option (\<lambda>e. (en_family (os_heap ?s e), en_expiresAt (os_heap ?s e))) ?old) now of
      Inl err \<Rightarrow> (?s, Inl (AuthFailure err))
    | Inr (family, retainUntil) \<Rightarrow>
        if cap_sessions cap \<le> length (os_records ?s) \<or> map_has (os_records ?s) (ss_reference owned)
        then (?s, Inl (AuthFailure StoreUnavailable))
        else (write_generation serialized owned ?old family retainUntil ?s, Inr ())))" for serialized owned
  proof (cases "admitSession (ss_reference owned) (ss_expiresAt owned) previous
      (map_option (\<lambda>e. (en_family (os_heap ?s e), en_expiresAt (os_heap ?s e))) ?old) now")
    case (Inr p)
    obtain family retainUntil where p: "p = (family, retainUntil)" by (cases p)
    show ?thesis
    proof (cases "cap_sessions cap \<le> length (os_records ?s) \<or> map_has (os_records ?s) (ss_reference owned)")
      case True
      show ?thesis unfolding Inr p sum.case prod.case if_P [OF True] fst_conv by (rule c)
    next
      case False
      show ?thesis unfolding Inr p sum.case prod.case if_not_P [OF False] fst_conv
        by (rule w [OF refl Inr [unfolded p]]) (use False in simp_all)
    qed
  qed (simp add: c)
  show ?thesis using assms written by (simp add: create_end_def Let_def split: sum.split)
qed

lemma pending_in_store: "sessions_inv cap s \<Longrightarrow> map_get (os_records s) r = Some e \<Longrightarrow> e < os_next s"
  using records_invD(3) [of "os_heap s" "os_next s" "os_records s", OF _ in_values [OF map_get_in]] by (simp add: sessions_inv_def)

lemma revoke_inv:
  assumes "sessions_inv cap s"
  shows "sessions_inv cap (fst (revoke reference aborted now s))"
proof -
  have c: "sessions_inv cap (cleanup_expired now s)" using cleanup_inv [OF assms] .
  have "sessions_inv cap (s1\<lparr>os_heap := on_records (os_records s1) (\<lambda>e. if en_family e = family then e\<lparr>en_revoked := True\<rparr> else e) (os_heap s1)\<rparr>)"
    (is "sessions_inv cap (s1\<lparr>os_heap := ?h\<rparr>)") if s1: "sessions_inv cap s1" for s1 family
  proof -
    have ri: "records_inv (os_heap s1) (os_next s1) (os_records s1)" using s1 by (simp add: sessions_inv_def)
    note d = records_invD [OF ri]
    have f: "en_family (?h e) = en_family (os_heap s1 e)" "en_expiresAt (?h e) = en_expiresAt (os_heap s1 e)"
      "en_active (?h e) = en_active (os_heap s1 e)" "en_retainUntil (?h e) = en_retainUntil (os_heap s1 e)" for e
      by (auto simp: on_records_def)
    have r: "en_revoked (?h e) = (en_revoked (os_heap s1 e) \<or> en_family (os_heap s1 e) = family)" if "e \<in> snd ` set (os_records s1)" for e
      using that by (simp add: on_records_def)
    have "records_inv ?h (os_next s1) (os_records s1)"
    proof (rule records_invI, unfold f)
      fix e e' assume e: "e \<in> snd ` set (os_records s1)" "e' \<in> snd ` set (os_records s1)" "en_family (os_heap s1 e) = en_family (os_heap s1 e')"
      show "en_expiresAt (os_heap s1 e) = en_expiresAt (os_heap s1 e') \<and> en_revoked (?h e) = en_revoked (?h e') \<and>
          (en_active (os_heap s1 e) \<and> en_active (os_heap s1 e') \<longrightarrow> e = e')"
        using d(6) [OF e] e(3) unfolding r [OF e(1)] r [OF e(2)] by simp
    qed (erule d | rule d)+
    then show ?thesis using s1 by (simp add: sessions_inv_def)
  qed
  then show ?thesis using assms c by (auto simp: revoke_def Let_def split: option.splits)
qed

lemma login_inv:
  assumes "sessions_inv cap s"
  shows "sessions_inv cap (fst (create_login nt cap record aborted now s))" "sessions_inv cap (fst (consume_login reference aborted now s))"
proof -
  have c: "sessions_inv cap (cleanup_expired now s)" using cleanup_inv [OF assms] .
  have "sessions_inv cap (s1\<lparr>os_transactions := map_set (sl_reference t) t (os_transactions s1)\<rparr>)"
    if "sessions_inv cap s1" "\<not> cap_logins cap \<le> length (os_transactions s1)" "\<not> map_has (os_transactions s1) (sl_reference t)" for s1 t
    using that by (auto simp: sessions_inv_def map_has_iff map_set_fresh)
  then show "sessions_inv cap (fst (create_login nt cap record aborted now s))"
    using assms c by (auto simp: create_login_def Let_def split: sum.splits)
  have "sessions_inv cap (s1\<lparr>os_transactions := map_delete reference (os_transactions s1)\<rparr>)" if "sessions_inv cap s1" for s1
    using that map_delete_subset [of reference "os_transactions s1"] length_delete_le [of reference "os_transactions s1"]
    by (auto simp: sessions_inv_def)
  then show "sessions_inv cap (fst (consume_login reference aborted now s))"
    using assms c by (auto simp: consume_login_def Let_def)
qed

lemma step_inv: "sessions_inv cap s \<Longrightarrow> sessions_inv cap (fst (sessions_step nt cap s i))"
proof (cases i)
  case (Read reference aborted now)
  assume s: "sessions_inv cap s"
  show ?thesis using s cleanup_inv [OF s, of now] quiet_inv(1) pending_in_store [OF cleanup_inv [OF s, of now]]
    by (auto simp: Read read_begin_def Let_def intro!: quiet_inv split: option.splits sum.splits)
next
  case (Create v previous aborted)
  assume "sessions_inv cap s"
  then show ?thesis by (auto simp: Create create_begin_def intro!: quiet_inv split: sum.splits)
next
  case (SchemaAnswered call answer aborted now)
  assume s: "sessions_inv cap s"
  show ?thesis
  proof (cases "os_pending s call")
    case (Some p)
    then show ?thesis using quiet_inv(3) [OF s] create_end_inv [OF quiet_inv(3) [OF s]]
      by (cases p) (simp_all add: SchemaAnswered schema_settled_def read_end_def split_beta Let_def)
  qed (simp add: SchemaAnswered schema_settled_def s)
qed (simp_all add: revoke_inv login_inv)

lemma init_inv: "sessions_inv cap createMemorySessionStore"
  by (simp add: sessions_inv_def createMemorySessionStore_def records_inv_def family_agrees_def)

interpretation session_store: kept_invariant "sessions_step nt cap" "sessions_inv cap"
  by unfold_locales (rule step_inv)

lemmas sessions_reachable = session_store.run_inv [OF init_inv]

section \<open>Entries never come back\<close>

definition later :: "opaque_store \<Rightarrow> opaque_store \<Rightarrow> bool" where
  "later s s' = (os_next s \<le> os_next s' \<and> (\<forall>e < os_next s. en_family (os_heap s' e) = en_family (os_heap s e) \<and>
     en_expiresAt (os_heap s' e) = en_expiresAt (os_heap s e) \<and>
     (en_active (os_heap s' e) \<longrightarrow> en_active (os_heap s e)) \<and> (en_revoked (os_heap s e) \<longrightarrow> en_revoked (os_heap s' e))))"

lemma later_refl: "later s s"
  by (simp add: later_def)

lemma later_trans: "later s s' \<Longrightarrow> later s' s'' \<Longrightarrow> later s s''"
  by (auto simp: later_def)

lemma later_same: "os_heap s' = os_heap s \<Longrightarrow> os_next s' = os_next s \<Longrightarrow> later s s'"
  by (simp add: later_def)

lemma later_write: "later s (write_generation serialized owned old family retainUntil s)"
  by (auto simp: later_def write_generation_def Let_def on_records_def retain_family_def deactivate_def split: option.splits)

lemma later_cleanup: "later s (cleanup_expired now s)"
  by (rule later_same) (simp_all add: cleanup_expired_def)

lemma later_create: "later s (fst (create_end nt cap answer aborted now record previous s))"
  using later_trans [OF later_cleanup later_write] later_cleanup
  by (auto simp: create_end_def Let_def later_refl split: sum.splits)

lemma later_step: "later s (fst (sessions_step nt cap s i))"
proof (cases i)
  case (SchemaAnswered call answer aborted now)
  have "later s (s\<lparr>os_pending := f\<rparr>)" for f by (rule later_same) simp_all
  from later_trans [OF this later_create] show ?thesis
    by (auto simp: SchemaAnswered schema_settled_def read_end_def Let_def later_refl split_beta later_def
        split: option.splits pending_call.splits)
next
  case (Revoke reference aborted now)
  show ?thesis
    by (auto simp: Revoke revoke_def Let_def later_def on_records_def cleanup_expired_def split: option.splits)
qed (auto simp: read_begin_def create_begin_def create_login_def consume_login_def Let_def answered_def await_schema_def
    cleanup_expired_def intro!: later_same split: option.splits sum.splits)

lemma later_run: "later s (fst (run (sessions_step nt cap) s ins))"
proof (induction ins arbitrary: s)
  case (Cons i ins)
  show ?case using later_trans [OF later_step Cons.IH] by (simp add: run_Cons del: run.simps(2))
qed (simp add: later_refl)

lemma not_live_later: "later s s' \<Longrightarrow> e < os_next s \<Longrightarrow> en_revoked (os_heap s e) \<or> \<not> en_active (os_heap s e) \<Longrightarrow>
    \<not> is_live t (os_heap s' e)"
  by (auto simp: later_def is_live_def)

section \<open>Properties\<close>

definition members :: "opaque_store \<Rightarrow> string \<Rightarrow> nat set" where
  "members s family = {e \<in> snd ` set (os_records s). en_family (os_heap s e) = family}"

lemma set_list_set: "set (set_list xs) = set xs"
proof -
  have fst_set: "fst ` set (map_set k v m) = insert k (fst ` set m)" for k :: 'a and v :: unit and m
    by (induction m) auto
  have "fst ` set (foldl (\<lambda>m (k, v). map_set k v m) m (map (\<lambda>x. (x, ())) xs)) = fst ` set m \<union> set xs" for m :: "('a \<times> unit) list"
    by (induction xs arbitrary: m) (auto simp: fst_set)
  from this [of "[]"] show ?thesis by (simp add: set_list_def map_new_def)
qed

lemma revoke_known:
  assumes "map_get (os_records (cleanup_expired now s)) r = Some e"
  shows "\<exists>handles. revoke r False now s =
      ((cleanup_expired now s)\<lparr>os_heap := on_records (os_records (cleanup_expired now s))
          (\<lambda>x. if en_family x = en_family (os_heap s e) then x\<lparr>en_revoked := True\<rparr> else x) (os_heap s)\<rparr>,
       [RevokeDone (Inr handles)]) \<and>
    set handles = {h. \<exists>x \<in> members (cleanup_expired now s) (en_family (os_heap s e)). en_providerHandle (os_heap s x) = Some h}"
proof -
  have h: "os_heap (cleanup_expired now s) = os_heap s" by (simp add: cleanup_expired_def)
  show ?thesis using assms by (simp add: revoke_def Let_def set_list_set map_filter_set members_def h)
qed

text \<open>Claim C3: revocation ends the whole family for good. Revoking any generation a store still holds, the
  current one or a replayed older one, answers with the provider handles of all generations of its family,
  and from then on, whatever calls follow or were still waiting and whatever the clock says, no generation of
  the family is live, no read of one answers with a session, and no new generation joins it.\<close>

theorem revocation_is_final:
  assumes reachable: "s = fst (run (sessions_step nt cap) createMemorySessionStore es)"
    and found: "map_get (os_records (cleanup_expired now s)) r = Some e" and family: "family = en_family (os_heap s e)"
    and step: "sessions_step nt cap s (Revoke r False now) = (s1, out)"
  shows "(\<exists>handles. out = [RevokeDone (Inr handles)] \<and>
      set handles = {h. \<exists>x \<in> members (cleanup_expired now s) family. en_providerHandle (os_heap s x) = Some h}) \<and>
    (\<forall>fs. let s2 = fst (run (sessions_step nt cap) s1 fs) in
       \<forall>x \<in> members (cleanup_expired now s) family.
         (\<forall>t. \<not> is_live t (os_heap s2 x)) \<and>
         (\<forall>call answer aborted t session. os_pending s2 call = Some (Reading x) \<longrightarrow>
            snd (sessions_step nt cap s2 (SchemaAnswered call answer aborted t)) \<noteq> [ReadDone call (Inr (Some session))]) \<and>
         (x \<in> snd ` set (os_records s2) \<longrightarrow> (\<forall>y \<in> members s2 family. \<forall>t. \<not> is_live t (os_heap s2 y))))"
proof -
  obtain handles where h: "s1 = (cleanup_expired now s)\<lparr>os_heap := on_records (os_records (cleanup_expired now s))
        (\<lambda>x. if en_family x = family then x\<lparr>en_revoked := True\<rparr> else x) (os_heap s)\<rparr>" "out = [RevokeDone (Inr handles)]"
      "set handles = {h. \<exists>x \<in> members (cleanup_expired now s) family. en_providerHandle (os_heap s x) = Some h}"
    using revoke_known [OF found] step family by auto
  have inv: "sessions_inv cap s1" using step_inv [OF sessions_reachable [of cap nt es], of nt "Revoke r False now"] step reachable by simp
  have heap: "os_heap (cleanup_expired now s) = os_heap s" by (simp add: cleanup_expired_def)
  have rev: "en_revoked (os_heap s1 x) \<and> en_family (os_heap s1 x) = family \<and> x < os_next s1"
    if "x \<in> members (cleanup_expired now s) family" for x
  proof -
    have x: "x \<in> snd ` set (os_records s1)" using that by (simp add: members_def h)
    have "records_inv (os_heap s1) (os_next s1) (os_records s1)" using inv by (simp add: sessions_inv_def)
    from records_invD(3) [OF this x] show ?thesis using that by (simp add: members_def h on_records_def heap)
  qed
  have "(\<forall>t. \<not> is_live t (os_heap s2 x)) \<and>
         (\<forall>call answer aborted t session. os_pending s2 call = Some (Reading x) \<longrightarrow>
            snd (sessions_step nt cap s2 (SchemaAnswered call answer aborted t)) \<noteq> [ReadDone call (Inr (Some session))]) \<and>
         (x \<in> snd ` set (os_records s2) \<longrightarrow> (\<forall>y \<in> members s2 family. \<forall>t. \<not> is_live t (os_heap s2 y)))"
    if x: "x \<in> members (cleanup_expired now s) family" and s2: "s2 = fst (run (sessions_step nt cap) s1 fs)" for x fs s2
  proof -
    note lt = later_run [of s1 nt cap fs, folded s2]
    have dead: "\<not> is_live t (os_heap s2 x)" for t using not_live_later [OF lt] rev [OF x] by blast
    have "records_inv (os_heap s2) (os_next s2) (os_records s2)"
      using session_store.run_inv [OF inv, of nt fs] s2 by (simp add: sessions_inv_def)
    note agree = records_invD(6) [OF this]
    have x2: "en_revoked (os_heap s2 x)" "en_family (os_heap s2 x) = family" using lt rev [OF x] by (auto simp: later_def)
    have "\<not> is_live t (os_heap s2 y)" if "x \<in> snd ` set (os_records s2)" "y \<in> members s2 family" for y t
      using agree [of y x] that x2 by (simp add: members_def is_live_def)
    moreover have "snd (sessions_step nt cap s2 (SchemaAnswered call answer aborted t)) \<noteq> [ReadDone call (Inr (Some session))]"
      if "os_pending s2 call = Some (Reading x)" for call answer aborted t session
      using that dead by (auto simp: schema_settled_def read_end_def Let_def split: option.split)
    ultimately show ?thesis using dead by blast
  qed
  then show ?thesis using h by (auto simp: Let_def)
qed

text \<open>After any calls a store holds at most one live generation of a family, and never more
  generations and login transactions than its capacities.\<close>

theorem one_live_generation:
  "let s = fst (run (sessions_step nt cap) createMemorySessionStore es) in
   (\<forall>family t t'. \<forall>e \<in> members s family. \<forall>e' \<in> members s family.
      is_live t (os_heap s e) \<and> is_live t' (os_heap s e') \<longrightarrow> e = e') \<and>
   length (os_records s) \<le> cap_sessions cap \<and> length (os_transactions s) \<le> cap_logins cap"
proof -
  define s where "s = fst (run (sessions_step nt cap) createMemorySessionStore es)"
  have inv: "sessions_inv cap s" unfolding s_def by (rule sessions_reachable)
  then have "records_inv (os_heap s) (os_next s) (os_records s)" by (simp add: sessions_inv_def)
  note agree = records_invD(6) [OF this]
  have "e = e'" if "e \<in> members s family" "e' \<in> members s family" "is_live t (os_heap s e)" "is_live t' (os_heap s e')" for family t t' e e'
    using agree [of e e'] that by (simp add: members_def is_live_def)
  then have "\<forall>family t t'. \<forall>e \<in> members s family. \<forall>e' \<in> members s family.
      is_live t (os_heap s e) \<and> is_live t' (os_heap s e') \<longrightarrow> e = e'" by blast
  then show ?thesis using inv by (simp add: s_def [symmetric] Let_def sessions_inv_def)
qed

lemma create_end_done:
  assumes "create_end nt cap answer aborted now record (Some p) s = (s1, Inr ())"
  shows "\<exists>e owned serialized retainUntil. map_get (os_records (cleanup_expired now s)) p = Some e \<and> is_live now (os_heap s e) \<and>
    schema_checked nt record answer = Inr owned \<and> ss_expiresAt owned = en_expiresAt (os_heap s e) \<and>
    s1 = write_generation serialized owned (Some e) (en_family (os_heap s e)) retainUntil (cleanup_expired now s)"
proof -
  have h: "os_heap (cleanup_expired now s) = os_heap s" by (simp add: cleanup_expired_def)
  obtain owned serialized where o': "schema_checked nt record answer = Inr owned"
      "encodeSessionRecord nt (session_object owned) = Inr serialized" "\<not> aborted"
    using assms by (auto simp: create_end_def split: sum.splits if_splits)
  then obtain family retainUntil where adm: "admitSession (ss_reference owned) (ss_expiresAt owned) (Some p)
        (map_option (\<lambda>e. (en_family (os_heap s e), en_expiresAt (os_heap s e))) (live_entry now (Some p) (cleanup_expired now s))) now =
          Inr (family, retainUntil)"
      "s1 = write_generation serialized owned (live_entry now (Some p) (cleanup_expired now s)) family retainUntil (cleanup_expired now s)"
    using assms by (auto simp: create_end_def Let_def h split: sum.splits if_splits)
  then obtain e where e: "live_entry now (Some p) (cleanup_expired now s) = Some e" by (auto simp: admitSession_Inr)
  then have "map_get (os_records (cleanup_expired now s)) p = Some e" "is_live now (os_heap s e)"
    by (auto simp: live_entry_def h split: option.splits if_splits)
  then show ?thesis using o' adm e by (auto simp: admitSession_Inr)
qed

text \<open>Claim C23: a rotation replaces the generation it rotates from. When \<open>create\<close> with a previous reference
  succeeds, that reference was is_live, the new generation has its family and its absolute expiry, and the
  replaced one is never is_live again, so of two logins that rotate from the same generation one fails.\<close>

theorem rotation_replaces:
  assumes reachable: "s = fst (run (sessions_step nt cap) createMemorySessionStore es)"
    and pending: "os_pending s call = Some (Creating record (Some p))"
    and step: "sessions_step nt cap s (SchemaAnswered call answer aborted now) = (s1, [CreateDone call (Inr ())])"
  shows "\<exists>e. map_get (os_records s) p = Some e \<and> is_live now (os_heap s e) \<and>
    (let new = os_heap s1 (os_next s) in
       is_live now new \<and> en_family new = en_family (os_heap s e) \<and> en_expiresAt new = en_expiresAt (os_heap s e)) \<and>
    map_get (os_records s1) (ss_reference record) = Some (os_next s) \<and>
    (\<forall>fs t. \<not> is_live t (os_heap (fst (run (sessions_step nt cap) s1 fs)) e))"
proof -
  let ?s = "s\<lparr>os_pending := (os_pending s)(call := None)\<rparr>"
  have inv: "sessions_inv cap s" unfolding reachable by (rule sessions_reachable)
  have "create_end nt cap answer aborted now record (Some p) ?s = (s1, Inr ())"
    using step pending by (simp add: schema_settled_def split: prod.splits)
  from create_end_done [OF this] obtain e owned serialized retainUntil where
    e: "map_get (os_records (cleanup_expired now ?s)) p = Some e" "is_live now (os_heap s e)"
      "schema_checked nt record answer = Inr owned" "ss_expiresAt owned = en_expiresAt (os_heap s e)"
      "s1 = write_generation serialized owned (Some e) (en_family (os_heap s e)) retainUntil (cleanup_expired now ?s)" by auto
  have wf: "wf_map (os_records s)" using inv by (simp add: sessions_inv_def records_inv_def)
  have in_s: "(p, e) \<in> set (os_records s)" using map_get_in [OF e(1)] by (simp add: cleanup_expired_def)
  then have get: "map_get (os_records s) p = Some e" using wf by simp
  have lt: "e < os_next s" using pending_in_store [OF inv get] .
  have ref: "ss_reference owned = ss_reference record"
    using e(3) by (auto simp: schema_checked_def split: schema_answer.splits if_splits)
  have new: "is_live now (os_heap s1 (os_next s))" "en_family (os_heap s1 (os_next s)) = en_family (os_heap s e)"
    "en_expiresAt (os_heap s1 (os_next s)) = en_expiresAt (os_heap s e)"
    "map_get (os_records s1) (ss_reference record) = Some (os_next s)"
    using e(2,4) by (simp_all add: e(5) write_generation_def Let_def cleanup_expired_def is_live_def ref)
  have "\<not> en_active (os_heap s1 e)" "os_next s1 = os_next s + 1"
    using lt by (auto simp: e(5) write_generation_def Let_def cleanup_expired_def on_records_def retain_family_def deactivate_def)
  then have "\<not> is_live t (os_heap (fst (run (sessions_step nt cap) s1 fs)) e)" for fs t
    using not_live_later [OF later_run [of s1 nt cap fs]] lt by simp
  then show ?thesis using get e(2) new by (auto simp: Let_def)
qed

text \<open>A transaction in the store was put there by its \<open>createLogin\<close>.\<close>

fun logs_in :: "(jsnum \<Rightarrow> string) \<Rightarrow> string \<Rightarrow> sessions_input \<Rightarrow> bool" where
  "logs_in nt r (CreateLogin v aborted now) =
     (case decodeLoginRecord nt (JsonText v) of Inl e \<Rightarrow> False | Inr l \<Rightarrow> sl_reference l = r)"
| "logs_in nt r _ = False"

lemma no_transaction_step:
  assumes "\<not> map_has (os_transactions s) r" "\<not> logs_in nt r i"
  shows "\<not> map_has (os_transactions (fst (sessions_step nt cap s i))) r"
proof -
  have cl: "\<not> map_has (os_transactions (cleanup_expired now (s\<lparr>os_pending := f\<rparr>))) r" "\<not> map_has (os_transactions (cleanup_expired now s)) r" for now f
    using assms(1) by (auto simp: map_has_iff cleanup_expired_def)
  show ?thesis
  proof (cases i)
    case (SchemaAnswered call answer aborted now)
    have "os_transactions (write_generation a b c d e s') = os_transactions s'" for a b c d e s'
      by (simp add: write_generation_def Let_def)
    then have ended: "os_transactions (fst (create_end nt cap answer aborted now rec p s')) \<in> {os_transactions s', os_transactions (cleanup_expired now s')}" for rec p s'
      by (auto simp: create_end_def Let_def split: sum.splits)
    let ?s = "s\<lparr>os_pending := (os_pending s)(call := None)\<rparr>"
    have ended: "\<not> map_has (os_transactions (fst (create_end nt cap answer aborted now rec p ?s))) r" for rec p
      using ended [of rec p ?s] assms(1) cl(1) [of now "(os_pending s)(call := None)"] by auto
    show ?thesis
    proof (cases "os_pending s call")
      case (Some q)
      then show ?thesis using assms(1) ended
        by (cases q) (auto simp: SchemaAnswered schema_settled_def read_end_def Let_def split_beta)
    qed (simp add: SchemaAnswered schema_settled_def assms(1))
  next
    case (CreateLogin v aborted now)
    then show ?thesis using assms cl(2)
      by (auto simp: create_login_def encodeSessionRecord_def Let_def split: sum.splits if_splits)
  qed (use assms cl in \<open>auto simp: read_begin_def create_begin_def revoke_def consume_login_def Let_def
      answered_def await_schema_def split: option.splits sum.splits\<close>)
qed

lemma no_transaction_run:
  "\<not> map_has (os_transactions s) r \<Longrightarrow> \<forall>i \<in> set fs. \<not> logs_in nt r i \<Longrightarrow>
   \<not> map_has (os_transactions (fst (run (sessions_step nt cap) s fs))) r"
  by (induction fs arbitrary: s) (simp_all add: run_Cons no_transaction_step del: run.simps(2))

text \<open>A login transaction is consumed once. What \<open>consumeLogin\<close> answers is the unexpired transaction
  of that reference or nothing, and until the reference is used for another \<open>createLogin\<close> every later
  \<open>consumeLogin\<close> answers nothing.\<close>

theorem login_consumed_once:
  assumes reachable: "s = fst (run (sessions_step nt cap) createMemorySessionStore es)"
    and step: "sessions_step nt cap s (ConsumeLogin r False now) = (s1, out)"
    and quiet: "\<forall>i \<in> set fs. \<not> logs_in nt r i"
  shows "(\<exists>found. out = [LoginConsumed (Inr found)] \<and>
      (\<forall>l. found = Some l \<longrightarrow> sl_reference l = r \<and> now < sl_expiresAt l)) \<and>
    snd (sessions_step nt cap (fst (run (sessions_step nt cap) s1 fs)) (ConsumeLogin r False t)) = [LoginConsumed (Inr None)]"
proof -
  have inv: "sessions_inv cap s" unfolding reachable by (rule sessions_reachable)
  have "\<not> map_has (os_transactions s1) r" using step by (auto simp: consume_login_def Let_def)
  from no_transaction_run [OF this quiet, of cap]
  have "map_get (os_transactions (cleanup_expired t (fst (run (sessions_step nt cap) s1 fs)))) r = None"
    by (auto simp: map_has_iff cleanup_expired_def map_of_eq_None_iff)
  moreover have "sl_reference l = r \<and> now < sl_expiresAt l" if "map_get (os_transactions (cleanup_expired now s)) r = Some l" for l
    using map_get_in [OF that] inv by (auto simp: cleanup_expired_def sessions_inv_def)
  ultimately show ?thesis using step by (auto simp: consume_login_def Let_def)
qed

section \<open>References that read nothing\<close>

text \<open>A reference that names no generation or a revoked one, and is not about to name another.\<close>

definition dead_reference :: "string \<Rightarrow> opaque_store \<Rightarrow> bool" where
  "dead_reference r s \<longleftrightarrow>
     (\<forall>e. map_get (os_records s) r = Some e \<longrightarrow> e < os_next s \<and> en_revoked (os_heap s e)) \<and>
     (\<forall>call record previous. os_pending s call = Some (Creating record previous) \<longrightarrow> ss_reference record \<noteq> r)"

fun creates :: "(jsnum \<Rightarrow> string) \<Rightarrow> string \<Rightarrow> sessions_input \<Rightarrow> bool" where
  "creates nt r (Create v previous aborted) =
     (case decodeSessionMetadata nt (JsonText v) of Inl e \<Rightarrow> False | Inr record \<Rightarrow> ss_reference record = r)"
| "creates nt r _ = False"

lemma dead_later:
  assumes dead: "dead_reference r s" and lt: "later s s'"
    and rec: "\<And>e. map_get (os_records s') r = Some e \<Longrightarrow> map_get (os_records s) r = Some e"
    and pend: "\<And>call record previous. os_pending s' call = Some (Creating record previous) \<Longrightarrow> ss_reference record \<noteq> r"
  shows "dead_reference r s'"
  unfolding dead_reference_def
proof (intro conjI allI impI)
  fix e assume "map_get (os_records s') r = Some e"
  from rec [OF this] dead have "e < os_next s" "en_revoked (os_heap s e)" by (simp_all add: dead_reference_def)
  with lt show "e < os_next s'" "en_revoked (os_heap s' e)" by (simp_all add: later_def)
qed (rule pend)

lemma cleanup_keeps: "wf_map (os_records s) \<Longrightarrow> map_get (os_records (cleanup_expired now s)) r = Some e \<Longrightarrow>
    map_get (os_records s) r = Some e"
  by (auto simp: cleanup_expired_def dest!: map_of_SomeD intro: map_of_is_SomeI)

lemma decoded_reference: "schema_checked nt record answer = Inr owned \<Longrightarrow> ss_reference owned = ss_reference record"
  by (auto simp: schema_checked_def split: schema_answer.splits if_splits)

lemma create_keeps:
  assumes wf: "wf_map (os_records s)" and r: "ss_reference record \<noteq> r"
    and get: "map_get (os_records (fst (create_end nt cap answer aborted now record previous s))) r = Some e"
  shows "map_get (os_records s) r = Some e"
proof (cases "schema_checked nt record answer")
  case (Inr owned)
  have "ss_reference owned \<noteq> r" using decoded_reference [OF Inr] r by simp
  then show ?thesis using get cleanup_keeps [OF wf, of now r e]
    by (auto simp: create_end_def Inr Let_def write_generation_def split: sum.splits if_splits)
qed (use get in \<open>simp add: create_end_def\<close>)

lemma create_pending: "os_pending (fst (create_end nt cap answer aborted now record previous s)) = os_pending s"
  by (auto simp: create_end_def Let_def write_generation_def cleanup_expired_def split: sum.splits)

lemma dead_step:
  assumes dead: "dead_reference r s" and inv: "sessions_inv cap s" and i: "\<not> creates nt r i"
  shows "dead_reference r (fst (sessions_step nt cap s i))"
proof (rule dead_later [OF dead later_step])
  have wf: "wf_map (os_records s)" using inv by (simp add: sessions_inv_def records_inv_def)
  note keeps = cleanup_keeps [OF wf]
  have pend: "ss_reference rec \<noteq> r" if "os_pending s call = Some (Creating rec previous)" for call rec previous
    using dead that unfolding dead_reference_def by blast
  have cl: "os_pending (cleanup_expired now s) = os_pending s" for now by (simp add: cleanup_expired_def)
  show "map_get (os_records s) r = Some e" if g: "map_get (os_records (fst (sessions_step nt cap s i))) r = Some e" for e
  proof (cases i)
    case (SchemaAnswered call answer aborted now)
    let ?s = "s\<lparr>os_pending := (os_pending s)(call := None)\<rparr>"
    show ?thesis using g pend [of call] create_keeps [of ?s _ r nt cap answer aborted now _ e] wf
      by (auto simp: SchemaAnswered schema_settled_def read_end_def Let_def split_beta split: option.splits pending_call.splits)
  qed (use g keeps [of _ r e] in \<open>auto simp: read_begin_def create_begin_def revoke_def create_login_def consume_login_def Let_def
      answered_def await_schema_def split: option.splits sum.splits if_splits\<close>)
  show "ss_reference rec \<noteq> r" if g: "os_pending (fst (sessions_step nt cap s i)) call = Some (Creating rec previous)"
    for call rec previous
  proof (cases i)
    case (SchemaAnswered call' answer aborted now)
    show ?thesis using g pend [of call rec previous]
      by (auto simp: SchemaAnswered schema_settled_def read_end_def create_pending Let_def split_beta split: option.splits pending_call.splits if_splits)
  next
    case (Create v previous' aborted)
    show ?thesis using g pend [of call rec previous] i
      by (auto simp: Create create_begin_def answered_def await_schema_def encodeSessionRecord_def split: sum.splits if_splits)
  qed (use g pend [of call rec previous] in \<open>auto simp: read_begin_def revoke_def create_login_def consume_login_def Let_def cl
      answered_def await_schema_def split: option.splits sum.splits if_splits\<close>)
qed

lemma dead_run:
  assumes "dead_reference r s" "sessions_inv cap s" "list_all (\<lambda>i. \<not> creates nt r i) ins"
  shows "dead_reference r (fst (run (sessions_step nt cap) s ins)) \<and> sessions_inv cap (fst (run (sessions_step nt cap) s ins))"
  using assms
proof (induction ins arbitrary: s)
  case (Cons i ins)
  then show ?case using Cons.IH [of "fst (sessions_step nt cap s i)"] dead_step [of r s cap nt i] step_inv [of cap s nt i]
    by (simp add: run_Cons del: run.simps(2))
qed simp

lemma dead_read:
  assumes "dead_reference r s" "sessions_inv cap s"
  shows "\<exists>c. snd (sessions_step nt cap s (Read r aborted now)) = [ReadDone c (Inr None)] \<or>
    (\<exists>err. snd (sessions_step nt cap s (Read r aborted now)) = [ReadDone c (Inl err)])"
proof -
  have wf: "wf_map (os_records s)" using assms(2) by (simp add: sessions_inv_def records_inv_def)
  have "\<not> is_live now (os_heap s e)" if "map_get (os_records (cleanup_expired now s)) r = Some e" for e
    using cleanup_keeps [OF wf that] assms(1) by (auto simp: dead_reference_def is_live_def)
  moreover have "os_heap (cleanup_expired now s) = os_heap s" by (simp add: cleanup_expired_def)
  ultimately show ?thesis by (auto simp: read_begin_def Let_def split: option.split)
qed

lemma revoke_dead:
  assumes inv: "sessions_inv cap s" and found: "map_get (os_records (cleanup_expired now s)) presented = Some e"
    and member: "map_get (os_records (cleanup_expired now s)) r = Some x" "en_family (os_heap s x) = en_family (os_heap s e)"
    and unused: "\<forall>call rec previous. os_pending s call = Some (Creating rec previous) \<longrightarrow> ss_reference rec \<noteq> r"
  shows "dead_reference r (fst (sessions_step nt cap s (Revoke presented False now)))"
proof -
  let ?c = "cleanup_expired now s"
  have heap: "os_heap ?c = os_heap s" "os_next ?c = os_next s" "os_pending ?c = os_pending s" by (simp_all add: cleanup_expired_def)
  have "records_inv (os_heap ?c) (os_next ?c) (os_records ?c)" using cleanup_inv [OF inv, of now] by (simp only: sessions_inv_def)
  note fresh = records_invD(3) [OF this, of x]
  have x: "x \<in> snd ` set (os_records ?c)" using map_get_in [OF member(1)] by (metis imageI snd_conv)
  obtain handles where "revoke presented False now s = (?c\<lparr>os_heap := on_records (os_records ?c)
          (\<lambda>x. if en_family x = en_family (os_heap s e) then x\<lparr>en_revoked := True\<rparr> else x) (os_heap s)\<rparr>, [RevokeDone (Inr handles)])"
    using revoke_known [OF found] by blast
  then show ?thesis using fresh [OF x] x member unused by (simp add: dead_reference_def on_records_def heap)
qed

section \<open>Reads that a revocation overtakes\<close>

text \<open>Every call has a number of its own, and is answered under it.\<close>

definition numbered :: "opaque_store \<Rightarrow> bool" where
  "numbered s = (\<forall>call. os_pending s call \<noteq> None \<longrightarrow> call < os_calls s)"

lemma create_calls: "os_calls (fst (create_end nt cap answer aborted now record previous s)) = os_calls s"
  by (auto simp: create_end_def Let_def write_generation_def cleanup_expired_def split: sum.splits)

lemma calls_step: "os_calls s \<le> os_calls (fst (sessions_step nt cap s i))"
  by (cases i) (auto simp: read_begin_def create_begin_def schema_settled_def read_end_def revoke_def create_login_def
      consume_login_def answered_def await_schema_def cleanup_expired_def create_calls Let_def split_beta
      split: option.splits sum.splits pending_call.splits)

lemma pending_step:
  assumes "call < os_calls s"
  shows "os_pending (fst (sessions_step nt cap s i)) call = os_pending s call \<or> os_pending (fst (sessions_step nt cap s i)) call = None"
proof (cases i)
  case (SchemaAnswered call' answer aborted now)
  then show ?thesis by (auto simp: schema_settled_def read_end_def create_pending Let_def split_beta
      split: option.splits pending_call.splits)
qed (use assms in \<open>auto simp: read_begin_def create_begin_def revoke_def create_login_def consume_login_def answered_def
      await_schema_def cleanup_expired_def Let_def split: option.splits sum.splits\<close>)

lemma numbered_step: "numbered s \<Longrightarrow> numbered (fst (sessions_step nt cap s i))"
proof (cases i)
  case (SchemaAnswered call' answer aborted now)
  then show "numbered s \<Longrightarrow> ?thesis" by (auto simp: numbered_def schema_settled_def read_end_def create_pending create_calls Let_def
      split_beta split: option.splits pending_call.splits)
qed (auto simp: numbered_def read_begin_def create_begin_def revoke_def create_login_def consume_login_def answered_def
      await_schema_def cleanup_expired_def Let_def less_Suc_eq split: option.splits sum.splits if_splits)

lemma numbered_created: "numbered createMemorySessionStore"
  by (simp add: numbered_def createMemorySessionStore_def)

interpretation numbered_store: kept_invariant "sessions_step nt cap" numbered for nt cap
  by unfold_locales (rule numbered_step)

lemma answer_number:
  assumes "numbered s" "ReadDone call a \<in> set (snd (sessions_step nt cap s i))"
  shows "call < os_calls (fst (sessions_step nt cap s i))"
proof (cases i)
  case (SchemaAnswered call' answer aborted now)
  then show ?thesis using assms by (auto simp: numbered_def schema_settled_def read_end_def Let_def split_beta
      split: option.splits pending_call.splits)
qed (use assms in \<open>auto simp: read_begin_def create_begin_def revoke_def create_login_def consume_login_def answered_def
      await_schema_def cleanup_expired_def Let_def split: option.splits sum.splits if_splits\<close>)

lemma answer_number_run:
  "numbered s \<Longrightarrow> ReadDone call a \<in> set (snd (run (sessions_step nt cap) s ins)) \<Longrightarrow>
   call < os_calls (fst (run (sessions_step nt cap) s ins))"
proof (induction ins arbitrary: s)
  case (Cons i ins)
  let ?s = "fst (sessions_step nt cap s i)"
  have mono: "os_calls t \<le> os_calls (fst (run (sessions_step nt cap) t js))" for t js
  proof (induction js arbitrary: t)
    case (Cons j js)
    then show ?case using order_trans [OF calls_step Cons.IH] by (simp add: run_Cons del: run.simps(2))
  qed simp
  from Cons.prems(2) consider "ReadDone call a \<in> set (snd (sessions_step nt cap s i))"
    | "ReadDone call a \<in> set (snd (run (sessions_step nt cap) ?s ins))"
    by (auto simp: run_Cons simp del: run.simps(2) sessions_step.simps)
  then show ?case
  proof cases
    case 1
    then show ?thesis using less_le_trans [OF answer_number [OF Cons.prems(1) 1] mono]
      by (simp add: run_Cons del: run.simps(2) sessions_step.simps)
  next
    case 2
    then show ?thesis using Cons.IH [OF numbered_step [OF Cons.prems(1)] 2]
      by (simp add: run_Cons del: run.simps(2) sessions_step.simps)
  qed
qed simp

text \<open>A call that can no longer answer with a session: answered, or in flight with a revoked generation.\<close>

definition refused :: "nat \<Rightarrow> opaque_store \<Rightarrow> bool" where
  "refused call s = (call < os_calls s \<and>
     (case os_pending s call of
        None \<Rightarrow> True
      | Some (Reading e) \<Rightarrow> e < os_next s \<and> en_revoked (os_heap s e)
      | Some (Creating record previous) \<Rightarrow> False))"

lemma refused_step:
  assumes "refused call s"
  shows "refused call (fst (sessions_step nt cap s i))"
    "ReadDone call (Inr found) \<in> set (snd (sessions_step nt cap s i)) \<Longrightarrow> found = None"
proof -
  have c: "call < os_calls s" using assms by (simp add: refused_def)
  show "refused call (fst (sessions_step nt cap s i))"
    using pending_step [OF c, of nt cap i] calls_step [of s nt cap i] later_step [of s nt cap i] assms
    by (auto simp: refused_def later_def simp del: sessions_step.simps split: option.splits pending_call.splits)
  show "found = None" if out: "ReadDone call (Inr found) \<in> set (snd (sessions_step nt cap s i))"
  proof (cases i)
    case (SchemaAnswered call' answer aborted now)
    then show ?thesis using out assms
      by (auto simp: refused_def schema_settled_def read_end_def is_live_def Let_def split_beta
          split: option.splits pending_call.splits if_splits)
  qed (use out c in \<open>auto simp: read_begin_def create_begin_def revoke_def create_login_def consume_login_def
      cleanup_expired_def Let_def split: option.splits sum.splits if_splits\<close>)
qed

lemma refused_run:
  "refused call s \<Longrightarrow> ReadDone call (Inr found) \<in> set (snd (run (sessions_step nt cap) s ins)) \<Longrightarrow> found = None"
proof (induction ins arbitrary: s)
  case (Cons i ins)
  then show ?case using refused_step [OF Cons.prems(1), where nt = nt and cap = cap and i = i] Cons.IH [of "fst (sessions_step nt cap s i)"]
    by (auto simp: run_Cons simp del: run.simps(2) sessions_step.simps)
qed simp

text \<open>The calls that read a reference: begun at some point, or already in flight with the generation it names.\<close>

definition reads_reference :: "(jsnum \<Rightarrow> string) \<Rightarrow> store_capacity \<Rightarrow> opaque_store \<Rightarrow> string \<Rightarrow> sessions_input list \<Rightarrow> nat \<Rightarrow> bool" where
  "reads_reference nt cap s r ins call \<longleftrightarrow>
     (\<exists>before aborted now after. ins = before @ Read r aborted now # after \<and>
        call = os_calls (fst (run (sessions_step nt cap) s before))) \<or>
     (\<exists>e. map_get (os_records s) r = Some e \<and> os_pending s call = Some (Reading e))"

lemma dead_reads:
  assumes dead: "dead_reference r s" and inv: "sessions_inv cap s" and num: "numbered s"
    and quiet: "list_all (\<lambda>i. \<not> creates nt r i) ins" and reads: "reads_reference nt cap s r ins call"
    and answer: "ReadDone call (Inr found) \<in> set (snd (run (sessions_step nt cap) s ins))"
  shows "found = None"
  using reads unfolding reads_reference_def
proof (elim disjE exE conjE)
  fix e assume e: "map_get (os_records s) r = Some e" "os_pending s call = Some (Reading e)"
  then have "refused call s" using dead num by (auto simp: refused_def dead_reference_def numbered_def)
  then show ?thesis using refused_run answer by blast
next
  fix before aborted now after
  assume ins: "ins = before @ Read r aborted now # after" and call: "call = os_calls (fst (run (sessions_step nt cap) s before))"
  let ?t = "fst (run (sessions_step nt cap) s before)" and ?read = "Read r aborted now"
  let ?u = "fst (sessions_step nt cap ?t ?read)"
  have "list_all (\<lambda>i. \<not> creates nt r i) before" using quiet ins by simp
  from dead_run [OF dead inv this] have t: "dead_reference r ?t" "sessions_inv cap ?t" by blast+
  have numt: "numbered ?t" by (rule numbered_store.run_inv [OF num])
  have early: "ReadDone call a \<notin> set (snd (run (sessions_step nt cap) s before))" for a
    using answer_number_run [OF num, of call a nt cap before] call by auto
  have now: "ReadDone call (Inr found) \<in> set (snd (sessions_step nt cap ?t ?read)) \<Longrightarrow> found = None"
    using dead_read [OF t, of nt aborted now] by (auto simp del: sessions_step.simps)
  have "os_pending ?t call = None" using numt call by (auto simp: numbered_def)
  moreover have "\<not> is_live now (os_heap ?t e)" if "map_get (os_records (cleanup_expired now ?t)) r = Some e" for e
    using cleanup_keeps [of ?t now r e] that t by (auto simp: dead_reference_def is_live_def sessions_inv_def records_inv_def)
  ultimately have "refused call ?u"
    using call by (auto simp: refused_def read_begin_def answered_def cleanup_expired_def Let_def split: option.splits)
  from refused_run [OF this, where found = found and nt = nt and cap = cap and ins = after]
  have late: "ReadDone call (Inr found) \<in> set (snd (run (sessions_step nt cap) ?u after)) \<Longrightarrow> found = None" .
  show ?thesis using answer early now late unfolding ins
    by (auto simp: run_append run_Cons split_beta simp del: run.simps(2) sessions_step.simps)
qed

section \<open>A run\<close>

definition sample_cap :: store_capacity where "sample_cap = \<lparr>cap_sessions = 4, cap_logins = 4\<rparr>"

definition sample_session :: "string \<Rightarrow> stored_session" where
  "sample_session r = \<lparr>ss_reference = r, ss_value = JNull, ss_expiresAt = 1000, ss_providerHandle = Some ''h''\<rparr>"

lemma zero_ascii: "ascii_numbers json_zero"
  by (simp add: ascii_numbers_def json_zero_def unit_of_def)

lemmas sample_records = sample_session_def session_object_def encodeSessionRecord_def record_accepted [OF zero_ascii]
  decodeSessionMetadata_def decodeRecord_def json_string_def json_char_def unit_of_def isAbsentOr_def optional_string_def
  is_safe_integer_def max_safe_integer_def js_finite_def json_zero_def

definition first_inputs :: "sessions_input list" where
  "first_inputs = [Create (session_object (sample_session ''a'')) None False, SchemaAnswered 0 (Validated JNull) False 0]"

lemma sample_encoded: "c = CHR ''a'' \<or> c = CHR ''b'' \<Longrightarrow>
    encodeSessionRecord json_zero (session_object (sample_session [c])) = Inr (JsonText (session_object (sample_session [c])))"
  by (elim disjE) (simp_all add: sample_records)

lemma sample_decoded: "c = CHR ''a'' \<or> c = CHR ''b'' \<Longrightarrow>
    decodeSessionMetadata json_zero (JsonText (session_object (sample_session [c]))) = Inr (sample_session [c])"
  by (elim disjE) (simp_all add: sample_records)

lemma sample_checked: "schema_checked json_zero (sample_session r) (Validated JNull) = Inr (sample_session r)"
  by (simp add: schema_checked_def sample_session_def record_accepted [OF zero_ascii])

lemmas sample_steps = create_begin_def schema_settled_def create_end_def await_schema_def answered_def cleanup_expired_def
  live_entry_def is_live_def write_generation_def on_records_def retain_family_def deactivate_def Let_def sample_encoded sample_decoded
  sample_checked admitSession_def MAX_SESSION_LIFETIME_MS_def REVOCATION_RETENTION_MS_def map_has_def
  createMemorySessionStore_def sample_cap_def

definition first_entry :: entry where
  "first_entry = \<lparr>en_serialized = JsonText (session_object (sample_session ''a'')), en_expiresAt = 1000,
     en_providerHandle = Some ''h'', en_family = ''a'', en_active = True, en_revoked = False, en_retainUntil = 601000\<rparr>"

definition first_store :: opaque_store where
  "first_store = \<lparr>os_heap = (\<lambda>_. no_entry)(0 := first_entry), os_next = 1, os_records = [(''a'', 0)], os_transactions = [],
     os_pending = (\<lambda>_. None), os_calls = 1\<rparr>"

lemma sample_fields: "ss_reference (sample_session r) = r" "ss_expiresAt (sample_session r) = 1000"
  "ss_providerHandle (sample_session r) = Some ''h''"
  by (simp_all add: sample_session_def)

lemma first_run: "fst (run (sessions_step json_zero sample_cap) createMemorySessionStore first_inputs) = first_store"
  by (simp add: first_inputs_def first_store_def first_entry_def sample_steps sample_fields fun_eq_iff)

theorem revocation_is_final_witness:
  "let s = fst (run (sessions_step json_zero sample_cap) createMemorySessionStore first_inputs);
       (s1, out) = sessions_step json_zero sample_cap s (Revoke ''a'' False 1)
   in map_get (os_records s) ''a'' = Some 0 \<and> is_live 1 (os_heap s 0) \<and> out = [RevokeDone (Inr [''h''])] \<and>
      (\<forall>fs t. \<not> is_live t (os_heap (fst (run (sessions_step json_zero sample_cap) s1 fs)) 0))"
proof -
  obtain s1 out where st: "sessions_step json_zero sample_cap first_store (Revoke ''a'' False 1) = (s1, out)" by (meson surj_pair)
  have found: "map_get (os_records (cleanup_expired 1 first_store)) ''a'' = Some 0"
    by (simp add: cleanup_expired_def first_store_def first_entry_def)
  have out: "out = [RevokeDone (Inr [''h''])]"
    using st by (auto simp: revoke_def first_store_def first_entry_def cleanup_expired_def Let_def List.map_filter_def set_list_def map_new_def)
  have "0 \<in> members (cleanup_expired 1 first_store) (en_family (os_heap first_store 0))"
    by (simp add: members_def cleanup_expired_def first_store_def first_entry_def)
  with revocation_is_final [OF first_run [symmetric] found refl st]
  have "\<forall>fs t. \<not> is_live t (os_heap (fst (run (sessions_step json_zero sample_cap) s1 fs)) 0)" by (simp add: Let_def)
  then show ?thesis using out unfolding first_run st Let_def by (simp add: first_store_def first_entry_def is_live_def)
qed

theorem one_live_generation_witness:
  "let s = fst (run (sessions_step json_zero sample_cap) createMemorySessionStore first_inputs) in
   0 \<in> members s ''a'' \<and> is_live 1 (os_heap s 0) \<and> (\<forall>t. \<forall>e \<in> members s ''a''. is_live t (os_heap s e) \<longrightarrow> e = 0)"
proof -
  have m: "0 \<in> members first_store ''a''" "is_live 1 (os_heap first_store 0)"
    by (simp_all add: members_def first_store_def first_entry_def is_live_def)
  have "e = 0" if "e \<in> members first_store ''a''" "is_live t (os_heap first_store e)" for t e
    using one_live_generation [of json_zero sample_cap first_inputs] m that unfolding first_run Let_def by blast
  with m show ?thesis unfolding first_run Let_def by blast
qed

definition rotation_inputs :: "sessions_input list" where
  "rotation_inputs = first_inputs @ [Create (session_object (sample_session ''b'')) (Some ''a'') False]"

definition rotating_store :: opaque_store where
  "rotating_store = first_store\<lparr>os_pending := [1 \<mapsto> Creating (sample_session ''b'') (Some ''a'')], os_calls := 2\<rparr>"

lemma rotation_run: "fst (run (sessions_step json_zero sample_cap) createMemorySessionStore rotation_inputs) = rotating_store"
  unfolding rotation_inputs_def fst_run_append first_run
  by (simp add: first_store_def rotating_store_def create_begin_def await_schema_def sample_encoded sample_decoded fun_eq_iff)

theorem rotation_replaces_witness:
  "let s = fst (run (sessions_step json_zero sample_cap) createMemorySessionStore rotation_inputs);
       (s1, out) = sessions_step json_zero sample_cap s (SchemaAnswered 1 (Validated JNull) False 1)
   in out = [CreateDone 1 (Inr ())] \<and> map_get (os_records s1) ''b'' = Some 1 \<and>
      (\<exists>e. map_get (os_records s) ''a'' = Some e \<and> is_live 1 (os_heap s e) \<and>
        (\<forall>fs t. \<not> is_live t (os_heap (fst (run (sessions_step json_zero sample_cap) s1 fs)) e)))"
proof -
  obtain s1 out where st: "sessions_step json_zero sample_cap rotating_store (SchemaAnswered 1 (Validated JNull) False 1) = (s1, out)"
    by (meson surj_pair)
  have out: "out = [CreateDone 1 (Inr ())]"
    using st by (auto simp: rotating_store_def first_store_def first_entry_def sample_steps sample_fields)
  have p: "os_pending rotating_store 1 = Some (Creating (sample_session ''b'') (Some ''a''))" by (simp add: rotating_store_def)
  have n: "os_next rotating_store = 1" by (simp add: rotating_store_def first_store_def)
  from rotation_replaces [OF rotation_run [symmetric] p st [unfolded out]] show ?thesis
    unfolding rotation_run st Let_def using out by (auto simp: n sample_fields)
qed

definition sample_login :: jsval where
  "sample_login = JObject True [(''reference'', JStr ''x''), (''transaction'', JStr ''t''), (''returnTo'', JStr ''/''), (''expiresAt'', JNum (Fin 1000))]"

theorem login_consumed_once_witness:
  "let s = fst (run (sessions_step json_zero sample_cap) createMemorySessionStore [CreateLogin sample_login False 0]);
       (s1, out) = sessions_step json_zero sample_cap s (ConsumeLogin ''x'' False 1)
   in (\<exists>l. out = [LoginConsumed (Inr (Some l))]) \<and>
      snd (sessions_step json_zero sample_cap s1 (ConsumeLogin ''x'' False 2)) = [LoginConsumed (Inr None)]"
proof -
  let ?s = "fst (run (sessions_step json_zero sample_cap) createMemorySessionStore [CreateLogin sample_login False 0])"
  obtain s1 out where st: "sessions_step json_zero sample_cap ?s (ConsumeLogin ''x'' False 1) = (s1, out)" by (meson surj_pair)
  have "\<exists>l. out = [LoginConsumed (Inr (Some l))]"
    using st by (auto simp: create_login_def consume_login_def cleanup_expired_def Let_def createMemorySessionStore_def sample_cap_def
        decodeLoginRecord_def admitLogin_def MAX_LOGIN_LIFETIME_MS_def sample_login_def sample_records map_has_def)
  then show ?thesis using login_consumed_once [OF refl st, of "[]" 2] unfolding st Let_def by simp
qed

end
