(* ===== verification/Base64url.thy ===== *)
theory Base64url imports "HOL-Library.Word" begin

text \<open>
  The codec of \<^verbatim>\<open>packages/std/src/encoding/base64url.ts\<close> on bytes, with the bitwise operators of the
  language on 32-bit integers.
\<close>

unbundle bit_operations_syntax

definition ALPHABET :: string where
  "ALPHABET = ''ABCDEFGHIJKLMNOPQRSTUVWXYZabcdefghijklmnopqrstuvwxyz0123456789-_''"

text \<open>Bytes as the 32-bit integers the bitwise operators of the language work on.\<close>

definition int32 :: "8 word \<Rightarrow> 32 word" where
  "int32 b = ucast b"

definition letter :: "32 word \<Rightarrow> char" where
  "letter w = ALPHABET ! unat w"

fun base64urlEncode :: "8 word list \<Rightarrow> string" where
  "base64urlEncode [] = []"
| "base64urlEncode [b0] =
     [letter (signed_drop_bit 2 (int32 b0)), letter (push_bit 4 (int32 b0 AND 0x03) OR 0)]"
| "base64urlEncode [b0, b1] =
     [letter (signed_drop_bit 2 (int32 b0)),
      letter (push_bit 4 (int32 b0 AND 0x03) OR signed_drop_bit 4 (int32 b1)),
      letter (push_bit 2 (int32 b1 AND 0x0f) OR 0)]"
| "base64urlEncode (b0 # b1 # b2 # bytes) =
     letter (signed_drop_bit 2 (int32 b0)) #
     letter (push_bit 4 (int32 b0 AND 0x03) OR signed_drop_bit 4 (int32 b1)) #
     letter (push_bit 2 (int32 b1 AND 0x0f) OR signed_drop_bit 6 (int32 b2)) #
     letter (int32 b2 AND 0x3f) # base64urlEncode bytes"

text \<open>The reverse table; None stands for its -1.\<close>

fun index_of :: "char \<Rightarrow> string \<Rightarrow> nat option" where
  "index_of c [] = None"
| "index_of c (d # ds) = (if d = c then Some 0 else map_option Suc (index_of c ds))"

definition DECODE :: "char \<Rightarrow> 32 word option" where
  "DECODE c = map_option of_nat (index_of c ALPHABET)"

fun decode_loop :: "string \<Rightarrow> 32 word \<Rightarrow> nat \<Rightarrow> 8 word list \<Rightarrow> 8 word list option" where
  "decode_loop [] buffer bits out = Some out"
| "decode_loop (c # cs) buffer bits out =
     (case DECODE c of
        None \<Rightarrow> None
      | Some sextet \<Rightarrow>
          (let buffer' = push_bit 6 buffer OR sextet; bits' = bits + 6
           in if 8 \<le> bits' then
                decode_loop cs buffer' (bits' - 8) (out @ [ucast (signed_drop_bit (bits' - 8) buffer' AND 0xff)])
              else decode_loop cs buffer' bits' out))"

text \<open>None stands for the \<open>RangeError\<close>.\<close>

definition base64urlDecode :: "string \<Rightarrow> 8 word list option" where
  "base64urlDecode v = (if length v mod 4 = 1 then None else decode_loop v 0 0 [])"

lemma letter_DECODE: "unat w < 64 \<Longrightarrow> DECODE (letter w) = Some w"
proof -
  have "\<forall>n < 64. index_of (ALPHABET ! n) ALPHABET = Some n"
    by (simp add: ALPHABET_def numeral_eq_Suc All_less_Suc)
  then show "unat w < 64 \<Longrightarrow> DECODE (letter w) = Some w" by (simp add: DECODE_def letter_def)
qed

text \<open>The sextets of a group of bytes, and what is read back from them.\<close>

lemma unat_small:
  assumes high: "\<And>n. bit w n \<Longrightarrow> n < 6"
  shows "unat (w :: 32 word) < 64"
proof -
  have "take_bit 6 w = w" by (rule bit_word_eqI) (use high in \<open>auto simp: bit_take_bit_iff\<close>)
  then have "take_bit 6 (unat w) = unat w" by (metis unsigned_take_bit_eq)
  then show ?thesis using take_bit_nat_less_exp [of 6 "unat w"] by simp
qed

lemma masks: "(0x03 :: 32 word) = mask 2" "(0x0f :: 32 word) = mask 4" "(0x3f :: 32 word) = mask 6" "(0xff :: 32 word) = mask 8"
  by (simp_all add: mask_eq_exp_minus_1)

lemmas sextet_bits = int32_def masks bit_signed_drop_bit_iff bit_push_bit_iff bit_or_iff bit_and_iff bit_ucast_iff bit_mask_iff

lemma sextets_small:
  "unat (signed_drop_bit 2 (int32 b0)) < 64"
  "unat (push_bit 4 (int32 b0 AND 0x03) OR signed_drop_bit 4 (int32 b1)) < 64"
  "unat (push_bit 2 (int32 b1 AND 0x0f) OR signed_drop_bit 6 (int32 b2)) < 64"
  "unat (int32 b2 AND 0x3f) < 64"
  "unat (push_bit 4 (int32 b0 AND 0x03) OR 0) < 64" "unat (push_bit 2 (int32 b1 AND 0x0f) OR 0) < 64"
  by (rule unat_small; unfold sextet_bits; auto dest: bit_imp_le_length split: if_splits)+

lemma byte_eqI:
  fixes a b :: "8 word"
  assumes "bit a 0 = bit b 0" "bit a 1 = bit b 1" "bit a 2 = bit b 2" "bit a 3 = bit b 3"
    "bit a 4 = bit b 4" "bit a 5 = bit b 5" "bit a 6 = bit b 6" "bit a 7 = bit b 7"
  shows "a = b"
proof (rule bit_word_eqI)
  fix n assume "n < LENGTH(8)"
  then have "n = 0 \<or> n = 1 \<or> n = 2 \<or> n = 3 \<or> n = 4 \<or> n = 5 \<or> n = 6 \<or> n = 7" by (simp; linarith)
  then show "bit a n = bit b n" using assms by (elim disjE) simp_all
qed

lemma byte_end: "8 \<le> n \<Longrightarrow> \<not> bit (b :: 8 word) n"
  by (auto dest: bit_imp_le_length)

lemma bytes_back:
  "(ucast (signed_drop_bit 4 (push_bit 6 (push_bit 6 w OR signed_drop_bit 2 (int32 b0)) OR
      (push_bit 4 (int32 b0 AND 0x03) OR signed_drop_bit 4 (int32 b1))) AND 0xff) :: 8 word) = b0"
  "(ucast (signed_drop_bit 4 (push_bit 6 (push_bit 6 w OR signed_drop_bit 2 (int32 b0)) OR
      (push_bit 4 (int32 b0 AND 0x03) OR 0)) AND 0xff) :: 8 word) = b0"
  "(ucast (signed_drop_bit 2 (push_bit 6 (push_bit 6 w OR
      (push_bit 4 (int32 b0 AND 0x03) OR signed_drop_bit 4 (int32 b1))) OR
      (push_bit 2 (int32 b1 AND 0x0f) OR signed_drop_bit 6 (int32 b2))) AND 0xff) :: 8 word) = b1"
  "(ucast (signed_drop_bit 2 (push_bit 6 (push_bit 6 w OR
      (push_bit 4 (int32 b0 AND 0x03) OR signed_drop_bit 4 (int32 b1))) OR
      (push_bit 2 (int32 b1 AND 0x0f) OR 0)) AND 0xff) :: 8 word) = b1"
  "(ucast (signed_drop_bit 0 (push_bit 6 (push_bit 6 w OR
      (push_bit 2 (int32 b1 AND 0x0f) OR signed_drop_bit 6 (int32 b2))) OR (int32 b2 AND 0x3f)) AND 0xff) :: 8 word) = b2"
  by (rule byte_eqI; simp only: sextet_bits; simp add: byte_end; (simp add: numeral_eq_Suc)?)+

text \<open>The four positions in a group.\<close>

abbreviation emitted :: "nat \<Rightarrow> 32 word \<Rightarrow> 8 word" where
  "emitted bits buffer \<equiv> ucast (signed_drop_bit bits buffer AND 0xff)"

lemma decode_step:
  assumes "unat w < 64"
  shows "decode_loop (letter w # cs) buffer 0 out = decode_loop cs (push_bit 6 buffer OR w) 6 out"
    "decode_loop (letter w # cs) buffer 6 out = decode_loop cs (push_bit 6 buffer OR w) 4 (out @ [emitted 4 (push_bit 6 buffer OR w)])"
    "decode_loop (letter w # cs) buffer 4 out = decode_loop cs (push_bit 6 buffer OR w) 2 (out @ [emitted 2 (push_bit 6 buffer OR w)])"
    "decode_loop (letter w # cs) buffer 2 out = decode_loop cs (push_bit 6 buffer OR w) 0 (out @ [emitted 0 (push_bit 6 buffer OR w)])"
  by (simp_all add: letter_DECODE [OF assms] Let_def)

lemmas group_steps = base64urlEncode.simps decode_step(1) [OF sextets_small(1)] decode_step(2) [OF sextets_small(2)]
  decode_step(2) [OF sextets_small(5)] decode_step(3) [OF sextets_small(3)] decode_step(3) [OF sextets_small(6)]
  decode_step(4) [OF sextets_small(4)] bytes_back decode_loop.simps(1) append_assoc append.simps append_Nil2

lemma decode_encoded: "decode_loop (base64urlEncode bytes) buffer 0 out = Some (out @ bytes)"
proof (induction bytes arbitrary: buffer out rule: base64urlEncode.induct)
  case (4 b0 b1 b2 bytes)
  show ?case by (simp only: group_steps 4)
qed (simp_all only: group_steps)

lemma encoded_length: "length (base64urlEncode bytes) mod 4 \<noteq> Suc 0"
proof (induction bytes rule: base64urlEncode.induct)
  case (4 b0 b1 b2 bytes)
  have "length (base64urlEncode (b0 # b1 # b2 # bytes)) = 4 + length (base64urlEncode bytes)" by simp
  with 4 show ?case by presburger
qed simp_all

lemma index_of_None: "index_of c ds = None \<longleftrightarrow> c \<notin> set ds"
  by (induction ds) auto

lemma decode_loop_length:
  "bits < 8 \<Longrightarrow> even bits \<Longrightarrow> set s \<subseteq> set ALPHABET \<Longrightarrow>
   \<exists>bytes. decode_loop s buffer bits out = Some bytes \<and> length bytes = length out + (bits + 6 * length s) div 8"
proof (induction s arbitrary: buffer bits out)
  case (Cons c cs)
  then obtain w where w: "DECODE c = Some w" using index_of_None [of c ALPHABET] by (auto simp: DECODE_def)
  have less: "bits - 2 < 8" using Cons.prems by simp
  show ?case
  proof (cases "8 \<le> bits + 6")
    case True
    then obtain bytes where "decode_loop cs (push_bit 6 buffer OR w) (bits - 2) (out @ [emitted (bits - 2) (push_bit 6 buffer OR w)]) = Some bytes"
        "length bytes = length out + 1 + (bits - 2 + 6 * length cs) div 8"
      using less Cons.IH [of "bits - 2" "push_bit 6 buffer OR w" "out @ [emitted (bits - 2) (push_bit 6 buffer OR w)]"] Cons.prems by auto
    moreover have "(bits + 6 * length (c # cs)) div 8 = 1 + (bits - 2 + 6 * length cs) div 8" using True by simp
    ultimately show ?thesis using w True by (simp add: Let_def)
  next
    case False
    then have "bits + 6 < 8" by simp
    from Cons.IH [OF this, of "push_bit 6 buffer OR w" out] Cons.prems False w show ?thesis by (simp add: Let_def add.assoc)
  qed
qed simp

lemma decode_loop_alphabet: "decode_loop s buffer bits out = Some bytes \<Longrightarrow> set s \<subseteq> set ALPHABET"
proof (induction s arbitrary: buffer bits out)
  case (Cons c cs)
  then obtain w where w: "DECODE c = Some w" by (auto split: option.splits)
  then have "c \<in> set ALPHABET" using index_of_None [of c ALPHABET] by (auto simp: DECODE_def)
  moreover have "set cs \<subseteq> set ALPHABET" using Cons.prems w Cons.IH by (simp add: Let_def split: if_splits)
  ultimately show ?case by simp
qed simp

text \<open>The codec is lossless and strict. Decoding what \<open>base64urlEncode\<close> makes of any bytes gives the
  bytes back, whatever the 32-bit buffer shifts out, and a string decodes exactly when it has no dangling
  character and none outside the alphabet, into as many bytes as the array allocated for it has room for.\<close>

theorem base64url_round_trip:
  "base64urlDecode (base64urlEncode bytes) = Some bytes \<and>
   (case base64urlDecode s of
      None \<Rightarrow> \<not> (length s mod 4 \<noteq> 1 \<and> set s \<subseteq> set ALPHABET)
    | Some out \<Rightarrow> length s mod 4 \<noteq> 1 \<and> set s \<subseteq> set ALPHABET \<and> length out = length s * 3 div 4)"
proof -
  have "6 * length s div 8 = length s * 3 div 4" by presburger
  then show ?thesis
    using decode_loop_length [of 0 s 0 "[]"] decode_loop_alphabet [of s 0 0 "[]"]
    by (auto simp: base64urlDecode_def encoded_length decode_encoded split: option.split)
qed

end
