(* ===== verification/Auth_Signing.thy ===== *)
theory Auth_Signing imports Base64url Session_Records begin

text \<open>
  Signed values of auth: \<^verbatim>\<open>packages/auth/src/crypto/constant-time.ts\<close>, the HMAC signer
  (\<^verbatim>\<open>server/hmac-signer.ts\<close>), signed payloads (\<^verbatim>\<open>signer/signed-payload.ts\<close>) and CSRF tokens
  (\<^verbatim>\<open>csrf/token.ts\<close>). The HMAC function of the host's crypto is an argument \<open>hmac\<close>; the asynchronous calls
  read no state that changes, so each operation is a function. Strings are of Latin-1 code units.
\<close>

section \<open>Constant-time equality\<close>

definition constantTimeEqual :: "8 word list \<Rightarrow> 8 word list \<Rightarrow> bool" where
  "constantTimeEqual a b =
     (if length a \<noteq> length b then False
      else foldl (\<lambda>diff (x, y). diff OR (int32 x XOR int32 y)) 0 (zip a b) = 0)"

lemma fold_diff: "foldl (\<lambda>diff (x, y). diff OR (int32 x XOR int32 y)) d ps = 0 \<longleftrightarrow> d = 0 \<and> (\<forall>(x, y) \<in> set ps. x = y)"
proof (induction ps arbitrary: d)
  case (Cons p ps)
  have "int32 x XOR int32 y = 0 \<longleftrightarrow> x = y" for x y :: "8 word"
  proof -
    have "int32 x XOR int32 y = 0 \<longleftrightarrow> (\<forall>n < 32. bit x n = bit y n)"
      by (auto simp: int32_def bit_eq_iff [of "ucast x XOR ucast y"] bit_simps)
    moreover have "bit x n = bit y n" if "\<not> n < 32" for n using byte_end [of n x] byte_end [of n y] that by simp
    ultimately have "int32 x XOR int32 y = 0 \<longleftrightarrow> (\<forall>n. bit x n = bit y n)" by blast
    moreover have "(\<forall>n. bit x n = bit y n) \<longleftrightarrow> x = y" by (metis bit_eq_iff)
    ultimately show ?thesis by simp
  qed
  then have "d OR (int32 x XOR int32 y) = 0 \<longleftrightarrow> d = 0 \<and> x = y" for x y by (simp add: or_eq_0_iff)
  then show ?case using Cons.IH by (auto split: prod.split)
qed simp

lemma constantTimeEqual_iff: "constantTimeEqual a b \<longleftrightarrow> a = b"
proof (cases "length a = length b")
  case True
  then have "(\<forall>(x, y) \<in> set (zip a b). x = y) \<longleftrightarrow> a = b"
    by (auto simp: set_zip list_eq_iff_nth_eq)
  then show ?thesis using True by (simp add: constantTimeEqual_def fold_diff)
qed (auto simp: constantTimeEqual_def)

section \<open>The HMAC signer\<close>

text \<open>\<open>TextEncoder\<close>.\<close>

fun utf8_encode :: "string \<Rightarrow> 8 word list" where
  "utf8_encode [] = []"
| "utf8_encode (c # cs) =
     (let n = unit_of c in
      (if n < 128 then [of_nat n] else [of_nat (192 + n div 64), of_nat (128 + n mod 64)]) @ utf8_encode cs)"

definition hmacSessionSigner :: "8 word list list \<Rightarrow> auth_error_code + 8 word list list" where
  "hmacSessionSigner keys = (if keys = [] \<or> (\<exists>key \<in> set keys. length key < 32) then Inl AuthConfig else Inr keys)"

type_synonym hmac = "8 word list \<Rightarrow> 8 word list \<Rightarrow> 8 word list"

definition signer_sign :: "hmac \<Rightarrow> 8 word list list \<Rightarrow> string \<Rightarrow> string" where
  "signer_sign hmac keys message = base64urlEncode (hmac (hd keys) (utf8_encode message))"

definition signer_verify :: "hmac \<Rightarrow> 8 word list list \<Rightarrow> string \<Rightarrow> string \<Rightarrow> bool" where
  "signer_verify hmac keys message signature =
     (case base64urlDecode signature of
        None \<Rightarrow> False
      | Some provided \<Rightarrow>
          foldl (\<lambda>matched key. constantTimeEqual (hmac key (utf8_encode message)) provided \<or> matched) False keys)"

lemma signer_verify_iff:
  "signer_verify hmac keys message signature \<longleftrightarrow>
    (\<exists>key \<in> set keys. base64urlDecode signature = Some (hmac key (utf8_encode message)))"
proof -
  have "foldl (\<lambda>matched key. constantTimeEqual (f key) p \<or> matched) m ks \<longleftrightarrow> m \<or> (\<exists>k \<in> set ks. f k = p)"
    for f :: "8 word list \<Rightarrow> 8 word list" and p m ks
    by (induction ks arbitrary: m) (auto simp: constantTimeEqual_iff)
  then show ?thesis by (auto simp: signer_verify_def split: option.split)
qed

section \<open>Signed payloads\<close>

text \<open>A token split at its only dot, which is not its first character.\<close>

definition split_signed :: "string \<Rightarrow> (string \<times> string) option" where
  "split_signed token =
     (let first = takeWhile (\<lambda>c. c \<noteq> CHR ''.'') token; rest = dropWhile (\<lambda>c. c \<noteq> CHR ''.'') token
      in if rest = [] \<or> first = [] \<or> CHR ''.'' \<in> set (tl rest) then None else Some (first, tl rest))"

lemma split_signed_iff: "split_signed token = Some (a, b) \<longleftrightarrow>
    token = a @ ''.'' @ b \<and> a \<noteq> [] \<and> CHR ''.'' \<notin> set a \<and> CHR ''.'' \<notin> set b"
proof
  assume s: "split_signed token = Some (a, b)"
  have "token = takeWhile (\<lambda>c. c \<noteq> CHR ''.'') token @ dropWhile (\<lambda>c. c \<noteq> CHR ''.'') token" by simp
  moreover have "dropWhile (\<lambda>c. c \<noteq> CHR ''.'') token = CHR ''.'' # b"
    using s hd_dropWhile [of "\<lambda>c. c \<noteq> CHR ''.''" token]
    by (cases "dropWhile (\<lambda>c. c \<noteq> CHR ''.'') token") (auto simp: split_signed_def Let_def split: if_splits)
  ultimately show "token = a @ ''.'' @ b \<and> a \<noteq> [] \<and> CHR ''.'' \<notin> set a \<and> CHR ''.'' \<notin> set b"
    using s set_takeWhileD [of "CHR ''.''" "\<lambda>c. c \<noteq> CHR ''.''" token] by (auto simp: split_signed_def Let_def split: if_splits)
next
  assume t: "token = a @ ''.'' @ b \<and> a \<noteq> [] \<and> CHR ''.'' \<notin> set a \<and> CHR ''.'' \<notin> set b"
  then have "takeWhile (\<lambda>c. c \<noteq> CHR ''.'') token = a" "dropWhile (\<lambda>c. c \<noteq> CHR ''.'') token = CHR ''.'' # b"
    by (auto simp: takeWhile_append dropWhile_append)
  then show "split_signed token = Some (a, b)" using t by (simp add: split_signed_def)
qed

text \<open>\<open>read_json\<close> decodes bytes as text and parses it, None when that throws.\<close>

definition signPayload :: "hmac \<Rightarrow> 8 word list list \<Rightarrow> (jsnum \<Rightarrow> string) \<Rightarrow> jsval \<Rightarrow> string" where
  "signPayload hmac keys nt v =
     (let payload = base64urlEncode (utf8_encode (json_text nt v)) in payload @ ''.'' @ signer_sign hmac keys payload)"

definition verifyPayload :: "hmac \<Rightarrow> 8 word list list \<Rightarrow> (8 word list \<Rightarrow> jsval option) \<Rightarrow> string \<Rightarrow> jsval option" where
  "verifyPayload hmac keys read_json token =
     (case split_signed token of
        None \<Rightarrow> None
      | Some (payload, mac) \<Rightarrow>
          if \<not> signer_verify hmac keys payload mac then None
          else Option.bind (base64urlDecode payload) read_json)"

section \<open>CSRF tokens\<close>

definition MAX_CSRF_TOKEN_LENGTH :: nat where "MAX_CSRF_TOKEN_LENGTH = 256"

definition bindingMessage :: "string \<Rightarrow> string \<Rightarrow> string" where
  "bindingMessage binding random = ''csrf.'' @ binding @ ''.'' @ random"

text \<open>The number of random bytes, or the error of an invalid configuration.\<close>

definition createCsrf :: "jsnum option \<Rightarrow> auth_error_code + nat" where
  "createCsrf byteLength =
     (let n = (case byteLength of None \<Rightarrow> Fin 32 | Some n \<Rightarrow> n)
      in if \<not> isPositiveInteger n \<or> nat_of_num n < 16 \<or> nat_of_num n > 64 then Inl AuthConfig else Inr (nat_of_num n))"

text \<open>\<open>issue\<close>, with the random bytes drawn.\<close>

definition csrf_issue :: "hmac \<Rightarrow> 8 word list list \<Rightarrow> string \<Rightarrow> 8 word list \<Rightarrow> auth_error_code + string" where
  "csrf_issue hmac keys binding bytes =
     (let random = base64urlEncode bytes;
          token = random @ ''.'' @ signer_sign hmac keys (bindingMessage binding random)
      in if length token > MAX_CSRF_TOKEN_LENGTH then Inl AuthConfig else Inr token)"

definition csrf_verify :: "hmac \<Rightarrow> 8 word list list \<Rightarrow> string \<Rightarrow> string \<Rightarrow> bool" where
  "csrf_verify hmac keys binding token =
     (if length token = 0 \<or> length token > MAX_CSRF_TOKEN_LENGTH then False
      else case split_signed token of
        None \<Rightarrow> False
      | Some (random, mac) \<Rightarrow> signer_verify hmac keys (bindingMessage binding random) mac)"

section \<open>Properties\<close>

lemma encoded_alphabet: "set (base64urlEncode bytes) \<subseteq> set ALPHABET"
  using decode_loop_alphabet [OF decode_encoded] .

lemma encoded_no_dot: "CHR ''.'' \<notin> set (base64urlEncode bytes)"
  using encoded_alphabet [of bytes] by (auto simp: ALPHABET_def)

lemma decode_encode: "base64urlDecode (base64urlEncode bytes) = Some bytes"
  by (simp add: base64urlDecode_def encoded_length decode_encoded)

lemma encode_empty: "base64urlEncode bytes = [] \<longleftrightarrow> bytes = []"
  by (cases bytes rule: base64urlEncode.cases) auto

lemma dots_split: "CHR ''.'' \<notin> set r \<Longrightarrow> CHR ''.'' \<notin> set r' \<Longrightarrow> a @ ''.'' @ r = b @ ''.'' @ r' \<Longrightarrow> a = b \<and> r = r'"
proof -
  assume r: "CHR ''.'' \<notin> set r" "CHR ''.'' \<notin> set r'" and eq: "a @ ''.'' @ r = b @ ''.'' @ r'"
  have "rev r @ CHR ''.'' # rev a = rev r' @ CHR ''.'' # rev b" using arg_cong [OF eq, of rev] by simp
  from arg_cong [OF this, of "takeWhile (\<lambda>c. c \<noteq> CHR ''.'')"] have "rev r = rev r'"
    using r by (subst (asm) (1 2) takeWhile_append2) auto
  then show ?thesis using eq by simp
qed

text \<open>No two of the messages \<open>ms\<close> share a code, under whichever of the keys.\<close>

definition mac_binds :: "hmac \<Rightarrow> 8 word list list \<Rightarrow> string list \<Rightarrow> bool" where
  "mac_binds hmac keys ms = (\<forall>k \<in> set keys. \<forall>k' \<in> set keys. \<forall>m \<in> set ms. \<forall>m' \<in> set ms.
     hmac k (utf8_encode m) = hmac k' (utf8_encode m') \<longrightarrow> m = m')"

text \<open>Claim C10: a token proves its session and nothing else. Unless the code of two of the messages involved
  collides, a token issued for a session is accepted, also after the keys were rotated, exactly under that
  session's binding, and neither is a signed payload accepted as a token nor a token as a signed payload.\<close>

theorem csrf_token_bound:
  assumes issued: "csrf_issue hmac (key # old) binding bytes = Inr token" and bytes: "bytes \<noteq> []"
    and keys: "set (key # old') \<subseteq> set keys"
    and drawn: "random = base64urlEncode bytes" and payload: "payload = base64urlEncode (utf8_encode (json_text nt v))"
    and binds: "mac_binds hmac keys [bindingMessage binding random, bindingMessage binding' random, random,
      payload, bindingMessage binding' payload]"
  shows "(csrf_verify hmac keys binding' token \<longleftrightarrow> binding' = binding) \<and>
    \<not> csrf_verify hmac keys binding' (signPayload hmac (key # old') nt v) \<and>
    verifyPayload hmac keys read_json token = None"
proof -
  let ?mac = "\<lambda>m. hmac key (utf8_encode m)"
  have random: "random \<noteq> []" "CHR ''.'' \<notin> set random"
    using bytes encoded_no_dot [of bytes] by (auto simp: drawn encode_empty)
  have plain: "CHR ''.'' \<notin> set payload" unfolding payload by (rule encoded_no_dot)
  have token: "token = random @ ''.'' @ base64urlEncode (?mac (bindingMessage binding random))" "length token \<le> MAX_CSRF_TOKEN_LENGTH"
    using issued by (auto simp: csrf_issue_def Let_def signer_sign_def drawn split: if_splits)
  have split: "split_signed token = Some (random, base64urlEncode (?mac (bindingMessage binding random)))"
    using random encoded_no_dot by (simp add: split_signed_iff token)
  have key: "key \<in> set keys" using keys by simp
  have verify: "signer_verify hmac keys m (base64urlEncode (?mac m')) \<longleftrightarrow> m = m'"
    if "m \<in> set [bindingMessage binding random, bindingMessage binding' random, random, payload, bindingMessage binding' payload]"
      "m' \<in> set [bindingMessage binding random, payload]" for m m'
  proof -
    have "\<forall>k \<in> set keys. hmac k (utf8_encode m) = ?mac m' \<longrightarrow> m = m'"
      using binds key that unfolding mac_binds_def by (metis list.set_intros(1,2) set_ConsD empty_iff list.set(1))
    then show ?thesis using key by (auto simp: signer_verify_iff decode_encode)
  qed
  have "csrf_verify hmac keys binding' token \<longleftrightarrow> bindingMessage binding' random = bindingMessage binding random"
    using token(2) random by (simp add: csrf_verify_def split verify) (simp add: token(1))
  then have own: "csrf_verify hmac keys binding' token \<longleftrightarrow> binding' = binding"
    by (simp add: bindingMessage_def)
  have "split_signed (signPayload hmac (key # old') nt v) = Some (a, b) \<Longrightarrow>
      b = base64urlEncode (?mac payload) \<and> a = payload" for a b
    using encoded_no_dot dots_split [of "base64urlEncode (?mac payload)" b payload a]
    by (auto simp: split_signed_iff signPayload_def Let_def signer_sign_def payload)
  moreover have "bindingMessage binding' payload \<noteq> payload" by (simp add: bindingMessage_def)
  ultimately have other: "\<not> csrf_verify hmac keys binding' (signPayload hmac (key # old') nt v)"
    by (auto simp: csrf_verify_def verify split: option.split)
  have "random \<noteq> bindingMessage binding random" by (simp add: bindingMessage_def)
  then have "verifyPayload hmac keys read_json token = None" by (simp add: verifyPayload_def split verify)
  with own other show ?thesis by blast
qed

theorem signed_payload_read:
  assumes "json_text nt v \<noteq> []" "set keys \<subseteq> set accepted" "keys \<noteq> []"
    and "read_json (utf8_encode (json_text nt v)) = Some (json_reread v)"
  shows "verifyPayload hmac accepted read_json (signPayload hmac keys nt v) = Some (json_reread v)"
proof -
  let ?p = "base64urlEncode (utf8_encode (json_text nt v))" and ?mac = "signer_sign hmac keys (base64urlEncode (utf8_encode (json_text nt v)))"
  have "utf8_encode (json_text nt v) \<noteq> []" using assms(1) by (cases "json_text nt v") (auto simp: Let_def)
  then have "split_signed (?p @ ''.'' @ ?mac) = Some (?p, ?mac)"
    using encoded_no_dot by (simp add: split_signed_iff encode_empty signer_sign_def)
  moreover have "signer_verify hmac accepted ?p ?mac"
    using assms(2,3) by (cases keys) (auto simp: signer_verify_iff signer_sign_def decode_encode)
  ultimately show ?thesis using assms(4) by (simp add: verifyPayload_def signPayload_def Let_def decode_encode)
qed

text \<open>A code for the sample: the message itself, which binds.\<close>

definition message_code :: hmac where "message_code key m = m"

lemma byte_of: "a < 256 \<Longrightarrow> b < 256 \<Longrightarrow> (of_nat a :: 8 word) = of_nat b \<longleftrightarrow> a = b"
  by (simp add: word_of_nat_eq_iff take_bit_eq_mod)

lemma utf8_byte: "utf8_encode m = utf8_encode m' \<Longrightarrow> m = m'"
proof (induction m arbitrary: m')
  case Nil
  then show ?case by (cases m') (auto simp: Let_def split: if_splits)
next
  case (Cons c cs)
  then obtain d ds where m': "m' = d # ds" by (cases m') (auto simp: Let_def split: if_splits)
  have u: "unit_of x < 256" "192 + unit_of x div 64 < 256" "128 + unit_of x mod 64 < 256" for x
  proof -
    have c: "unit_of x < 256" by (simp add: unit_of_def)
    then show "unit_of x < 256" "192 + unit_of x div 64 < 256" "128 + unit_of x mod 64 < 256"
      using less_mult_imp_div_less [of "unit_of x" 4 64] pos_mod_bound [of 64 "unit_of x"] by simp_all
  qed
  have parts: "unit_of c = unit_of d" if "unit_of c div 64 = unit_of d div 64" "unit_of c mod 64 = unit_of d mod 64"
    using that by (metis div_mod_decomp)
  have "unit_of c = unit_of d \<and> utf8_encode cs = utf8_encode ds"
    using Cons.prems u [of c] u [of d] parts
    by (auto simp: m' Let_def byte_of simp del: of_nat_add of_nat_numeral split: if_splits)
  then show ?case using Cons.IH [of ds] by (simp add: m' unit_of_def)
qed

lemma encode_length: "length (base64urlEncode bytes) = (4 * length bytes + 2) div 3"
  by (induction bytes rule: base64urlEncode.induct) simp_all

lemma utf8_length: "length (utf8_encode m) \<le> 2 * length m"
  by (induction m) (auto simp: Let_def)

lemma message_code_binds: "mac_binds message_code keys ms"
  using utf8_byte by (auto simp: mac_binds_def message_code_def)

theorem csrf_token_bound_witness:
  "let key = replicate 32 0; bytes = replicate 16 0 in
   \<exists>token. csrf_issue message_code [key] ''s'' bytes = Inr token \<and> csrf_verify message_code [key] ''s'' token \<and>
     \<not> csrf_verify message_code [key] ''t'' token"
proof -
  let ?key = "replicate 32 0 :: 8 word list" and ?bytes = "replicate 16 0 :: 8 word list"
  let ?random = "base64urlEncode ?bytes"
  have "length (utf8_encode (bindingMessage ''s'' ?random)) \<le> 58"
    using utf8_length [of "bindingMessage ''s'' ?random"] by (simp add: bindingMessage_def encode_length)
  then have "length (signer_sign message_code [?key] (bindingMessage ''s'' ?random)) \<le> 78"
    by (simp add: signer_sign_def encode_length message_code_def)
  then obtain token where t: "csrf_issue message_code [?key] ''s'' ?bytes = Inr token"
    by (simp add: csrf_issue_def Let_def MAX_CSRF_TOKEN_LENGTH_def encode_length)
  have "csrf_verify message_code [?key] b token \<longleftrightarrow> b = ''s''" for b
    using csrf_token_bound [OF t _ _ refl refl message_code_binds, of "[]" "[?key]" b] by simp
  with t show ?thesis by (simp add: Let_def)
qed

end
