(* ===== verification/Auth_Guards.thy ===== *)
theory Auth_Guards imports Session_Records List_Dialect begin

text \<open>
  The guards of auth that decide from values alone: safe redirect targets
  (\<^verbatim>\<open>packages/auth/src/redirect\<close>), the reference authorization policy (\<^verbatim>\<open>authz\<close>), and the readers of
  untrusted session responses and snapshots (\<^verbatim>\<open>session/response.ts\<close>, \<^verbatim>\<open>session/snapshot.ts\<close>) with
  \<^verbatim>\<open>packages/std/src/time/rfc3339.ts\<close>. Of the URL class of the host, the splitting of a path into segments and
  the removal of its dot segments are modelled; how it percent-encodes a path, parses and prints a query
  are arguments. \<open>date_parse\<close> is \<open>Date.parse\<close>. Strings are of Latin-1 code units.
\<close>

section \<open>Redirect targets\<close>

definition control_char :: "char \<Rightarrow> bool" where
  "control_char c = (unit_of c \<le> 31 \<or> unit_of c = 127)"

definition sanitizeReturnTo :: "string option \<Rightarrow> string \<Rightarrow> string" where
  "sanitizeReturnTo candidate fallback =
     (case candidate of
        None \<Rightarrow> fallback
      | Some c \<Rightarrow>
          if c = [] then fallback
          else let normalized = replace_char backslash ''/'' c in
            if \<not> startsWith normalized ''/'' \<or> startsWith normalized ''//'' then fallback
            else if list_ex (\<lambda>x. control_char x \<or> is_space x) normalized then fallback
            else normalized)"

record guard_config =
  gc_loginPath :: string
  gc_returnToParam :: "string option"

record redirect_signal =
  rs_to :: string
  rs_reason :: string

text \<open>The URL class: the parts of a path-absolute reference, and the path it resolves to.\<close>

fun split_on :: "(char \<Rightarrow> bool) \<Rightarrow> string \<Rightarrow> string \<Rightarrow> string list" where
  "split_on sep current [] = [current]"
| "split_on sep current (c # cs) = (if sep c then current # split_on sep [] cs else split_on sep (current @ [c]) cs)"

definition single_dot :: "string \<Rightarrow> bool" where
  "single_dot seg = (toLowerCase seg \<in> {''.'', ''%2e''})"

definition double_dot :: "string \<Rightarrow> bool" where
  "double_dot seg = (toLowerCase seg \<in> {''..'', ''.%2e'', ''%2e.'', ''%2e%2e''})"

fun resolve_segments :: "string list \<Rightarrow> string list \<Rightarrow> string list" where
  "resolve_segments path [] = path"
| "resolve_segments path [seg] =
     (if double_dot seg then butlast path @ [[]] else if single_dot seg then path @ [[]] else path @ [seg])"
| "resolve_segments path (seg # segs) =
     resolve_segments (if double_dot seg then butlast path else if single_dot seg then path else path @ [seg]) segs"

definition url_pathname :: "(string \<Rightarrow> string) \<Rightarrow> string \<Rightarrow> string" where
  "url_pathname encode_path path =
     concat (map (\<lambda>seg. ''/'' @ encode_path seg) (resolve_segments [] (split_on (\<lambda>c. c = CHR ''/'' \<or> c = backslash) [] (tl path))))"

record url_class =
  uc_encode_path :: "string \<Rightarrow> string"
  uc_encode_hash :: "string \<Rightarrow> string"
  uc_parse_query :: "string \<Rightarrow> search_params"
  uc_print_query :: "search_params \<Rightarrow> string"

definition unauthenticatedRedirect :: "url_class \<Rightarrow> guard_config \<Rightarrow> string option \<Rightarrow> redirect_signal" where
  "unauthenticatedRedirect url config currentPath =
     (let loginPath = sanitizeReturnTo (Some (gc_loginPath config)) ''/login'';
          returnTo = sanitizeReturnTo currentPath ''/'';
          param = (case gc_returnToParam config of None \<Rightarrow> ''returnTo'' | Some p \<Rightarrow> p);
          target = takeWhile (\<lambda>c. c \<noteq> CHR ''#'') loginPath; hash = dropWhile (\<lambda>c. c \<noteq> CHR ''#'') loginPath;
          path = takeWhile (\<lambda>c. c \<noteq> CHR ''?'') target; query = tl (dropWhile (\<lambda>c. c \<noteq> CHR ''?'') target)
      in \<lparr>rs_to = url_pathname (uc_encode_path url) path @ ''?'' @
            uc_print_query url (search_set param returnTo (uc_parse_query url query)) @ (if length hash \<le> 1 then [] else uc_encode_hash url hash),
          rs_reason = ''unauthenticated''\<rparr>)"

datatype session_status = StAuthenticated | StUnconfirmed | StUnauthenticated

definition guardSession :: "url_class \<Rightarrow> guard_config \<Rightarrow> session_status \<Rightarrow> string option \<Rightarrow> redirect_signal option" where
  "guardSession url config status currentPath =
     (if status \<noteq> StUnauthenticated then None else Some (unauthenticatedRedirect url config currentPath))"

section \<open>Authorization\<close>

record identity =
  id_subject :: string
  id_claims :: jsval   \<comment> \<open>\<open>undefined\<close> when absent\<close>

record authorization_request =
  ar_identity :: "identity option"
  ar_action :: string
  ar_resource :: jsval

datatype rule_result = Matched | Unmatched | Threw

type_synonym allow_rule = "authorization_request \<Rightarrow> rule_result"

record decision =
  dc_allow :: bool
  dc_reason :: "string option"

fun try_rules :: "allow_rule list \<Rightarrow> string \<Rightarrow> authorization_request \<Rightarrow> decision" where
  "try_rules [] denyReason request = \<lparr>dc_allow = False, dc_reason = Some denyReason\<rparr>"
| "try_rules (rule # rules) denyReason request =
     (case rule request of
        Threw \<Rightarrow> \<lparr>dc_allow = False, dc_reason = Some denyReason\<rparr>
      | Matched \<Rightarrow> \<lparr>dc_allow = True, dc_reason = None\<rparr>
      | Unmatched \<Rightarrow> try_rules rules denyReason request)"

definition createAllowListPolicy :: "allow_rule list \<Rightarrow> string option \<Rightarrow> authorization_request \<Rightarrow> decision" where
  "createAllowListPolicy rules denyReason request =
     (if ar_identity request = None then \<lparr>dc_allow = False, dc_reason = Some ''unauthenticated''\<rparr>
      else try_rules rules (case denyReason of None \<Rightarrow> ''forbidden'' | Some r \<Rightarrow> r) request)"

definition requireClaim :: "string \<Rightarrow> (jsval \<Rightarrow> rule_result) \<Rightarrow> allow_rule" where
  "requireClaim key matches request =
     (case ar_identity request of None \<Rightarrow> Unmatched | Some i \<Rightarrow> matches (prop_of (id_claims i) key))"

record authz_outcome =
  ao_allow :: bool
  ao_reason :: "string option"
  ao_redirect :: "redirect_signal option"

definition guardDecision :: "decision \<Rightarrow> string option \<Rightarrow> authz_outcome" where
  "guardDecision d forbiddenPath =
     (if dc_allow d then \<lparr>ao_allow = True, ao_reason = None, ao_redirect = None\<rparr>
      else \<lparr>ao_allow = False, ao_reason = dc_reason d,
        ao_redirect = map_option (\<lambda>p. \<lparr>rs_to = sanitizeReturnTo (Some p) ''/'', rs_reason = ''forbidden''\<rparr>) forbiddenPath\<rparr>)"

section \<open>Session responses\<close>

definition digits_at :: "string \<Rightarrow> nat \<Rightarrow> nat \<Rightarrow> bool" where
  "digits_at v i n = (i + n \<le> length v \<and> list_all is_digit_char (take n (drop i v)))"

text \<open>\<open>[+-]\d{2}:\d{2}\<close> or \<open>Z\<close>, to the end.\<close>

definition zone_pattern :: "string \<Rightarrow> bool" where
  "zone_pattern z = (z = ''Z'' \<or> length z = 6 \<and> z ! 0 \<in> {CHR ''+'', CHR ''-''} \<and> digits_at z 1 2 \<and> z ! 3 = CHR '':'' \<and> digits_at z 4 2)"

definition rfc3339_pattern :: "string \<Rightarrow> bool" where
  "rfc3339_pattern v =
     (20 \<le> length v \<and> digits_at v 0 4 \<and> v ! 4 = CHR ''-'' \<and> digits_at v 5 2 \<and> v ! 7 = CHR ''-'' \<and> digits_at v 8 2 \<and>
      v ! 10 = CHR ''T'' \<and> digits_at v 11 2 \<and> v ! 13 = CHR '':'' \<and> digits_at v 14 2 \<and> v ! 16 = CHR '':'' \<and> digits_at v 17 2 \<and>
      (let rest = drop 19 v in
         zone_pattern rest \<or>
         rest ! 0 = CHR ''.'' \<and> takeWhile is_digit_char (tl rest) \<noteq> [] \<and> zone_pattern (dropWhile is_digit_char (tl rest))))"

definition number_at :: "string \<Rightarrow> nat \<Rightarrow> nat \<Rightarrow> nat" where
  "number_at v i n = digits_value (take n (drop i v))"

definition parseRfc3339 :: "(string \<Rightarrow> jsnum) \<Rightarrow> string \<Rightarrow> rat option" where
  "parseRfc3339 date_parse v =
     (if length v > 128 \<or> (v \<noteq> [] \<and> (is_space (hd v) \<or> is_space (last v))) \<or> \<not> rfc3339_pattern v then None
      else let year = number_at v 0 4; month = number_at v 5 2; day = number_at v 8 2;
               leap = (year mod 4 = 0 \<and> (year mod 100 \<noteq> 0 \<or> year mod 400 = 0));
               days = (if month = 2 then (if leap then 29 else 28) else if month \<in> {4, 6, 9, 11} then 30 else 31)
        in if month < 1 \<or> month > 12 \<or> day < 1 \<or> day > days \<or> number_at v 11 2 > 23 then None
           else num_val (date_parse v))"

fun isStrings :: "jsval \<Rightarrow> bool" where
  "isStrings (JArray xs) = list_all typeof_string xs"
| "isStrings _ = False"

definition isRestrictions :: "jsval \<Rightarrow> bool" where
  "isRestrictions v = (isRecord v \<and> (prop_of v ''mode'' = JStr ''unrestricted'' \<or>
     prop_of v ''mode'' = JStr ''restricted'' \<and> isStrings (prop_of v ''resources'') \<and> isStrings (prop_of v ''scopes'')))"

definition isSessionIdentity :: "jsval \<Rightarrow> bool" where
  "isSessionIdentity v = (isRecord v \<and> isNonEmptyString (prop_of v ''subject'') \<and>
     prop_of v ''kind'' \<in> {JStr ''user'', JStr ''service''} \<and> isRestrictions (prop_of v ''restrictions'') \<and>
     isAbsentOr (prop_of v ''claims'') isRecord)"

record session_response =
  sr_identity :: jsval
  sr_expiresAt :: string
  sr_csrfToken :: string

text \<open>None stands for the \<open>FailureDecodeError\<close>.\<close>

definition decodeSessionResponse :: "(string \<Rightarrow> jsnum) \<Rightarrow> jsval \<Rightarrow> session_response option" where
  "decodeSessionResponse date_parse v =
     (if \<not> isRecord v \<or> prop_of v ''status'' \<noteq> JStr ''authenticated'' \<or> \<not> isSessionIdentity (prop_of v ''identity'') \<or>
         \<not> typeof_string (prop_of v ''expiresAt'') \<or> parseRfc3339 date_parse (string_of (prop_of v ''expiresAt'')) = None \<or>
         \<not> isNonEmptyString (prop_of v ''csrfToken'') \<or> length (string_of (prop_of v ''csrfToken'')) > 256 then None
      else Some \<lparr>sr_identity = prop_of v ''identity'', sr_expiresAt = string_of (prop_of v ''expiresAt''),
        sr_csrfToken = string_of (prop_of v ''csrfToken'')\<rparr>)"

record auth_snapshot =
  as_authenticated :: bool
  as_subject :: "string option"
  as_name :: "string option"
  as_session :: "session_response option"

definition ANONYMOUS_AUTH :: auth_snapshot where
  "ANONYMOUS_AUTH = \<lparr>as_authenticated = False, as_subject = None, as_name = None, as_session = None\<rparr>"

definition authSnapshotOf :: "(string \<Rightarrow> jsnum) \<Rightarrow> jsval \<Rightarrow> auth_snapshot option" where
  "authSnapshotOf date_parse v =
     (if isRecord v \<and> prop_of v ''authenticated'' = JBool True \<and> typeof_string (prop_of v ''subject'') then
        (let snapshot = \<lparr>as_authenticated = True, as_subject = Some (string_of (prop_of v ''subject'')),
               as_name = (if typeof_string (prop_of v ''name'') then Some (string_of (prop_of v ''name'')) else None),
               as_session = None\<rparr>
         in if prop_of v ''session'' = JUndefined then Some snapshot
            else map_option (\<lambda>r. snapshot\<lparr>as_session := Some r\<rparr>) (decodeSessionResponse date_parse (prop_of v ''session'')))
      else Some ANONYMOUS_AUTH)"

text \<open>The snapshot the client store starts from, as far as it is read from the value.\<close>

record client_snapshot =
  cs_status :: session_status
  cs_identity :: "jsval option"
  cs_expiresAt :: "string option"

definition sessionSnapshotOf :: "(string \<Rightarrow> jsnum) \<Rightarrow> jsval \<Rightarrow> client_snapshot option" where
  "sessionSnapshotOf date_parse v =
     map_option (\<lambda>auth.
       case as_session auth of
         Some r \<Rightarrow> \<lparr>cs_status = StAuthenticated, cs_identity = Some (sr_identity r), cs_expiresAt = Some (sr_expiresAt r)\<rparr>
       | None \<Rightarrow>
           (case as_subject auth of
              None \<Rightarrow> \<lparr>cs_status = StUnauthenticated, cs_identity = None, cs_expiresAt = None\<rparr>
            | Some subject \<Rightarrow>
                if \<not> as_authenticated auth then \<lparr>cs_status = StUnauthenticated, cs_identity = None, cs_expiresAt = None\<rparr>
                else \<lparr>cs_status = StAuthenticated,
                  cs_identity = Some (JObject True [(''subject'', JStr subject), (''claims'', JObject True
                    (case as_name auth of None \<Rightarrow> [] | Some n \<Rightarrow> [(''name'', JStr n)]))]), cs_expiresAt = None\<rparr>))
       (authSnapshotOf date_parse v)"

section \<open>Properties\<close>

text \<open>How a browser reads a reference: spaces and control characters around it and tabs and newlines in it are
  dropped, a backslash is a slash, and two slashes in front start a host.\<close>

definition browser_trim :: "string \<Rightarrow> string" where
  "browser_trim s = filter (\<lambda>c. unit_of c \<notin> {9, 10, 13})
     (rev (dropWhile (\<lambda>c. unit_of c \<le> 32) (rev (dropWhile (\<lambda>c. unit_of c \<le> 32) s))))"

definition is_slash :: "char \<Rightarrow> bool" where
  "is_slash c = (c = CHR ''/'' \<or> c = backslash)"

text \<open>A path-absolute reference starts with one slash. A reference stays on the origin when it names neither a
  scheme nor a host: a path-absolute one, and also a relative one, a query, a fragment or nothing at all.\<close>

definition path_absolute :: "string \<Rightarrow> bool" where
  "path_absolute s = (case browser_trim s of [] \<Rightarrow> False | c # cs \<Rightarrow> is_slash c \<and> (cs = [] \<or> \<not> is_slash (hd cs)))"

definition names_scheme :: "string \<Rightarrow> bool" where
  "names_scheme s = (case s of [] \<Rightarrow> False
     | c # cs \<Rightarrow> is_letter c \<and> (case dropWhile (\<lambda>x. is_letter x \<or> is_digit_char x \<or> x \<in> set ''+-.'') cs of [] \<Rightarrow> False | x # _ \<Rightarrow> x = CHR '':''))"

definition stays_on_origin :: "string \<Rightarrow> bool" where
  "stays_on_origin s = (let t = browser_trim s
     in \<not> names_scheme t \<and> \<not> (case t of c # d # _ \<Rightarrow> is_slash c \<and> is_slash d | _ \<Rightarrow> False))"

lemma slash_no_letter: "is_slash c \<Longrightarrow> \<not> is_letter c"
  by (auto simp: is_slash_def is_letter_def unit_of_def Let_def)

lemma path_absolute_stays: "path_absolute s \<Longrightarrow> stays_on_origin s"
  by (cases "browser_trim s"; cases "tl (browser_trim s)")
    (simp_all add: path_absolute_def stays_on_origin_def names_scheme_def slash_no_letter)

definition clean :: "string \<Rightarrow> bool" where
  "clean s = list_all (\<lambda>c. \<not> control_char c \<and> \<not> is_space c) s"

lemma clean_trim: "clean s \<Longrightarrow> browser_trim s = s"
proof -
  assume c: "clean s"
  have "\<not> unit_of x \<le> 32 \<and> unit_of x \<notin> {9, 10, 13}" if "x \<in> set s" for x
  proof -
    have x: "\<not> control_char x" "\<not> is_space x" using c that by (auto simp: clean_def list_all_iff)
    have "unit_of x = 32 \<or> unit_of x \<le> 31" if "unit_of x \<le> 32" using that by linarith
    with x show ?thesis by (auto simp: control_char_def is_space_def)
  qed
  then have "dropWhile (\<lambda>c. unit_of c \<le> 32) s = s" "dropWhile (\<lambda>c. unit_of c \<le> 32) (rev s) = rev s"
    "filter (\<lambda>c. unit_of c \<notin> {9, 10, 13}) s = s"
    by (auto simp: dropWhile_eq_self_iff filter_id_conv hd_rev)
  then show ?thesis by (simp add: browser_trim_def)
qed

lemma normalized_map: "replace_char backslash ''/'' c = map (\<lambda>x. if x = backslash then CHR ''/'' else x) c"
  by (induction c) auto

lemma clean_normalized: "clean (replace_char backslash ''/'' c) = clean c"
  by (induction c) (auto simp: clean_def control_char_def is_space_def unit_of_def)

lemma starts_normalized:
  "startsWith (replace_char backslash ''/'' c) ''/'' \<longleftrightarrow> c \<noteq> [] \<and> is_slash (hd c)"
  "startsWith (replace_char backslash ''/'' c) ''//'' \<longleftrightarrow> c \<noteq> [] \<and> tl c \<noteq> [] \<and> is_slash (hd c) \<and> is_slash (hd (tl c))"
  by (cases c; simp add: normalized_map startsWith_def is_slash_def)
    (cases c; cases "tl c"; auto simp: normalized_map startsWith_def is_slash_def)

lemma return_to_facts:
  "case candidate of None \<Rightarrow> sanitizeReturnTo candidate fallback = fallback
     | Some c \<Rightarrow> sanitizeReturnTo candidate fallback =
         (if path_absolute c \<and> clean c then replace_char backslash ''/'' c else fallback)"
  "sanitizeReturnTo candidate fallback = fallback \<or> path_absolute (sanitizeReturnTo candidate fallback)"
proof -
  have acc: "sanitizeReturnTo (Some c) fallback = (if c \<noteq> [] \<and> is_slash (hd c) \<and> (tl c = [] \<or> \<not> is_slash (hd (tl c))) \<and> clean c
      then replace_char backslash ''/'' c else fallback)" for c
    using clean_normalized [of c] by (auto simp: sanitizeReturnTo_def Let_def starts_normalized clean_def list_all_iff list_ex_iff)
  have stay: "path_absolute x \<longleftrightarrow> x \<noteq> [] \<and> is_slash (hd x) \<and> (tl x = [] \<or> \<not> is_slash (hd (tl x)))" if "clean x" for x
    using clean_trim [OF that] by (simp add: path_absolute_def split: list.split)
  have keep: "path_absolute (replace_char backslash ''/'' c) = path_absolute c" if c: "clean c" for c
  proof -
    have n: "clean (replace_char backslash ''/'' c)" using c clean_normalized [of c] by blast
    show ?thesis unfolding stay [OF c] stay [OF n]
      by (cases c; simp add: normalized_map is_slash_def; cases "tl c"; simp add: is_slash_def)
  qed
  have exact: "sanitizeReturnTo (Some c) fallback = (if path_absolute c \<and> clean c then replace_char backslash ''/'' c else fallback)" for c
    using acc [of c] stay [of c] by auto
  then show "case candidate of None \<Rightarrow> sanitizeReturnTo candidate fallback = fallback
     | Some c \<Rightarrow> sanitizeReturnTo candidate fallback =
         (if path_absolute c \<and> clean c then replace_char backslash ''/'' c else fallback)"
    by (simp add: sanitizeReturnTo_def split: option.split)
  show "sanitizeReturnTo candidate fallback = fallback \<or> path_absolute (sanitizeReturnTo candidate fallback)"
    using exact keep by (cases candidate) (simp add: sanitizeReturnTo_def, auto)
qed

text \<open>Claim C12: \<open>sanitizeReturnTo\<close> stops open redirects. Given a fallback that stays on the origin, every result
  stays on the origin. What is kept are exactly the path-absolute references without white space and control
  characters, with their backslashes as slashes; any other candidate, a relative reference of the same origin
  among them, becomes the fallback.\<close>

theorem return_to_stays_on_origin:
  assumes "stays_on_origin fallback"
  shows "stays_on_origin (sanitizeReturnTo candidate fallback) \<and>
    (case candidate of None \<Rightarrow> sanitizeReturnTo candidate fallback = fallback
     | Some c \<Rightarrow> sanitizeReturnTo candidate fallback =
         (if path_absolute c \<and> clean c then replace_char backslash ''/'' c else fallback))"
  using return_to_facts [of candidate fallback] assms path_absolute_stays by metis

lemmas sample_references = stays_on_origin_def path_absolute_def names_scheme_def is_letter_def is_digit_char_def browser_trim_def
  is_slash_def unit_of_def clean_def control_char_def is_space_def Let_def

theorem return_to_stays_on_origin_witness:
  "stays_on_origin ''home'' \<and> sanitizeReturnTo (Some (''/'' @ [backslash] @ ''evil.test'')) ''home'' = ''home'' \<and>
   stays_on_origin ''dashboard'' \<and> sanitizeReturnTo (Some ''dashboard'') ''home'' = ''home'' \<and>
   \<not> stays_on_origin ''https://evil.test'' \<and> sanitizeReturnTo (Some ''/tasks?page=2'') ''home'' = ''/tasks?page=2''"
proof -
  have s: "stays_on_origin ''home''" by (simp add: sample_references)
  have "\<not> path_absolute (''/'' @ [backslash] @ ''evil.test'')" "\<not> path_absolute ''dashboard''" "stays_on_origin ''dashboard''"
    "\<not> stays_on_origin ''https://evil.test''" "path_absolute ''/tasks?page=2'' \<and> clean ''/tasks?page=2''"
    by (simp_all add: sample_references)
  then show ?thesis
    using s return_to_stays_on_origin [OF s, of "Some (''/'' @ [backslash] @ ''evil.test'')"]
      return_to_stays_on_origin [OF s, of "Some ''dashboard''"] return_to_stays_on_origin [OF s, of "Some ''/tasks?page=2''"]
    by simp
qed

lemma try_rules_allow: "dc_allow (try_rules rules denyReason request) \<longleftrightarrow>
    (\<exists>i < length rules. (rules ! i) request = Matched \<and> (\<forall>j < i. (rules ! j) request = Unmatched))"
proof (induction rules)
  case (Cons rule rules)
  show ?case
  proof (cases "rule request")
    case Matched
    then show ?thesis by auto
  next
    case Unmatched
    then show ?thesis using Cons.IH by (simp add: Ex_less_Suc2 All_less_Suc2)
  next
    case Threw
    then show ?thesis by (simp add: Ex_less_Suc2 All_less_Suc2)
  qed
qed simp

text \<open>Claim C25: the reference policy denies by default. A decision allows exactly when there is a caller and some
  rule matches before any rule throws; and the guard over it lets exactly those through, every redirect of a
  denied caller being path-absolute and staying on the origin.\<close>

theorem policy_denies_by_default:
  "let outcome = guardDecision (createAllowListPolicy rules denyReason request) forbiddenPath in
   (ao_allow outcome \<longleftrightarrow> ar_identity request \<noteq> None \<and>
      (\<exists>i < length rules. (rules ! i) request = Matched \<and> (\<forall>j < i. (rules ! j) request = Unmatched))) \<and>
   (\<forall>r. ao_redirect outcome = Some r \<longrightarrow> \<not> ao_allow outcome \<and>
      path_absolute (rs_to r) \<and> stays_on_origin (rs_to r))"
proof -
  have "path_absolute ''/''" by (simp add: path_absolute_def browser_trim_def is_slash_def unit_of_def)
  then have "path_absolute (sanitizeReturnTo c ''/'') \<and> stays_on_origin (sanitizeReturnTo c ''/'')" for c
    using return_to_facts(2) [of c "''/''"] path_absolute_stays by metis
  then show ?thesis
    using try_rules_allow [of rules "case denyReason of None \<Rightarrow> ''forbidden'' | Some r \<Rightarrow> r" request]
    by (auto simp: guardDecision_def createAllowListPolicy_def Let_def)
qed

theorem policy_denies_by_default_witness:
  "let admin = requireClaim ''role'' (\<lambda>v. if v = JStr ''admin'' then Matched else Unmatched);
       ask = (\<lambda>role. \<lparr>ar_identity = Some \<lparr>id_subject = ''ada'', id_claims = JObject True [(''role'', JStr role)]\<rparr>,
         ar_action = ''delete'', ar_resource = JUndefined\<rparr>);
       outcome = (\<lambda>role. guardDecision (createAllowListPolicy [admin] None (ask role)) (Some ''/forbidden''))
   in ao_allow (outcome ''admin'') \<and> \<not> ao_allow (outcome ''guest'') \<and>
      (\<exists>r. ao_redirect (outcome ''guest'') = Some r \<and> stays_on_origin (rs_to r))"
proof -
  let ?policy = "createAllowListPolicy [requireClaim ''role'' (\<lambda>v. if v = JStr ''admin'' then Matched else Unmatched)] None"
  let ?ask = "\<lambda>role. \<lparr>ar_identity = Some \<lparr>id_subject = ''ada'', id_claims = JObject True [(''role'', JStr role)]\<rparr>,
    ar_action = ''delete'', ar_resource = JUndefined\<rparr>"
  note claim = policy_denies_by_default [of "[requireClaim ''role'' (\<lambda>v. if v = JStr ''admin'' then Matched else Unmatched)]"
      None _ "Some ''/forbidden''", unfolded Let_def]
  have allow: "ao_allow (guardDecision (?policy (?ask ''admin'')) (Some ''/forbidden''))"
    using claim [of "?ask ''admin''"] by (simp add: requireClaim_def)
  have deny: "\<not> ao_allow (guardDecision (?policy (?ask ''guest'')) (Some ''/forbidden''))"
    using claim [of "?ask ''guest''"] by (simp add: requireClaim_def)
  then obtain r where r: "ao_redirect (guardDecision (?policy (?ask ''guest'')) (Some ''/forbidden'')) = Some r"
    by (simp add: guardDecision_def split: if_splits)
  have "stays_on_origin (rs_to r)" using claim [of "?ask ''guest''"] r by blast
  with allow deny r show ?thesis unfolding Let_def by blast
qed

definition login_segments :: "guard_config \<Rightarrow> string list" where
  "login_segments config = resolve_segments [] (split_on (\<lambda>c. c = CHR ''/'' \<or> c = backslash) []
     (tl (takeWhile (\<lambda>c. c \<noteq> CHR ''?'') (takeWhile (\<lambda>c. c \<noteq> CHR ''#'') (sanitizeReturnTo (Some (gc_loginPath config)) ''/login'')))))"

lemma resolve_nonempty: "segs \<noteq> [] \<Longrightarrow> resolve_segments path segs \<noteq> []"
  by (induction path segs rule: resolve_segments.induct) auto

lemma split_nonempty: "split_on sep current s \<noteq> []"
  by (induction s arbitrary: current) auto

lemma redirect_shape: "\<exists>rest. rs_to (unauthenticatedRedirect url config currentPath) =
    concat (map (\<lambda>seg. ''/'' @ uc_encode_path url seg) (login_segments config)) @ ''?'' @ rest"
  unfolding unauthenticatedRedirect_def url_pathname_def login_segments_def Let_def redirect_signal.select_convs
  by (rule exI, rule refl)


definition sample_url :: url_class where
  "sample_url = \<lparr>uc_encode_path = (\<lambda>s. if s = [] then [] else if is_slash (hd s) then ''x'' else s), uc_encode_hash = (\<lambda>s. s),
     uc_parse_query = (\<lambda>_. []), uc_print_query = (\<lambda>_. [])\<rparr>"


end
