(* ===== verification/Auth_Session.thy ===== *)
theory Auth_Session imports Auth_Guards Failures begin

text \<open>
  The client's session store, \<open>createAuthStore\<close> of \<^verbatim>\<open>packages/auth/src/session/store.ts\<close>: the shown
  snapshot, the credential that allows protected work and its lifetime, status checks (\<open>revalidate\<close>), the
  queue of logins and logouts, leases, expiry and \<open>close\<close>.

  Subscribers run inside \<open>setState\<close> and may call the store back, so publishing a snapshot pushes what the
  code still has to do after it on a stack; while a subscriber runs only calls and its return are inputs.
  The other inputs are what the host and the promises do, in any order: a queued mutation's turn, answers and
  failures of requests, attempts of a status check, timers, and awaits that resume. A promise chain's steps
  between which other code may run are separate inputs. An owner is aborted when it is not the current one;
  lifetimes, timers, flights and mutations are numbered. The retries of a flight are those of theory
  \<open>Retry\<close>, of which the inputs show when an attempt begins, fails or the whole flight settles. Listeners of an
  aborted signal do not call the store. \<open>date_parse\<close> reads a date of the server.
\<close>

section \<open>State\<close>

datatype revocation = Confirmed | NotConfirmed

record snapshot =
  sn_status :: session_status
  sn_identity :: "jsval option"
  sn_expiresAt :: "string option"
  sn_error :: "thrown option"
  sn_revocation :: "revocation option"

datatype mutation_kind = LoginMutation | LogoutMutation

datatype mutation_phase =
    Queued
  | LoginSent
  | LogoutPreparing
  | LogoutSending bool              \<comment> \<open>with a cached proof, which may be replaced once\<close>
  | MutationDone "thrown option"    \<comment> \<open>the operation's outcome; the promise settles next\<close>

record mutation =
  mu_id :: nat
  mu_kind :: mutation_kind
  mu_epoch :: nat
  mu_owner :: nat
  mu_lifetimeOwner :: nat
  mu_phase :: mutation_phase

datatype flight_phase =
    FlightIdle                      \<comment> \<open>between attempts\<close>
  | FlightWaiting "nat option"      \<comment> \<open>for the mutations queued when the attempt began, by the last one\<close>
  | FlightAsking
  | FlightFailed thrown             \<comment> \<open>\<open>then\<close> threw; \<open>catch\<close> runs next\<close>
  | FlightDone "thrown option"      \<comment> \<open>settled, with its failure; \<open>finally\<close> runs next\<close>
  | FlightOver "thrown option"

record status_flight =
  fl_epoch :: nat
  fl_phase :: flight_phase

datatype acquire_phase = AwaitingFlight nat | HeaderReady string | AcquireOver

record acquire =
  ac_lease :: bool                  \<comment> \<open>\<open>acquire\<close>, or \<open>getAuthHeader\<close> alone\<close>
  ac_epoch :: nat
  ac_phase :: acquire_phase

datatype auth_frame =
    NothingLeft
  | EnqueueRest mutation_kind nat   \<comment> \<open>the rest of \<open>enqueue\<close> after \<open>fence\<close>, with the owner read by \<open>login\<close>\<close>
  | RefuseFull

record auth_store =
  au_snapshot :: snapshot
  au_generation :: nat
  au_blocked :: bool
  au_owner :: nat
  au_credential :: "session_response option"
  au_csrf :: "string option"
  au_lifetime :: nat
  au_lifetimeAborted :: bool
  au_expiry :: "nat option"
  au_timers :: nat
  au_flight :: "nat option"
  au_flights :: "nat \<Rightarrow> status_flight"
  au_nextFlight :: nat
  au_queue :: "mutation list"       \<comment> \<open>the unsettled mutations, \<open>pendingMutations\<close> is their number\<close>
  au_nextMutation :: nat
  au_rejectedLogins :: "(nat \<times> nat \<times> thrown) list"  \<comment> \<open>settled logins whose \<open>catch\<close> runs next, with their owner\<close>
  au_acquires :: "nat \<Rightarrow> acquire"
  au_nextAcquire :: nat
  au_stack :: "auth_frame list"

datatype auth_output =
    Published snapshot
  | LifetimeAborted nat
  | FlightAborted nat
  | LoginRequested
  | SessionRequested                \<comment> \<open>the logout's request for a proof\<close>
  | StatusRequested nat
  | LogoutRequested string
  | CallRejected thrown
  | JoinedFlight nat
  | ConfirmResolved
  | MutationSettled nat "thrown option"
  | HeaderReturned nat string
  | Leased nat nat string           \<comment> \<open>the call, the lifetime of the lease and its proof\<close>
  | AcquireRejected nat thrown

type_synonym auth_result = "auth_store \<times> auth_output list"

text \<open>An answer: the body of a session route with the server's time, or of the logout route.\<close>

datatype answer =
    SessionAnswer jsval rat
  | LogoutAnswer
  | Rejected thrown
  | RejectedForbidden thrown        \<comment> \<open>an \<open>HttpError\<close> with status 403\<close>

datatype auth_input =
    Login bool                      \<comment> \<open>whether the caller's signal is aborted\<close>
  | Logout
  | Close
  | Revalidate
  | ConfirmCall
  | Invalidate thrown
  | AcquireCall bool bool rat       \<comment> \<open>a lease or a header, the signal's state, the clock\<close>
  | SubscriberReturned
  | MutationTurn
  | RequestSettled answer
  | OperationAborted thrown         \<comment> \<open>the logout's timeout, or its owner's abort\<close>
  | MutationEnds
  | LoginCaught nat
  | AttemptBegins nat
  | AttemptPasses nat
  | AttemptFails nat
  | FlightSettled nat answer
  | FlightCaught nat
  | FlightFinally nat
  | ExpiryFired nat "thrown option"
  | AcquireResumed nat bool bool    \<comment> \<open>whether the race was lost to the signal, and the signal's state\<close>
  | AcquireReturns nat

definition SESSION_LIFETIME_MS :: rat where "SESSION_LIFETIME_MS = 3600000"
definition SERVER_DATE_LAG_MS :: rat where "SERVER_DATE_LAG_MS = 5000"

abbreviation auth_error :: thrown where "auth_error \<equiv> ThrownError ''AuthError''"

definition signed_out :: snapshot where
  "signed_out = \<lparr>sn_status = StUnauthenticated, sn_identity = None, sn_expiresAt = None, sn_error = None, sn_revocation = None\<rparr>"

definition createAuthStore :: "snapshot option \<Rightarrow> auth_store" where
  "createAuthStore initialSnapshot =
     \<lparr>au_snapshot = (case initialSnapshot of None \<Rightarrow> signed_out | Some s \<Rightarrow> s), au_generation = 0, au_blocked = False,
      au_owner = 0, au_credential = None, au_csrf = None, au_lifetime = 0, au_lifetimeAborted = False, au_expiry = None,
      au_timers = 0, au_flight = None, au_flights = (\<lambda>_. \<lparr>fl_epoch = 0, fl_phase = FlightOver None\<rparr>), au_nextFlight = 0,
      au_queue = [], au_nextMutation = 0, au_rejectedLogins = [], au_acquires = (\<lambda>_. \<lparr>ac_lease = False, ac_epoch = 0, ac_phase = AcquireOver\<rparr>),
      au_nextAcquire = 0, au_stack = []\<rparr>"

section \<open>Ending protected work\<close>

definition stopProtectedWork :: "auth_store \<Rightarrow> auth_result" where
  "stopProtectedWork s =
     (s\<lparr>au_credential := None, au_lifetimeAborted := True, au_expiry := None\<rparr>,
      if au_lifetimeAborted s then [] else [LifetimeAborted (au_lifetime s)])"

definition asError :: "thrown \<Rightarrow> thrown" where
  "asError e = (if e = ThrownValue then auth_error else e)"

definition publish_snapshot :: "snapshot \<Rightarrow> auth_frame \<Rightarrow> auth_store \<Rightarrow> auth_result" where
  "publish_snapshot snap rest s = (s\<lparr>au_snapshot := snap, au_stack := rest # au_stack s\<rparr>, [Published snap])"

definition clear :: "thrown option \<Rightarrow> revocation option \<Rightarrow> auth_frame \<Rightarrow> auth_store \<Rightarrow> auth_result" where
  "clear error revocation rest s =
     (let (s1, out1) = stopProtectedWork s;
          (s2, out2) = publish_snapshot \<lparr>sn_status = StUnauthenticated, sn_identity = None, sn_expiresAt = None,
            sn_error = map_option asError error, sn_revocation = revocation\<rparr> rest s1
      in (s2, out1 @ out2))"

fun couldNotConfirm :: "thrown \<Rightarrow> bool" where
  "couldNotConfirm (ThrownExhausted name n cause) =
     ((case cause of ThrownRemote f \<Rightarrow> rf_authentication f = Some AuthUnavailable | _ \<Rightarrow> False) \<or> isRetryable cause)"
| "couldNotConfirm (ThrownRemote f) = (rf_authentication f = Some AuthUnavailable \<or> isRetryable (ThrownRemote f))"
| "couldNotConfirm cause = isRetryable cause"

definition settleFailedStatus :: "thrown \<Rightarrow> auth_store \<Rightarrow> auth_result" where
  "settleFailedStatus cause s =
     (if couldNotConfirm cause then
        (let (s1, out1) = stopProtectedWork s;
             (s2, out2) = publish_snapshot \<lparr>sn_status = StUnconfirmed, sn_identity = sn_identity (au_snapshot s), sn_expiresAt = None,
               sn_error = Some (asError cause), sn_revocation = None\<rparr> NothingLeft s1
         in (s2, out1 @ out2))
      else clear (Some cause) None NothingLeft (s\<lparr>au_blocked := True\<rparr>))"

definition next_generation :: "auth_store \<Rightarrow> auth_store" where
  "next_generation s = s\<lparr>au_generation := au_generation s + 1\<rparr>"

definition abort_flight :: "auth_store \<Rightarrow> auth_output list" where
  "abort_flight s = (case au_flight s of None \<Rightarrow> [] | Some f \<Rightarrow> [FlightAborted f])"

definition fence :: "revocation option \<Rightarrow> auth_frame \<Rightarrow> auth_store \<Rightarrow> auth_result" where
  "fence revocation rest s =
     (let (s1, out1) = clear None revocation rest ((next_generation s)\<lparr>au_flight := None\<rparr>) in (s1, abort_flight s @ out1))"

section \<open>Adopting a session\<close>

definition received :: "(string \<Rightarrow> jsnum) \<Rightarrow> jsval \<Rightarrow> thrown + session_response" where
  "received date_parse body =
     (case decodeSessionResponse date_parse body of None \<Rightarrow> Inl (ThrownRemote failureDecodeError) | Some r \<Rightarrow> Inr r)"

definition adopt :: "(string \<Rightarrow> jsnum) \<Rightarrow> session_response \<Rightarrow> rat \<Rightarrow> auth_store \<Rightarrow> (thrown + auth_result)" where
  "adopt date_parse v serverNow s =
     (let remaining = the (parseRfc3339 date_parse (sr_expiresAt v)) - serverNow
      in if remaining \<le> 0 \<or> SESSION_LIFETIME_MS + SERVER_DATE_LAG_MS < remaining then Inl auth_error
         else Inr (publish_snapshot \<lparr>sn_status = StAuthenticated, sn_identity = Some (sr_identity v), sn_expiresAt = Some (sr_expiresAt v),
             sn_error = None, sn_revocation = None\<rparr> NothingLeft
           (s\<lparr>au_lifetime := (if au_lifetimeAborted s then au_lifetime s + 1 else au_lifetime s), au_lifetimeAborted := False,
              au_credential := Some v, au_blocked := False, au_csrf := Some (sr_csrfToken v),
              au_expiry := Some (au_timers s), au_timers := au_timers s + 1\<rparr>)))"

definition expiry_fired :: "nat \<Rightarrow> thrown option \<Rightarrow> auth_store \<Rightarrow> auth_result" where
  "expiry_fired timer failure s =
     (if au_expiry s \<noteq> Some timer then (s, [])
      else let (s1, out1) = clear (Some (case failure of None \<Rightarrow> auth_error | Some e \<Rightarrow> e)) None NothingLeft
                 ((next_generation s)\<lparr>au_blocked := True\<rparr>)
        in (s1, abort_flight s @ out1))"

section \<open>Status checks\<close>

definition set_flight :: "nat \<Rightarrow> flight_phase \<Rightarrow> auth_store \<Rightarrow> auth_store" where
  "set_flight f phase s = s\<lparr>au_flights := (au_flights s)(f := (au_flights s f)\<lparr>fl_phase := phase\<rparr>)\<rparr>"

text \<open>What the attempt waits for: the promise \<open>mutations\<close> at that moment.\<close>

definition queue_tail :: "auth_store \<Rightarrow> nat option" where
  "queue_tail s = (if au_queue s = [] then None else Some (mu_id (last (au_queue s))))"

text \<open>The rejection of a check after the session has ended.\<close>

definition ended_failure :: "thrown option \<Rightarrow> thrown" where
  "ended_failure cause =
     (case cause of
        Some (ThrownRemote f) \<Rightarrow>
          if \<not> rf_retryable f then ThrownRemote f
          else ThrownRemote (remoteFailure ''auth/session-ended'' \<lparr>fa_code = Unavailable, fa_message = [],
            fa_reason = Some ''AUTH_STORE_UNAVAILABLE'', fa_domain = None, fa_metadata = None, fa_traceId = None,
            fa_violations = [], fa_retryable = False, fa_retryAfterMs = None, fa_authentication = Some AuthUnavailable\<rparr>)
      | _ \<Rightarrow>
          if cause = None \<or> cause = Some auth_error then
            ThrownRemote (remoteFailure ''auth/session-ended'' \<lparr>fa_code = Unauthenticated, fa_message = ''Sign in to continue.'',
              fa_reason = Some ''SESSION_INVALID'', fa_domain = None, fa_metadata = None, fa_traceId = None,
              fa_violations = [], fa_retryable = False, fa_retryAfterMs = None, fa_authentication = None\<rparr>)
          else ThrownRemote (remoteFailure ''auth/session-ended'' \<lparr>fa_code = Unavailable, fa_message = [],
            fa_reason = Some ''AUTH_STORE_UNAVAILABLE'', fa_domain = None, fa_metadata = None, fa_traceId = None,
            fa_violations = [], fa_retryable = False, fa_retryAfterMs = None, fa_authentication = Some AuthUnavailable\<rparr>))"

text \<open>The flight a caller joins; a new one begins its first attempt at once.\<close>

definition revalidate :: "auth_store \<Rightarrow> auth_store \<times> (thrown + nat)" where
  "revalidate s =
     (if au_blocked s then (s, Inl (ended_failure (sn_error (au_snapshot s))))
      else case au_flight s of
        Some f \<Rightarrow> (s, Inr f)
      | None \<Rightarrow>
          (let f = au_nextFlight s
           in (s\<lparr>au_flights := (au_flights s)(f := \<lparr>fl_epoch = au_generation s, fl_phase = FlightWaiting (queue_tail s)\<rparr>),
                 au_nextFlight := f + 1, au_flight := Some f\<rparr>, Inr f)))"

definition attempt_passes :: "nat \<Rightarrow> auth_store \<Rightarrow> auth_result" where
  "attempt_passes f s =
     (case fl_phase (au_flights s f) of
        FlightWaiting t \<Rightarrow>
          if (case t of None \<Rightarrow> False | Some m \<Rightarrow> m \<in> mu_id ` set (au_queue s)) then (s, [])
          else if fl_epoch (au_flights s f) \<noteq> au_generation s then (set_flight f FlightIdle s, [])
          else (set_flight f FlightAsking s, [StatusRequested f])
      | _ \<Rightarrow> (s, []))"

definition flight_unsettled :: "status_flight \<Rightarrow> bool" where
  "flight_unsettled fl = (case fl_phase fl of FlightDone _ \<Rightarrow> False | FlightOver _ \<Rightarrow> False | _ \<Rightarrow> True)"

text \<open>\<open>catch\<close> of the flight.\<close>

definition flight_failed :: "nat \<Rightarrow> thrown \<Rightarrow> auth_store \<Rightarrow> auth_result" where
  "flight_failed f cause s =
     (let s1 = set_flight f (FlightDone (Some cause)) s
      in if fl_epoch (au_flights s f) = au_generation s then settleFailedStatus cause s1 else (s1, []))"

definition flight_settled :: "(string \<Rightarrow> jsnum) \<Rightarrow> nat \<Rightarrow> answer \<Rightarrow> auth_store \<Rightarrow> auth_result" where
  "flight_settled date_parse f answer s =
     (if \<not> flight_unsettled (au_flights s f) \<or> (\<exists>e. fl_phase (au_flights s f) = FlightFailed e) then (s, [])
      else case answer of
        Rejected cause \<Rightarrow> flight_failed f cause s
      | RejectedForbidden cause \<Rightarrow> flight_failed f cause s
      | LogoutAnswer \<Rightarrow> (s, [])
      | SessionAnswer body serverNow \<Rightarrow>
          if fl_phase (au_flights s f) \<noteq> FlightAsking then (s, [])
          else (case received date_parse body of
              Inl cause \<Rightarrow> flight_failed f cause s
            | Inr v \<Rightarrow>
                if fl_epoch (au_flights s f) \<noteq> au_generation s then (set_flight f (FlightFailed abort_error) s, [])
                else (case adopt date_parse v serverNow s of
                    Inl cause \<Rightarrow> (set_flight f (FlightFailed cause) s, [])
                  | Inr (s1, out1) \<Rightarrow> (set_flight f (FlightDone None) s1, out1))))"

definition flight_finally :: "nat \<Rightarrow> auth_store \<Rightarrow> auth_result" where
  "flight_finally f s =
     (case fl_phase (au_flights s f) of
        FlightDone r \<Rightarrow> ((set_flight f (FlightOver r) s)\<lparr>au_flight := (if au_flight s = Some f then None else au_flight s)\<rparr>, [])
      | _ \<Rightarrow> (s, []))"

section \<open>Logins and logouts\<close>

definition enqueue_mutation :: "mutation_kind \<Rightarrow> nat \<Rightarrow> revocation option \<Rightarrow> auth_store \<Rightarrow> auth_result" where
  "enqueue_mutation kind lifetimeOwner revocation s =
     (if 16 \<le> length (au_queue s)
      then (case revocation of None \<Rightarrow> (s, [CallRejected auth_error]) | Some r \<Rightarrow> fence revocation RefuseFull s)
      else fence revocation (EnqueueRest kind lifetimeOwner) s)"

text \<open>What remains of a call once the subscribers have returned; \<open>fence\<close> reads the generation after them.\<close>

fun frame_resumes :: "auth_frame \<Rightarrow> auth_store \<Rightarrow> auth_result" where
  "frame_resumes NothingLeft s = (s, [])"
| "frame_resumes RefuseFull s = (s, [CallRejected auth_error])"
| "frame_resumes (EnqueueRest kind lifetimeOwner) s =
     (s\<lparr>au_queue := au_queue s @ [\<lparr>mu_id = au_nextMutation s, mu_kind = kind, mu_epoch = au_generation s,
          mu_owner = au_owner s, mu_lifetimeOwner = lifetimeOwner, mu_phase = Queued\<rparr>],
        au_nextMutation := au_nextMutation s + 1\<rparr>, [])"

definition login :: "bool \<Rightarrow> auth_store \<Rightarrow> auth_result" where
  "login aborted s =
     (if aborted then (s, [CallRejected abort_error]) else enqueue_mutation LoginMutation (au_owner s) None s)"

definition logout :: "auth_store \<Rightarrow> auth_result" where
  "logout s = enqueue_mutation LogoutMutation (au_owner s) (Some NotConfirmed) (s\<lparr>au_blocked := True\<rparr>)"

text \<open>The phase of the mutation at the head, the only one that has begun.\<close>

definition set_phase :: "mutation_phase \<Rightarrow> auth_store \<Rightarrow> auth_store" where
  "set_phase phase s = s\<lparr>au_queue := (hd (au_queue s))\<lparr>mu_phase := phase\<rparr> # tl (au_queue s)\<rparr>"

definition begin_mutation :: "auth_store \<Rightarrow> auth_result" where
  "begin_mutation s =
     (case au_queue s of
        [] \<Rightarrow> (s, [])
      | mu # _ \<Rightarrow>
          if mu_phase mu \<noteq> Queued then (s, [])
          else if mu_owner mu \<noteq> au_owner s then (set_phase (MutationDone (Some abort_error)) s, [])
          else (case mu_kind mu of
              LoginMutation \<Rightarrow> (set_phase LoginSent s, [LoginRequested])
            | LogoutMutation \<Rightarrow>
                (case au_csrf s of
                   None \<Rightarrow> (set_phase LogoutPreparing s, [SessionRequested])
                 | Some cached \<Rightarrow> ((set_phase (LogoutSending True) s)\<lparr>au_csrf := None\<rparr>, [LogoutRequested cached]))))"

definition logout_failed :: "nat \<Rightarrow> thrown \<Rightarrow> auth_store \<Rightarrow> auth_result" where
  "logout_failed epoch cause s =
     (let s1 = set_phase (MutationDone (Some cause)) s
      in if epoch = au_generation s then clear (Some cause) (Some NotConfirmed) NothingLeft s1 else (s1, []))"

definition logout_confirmed :: "nat \<Rightarrow> auth_store \<Rightarrow> auth_result" where
  "logout_confirmed epoch s =
     (let s1 = set_phase (MutationDone None) s
      in if epoch = au_generation s then clear None (Some Confirmed) NothingLeft s1 else (s1, []))"

definition login_answered :: "(string \<Rightarrow> jsnum) \<Rightarrow> nat \<Rightarrow> answer \<Rightarrow> auth_store \<Rightarrow> auth_result" where
  "login_answered date_parse epoch answer s =
     (case answer of
        Rejected cause \<Rightarrow> (set_phase (MutationDone (Some cause)) s, [])
      | RejectedForbidden cause \<Rightarrow> (set_phase (MutationDone (Some cause)) s, [])
      | LogoutAnswer \<Rightarrow> (s, [])
      | SessionAnswer body serverNow \<Rightarrow>
          (case received date_parse body of
             Inl cause \<Rightarrow> (set_phase (MutationDone (Some cause)) s, [])
           | Inr v \<Rightarrow>
               (let s1 = s\<lparr>au_csrf := Some (sr_csrfToken v)\<rparr>
                in if epoch \<noteq> au_generation s then (set_phase (MutationDone None) s1, [])
                   else (case adopt date_parse v serverNow s1 of
                       Inl cause \<Rightarrow> (set_phase (MutationDone (Some cause)) s1, [])
                     | Inr (s2, out2) \<Rightarrow> (set_phase (MutationDone None) s2, out2)))))"

definition proof_answered :: "(string \<Rightarrow> jsnum) \<Rightarrow> nat \<Rightarrow> answer \<Rightarrow> auth_store \<Rightarrow> auth_result" where
  "proof_answered date_parse epoch answer s =
     (case answer of
        Rejected cause \<Rightarrow> logout_failed epoch cause s
      | RejectedForbidden cause \<Rightarrow> logout_failed epoch cause s
      | LogoutAnswer \<Rightarrow> (s, [])
      | SessionAnswer body serverNow \<Rightarrow>
          (case received date_parse body of
             Inl cause \<Rightarrow> logout_failed epoch cause s
           | Inr v \<Rightarrow> (set_phase (LogoutSending False) s, [LogoutRequested (sr_csrfToken v)])))"

definition logout_answered :: "bool \<Rightarrow> nat \<Rightarrow> answer \<Rightarrow> auth_store \<Rightarrow> auth_result" where
  "logout_answered cached epoch answer s =
     (case answer of
        Rejected cause \<Rightarrow> logout_failed epoch cause s
      | RejectedForbidden cause \<Rightarrow>
          if cached then (set_phase LogoutPreparing s, [SessionRequested]) else logout_failed epoch cause s
      | LogoutAnswer \<Rightarrow> logout_confirmed epoch s
      | SessionAnswer _ _ \<Rightarrow> (s, []))"

definition request_settled :: "(string \<Rightarrow> jsnum) \<Rightarrow> answer \<Rightarrow> auth_store \<Rightarrow> auth_result" where
  "request_settled date_parse answer s =
     (case au_queue s of
        [] \<Rightarrow> (s, [])
      | mu # _ \<Rightarrow>
          (case mu_phase mu of
             LoginSent \<Rightarrow> login_answered date_parse (mu_epoch mu) answer s
           | LogoutPreparing \<Rightarrow> proof_answered date_parse (mu_epoch mu) answer s
           | LogoutSending cached \<Rightarrow> logout_answered cached (mu_epoch mu) answer s
           | _ \<Rightarrow> (s, [])))"

definition operation_aborted :: "thrown \<Rightarrow> auth_store \<Rightarrow> auth_result" where
  "operation_aborted cause s =
     (case au_queue s of
        [] \<Rightarrow> (s, [])
      | mu # _ \<Rightarrow>
          (case mu_phase mu of
             LogoutPreparing \<Rightarrow> logout_failed (mu_epoch mu) cause s
           | LogoutSending _ \<Rightarrow> logout_failed (mu_epoch mu) cause s
           | _ \<Rightarrow> (s, [])))"

definition mutation_ends :: "auth_store \<Rightarrow> auth_result" where
  "mutation_ends s =
     (case au_queue s of
        [] \<Rightarrow> (s, [])
      | mu # rest \<Rightarrow>
          (case mu_phase mu of
             MutationDone result \<Rightarrow>
               (s\<lparr>au_queue := rest,
                  au_rejectedLogins := au_rejectedLogins s @
                    (case result of
                       Some cause \<Rightarrow> if mu_kind mu = LoginMutation then [(mu_id mu, mu_lifetimeOwner mu, cause)] else []
                     | None \<Rightarrow> [])\<rparr>, [MutationSettled (mu_id mu) result])
           | _ \<Rightarrow> (s, [])))"

definition login_caught :: "nat \<Rightarrow> auth_store \<Rightarrow> auth_result" where
  "login_caught call s =
     (case map_of (au_rejectedLogins s) call of
        None \<Rightarrow> (s, [])
      | Some (lifetimeOwner, cause) \<Rightarrow>
          (let s1 = s\<lparr>au_rejectedLogins := filter (\<lambda>(i, _). i \<noteq> call) (au_rejectedLogins s)\<rparr>
           in if lifetimeOwner = au_owner s \<and> au_queue s = [] then clear (Some cause) None NothingLeft s1 else (s1, [])))"

section \<open>Leases, invalidation and close\<close>

definition set_acquire :: "nat \<Rightarrow> acquire_phase \<Rightarrow> auth_store \<Rightarrow> auth_store" where
  "set_acquire c phase s = s\<lparr>au_acquires := (au_acquires s)(c := (au_acquires s c)\<lparr>ac_phase := phase\<rparr>)\<rparr>"

text \<open>The end of \<open>getAuthHeader\<close>.\<close>

definition read_header :: "nat \<Rightarrow> bool \<Rightarrow> auth_store \<Rightarrow> auth_result" where
  "read_header c aborted s =
     (if aborted then (set_acquire c AcquireOver s, [AcquireRejected c abort_error])
      else case au_credential s of
        None \<Rightarrow> (set_acquire c AcquireOver s, [AcquireRejected c auth_error])
      | Some v \<Rightarrow> (set_acquire c (HeaderReady (sr_csrfToken v)) s, []))"

definition begin_acquire :: "bool \<Rightarrow> auth_store \<Rightarrow> auth_store" where
  "begin_acquire lease s =
     s\<lparr>au_acquires := (au_acquires s)(au_nextAcquire s := \<lparr>ac_lease = lease, ac_epoch = au_generation s, ac_phase = AcquireOver\<rparr>),
       au_nextAcquire := au_nextAcquire s + 1\<rparr>"

definition acquire_call :: "(string \<Rightarrow> jsnum) \<Rightarrow> bool \<Rightarrow> bool \<Rightarrow> rat \<Rightarrow> auth_store \<Rightarrow> auth_result" where
  "acquire_call date_parse lease aborted now s =
     (let c = au_nextAcquire s; s1 = begin_acquire lease s
      in if (case au_credential s of None \<Rightarrow> True | Some v \<Rightarrow> the (parseRfc3339 date_parse (sr_expiresAt v)) \<le> now)
         then (case revalidate s1 of
             (s2, Inl cause) \<Rightarrow> (s2, [AcquireRejected c cause])
           | (s2, Inr f) \<Rightarrow> (set_acquire c (AwaitingFlight f) s2, [JoinedFlight f]))
         else read_header c aborted s1)"

definition acquire_resumed :: "nat \<Rightarrow> bool \<Rightarrow> bool \<Rightarrow> auth_store \<Rightarrow> auth_result" where
  "acquire_resumed c lost aborted s =
     (case ac_phase (au_acquires s c) of
        AwaitingFlight f \<Rightarrow>
          if lost then (set_acquire c AcquireOver s, [AcquireRejected c abort_error])
          else (case fl_phase (au_flights s f) of
              FlightDone None \<Rightarrow> read_header c aborted s
            | FlightOver None \<Rightarrow> read_header c aborted s
            | FlightDone (Some cause) \<Rightarrow> (set_acquire c AcquireOver s, [AcquireRejected c cause])
            | FlightOver (Some cause) \<Rightarrow> (set_acquire c AcquireOver s, [AcquireRejected c cause])
            | _ \<Rightarrow> (s, []))
      | _ \<Rightarrow> (s, []))"

definition acquire_returns :: "nat \<Rightarrow> auth_store \<Rightarrow> auth_result" where
  "acquire_returns c s =
     (case ac_phase (au_acquires s c) of
        HeaderReady token \<Rightarrow>
          (set_acquire c AcquireOver s,
           [if \<not> ac_lease (au_acquires s c) then HeaderReturned c token
            else if ac_epoch (au_acquires s c) \<noteq> au_generation s then AcquireRejected c abort_error
            else Leased c (au_lifetime s) token])
      | _ \<Rightarrow> (s, []))"

definition invalidate_session :: "thrown \<Rightarrow> auth_store \<Rightarrow> auth_result" where
  "invalidate_session cause s =
     (let (s1, out1) = clear (Some cause) None NothingLeft ((next_generation s)\<lparr>au_blocked := True, au_flight := None\<rparr>)
      in (s1, abort_flight s @ out1))"

definition close_session :: "auth_store \<Rightarrow> auth_result" where
  "close_session s =
     (let (s1, out1) = stopProtectedWork ((next_generation s)\<lparr>au_owner := au_owner s + 1, au_flight := None\<rparr>)
      in (s1, abort_flight s @ out1))"

definition joined :: "auth_store \<times> (thrown + nat) \<Rightarrow> auth_result" where
  "joined r = (fst r, [case snd r of Inl cause \<Rightarrow> CallRejected cause | Inr f \<Rightarrow> JoinedFlight f])"

definition confirm :: "snapshot option \<Rightarrow> auth_store \<Rightarrow> auth_result" where
  "confirm initialSnapshot s =
     (if map_option sn_status initialSnapshot = Some StUnauthenticated then (s, [ConfirmResolved]) else joined (revalidate s))"

section \<open>The machine\<close>

text \<open>Calls from outside, which a subscriber may make as well.\<close>

fun auth_call :: "(string \<Rightarrow> jsnum) \<Rightarrow> snapshot option \<Rightarrow> auth_input \<Rightarrow> auth_store \<Rightarrow> auth_result option" where
  "auth_call date_parse initial (Login aborted) s = Some (login aborted s)"
| "auth_call date_parse initial Logout s = Some (logout s)"
| "auth_call date_parse initial Close s = Some (close_session s)"
| "auth_call date_parse initial Revalidate s = Some (joined (revalidate s))"
| "auth_call date_parse initial ConfirmCall s = Some (confirm initial s)"
| "auth_call date_parse initial (Invalidate cause) s = Some (invalidate_session cause s)"
| "auth_call date_parse initial (AcquireCall lease aborted now) s = Some (acquire_call date_parse lease aborted now s)"
| "auth_call date_parse initial _ s = None"

definition attempt_begins :: "nat \<Rightarrow> auth_store \<Rightarrow> auth_result" where
  "attempt_begins f s =
     (if fl_phase (au_flights s f) = FlightIdle then (set_flight f (FlightWaiting (queue_tail s)) s, []) else (s, []))"

definition attempt_fails :: "nat \<Rightarrow> auth_store \<Rightarrow> auth_result" where
  "attempt_fails f s =
     (case fl_phase (au_flights s f) of
        FlightWaiting _ \<Rightarrow> (set_flight f FlightIdle s, [])
      | FlightAsking \<Rightarrow> (set_flight f FlightIdle s, [])
      | _ \<Rightarrow> (s, []))"

definition flight_caught :: "nat \<Rightarrow> auth_store \<Rightarrow> auth_result" where
  "flight_caught f s =
     (case fl_phase (au_flights s f) of FlightFailed cause \<Rightarrow> flight_failed f cause s | _ \<Rightarrow> (s, []))"

text \<open>What the host and the promises do.\<close>

fun auth_event :: "(string \<Rightarrow> jsnum) \<Rightarrow> auth_input \<Rightarrow> auth_store \<Rightarrow> auth_result" where
  "auth_event date_parse MutationTurn s = begin_mutation s"
| "auth_event date_parse (RequestSettled answer) s = request_settled date_parse answer s"
| "auth_event date_parse (OperationAborted cause) s = operation_aborted cause s"
| "auth_event date_parse MutationEnds s = mutation_ends s"
| "auth_event date_parse (LoginCaught call) s = login_caught call s"
| "auth_event date_parse (AttemptBegins f) s = attempt_begins f s"
| "auth_event date_parse (AttemptPasses f) s = attempt_passes f s"
| "auth_event date_parse (AttemptFails f) s = attempt_fails f s"
| "auth_event date_parse (FlightSettled f answer) s = flight_settled date_parse f answer s"
| "auth_event date_parse (FlightCaught f) s = flight_caught f s"
| "auth_event date_parse (FlightFinally f) s = flight_finally f s"
| "auth_event date_parse (ExpiryFired timer failure) s = expiry_fired timer failure s"
| "auth_event date_parse (AcquireResumed c lost aborted) s = acquire_resumed c lost aborted s"
| "auth_event date_parse (AcquireReturns c) s = acquire_returns c s"
| "auth_event date_parse _ s = (s, [])"

definition auth_step :: "(string \<Rightarrow> jsnum) \<Rightarrow> snapshot option \<Rightarrow> auth_store \<Rightarrow> auth_input \<Rightarrow> auth_result" where
  "auth_step date_parse initial s i =
     (case auth_call date_parse initial i s of
        Some r \<Rightarrow> r
      | None \<Rightarrow>
          (case au_stack s of
             frame # stack \<Rightarrow> if i = SubscriberReturned then frame_resumes frame (s\<lparr>au_stack := stack\<rparr>) else (s, [])
           | [] \<Rightarrow> auth_event date_parse i s))"

end
