(* ===== verification/Auth_Session_Safety.thy ===== *)
theory Auth_Session_Safety imports Auth_Session begin

text \<open>
  What the session store of theory \<open>Auth_Session\<close> keeps over every run: leases end with their session and
  the end of a session is final.
\<close>

section \<open>Leases end with the session\<close>

text \<open>What the outputs so far owe the lifetimes: all but a live current one were aborted, and a lease or a
  header that is being returned was read from an adopted session.\<close>

definition lifetimes_kept :: "auth_output list \<Rightarrow> auth_store \<Rightarrow> bool" where
  "lifetimes_kept out s \<longleftrightarrow>
     (\<forall>l \<le> au_lifetime s. LifetimeAborted l \<in> set out \<or> l = au_lifetime s \<and> \<not> au_lifetimeAborted s) \<and>
     (\<forall>c l token. Leased c l token \<in> set out \<longrightarrow> l \<le> au_lifetime s \<and> au_timers s \<noteq> 0) \<and>
     (\<forall>c token. ac_phase (au_acquires s c) = HeaderReady token \<longrightarrow> au_timers s \<noteq> 0) \<and>
     (au_credential s = None \<and> \<not> au_lifetimeAborted s \<longrightarrow> au_timers s = 0)"

text \<open>A credential is held only while its session is shown, its expiry is armed and its lifetime lives.\<close>

definition credential_shown :: "auth_store \<Rightarrow> bool" where
  "credential_shown s \<longleftrightarrow>
     (\<forall>v. au_credential s = Some v \<longrightarrow>
        sn_status (au_snapshot s) = StAuthenticated \<and> sn_identity (au_snapshot s) = Some (sr_identity v) \<and>
        au_expiry s \<noteq> None \<and> \<not> au_lifetimeAborted s \<and> \<not> au_blocked s \<and> au_timers s \<noteq> 0)"

definition session_kept :: "auth_output list \<Rightarrow> auth_store \<Rightarrow> bool" where
  "session_kept out s \<longleftrightarrow> lifetimes_kept out s \<and> credential_shown s"

named_theorems auth_simps

lemma kept_fields [auth_simps]:
  "lifetimes_kept out (s\<lparr>au_generation := a\<rparr>) = lifetimes_kept out s"
  "lifetimes_kept out (s\<lparr>au_blocked := b\<rparr>) = lifetimes_kept out s"
  "lifetimes_kept out (s\<lparr>au_owner := c\<rparr>) = lifetimes_kept out s"
  "lifetimes_kept out (s\<lparr>au_csrf := d\<rparr>) = lifetimes_kept out s"
  "lifetimes_kept out (s\<lparr>au_flight := e\<rparr>) = lifetimes_kept out s"
  "lifetimes_kept out (s\<lparr>au_flights := f\<rparr>) = lifetimes_kept out s"
  "lifetimes_kept out (s\<lparr>au_nextFlight := g\<rparr>) = lifetimes_kept out s"
  "lifetimes_kept out (s\<lparr>au_queue := h\<rparr>) = lifetimes_kept out s"
  "lifetimes_kept out (s\<lparr>au_nextMutation := i\<rparr>) = lifetimes_kept out s"
  "lifetimes_kept out (s\<lparr>au_rejectedLogins := j\<rparr>) = lifetimes_kept out s"
  "lifetimes_kept out (s\<lparr>au_nextAcquire := k\<rparr>) = lifetimes_kept out s"
  "lifetimes_kept out (s\<lparr>au_stack := l\<rparr>) = lifetimes_kept out s"
  "lifetimes_kept out (s\<lparr>au_snapshot := m\<rparr>) = lifetimes_kept out s"
  by (simp_all add: lifetimes_kept_def)

lemma shown_fields [auth_simps]:
  "credential_shown (s\<lparr>au_generation := a\<rparr>) = credential_shown s"
  "credential_shown (s\<lparr>au_owner := c\<rparr>) = credential_shown s"
  "credential_shown (s\<lparr>au_csrf := d\<rparr>) = credential_shown s"
  "credential_shown (s\<lparr>au_flight := e\<rparr>) = credential_shown s"
  "credential_shown (s\<lparr>au_flights := f\<rparr>) = credential_shown s"
  "credential_shown (s\<lparr>au_nextFlight := g\<rparr>) = credential_shown s"
  "credential_shown (s\<lparr>au_queue := h\<rparr>) = credential_shown s"
  "credential_shown (s\<lparr>au_nextMutation := i\<rparr>) = credential_shown s"
  "credential_shown (s\<lparr>au_rejectedLogins := j\<rparr>) = credential_shown s"
  "credential_shown (s\<lparr>au_acquires := k'\<rparr>) = credential_shown s"
  "credential_shown (s\<lparr>au_nextAcquire := k\<rparr>) = credential_shown s"
  "credential_shown (s\<lparr>au_stack := l\<rparr>) = credential_shown s"
  by (simp_all add: credential_shown_def)

fun quiet_output :: "auth_output \<Rightarrow> bool" where
  "quiet_output (LifetimeAborted l) = False"
| "quiet_output (Leased c l token) = False"
| "quiet_output _ = True"

lemma kept_quiet: "lifetimes_kept out s \<Longrightarrow> list_all quiet_output out' \<Longrightarrow> lifetimes_kept (out @ out') s"
  unfolding lifetimes_kept_def list_all_iff by (metis Un_iff set_append quiet_output.simps(2))

lemma kept_cons: "lifetimes_kept out s \<Longrightarrow> quiet_output x \<Longrightarrow> lifetimes_kept (out @ x # out') s = lifetimes_kept (out @ out') s"
  unfolding lifetimes_kept_def by auto

lemma stop_kept:
  assumes "lifetimes_kept out s"
  shows "session_kept (out @ snd (stopProtectedWork s)) (fst (stopProtectedWork s))"
  using assms unfolding session_kept_def lifetimes_kept_def credential_shown_def stopProtectedWork_def by auto

lemma shown_none: "au_credential s = None \<Longrightarrow> credential_shown s"
  by (simp add: credential_shown_def)

lemma stop_none [auth_simps]: "au_credential (fst (stopProtectedWork s)) = None"
  by (simp add: stopProtectedWork_def)

lemma publish_kept:
  assumes "lifetimes_kept out s" "au_credential s = None"
  shows "session_kept (out @ snd (publish_snapshot snap rest s)) (fst (publish_snapshot snap rest s))"
proof -
  have "lifetimes_kept (out @ [Published snap]) s" by (rule kept_quiet [OF assms(1)]) simp
  then show ?thesis using assms(2) by (simp add: publish_snapshot_def session_kept_def auth_simps shown_none)
qed

lemma clear_kept:
  assumes "lifetimes_kept out s"
  shows "session_kept (out @ snd (clear error revocation rest s)) (fst (clear error revocation rest s))"
proof -
  have s: "lifetimes_kept (out @ snd (stopProtectedWork s)) (fst (stopProtectedWork s))"
    using stop_kept [OF assms] by (simp add: session_kept_def)
  from publish_kept [OF this stop_none] show ?thesis
    by (simp add: clear_def split_beta Let_def)
qed

lemma kept_silent: "session_kept out s \<Longrightarrow> list_all quiet_output out' \<Longrightarrow> session_kept (out @ out') s"
  by (simp add: session_kept_def kept_quiet)

lemma kept_lifetimes: "session_kept out s \<Longrightarrow> lifetimes_kept out s"
  by (simp add: session_kept_def)

lemma abort_flight_quiet [auth_simps]: "list_all quiet_output (abort_flight s)"
  by (simp add: abort_flight_def split: option.split)

lemma set_flight_kept [auth_simps]:
  "session_kept out (set_flight f phase s) = session_kept out s"
  "lifetimes_kept out (set_flight f phase s) = lifetimes_kept out s"
  "credential_shown (set_flight f phase s) = credential_shown s"
  by (simp_all add: set_flight_def session_kept_def auth_simps)

lemma set_phase_kept [auth_simps]:
  "session_kept out (set_phase phase s) = session_kept out s"
  "lifetimes_kept out (set_phase phase s) = lifetimes_kept out s"
  "credential_shown (set_phase phase s) = credential_shown s"
  by (simp_all add: set_phase_def session_kept_def auth_simps)

text \<open>The steps that end protected work: some quiet outputs, then \<open>clear\<close>.\<close>

lemma ended_kept:
  assumes "lifetimes_kept out s" "lifetimes_kept out s \<Longrightarrow> lifetimes_kept out s1" "list_all quiet_output out1"
  shows "session_kept (out @ out1 @ snd (clear error revocation rest s1)) (fst (clear error revocation rest s1))"
  using clear_kept [OF kept_quiet [OF assms(2) [OF assms(1)] assms(3)]] by simp

lemma fence_kept:
  assumes "lifetimes_kept out s"
  shows "session_kept (out @ snd (fence revocation rest s)) (fst (fence revocation rest s))"
  using ended_kept [OF assms, of "(next_generation s)\<lparr>au_flight := None\<rparr>" "abort_flight s" None revocation rest]
  by (simp add: fence_def split_beta Let_def next_generation_def auth_simps)

lemma settle_failed_kept:
  assumes "lifetimes_kept out s"
  shows "session_kept (out @ snd (settleFailedStatus cause s)) (fst (settleFailedStatus cause s))"
proof -
  have s: "lifetimes_kept (out @ snd (stopProtectedWork s)) (fst (stopProtectedWork s))"
    using stop_kept [OF assms] by (simp add: session_kept_def)
  have c: "lifetimes_kept out (s\<lparr>au_blocked := True\<rparr>)" using assms by (simp add: auth_simps)
  show ?thesis using publish_kept [OF s stop_none] clear_kept [OF c]
    by (simp add: settleFailedStatus_def split_beta Let_def)
qed

lemma adopt_kept:
  assumes "lifetimes_kept out s" "adopt date_parse v serverNow s = Inr r"
  shows "session_kept (out @ snd r) (fst r)"
proof -
  let ?s = "s\<lparr>au_lifetime := (if au_lifetimeAborted s then au_lifetime s + 1 else au_lifetime s), au_lifetimeAborted := False,
      au_credential := Some v, au_blocked := False, au_csrf := Some (sr_csrfToken v),
      au_expiry := Some (au_timers s), au_timers := au_timers s + 1\<rparr>"
  have "lifetimes_kept out ?s" using assms(1) unfolding lifetimes_kept_def by (auto simp: le_Suc_eq)
  moreover have "r = publish_snapshot \<lparr>sn_status = StAuthenticated, sn_identity = Some (sr_identity v), sn_expiresAt = Some (sr_expiresAt v),
      sn_error = None, sn_revocation = None\<rparr> NothingLeft ?s"
    using assms(2) by (simp add: adopt_def Let_def split: if_splits)
  ultimately show ?thesis
    using kept_quiet [of out ?s "[Published (au_snapshot (fst r))]"]
    by (simp add: publish_snapshot_def session_kept_def auth_simps credential_shown_def)
qed

lemma expiry_kept: "session_kept out s \<Longrightarrow>
    session_kept (out @ snd (expiry_fired timer failure s)) (fst (expiry_fired timer failure s))"
  using ended_kept [OF kept_lifetimes, of out s "(next_generation s)\<lparr>au_blocked := True\<rparr>" "abort_flight s"]
  by (simp add: expiry_fired_def split_beta Let_def next_generation_def auth_simps)

lemma revalidate_kept: "session_kept out (fst (revalidate s)) = session_kept out s"
  by (simp add: revalidate_def session_kept_def auth_simps Let_def split: option.split)

lemma joined_kept: "session_kept out s \<Longrightarrow>
    session_kept (out @ snd (joined (revalidate s))) (fst (joined (revalidate s)))"
  by (rule kept_silent) (simp_all add: joined_def revalidate_kept split: sum.split)

lemma confirm_kept: "session_kept out s \<Longrightarrow> session_kept (out @ snd (confirm initial s)) (fst (confirm initial s))"
  using joined_kept [of out s] by (simp add: confirm_def kept_silent)

lemma attempt_kept:
  assumes "session_kept out s"
  shows "session_kept (out @ snd (attempt_begins f s)) (fst (attempt_begins f s))"
    "session_kept (out @ snd (attempt_passes f s)) (fst (attempt_passes f s))"
    "session_kept (out @ snd (attempt_fails f s)) (fst (attempt_fails f s))"
    "session_kept (out @ snd (flight_finally f s)) (fst (flight_finally f s))"
proof -
  have fin: "session_kept out ((set_flight f phase s)\<lparr>au_flight := e\<rparr>)" for phase e
    using assms by (simp add: session_kept_def auth_simps)
  show "session_kept (out @ snd (attempt_begins f s)) (fst (attempt_begins f s))"
    "session_kept (out @ snd (attempt_passes f s)) (fst (attempt_passes f s))"
    "session_kept (out @ snd (attempt_fails f s)) (fst (attempt_fails f s))"
    "session_kept (out @ snd (flight_finally f s)) (fst (flight_finally f s))"
    using assms fin kept_silent [OF assms, of "[StatusRequested f]"]
    by (simp_all add: attempt_begins_def attempt_passes_def attempt_fails_def flight_finally_def auth_simps
        split: flight_phase.split option.split)
qed

lemma flight_failed_kept: "session_kept out s \<Longrightarrow>
    session_kept (out @ snd (flight_failed f cause s)) (fst (flight_failed f cause s))"
  using settle_failed_kept [OF kept_lifetimes, of out "set_flight f (FlightDone (Some cause)) s" cause]
  by (simp add: flight_failed_def Let_def auth_simps)

lemma flight_caught_kept: "session_kept out s \<Longrightarrow>
    session_kept (out @ snd (flight_caught f s)) (fst (flight_caught f s))"
  using flight_failed_kept by (simp add: flight_caught_def split: flight_phase.split)

lemma flight_settled_kept:
  assumes "session_kept out s"
  shows "session_kept (out @ snd (flight_settled date_parse f answer s)) (fst (flight_settled date_parse f answer s))"
proof -
  have a: "session_kept (out @ snd r) (set_flight f phase (fst r))" if "adopt date_parse v n s = Inr r" for v n r phase
    using adopt_kept [OF kept_lifetimes [OF assms] that] by (simp add: auth_simps)
  show ?thesis using assms flight_failed_kept [OF assms] a
    by (auto simp: flight_settled_def auth_simps split: answer.split sum.split prod.split)
qed

lemma enqueue_kept: "lifetimes_kept out s \<Longrightarrow> session_kept out s \<or> revocation \<noteq> None \<Longrightarrow>
    session_kept (out @ snd (enqueue_mutation kind owner revocation s)) (fst (enqueue_mutation kind owner revocation s))"
  using fence_kept [of out s] by (auto simp: enqueue_mutation_def kept_silent split: option.split)

lemma login_kept: "session_kept out s \<Longrightarrow> session_kept (out @ snd (login aborted s)) (fst (login aborted s))"
  by (simp add: login_def kept_silent enqueue_kept kept_lifetimes)

lemma logout_kept: "session_kept out s \<Longrightarrow> session_kept (out @ snd (logout s)) (fst (logout s))"
  unfolding logout_def by (rule enqueue_kept) (simp_all add: auth_simps kept_lifetimes)

lemma frame_kept: "session_kept out s \<Longrightarrow> session_kept (out @ snd (frame_resumes frame s)) (fst (frame_resumes frame s))"
  by (cases frame) (simp_all add: kept_silent, simp add: session_kept_def auth_simps)

lemma begin_mutation_kept:
  assumes "session_kept out s"
  shows "session_kept (out @ snd (begin_mutation s)) (fst (begin_mutation s))"
proof -
  have q: "session_kept (out @ out') ((set_phase phase s)\<lparr>au_csrf := c\<rparr>)" "session_kept (out @ out') (set_phase phase s)"
    if "list_all quiet_output out'" for phase c out'
    using kept_silent [OF assms that] by (simp_all add: session_kept_def auth_simps)
  show ?thesis using assms q [of "[]"]
    by (simp add: begin_mutation_def q split: list.split option.split mutation_kind.split)
qed

lemma logout_end_kept:
  assumes "session_kept out s"
  shows "session_kept (out @ snd (logout_failed epoch cause s)) (fst (logout_failed epoch cause s))"
    "session_kept (out @ snd (logout_confirmed epoch s)) (fst (logout_confirmed epoch s))"
  using assms clear_kept [of out "set_phase phase s" for phase, unfolded auth_simps, OF kept_lifetimes [OF assms]]
  by (simp_all add: logout_failed_def logout_confirmed_def Let_def auth_simps)

lemma login_answered_kept:
  assumes "session_kept out s"
  shows "session_kept (out @ snd (login_answered date_parse epoch answer s)) (fst (login_answered date_parse epoch answer s))"
proof -
  have s1: "session_kept out (s\<lparr>au_csrf := c\<rparr>)" for c using assms by (simp add: session_kept_def auth_simps)
  have a: "session_kept (out @ snd r) (set_phase phase (fst r))" if "adopt date_parse v n (s\<lparr>au_csrf := c\<rparr>) = Inr r" for v n r phase c
    using adopt_kept [OF kept_lifetimes [OF s1] that] by (simp add: auth_simps)
  show ?thesis using assms s1 a
    by (auto simp: login_answered_def auth_simps Let_def split: answer.split sum.split prod.split)
qed

lemma request_kept:
  assumes "session_kept out s"
  shows "session_kept (out @ snd (request_settled date_parse answer s)) (fst (request_settled date_parse answer s))"
proof -
  have q: "session_kept (out @ out') (set_phase phase s)" if "list_all quiet_output out'" for phase out'
    using kept_silent [OF assms that] by (simp add: auth_simps)
  show ?thesis
    using assms login_answered_kept [OF assms] logout_end_kept [OF assms]
    by (simp add: request_settled_def proof_answered_def logout_answered_def q
        split: list.split mutation_phase.split answer.split sum.split)
qed

lemma operation_aborted_kept: "session_kept out s \<Longrightarrow>
    session_kept (out @ snd (operation_aborted cause s)) (fst (operation_aborted cause s))"
  using logout_end_kept by (simp add: operation_aborted_def split: list.split mutation_phase.split)

lemma mutation_ends_kept:
  assumes "session_kept out s"
  shows "session_kept (out @ snd (mutation_ends s)) (fst (mutation_ends s))"
proof -
  have "session_kept (out @ [MutationSettled i r]) (s\<lparr>au_queue := q, au_rejectedLogins := l\<rparr>)" for i r q l
    using kept_silent [OF assms, of "[MutationSettled i r]"] by (simp add: session_kept_def auth_simps)
  then show ?thesis using assms by (simp add: mutation_ends_def split: list.split mutation_phase.split)
qed

lemma login_caught_kept:
  assumes "session_kept out s"
  shows "session_kept (out @ snd (login_caught call s)) (fst (login_caught call s))"
proof -
  have s1: "session_kept out (s\<lparr>au_rejectedLogins := l\<rparr>)" for l using assms by (simp add: session_kept_def auth_simps)
  show ?thesis using assms s1 clear_kept [OF kept_lifetimes [OF s1]]
    by (simp add: login_caught_def Let_def split: option.split prod.split)
qed

lemma set_acquire_kept:
  assumes "session_kept out s" "\<And>token. phase = HeaderReady token \<Longrightarrow> au_timers s \<noteq> 0"
  shows "session_kept out (set_acquire c phase s)"
  using assms by (auto simp: session_kept_def set_acquire_def auth_simps) (auto simp: lifetimes_kept_def)

lemma acquire_over_kept:
  assumes "session_kept out s"
  shows "session_kept out (set_acquire c AcquireOver s)" "session_kept out (set_acquire c (AwaitingFlight f) s)"
  by (rule set_acquire_kept [OF assms], simp)+

lemma read_header_kept:
  assumes "session_kept out s"
  shows "session_kept (out @ snd (read_header c aborted s)) (fst (read_header c aborted s))"
proof -
  have over: "session_kept (out @ [AcquireRejected c e]) (set_acquire c AcquireOver s)" for e
    by (rule kept_silent) (simp_all add: acquire_over_kept assms)
  have "session_kept out (set_acquire c (HeaderReady t) s)" if "au_credential s = Some v" for v t
    by (rule set_acquire_kept [OF assms]) (use assms that in \<open>simp add: session_kept_def credential_shown_def\<close>)
  then show ?thesis by (simp add: read_header_def over split: option.split)
qed

lemma acquire_call_kept:
  assumes "session_kept out s"
  shows "session_kept (out @ snd (acquire_call date_parse lease aborted now s)) (fst (acquire_call date_parse lease aborted now s))"
proof -
  let ?s = "begin_acquire lease s"
  have s1: "session_kept out ?s"
    using assms by (simp add: begin_acquire_def session_kept_def auth_simps) (auto simp: lifetimes_kept_def)
  obtain s2 r where r: "revalidate ?s = (s2, r)" by (meson surj_pair)
  with s1 have s2: "session_kept out s2" using revalidate_kept [of out ?s] by simp
  have "session_kept (out @ [AcquireRejected c e]) s2" for c e using s2 by (simp add: kept_silent)
  moreover have "session_kept (out @ [JoinedFlight f]) (set_acquire c (AwaitingFlight f) s2)" for c f
    by (rule kept_silent) (simp_all add: acquire_over_kept s2)
  ultimately show ?thesis using read_header_kept [OF s1]
    by (simp add: acquire_call_def Let_def r split: sum.split)
qed

lemma acquire_resumed_kept:
  assumes "session_kept out s"
  shows "session_kept (out @ snd (acquire_resumed c lost aborted s)) (fst (acquire_resumed c lost aborted s))"
proof -
  have "session_kept (out @ [AcquireRejected c e]) (set_acquire c AcquireOver s)" for e
    by (rule kept_silent) (simp_all add: acquire_over_kept assms)
  then show ?thesis using assms read_header_kept [OF assms]
    by (simp add: acquire_resumed_def split: acquire_phase.split flight_phase.split option.split)
qed

lemma acquire_returns_kept:
  assumes "session_kept out s"
  shows "session_kept (out @ snd (acquire_returns c s)) (fst (acquire_returns c s))"
proof (cases "ac_phase (au_acquires s c)")
  case (HeaderReady token)
  have over: "session_kept out (set_acquire c AcquireOver s)" by (rule acquire_over_kept [OF assms])
  have t: "au_timers s \<noteq> 0" "au_timers (set_acquire c AcquireOver s) = au_timers s" "au_lifetime (set_acquire c AcquireOver s) = au_lifetime s"
    using assms HeaderReady by (auto simp: session_kept_def lifetimes_kept_def set_acquire_def)
  have "session_kept (out @ [Leased c (au_lifetime s) token]) (set_acquire c AcquireOver s)"
    using over t unfolding session_kept_def lifetimes_kept_def by auto
  then show ?thesis using kept_silent [OF over] HeaderReady by (simp add: acquire_returns_def)
qed (simp_all add: acquire_returns_def assms)

lemma invalidate_kept: "session_kept out s \<Longrightarrow>
    session_kept (out @ snd (invalidate_session cause s)) (fst (invalidate_session cause s))"
  using ended_kept [OF kept_lifetimes, of out s "(next_generation s)\<lparr>au_blocked := True, au_flight := None\<rparr>" "abort_flight s"]
  by (simp add: invalidate_session_def split_beta Let_def next_generation_def auth_simps)

lemma close_kept: 
  assumes "session_kept out s"
  shows "session_kept (out @ snd (close_session s)) (fst (close_session s))"
proof -
  have "lifetimes_kept (out @ abort_flight s) ((next_generation s)\<lparr>au_owner := au_owner s + 1, au_flight := None\<rparr>)"
    by (rule kept_quiet) (simp_all add: next_generation_def auth_simps kept_lifetimes [OF assms])
  from stop_kept [OF this] show ?thesis by (simp add: close_session_def split_beta Let_def)
qed

lemma call_kept: "session_kept out s \<Longrightarrow> auth_call date_parse initial i s = Some r \<Longrightarrow> session_kept (out @ snd r) (fst r)"
  by (cases i) (auto simp: login_kept logout_kept close_kept joined_kept confirm_kept invalidate_kept acquire_call_kept)

lemma event_kept: "session_kept out s \<Longrightarrow>
    session_kept (out @ snd (auth_event date_parse i s)) (fst (auth_event date_parse i s))"
  by (cases i) (simp_all add: begin_mutation_kept request_kept operation_aborted_kept mutation_ends_kept login_caught_kept
      attempt_kept flight_settled_kept flight_caught_kept expiry_kept acquire_resumed_kept acquire_returns_kept)

lemma step_kept:
  assumes "session_kept out s"
  shows "session_kept (out @ snd (auth_step date_parse initial s i)) (fst (auth_step date_parse initial s i))"
proof -
  have "session_kept out (s\<lparr>au_stack := stack\<rparr>)" for stack using assms by (simp add: session_kept_def auth_simps)
  from frame_kept [OF this] show ?thesis
    using assms call_kept [OF assms] event_kept [OF assms] by (simp add: auth_step_def split: option.split list.split)
qed

interpretation auth_sessions: history_invariant "auth_step date_parse initial" "\<lambda>_ out s. session_kept out s"
  by unfold_locales (rule step_kept)

lemma created_kept: "session_kept [] (createAuthStore initial)"
  by (simp add: createAuthStore_def session_kept_def lifetimes_kept_def credential_shown_def)

text \<open>Claim C4: protected work ends with its session. Whatever callers, subscribers, answers and timers do, in any
  order, the lifetime of every lease ever granted has been aborted, or it is the current lifetime of a session
  that is still shown as authenticated, with its credential held, its expiry armed and the store not blocked.\<close>

theorem leases_end_with_session:
  assumes run: "run (auth_step date_parse initial) (createAuthStore initial) ins = (s, out)"
    and lease: "Leased call l token \<in> set out"
  shows "LifetimeAborted l \<in> set out \<or>
    au_lifetime s = l \<and> \<not> au_lifetimeAborted s \<and> \<not> au_blocked s \<and> au_expiry s \<noteq> None \<and>
    (\<exists>v. au_credential s = Some v \<and> sn_status (au_snapshot s) = StAuthenticated \<and>
       sn_identity (au_snapshot s) = Some (sr_identity v))"
proof -
  have k: "session_kept out s" by (rule auth_sessions.run_from_start [OF created_kept run])
  then have l: "l \<le> au_lifetime s" "au_timers s \<noteq> 0" using lease by (auto simp: session_kept_def lifetimes_kept_def)
  then have "LifetimeAborted l \<in> set out \<or> l = au_lifetime s \<and> \<not> au_lifetimeAborted s"
    using k by (auto simp: session_kept_def lifetimes_kept_def)
  moreover have "au_credential s \<noteq> None" if "\<not> au_lifetimeAborted s"
    using k l(2) that by (auto simp: session_kept_def lifetimes_kept_def)
  ultimately show ?thesis using k by (auto simp: session_kept_def credential_shown_def)
qed

section \<open>Epochs\<close>

text \<open>Nothing was begun in a generation to come.\<close>

definition epochs_past :: "auth_store \<Rightarrow> bool" where
  "epochs_past s \<longleftrightarrow>
     (\<forall>f. fl_epoch (au_flights s f) \<le> au_generation s) \<and> (\<forall>mu \<in> set (au_queue s). mu_epoch mu \<le> au_generation s) \<and>
     (\<forall>c. ac_epoch (au_acquires s c) \<le> au_generation s)"

lemma epochs_fields [auth_simps]:
  "epochs_past (s\<lparr>au_snapshot := m\<rparr>) = epochs_past s"
  "epochs_past (s\<lparr>au_blocked := b\<rparr>) = epochs_past s"
  "epochs_past (s\<lparr>au_owner := c\<rparr>) = epochs_past s"
  "epochs_past (s\<lparr>au_credential := cr\<rparr>) = epochs_past s"
  "epochs_past (s\<lparr>au_csrf := d\<rparr>) = epochs_past s"
  "epochs_past (s\<lparr>au_lifetime := lt\<rparr>) = epochs_past s"
  "epochs_past (s\<lparr>au_lifetimeAborted := la\<rparr>) = epochs_past s"
  "epochs_past (s\<lparr>au_expiry := ex\<rparr>) = epochs_past s"
  "epochs_past (s\<lparr>au_timers := ti\<rparr>) = epochs_past s"
  "epochs_past (s\<lparr>au_flight := e\<rparr>) = epochs_past s"
  "epochs_past (s\<lparr>au_nextFlight := g\<rparr>) = epochs_past s"
  "epochs_past (s\<lparr>au_nextMutation := i\<rparr>) = epochs_past s"
  "epochs_past (s\<lparr>au_rejectedLogins := j\<rparr>) = epochs_past s"
  "epochs_past (s\<lparr>au_nextAcquire := k\<rparr>) = epochs_past s"
  "epochs_past (s\<lparr>au_stack := l\<rparr>) = epochs_past s"
  by (simp_all add: epochs_past_def)

lemma epochs_next [auth_simps]: "epochs_past s \<Longrightarrow> epochs_past (next_generation s)"
  by (auto simp: epochs_past_def next_generation_def le_SucI)

lemma epochs_flight [auth_simps]: "epochs_past (set_flight f phase s) = epochs_past s"
  by (auto simp: epochs_past_def set_flight_def)

lemma epochs_phase [auth_simps]: "au_queue s \<noteq> [] \<Longrightarrow> epochs_past (set_phase phase s) = epochs_past s"
  by (cases "au_queue s") (auto simp: epochs_past_def set_phase_def)

lemma epochs_acquire [auth_simps]: "epochs_past (set_acquire c phase s) = epochs_past s"
  by (auto simp: epochs_past_def set_acquire_def)

lemma epochs_rest: "epochs_past s \<Longrightarrow> au_queue s = mu # rest \<Longrightarrow> epochs_past (s\<lparr>au_queue := rest, au_rejectedLogins := l\<rparr>)"
  by (simp add: epochs_past_def)

lemma epochs_ended [auth_simps]:
  "epochs_past s \<Longrightarrow> epochs_past (fst (stopProtectedWork s))"
  "epochs_past s \<Longrightarrow> epochs_past (fst (publish_snapshot snap rest s))"
  "epochs_past s \<Longrightarrow> epochs_past (fst (clear error revocation rest s))"
  "epochs_past s \<Longrightarrow> epochs_past (fst (fence revocation rest s))"
  "epochs_past s \<Longrightarrow> epochs_past (fst (settleFailedStatus cause s))"
  "epochs_past s \<Longrightarrow> adopt date_parse v n s = Inr r \<Longrightarrow> epochs_past (fst r)"
  by (auto simp: stopProtectedWork_def publish_snapshot_def clear_def fence_def settleFailedStatus_def adopt_def split_beta Let_def auth_simps
      split: if_splits)

lemma epochs_revalidate [auth_simps]: "epochs_past s \<Longrightarrow> epochs_past (fst (revalidate s))"
  by (auto simp: revalidate_def epochs_past_def Let_def split: option.split)

lemma epochs_call: "epochs_past s \<Longrightarrow> auth_call date_parse initial i s = Some r \<Longrightarrow> epochs_past (fst r)"
proof (cases i)
  case (AcquireCall lease aborted now)
  let ?s = "begin_acquire lease s"
  assume s: "epochs_past s" and r: "auth_call date_parse initial i s = Some r"
  from s have s1: "epochs_past ?s" by (simp add: begin_acquire_def epochs_past_def)
  obtain s2 q where q: "revalidate ?s = (s2, q)" by (meson surj_pair)
  with epochs_revalidate [OF s1] have "epochs_past s2" by simp
  then show ?thesis using r s1 q AcquireCall
    by (auto simp: acquire_call_def Let_def read_header_def auth_simps split: sum.splits option.splits if_splits)
qed (auto simp: login_def logout_def enqueue_mutation_def close_session_def joined_def confirm_def invalidate_session_def auth_simps
      split_beta Let_def split: option.splits if_splits)

lemma epochs_failed [auth_simps]:
  "epochs_past s \<Longrightarrow> epochs_past (fst (flight_failed f cause s))"
  "epochs_past s \<Longrightarrow> au_queue s \<noteq> [] \<Longrightarrow> epochs_past (fst (logout_failed epoch cause s))"
  "epochs_past s \<Longrightarrow> au_queue s \<noteq> [] \<Longrightarrow> epochs_past (fst (logout_confirmed epoch s))"
  by (simp_all add: flight_failed_def logout_failed_def logout_confirmed_def Let_def auth_simps)

lemma adopt_queue: "adopt date_parse v n s = Inr r \<Longrightarrow> au_queue (fst r) = au_queue s"
  by (auto simp: adopt_def publish_snapshot_def Let_def split: if_splits)

lemma epochs_answered [auth_simps]:
  assumes "epochs_past s" "au_queue s \<noteq> []"
  shows "epochs_past (fst (login_answered date_parse epoch answer s))"
proof -
  have "epochs_past (set_phase phase (fst r))" if "adopt date_parse v n (s\<lparr>au_csrf := c\<rparr>) = Inr r" for v n c r phase
    using epochs_ended(6) [OF _ that] adopt_queue [OF that] assms by (simp add: auth_simps)
  then show ?thesis using assms
    by (auto simp: login_answered_def auth_simps Let_def split: answer.split sum.split prod.split)
qed

lemma epochs_event:
  assumes "epochs_past s"
  shows "epochs_past (fst (auth_event date_parse i s))"
proof (cases i)
  case (FlightSettled f answer)
  have "epochs_past (set_flight f phase s1)" if "adopt date_parse v n s = Inr (s1, out1)" for v n s1 out1 phase
    using epochs_ended(6) [OF assms that] by (simp add: auth_simps)
  then show ?thesis using assms FlightSettled
    by (auto simp: flight_settled_def auth_simps split: answer.split sum.split prod.split)
next
  case (RequestSettled answer)
  then show ?thesis using assms
    by (auto simp: request_settled_def proof_answered_def logout_answered_def auth_simps
        split: list.split mutation_phase.split answer.split sum.split)
next
  case MutationEnds
  then show ?thesis using assms by (auto simp: mutation_ends_def intro: epochs_rest split: list.split mutation_phase.split)
qed (use assms in \<open>auto simp: begin_mutation_def operation_aborted_def login_caught_def attempt_begins_def attempt_passes_def
      attempt_fails_def flight_caught_def flight_finally_def expiry_fired_def acquire_resumed_def acquire_returns_def read_header_def
      auth_simps split_beta Let_def split: list.split mutation_phase.split mutation_kind.split option.split flight_phase.split
      acquire_phase.split prod.split\<close>)

lemma epochs_step: "epochs_past s \<Longrightarrow> epochs_past (fst (auth_step date_parse initial s i))"
proof -
  assume s: "epochs_past s"
  then have "epochs_past (fst (frame_resumes frame (s\<lparr>au_stack := stack\<rparr>)))" for frame stack
    by (cases frame) (simp_all add: auth_simps, simp add: epochs_past_def)
  then show ?thesis using s epochs_call [OF s] epochs_event [OF s] by (simp add: auth_step_def split: option.split list.split)
qed

interpretation auth_epochs: kept_invariant "auth_step date_parse initial" epochs_past
  by unfold_locales (rule epochs_step)

lemma created_epochs: "epochs_past (createAuthStore initial)"
  by (simp add: createAuthStore_def epochs_past_def)

section \<open>The end of a session is final\<close>

text \<open>A state no answer can sign in: whatever could adopt a session or ask for one is of an earlier
  generation, and no login waits to be queued.\<close>

definition sealed :: "auth_store \<Rightarrow> bool" where
  "sealed s \<longleftrightarrow> au_blocked s \<and> au_credential s = None \<and> sn_status (au_snapshot s) \<noteq> StAuthenticated \<and>
     (\<forall>f. flight_unsettled (au_flights s f) \<longrightarrow> fl_epoch (au_flights s f) < au_generation s) \<and>
     (\<forall>mu \<in> set (au_queue s). mu_epoch mu < au_generation s \<or> mu_kind mu = LogoutMutation \<and> mu_phase mu \<noteq> LoginSent) \<and>
     (\<forall>c token. ac_phase (au_acquires s c) = HeaderReady token \<longrightarrow> ac_epoch (au_acquires s c) < au_generation s) \<and>
     (\<forall>lifetimeOwner. EnqueueRest LoginMutation lifetimeOwner \<notin> set (au_stack s))"

fun admits :: "auth_output \<Rightarrow> bool" where
  "admits (Leased c l token) = True"
| "admits (StatusRequested f) = True"
| "admits (Published snap) = (sn_status snap = StAuthenticated)"
| "admits _ = False"

definition stays_sealed :: "auth_result \<Rightarrow> bool" where
  "stays_sealed r \<longleftrightarrow> sealed (fst r) \<and> list_all (\<lambda>x. \<not> admits x) (snd r)"

lemma sealed_fields [auth_simps]:
  "sealed (s\<lparr>au_owner := c\<rparr>) = sealed s"
  "sealed (s\<lparr>au_csrf := d\<rparr>) = sealed s"
  "sealed (s\<lparr>au_lifetimeAborted := la\<rparr>) = sealed s"
  "sealed (s\<lparr>au_expiry := ex\<rparr>) = sealed s"
  "sealed (s\<lparr>au_flight := e\<rparr>) = sealed s"
  "sealed (s\<lparr>au_nextFlight := g\<rparr>) = sealed s"
  "sealed (s\<lparr>au_nextMutation := i\<rparr>) = sealed s"
  "sealed (s\<lparr>au_rejectedLogins := j\<rparr>) = sealed s"
  "sealed (s\<lparr>au_nextAcquire := k\<rparr>) = sealed s"
  by (simp_all add: sealed_def)

lemma sealed_next [auth_simps]: "sealed s \<Longrightarrow> sealed (next_generation s)"
  by (auto simp: sealed_def next_generation_def less_SucI)

lemma sealed_blocked [auth_simps]: "sealed s \<Longrightarrow> sealed (s\<lparr>au_blocked := True\<rparr>)"
  by (simp add: sealed_def)

lemma sealed_flight [auth_simps]: "sealed s \<Longrightarrow> \<not> flight_unsettled \<lparr>fl_epoch = 0, fl_phase = phase\<rparr> \<or> flight_unsettled (au_flights s f) \<Longrightarrow>
    sealed (set_flight f phase s)"
  by (auto simp: sealed_def set_flight_def flight_unsettled_def)

lemma sealed_phase [auth_simps]: "sealed s \<Longrightarrow> au_queue s = mu # rest \<Longrightarrow> mu_kind mu = LoginMutation \<or> phase \<noteq> LoginSent \<Longrightarrow>
    sealed (set_phase phase s)"
  by (auto simp: sealed_def set_phase_def)

lemma sealed_acquire [auth_simps]: "sealed s \<Longrightarrow> (\<And>token. phase \<noteq> HeaderReady token) \<Longrightarrow> sealed (set_acquire c phase s)"
  by (auto simp: sealed_def set_acquire_def)

lemma sealed_begin [auth_simps]: "sealed s \<Longrightarrow> sealed (begin_acquire lease s)"
  by (auto simp: sealed_def begin_acquire_def)

lemma abort_flight_admits [auth_simps]: "list_all (\<lambda>x. \<not> admits x) (abort_flight s)"
  by (simp add: abort_flight_def split: option.split)

lemma sealed_stop [auth_simps]: "stays_sealed r \<longleftrightarrow> sealed (fst r) \<and> list_all (\<lambda>x. \<not> admits x) (snd r)"
  by (rule stays_sealed_def)

text \<open>Clearing a blocked store seals it when what is left is of earlier generations.\<close>

definition superseded :: "auth_store \<Rightarrow> bool" where
  "superseded s \<longleftrightarrow>
     (\<forall>f. flight_unsettled (au_flights s f) \<longrightarrow> fl_epoch (au_flights s f) < au_generation s) \<and>
     (\<forall>mu \<in> set (au_queue s). mu_epoch mu < au_generation s \<or> mu_kind mu = LogoutMutation \<and> mu_phase mu \<noteq> LoginSent) \<and>
     (\<forall>c token. ac_phase (au_acquires s c) = HeaderReady token \<longrightarrow> ac_epoch (au_acquires s c) < au_generation s) \<and>
     (\<forall>lifetimeOwner. EnqueueRest LoginMutation lifetimeOwner \<notin> set (au_stack s))"

lemma sealed_superseded: "sealed s \<Longrightarrow> superseded s" "sealed s \<Longrightarrow> au_blocked s"
  by (simp_all add: sealed_def superseded_def)

lemma clear_seals:
  assumes "superseded s" "au_blocked s" "\<And>o'. rest \<noteq> EnqueueRest LoginMutation o'"
  shows "sealed (fst (clear error revocation rest s))" "list_all (\<lambda>x. \<not> admits x) (snd (clear error revocation rest s))"
  using assms by (auto simp: clear_def stopProtectedWork_def publish_snapshot_def split_beta Let_def sealed_def superseded_def)

lemma fence_seals:
  assumes "superseded (next_generation s)" "au_blocked s" "\<And>o'. rest \<noteq> EnqueueRest LoginMutation o'"
  shows "sealed (fst (fence revocation rest s))" "list_all (\<lambda>x. \<not> admits x) (snd (fence revocation rest s))"
  using clear_seals [of "(next_generation s)\<lparr>au_flight := None\<rparr>" rest None revocation] assms
  by (simp_all add: fence_def split_beta Let_def auth_simps superseded_def next_generation_def)

lemma settle_seals:
  assumes "sealed s"
  shows "sealed (fst (settleFailedStatus cause s))" "list_all (\<lambda>x. \<not> admits x) (snd (settleFailedStatus cause s))"
  using assms clear_seals [of "s\<lparr>au_blocked := True\<rparr>"]
  by (auto simp: settleFailedStatus_def stopProtectedWork_def publish_snapshot_def split_beta Let_def sealed_def superseded_def)

lemma logout_seals:
  assumes "superseded (next_generation s)"
  shows "stays_sealed (logout s)"
proof -
  have "superseded (next_generation (s\<lparr>au_blocked := True\<rparr>))" using assms by (simp add: superseded_def next_generation_def)
  from fence_seals [OF this] show ?thesis by (simp add: logout_def enqueue_mutation_def stays_sealed_def)
qed

lemma invalidate_seals:
  assumes "superseded (next_generation s)"
  shows "stays_sealed (invalidate_session cause s)"
  using clear_seals [of "(next_generation s)\<lparr>au_blocked := True, au_flight := None\<rparr>" NothingLeft "Some cause" None] assms
  by (simp add: invalidate_session_def split_beta Let_def stays_sealed_def auth_simps superseded_def next_generation_def)

lemma expiry_seals:
  assumes "superseded (next_generation s)" "au_expiry s = Some timer"
  shows "stays_sealed (expiry_fired timer failure s)"
  using clear_seals [of "(next_generation s)\<lparr>au_blocked := True\<rparr>" NothingLeft _ None] assms
  by (simp add: expiry_fired_def split_beta Let_def stays_sealed_def auth_simps superseded_def next_generation_def)

lemma sealed_next_superseded: "sealed s \<Longrightarrow> superseded (next_generation s)"
  by (rule sealed_superseded) (rule sealed_next)

lemma sealed_revalidate: "sealed s \<Longrightarrow> \<exists>cause. revalidate s = (s, Inl cause)"
  by (simp add: revalidate_def sealed_def)

fun is_login :: "auth_input \<Rightarrow> bool" where
  "is_login (Login aborted) = True"
| "is_login _ = False"

lemma sealed_call:
  assumes s: "sealed s" and r: "auth_call date_parse initial i s = Some r" and i: "\<not> is_login i"
  shows "stays_sealed r"
proof (cases i)
  case Close
  have "sealed (fst (close_session s))"
    using s by (auto simp: close_session_def stopProtectedWork_def sealed_def next_generation_def less_SucI)
  then show ?thesis using r Close by (auto simp: stays_sealed_def close_session_def stopProtectedWork_def split_beta Let_def auth_simps)
next
  case (AcquireCall lease aborted now)
  have n: "au_credential s = None" using s by (simp add: sealed_def)
  obtain cause where "revalidate (begin_acquire lease s) = (begin_acquire lease s, Inl cause)"
    using sealed_revalidate [OF sealed_begin [OF s]] by blast
  then show ?thesis using r AcquireCall s n by (auto simp: acquire_call_def Let_def stays_sealed_def sealed_begin)
qed (use assms sealed_revalidate [OF s] in \<open>auto simp: joined_def confirm_def stays_sealed_def
      logout_seals [OF sealed_next_superseded, unfolded stays_sealed_def] invalidate_seals [OF sealed_next_superseded, unfolded stays_sealed_def]
      split: if_splits\<close>)

lemma logout_end_seals:
  assumes s: "sealed s" and q: "au_queue s = mu # rest"
  shows "stays_sealed (logout_failed epoch cause s)" "stays_sealed (logout_confirmed epoch s)"
proof -
  have "sealed (set_phase (MutationDone r) s)" for r using sealed_phase [OF s q] by simp
  then show "stays_sealed (logout_failed epoch cause s)" "stays_sealed (logout_confirmed epoch s)"
    using clear_seals [OF sealed_superseded, of "set_phase (MutationDone r) s" for r]
    by (simp_all add: logout_failed_def logout_confirmed_def Let_def stays_sealed_def)
qed

lemma request_seals:
  assumes s: "sealed s"
  shows "stays_sealed (request_settled date_parse answer s)"
proof (cases "au_queue s")
  case Nil
  then show ?thesis using s by (simp add: request_settled_def stays_sealed_def)
next
  case (Cons mu rest)
  have p: "sealed (set_phase phase s)" if "phase \<noteq> LoginSent" for phase using sealed_phase [OF s Cons] that by blast
  have p': "sealed (set_phase phase (s\<lparr>au_csrf := c\<rparr>))" if "phase \<noteq> LoginSent" for phase c
    using sealed_phase [of "s\<lparr>au_csrf := c\<rparr>"] s Cons that by (simp add: auth_simps)
  have old: "mu_epoch mu \<noteq> au_generation s" if "mu_phase mu = LoginSent" using s Cons that by (auto simp: sealed_def)
  show ?thesis using s p p' old logout_end_seals [OF s Cons]
    by (simp add: request_settled_def Cons login_answered_def proof_answered_def logout_answered_def Let_def stays_sealed_def
        split: mutation_phase.split answer.split sum.split)
qed

lemma flight_failed_seals:
  assumes "sealed s"
  shows "stays_sealed (flight_failed f cause s)"
proof -
  have "sealed (set_flight f (FlightDone (Some cause)) s)"
    by (rule sealed_flight [OF assms]) (simp add: flight_unsettled_def)
  then show ?thesis using settle_seals [of "set_flight f (FlightDone (Some cause)) s"]
    by (simp add: flight_failed_def Let_def stays_sealed_def)
qed

lemma flight_event_seals:
  assumes s: "sealed s"
  shows "stays_sealed (flight_settled date_parse f answer s)" "stays_sealed (attempt_begins f s)"
    "stays_sealed (attempt_passes f s)" "stays_sealed (attempt_fails f s)" "stays_sealed (flight_finally f s)"
proof -
  have old: "fl_epoch (au_flights s f) \<noteq> au_generation s" if "flight_unsettled (au_flights s f)"
    using s that by (auto simp: sealed_def)
  have fl: "sealed (set_flight f phase s)" if "flight_unsettled (au_flights s f) \<or> (\<exists>r. phase = FlightOver r)" for phase
    using that by (intro sealed_flight [OF s]) (auto simp: flight_unsettled_def)
  show "stays_sealed (flight_settled date_parse f answer s)"
    using s old fl flight_failed_seals [OF s]
    by (auto simp: flight_settled_def stays_sealed_def split: answer.split sum.split)
  show "stays_sealed (attempt_begins f s)" "stays_sealed (attempt_passes f s)" "stays_sealed (attempt_fails f s)"
    "stays_sealed (flight_finally f s)"
    using s old fl
    by (auto simp: attempt_begins_def attempt_passes_def attempt_fails_def flight_finally_def stays_sealed_def flight_unsettled_def
        auth_simps split: flight_phase.split option.split)
qed

lemma read_header_seals: "sealed s \<Longrightarrow> stays_sealed (read_header c aborted s)"
  by (auto simp: read_header_def stays_sealed_def sealed_def set_acquire_def)

lemma acquire_event_seals:
  assumes s: "sealed s"
  shows "stays_sealed (acquire_resumed c lost aborted s)" "stays_sealed (acquire_returns c s)"
proof -
  have over: "sealed (set_acquire c AcquireOver s)" by (rule sealed_acquire [OF s]) simp
  show "stays_sealed (acquire_resumed c lost aborted s)"
    using s over read_header_seals [OF s]
    by (simp add: acquire_resumed_def stays_sealed_def split: acquire_phase.split flight_phase.split option.split)
  have "ac_epoch (au_acquires s c) \<noteq> au_generation s" if "ac_phase (au_acquires s c) = HeaderReady token" for token
    using s that by (auto simp: sealed_def)
  then show "stays_sealed (acquire_returns c s)"
    using s over by (auto simp: acquire_returns_def stays_sealed_def split: acquire_phase.split)
qed

lemma mutation_event_seals:
  assumes s: "sealed s"
  shows "stays_sealed (begin_mutation s)" "stays_sealed (operation_aborted cause s)" "stays_sealed (mutation_ends s)"
    "stays_sealed (login_caught call s)"
proof -
  show "stays_sealed (begin_mutation s)"
    using s by (auto simp: begin_mutation_def stays_sealed_def auth_simps split: list.split option.split mutation_kind.split)
  show "stays_sealed (operation_aborted cause s)"
    using s logout_end_seals [OF s] by (auto simp: operation_aborted_def stays_sealed_def split: list.split mutation_phase.split)
  show "stays_sealed (mutation_ends s)"
    using s by (auto simp: mutation_ends_def stays_sealed_def sealed_def split: list.split mutation_phase.split)
  have "sealed (s\<lparr>au_rejectedLogins := l\<rparr>)" for l using s by (simp add: auth_simps)
  then show "stays_sealed (login_caught call s)"
    using s clear_seals [OF sealed_superseded]
    by (auto simp: login_caught_def stays_sealed_def Let_def split: option.split)
qed

lemma sealed_event: "sealed s \<Longrightarrow> stays_sealed (auth_event date_parse i s)"
proof (cases i)
  case (ExpiryFired timer failure)
  assume s: "sealed s"
  show ?thesis
  proof (cases "au_expiry s = Some timer")
    case True
    from expiry_seals [OF sealed_next_superseded [OF s] this] show ?thesis by (simp add: ExpiryFired)
  qed (simp add: ExpiryFired expiry_fired_def stays_sealed_def s)
next
  case (FlightCaught f)
  then show "sealed s \<Longrightarrow> ?thesis"
    using flight_failed_seals by (auto simp: flight_caught_def stays_sealed_def split: flight_phase.split)
qed (simp_all add: request_seals flight_event_seals acquire_event_seals mutation_event_seals, simp_all add: stays_sealed_def)

lemma sealed_frame:
  assumes s: "sealed s" and frame: "au_stack s = frame # stack"
  shows "stays_sealed (frame_resumes frame (s\<lparr>au_stack := stack\<rparr>))"
proof (cases frame)
  case (EnqueueRest kind lifetimeOwner)
  then show ?thesis using s frame by (cases kind) (auto simp: stays_sealed_def sealed_def)
qed (use s frame in \<open>auto simp: stays_sealed_def sealed_def\<close>)

lemma sealed_step: "sealed s \<Longrightarrow> \<not> is_login i \<Longrightarrow> stays_sealed (auth_step date_parse initial s i)"
  using sealed_call [of s date_parse initial i] sealed_event [of s date_parse i] sealed_frame [of s]
  by (auto simp: auth_step_def stays_sealed_def split: option.split list.split)

lemma sealed_run: "sealed s \<Longrightarrow> list_all (\<lambda>i. \<not> is_login i) ins \<Longrightarrow> stays_sealed (run (auth_step date_parse initial) s ins)"
proof (induction ins arbitrary: s)
  case (Cons i ins)
  have "stays_sealed (auth_step date_parse initial s i)" using Cons.prems by (simp add: sealed_step)
  with Cons.IH [of "fst (auth_step date_parse initial s i)"] Cons.prems(2) show ?case
    by (simp add: stays_sealed_def run_Cons del: run.simps(2))
qed (simp add: stays_sealed_def)

lemma ending_superseded:
  assumes "epochs_past s" "\<And>lifetimeOwner. EnqueueRest LoginMutation lifetimeOwner \<notin> set (au_stack s)"
  shows "superseded (next_generation s)"
  using assms by (auto simp: epochs_past_def superseded_def next_generation_def less_Suc_eq_le)

text \<open>Claim C5: the end of a session is final. Once a logout is called, the session is invalidated or its
  expiry timer fires, while no login is waiting to be queued, nothing in flight and no later call but a login
  brings the session back: whatever happens, in any order, no authenticated snapshot is published, no lease
  is granted and no status check is sent.\<close>

theorem ended_session_stays_ended:
  assumes run: "s = fst (run (auth_step date_parse initial) (createAuthStore initial) ins)"
    and ends: "i = Logout \<or> i = Invalidate cause \<or> i = ExpiryFired timer failure \<and> au_expiry s = Some timer \<and> au_stack s = []"
    and idle: "\<forall>frame \<in> set (au_stack s). \<forall>lifetimeOwner. frame \<noteq> EnqueueRest LoginMutation lifetimeOwner"
    and quiet: "list_all (\<lambda>i. \<not> is_login i) later"
    and later: "run (auth_step date_parse initial) s (i # later) = (s', out)"
  shows "list_all (\<lambda>x. \<not> admits x) out \<and> au_credential s' = None \<and> au_blocked s' \<and>
    sn_status (au_snapshot s') \<noteq> StAuthenticated"
proof -
  have "epochs_past s" unfolding run by (rule auth_epochs.run_inv [OF created_epochs])
  then have sup: "superseded (next_generation s)" by (rule ending_superseded) (use idle in blast)
  have "stays_sealed (auth_step date_parse initial s i)"
    using ends logout_seals [OF sup] invalidate_seals [OF sup] expiry_seals [OF sup]
    by (auto simp: auth_step_def)
  then have "stays_sealed (run (auth_step date_parse initial) s (i # later))"
    using sealed_run [OF _ quiet, of "fst (auth_step date_parse initial s i)"]
    by (simp add: stays_sealed_def run_Cons del: run.simps(2))
  then have "stays_sealed (s', out)" by (simp only: later)
  then show ?thesis by (simp add: stays_sealed_def sealed_def)
qed

section \<open>Runs\<close>

definition sample_body :: jsval where
  "sample_body = JObject True [(''status'', JStr ''authenticated''),
     (''identity'', JObject True [(''subject'', JStr ''ada''), (''kind'', JStr ''user''),
        (''restrictions'', JObject True [(''mode'', JStr ''unrestricted'')])]),
     (''expiresAt'', JStr ''2026-01-01T00:00:00Z''), (''csrfToken'', JStr ''t'')]"

definition sample_date :: "string \<Rightarrow> jsnum" where "sample_date d = Fin 1000"

lemma sample_time: "parseRfc3339 sample_date ''2026-01-01T00:00:00Z'' = Some 1000"
  by (simp add: parseRfc3339_def rfc3339_pattern_def digits_at_def zone_pattern_def number_at_def is_space_def unit_of_def
      is_digit_char_def digits_value_def sample_date_def Let_def)

definition sample_answer :: session_response where
  "sample_answer = the (decodeSessionResponse sample_date sample_body)"

lemma sample_received: "received sample_date sample_body = Inr sample_answer" "sr_csrfToken sample_answer = ''t''"
  "parseRfc3339 sample_date (sr_expiresAt sample_answer) = Some 1000"
  by (simp_all add: received_def sample_answer_def decodeSessionResponse_def sample_body_def isSessionIdentity_def
      isRestrictions_def isAbsentOr_def sample_time)

text \<open>A login whose answer signs in.\<close>

definition signed_in :: "auth_input list" where
  "signed_in = [Login False, SubscriberReturned, MutationTurn, RequestSettled (SessionAnswer sample_body 0),
     SubscriberReturned, MutationEnds]"

lemmas run_steps = auth_step_def login_def enqueue_mutation_def fence_def clear_def stopProtectedWork_def publish_snapshot_def
  next_generation_def abort_flight_def begin_mutation_def set_phase_def request_settled_def login_answered_def sample_received
  adopt_def SESSION_LIFETIME_MS_def SERVER_DATE_LAG_MS_def mutation_ends_def createAuthStore_def Let_def
  acquire_call_def begin_acquire_def read_header_def set_acquire_def acquire_returns_def joined_def revalidate_def queue_tail_def
  attempt_passes_def set_flight_def flight_settled_def flight_unsettled_def flight_failed_def settleFailedStatus_def

definition leased :: "auth_input list" where
  "leased = signed_in @ [AcquireCall True False 0, AcquireReturns 0]"

definition leased_store :: auth_store where
  "leased_store = fst (run (auth_step sample_date None) (createAuthStore None) leased)"

lemma leased_run: "run (auth_step sample_date None) (createAuthStore None) leased = (leased_store,
    snd (run (auth_step sample_date None) (createAuthStore None) leased))"
  by (simp add: leased_store_def)

lemma leased_facts: "Leased 0 1 ''t'' \<in> set (snd (run (auth_step sample_date None) (createAuthStore None) leased))"
  "LifetimeAborted 1 \<notin> set (snd (run (auth_step sample_date None) (createAuthStore None) leased))"
  "au_stack leased_store = []" "sn_status (au_snapshot leased_store) = StAuthenticated"
  by (simp_all add: leased_store_def leased_def signed_in_def run_steps)

theorem leases_end_with_session_witness:
  "let (s, out) = run (auth_step sample_date None) (createAuthStore None) leased in
   Leased 0 1 ''t'' \<in> set out \<and> LifetimeAborted 1 \<notin> set out \<and> au_lifetime s = 1 \<and> au_credential s \<noteq> None"
  using leases_end_with_session [OF leased_run leased_facts(1)] leased_facts(1,2) by (auto simp: split_beta leased_store_def)

theorem ended_session_stays_ended_witness:
  "let later = [SubscriberReturned, MutationTurn, RequestSettled LogoutAnswer, SubscriberReturned, MutationEnds, Revalidate];
       (s, out) = run (auth_step sample_date None) leased_store (Logout # later)
   in sn_status (au_snapshot leased_store) = StAuthenticated \<and> list_all (\<lambda>x. \<not> admits x) out \<and> au_credential s = None"
proof -
  let ?later = "[SubscriberReturned, MutationTurn, RequestSettled LogoutAnswer, SubscriberReturned, MutationEnds, Revalidate]"
  obtain s out where r: "run (auth_step sample_date None) leased_store (Logout # ?later) = (s, out)" by (meson surj_pair)
  have "list_all (\<lambda>x. \<not> admits x) out \<and> au_credential s = None"
    using ended_session_stays_ended [OF leased_store_def disjI1 [OF refl] _ _ r] by (simp add: leased_facts)
  then show ?thesis unfolding Let_def r by (simp add: leased_facts)
qed

end
