(* ===== verification/Cookies.thy ===== *)
theory Cookies imports Auth_Guards JS_Map begin

text \<open>
  Cookies and the request helpers of the server routes: \<^verbatim>\<open>packages/std/src/web/cookie.ts\<close> and, of
  \<^verbatim>\<open>packages/auth/src/server/bff\<close>, the request jar, the origin check, redirects and the statuses of
  failures. Parsing and resolving URLs are arguments.
  A Max-Age is a natural number. Strings are of Latin-1 code units.
\<close>

section \<open>The cookie grammar\<close>

definition isCookieNameToken :: "string \<Rightarrow> bool" where
  "isCookieNameToken n =
     (n \<noteq> [] \<and> list_all (\<lambda>c. is_letter c \<or> is_digit_char c \<or>
        c \<in> set ''!#$%&*+-.^_`|~'' \<or> unit_of c = 39) n)"

definition isCookiePath :: "string \<Rightarrow> bool" where
  "isCookiePath p = (startsWith p ''/'' \<and> list_all (\<lambda>c. \<not> is_space c \<and> c \<noteq> CHR '';'' \<and> c \<noteq> CHR '','') (tl p))"

definition MAX_COOKIE_BYTES :: nat where "MAX_COOKIE_BYTES = 4096"

text \<open>The name and value of one part of a header, None when it is skipped.\<close>

definition cookie_pair :: "string \<Rightarrow> (string \<times> string) option" where
  "cookie_pair part =
     (let trimmed = js_trim part; name = takeWhile (\<lambda>c. c \<noteq> CHR ''='') trimmed
      in if name = [] \<or> name = trimmed then None else Some (name, drop (length name + 1) trimmed))"

definition keep_cookie :: "string jsmap \<Rightarrow> string \<Rightarrow> string jsmap" where
  "keep_cookie jar part =
     (case cookie_pair part of
        None \<Rightarrow> jar
      | Some (name, v) \<Rightarrow> if map_has jar name then jar else map_set name v jar)"

definition cookie_parts :: "string \<Rightarrow> string list" where
  "cookie_parts header = split_on (\<lambda>c. c = CHR '';'') [] header"

definition parseCookieHeader :: "string \<Rightarrow> string jsmap" where
  "parseCookieHeader header = foldl keep_cookie [] (cookie_parts header)"

definition readCookie :: "string \<Rightarrow> string \<Rightarrow> string option" where
  "readCookie header name = map_get (parseCookieHeader header) name"

datatype same_site = Lax | Strict | NoRestriction

fun same_site_text :: "same_site \<Rightarrow> string" where
  "same_site_text Lax = ''Lax''"
| "same_site_text Strict = ''Strict''"
| "same_site_text NoRestriction = ''None''"

record cookie_attributes =
  ca_path :: "string option"
  ca_sameSite :: "same_site option"
  ca_maxAgeSeconds :: "nat option"
  ca_secure :: bool
  ca_httpOnly :: bool

definition serializeCookieAttributes :: "cookie_attributes \<Rightarrow> string" where
  "serializeCookieAttributes a =
     (let path = (case ca_path a of None \<Rightarrow> ''/'' | Some p \<Rightarrow> p);
          sameSite = (case ca_sameSite a of None \<Rightarrow> Lax | Some s \<Rightarrow> s)
      in js_join ''; ''
           ([''Path='' @ path, ''SameSite='' @ same_site_text sameSite] @
            (case ca_maxAgeSeconds a of None \<Rightarrow> [] | Some n \<Rightarrow> [''Max-Age='' @ digits_of n]) @
            (if ca_secure a \<or> sameSite = NoRestriction then [''Secure''] else []) @
            (if ca_httpOnly a then [''HttpOnly''] else [])))"

section \<open>The request jar\<close>

record request_headers =
  rh_cookie :: "string option"
  rh_authorization :: bool
  rh_apiKey :: bool

text \<open>\<open>part.slice(0, part.indexOf("="))\<close>; without an equals sign the slice drops the last character.\<close>

definition presented_name :: "string \<Rightarrow> string" where
  "presented_name part =
     js_trim (if CHR ''='' \<in> set part then takeWhile (\<lambda>c. c \<noteq> CHR ''='') part else butlast part)"

definition session_name :: string where "session_name = ''__Host-session''"
definition transaction_name :: string where "transaction_name = ''__Host-login_tx''"

definition createRequestJar :: "request_headers \<Rightarrow> auth_error_code + string jsmap" where
  "createRequestJar headers =
     (let header = (case rh_cookie headers of None \<Rightarrow> [] | Some h \<Rightarrow> h);
          presented = filter (\<lambda>part. presented_name part = session_name) (cookie_parts header)
      in if 1 < length presented \<or> rh_authorization headers \<or> rh_apiKey headers then Inl SessionInvalid
         else Inr (parseCookieHeader header))"

section \<open>Origins, redirects and failures\<close>

record parsed_url =
  pu_protocol :: string
  pu_origin :: string
  pu_href :: string

type_synonym url_parser = "string \<Rightarrow> parsed_url option"

definition parseAppOrigin :: "url_parser \<Rightarrow> string \<Rightarrow> auth_error_code + string" where
  "parseAppOrigin parse_url v =
     (case parse_url v of
        None \<Rightarrow> Inl AuthConfig
      | Some url \<Rightarrow>
          if pu_protocol url \<noteq> ''http:'' \<and> pu_protocol url \<noteq> ''https:'' then Inl AuthConfig else Inr (pu_origin url))"

record provenance =
  pv_secFetchSite :: "string option"
  pv_origin :: "string option"
  pv_referer :: "string option"

definition isSameOriginRequest :: "url_parser \<Rightarrow> provenance \<Rightarrow> string \<Rightarrow> auth_error_code + bool" where
  "isSameOriginRequest parse_url request origin =
     (case parseAppOrigin parse_url origin of
        Inl err \<Rightarrow> Inl err
      | Inr expected \<Rightarrow> Inr
          (case pv_secFetchSite request of
             Some site \<Rightarrow> site = ''same-origin''
           | None \<Rightarrow>
               (case pv_origin request of
                  Some sender \<Rightarrow> sender = expected
                | None \<Rightarrow>
                    (case pv_referer request of
                       Some referer \<Rightarrow> map_option pu_origin (parse_url referer) = Some expected
                     | None \<Rightarrow> False))))"

text \<open>\<open>resolve_url path origin\<close> is the text of a path resolved against an origin.\<close>

record see_other =
  so_status :: nat
  so_location :: string
  so_cookies :: "string list"

definition seeOther :: "string \<Rightarrow> string list \<Rightarrow> see_other" where
  "seeOther location cookies = \<lparr>so_status = 303, so_location = location, so_cookies = cookies\<rparr>"

definition redirectToPath ::
  "url_parser \<Rightarrow> (string \<Rightarrow> string \<Rightarrow> string) \<Rightarrow> string \<Rightarrow> string option \<Rightarrow> string option \<Rightarrow> string list \<Rightarrow> auth_error_code + see_other" where
  "redirectToPath parse_url resolve_url appOrigin path fallback cookies =
     (case parseAppOrigin parse_url appOrigin of
        Inl err \<Rightarrow> Inl err
      | Inr origin \<Rightarrow> Inr (seeOther (resolve_url (sanitizeReturnTo path (sanitizeReturnTo fallback ''/'')) origin) cookies))"

definition redirectToUrl :: "url_parser \<Rightarrow> string \<Rightarrow> string list \<Rightarrow> auth_error_code + see_other" where
  "redirectToUrl parse_url url cookies =
     (case parse_url url of
        None \<Rightarrow> Inl AuthConfig
      | Some target \<Rightarrow>
          if pu_protocol target \<noteq> ''http:'' \<and> pu_protocol target \<noteq> ''https:'' then Inl AuthConfig
          else Inr (seeOther (pu_href target) cookies))"

text \<open>The status and reason of a failure; None is a cause that is no error of auth.\<close>

definition authFailureResponse :: "auth_error_code option \<Rightarrow> nat \<times> string" where
  "authFailureResponse cause =
     (if cause \<in> {Some AuthNoSession, Some SessionInvalid, Some SessionExpired, Some SessionRevoked} then (401, ''SESSION_INVALID'')
      else if cause = Some AuthCsrf then (403, ''CSRF_INVALID'')
      else (503, ''AUTH_STORE_UNAVAILABLE''))"

section \<open>Reading cookies\<close>

lemma keep_cookie_get: "map_get (keep_cookie jar part) n =
    (case map_get jar n of
       Some v \<Rightarrow> Some v
     | None \<Rightarrow> (case cookie_pair part of None \<Rightarrow> None | Some (k, v) \<Rightarrow> if k = n then Some v else None))"
  by (auto simp: keep_cookie_def map_has_def split: option.split)

lemma keep_cookies: "map_get (foldl keep_cookie jar parts) n =
    (case map_get jar n of Some v \<Rightarrow> Some v | None \<Rightarrow> map_of (List.map_filter cookie_pair parts) n)"
  by (induction parts arbitrary: jar) (auto simp: map_filter_simps keep_cookie_get split: option.split)

lemma readCookie_first: "map_get (parseCookieHeader header) n = map_of (List.map_filter cookie_pair (cookie_parts header)) n"
  by (simp add: parseCookieHeader_def keep_cookies)

lemma map_of_filtered: "map_of (List.map_filter f xs) k = Some v \<Longrightarrow> \<exists>x \<in> set xs. f x = Some (k, v)"
  by (drule map_of_SomeD) (auto simp: map_filter_set)

lemma filtered_map_of: "x \<in> set xs \<Longrightarrow> f x = Some (k, v) \<Longrightarrow> \<exists>w. map_of (List.map_filter f xs) k = Some w"
  by (induction xs) (auto simp: map_filter_simps split: option.split)

lemma js_trim_split: "\<exists>l r. s = l @ js_trim s @ r \<and> list_all is_space l \<and> list_all is_space r"
proof -
  let ?d = "dropWhile is_space s"
  have "rev ?d = takeWhile is_space (rev ?d) @ dropWhile is_space (rev ?d)" by simp
  then have "?d = js_trim s @ rev (takeWhile is_space (rev ?d))" unfolding js_trim_def by (metis rev_append rev_rev_ident)
  moreover have "s = takeWhile is_space s @ ?d" by simp
  ultimately have "s = takeWhile is_space s @ js_trim s @ rev (takeWhile is_space (rev ?d))" by metis
  moreover have "list_all is_space (takeWhile is_space s)" "list_all is_space (rev (takeWhile is_space (rev ?d)))"
    by (auto simp: list_all_iff dest: set_takeWhileD)
  ultimately show ?thesis by blast
qed

lemma js_trim_space: "list_all is_space l \<Longrightarrow> s \<noteq> [] \<Longrightarrow> \<not> is_space (hd s) \<Longrightarrow> \<not> is_space (last s) \<Longrightarrow> js_trim (l @ s) = s"
proof -
  assume l: "list_all is_space l" and s: "s \<noteq> []" "\<not> is_space (hd s)" "\<not> is_space (last s)"
  have "dropWhile is_space (l @ s) = s"
    using l s by (induction l) (cases s, auto)
  moreover have "dropWhile is_space (rev s) = rev s" using s by (cases s rule: rev_cases) auto
  ultimately show ?thesis by (simp add: js_trim_def)
qed

lemma space_not_equals: "is_space c \<Longrightarrow> c \<noteq> CHR ''=''"
  by (auto simp: is_space_def unit_of_def)

lemma session_presented:
  assumes "cookie_pair part = Some (session_name, v)"
  shows "presented_name part = session_name"
proof -
  obtain l r where lr: "part = l @ js_trim part @ r" "list_all is_space l" using js_trim_split by blast
  have t: "takeWhile (\<lambda>c. c \<noteq> CHR ''='') (js_trim part) = session_name" "session_name \<noteq> js_trim part"
    using assms by (auto simp: cookie_pair_def Let_def split: if_splits)
  have e: "CHR ''='' \<in> set (js_trim part)"
    using t takeWhile_eq_all_conv [of "\<lambda>c. c \<noteq> CHR ''=''" "js_trim part"] by auto
  have l: "\<forall>x \<in> set l. x \<noteq> CHR ''=''" using lr(2) space_not_equals by (auto simp: list_all_iff)
  then have "takeWhile (\<lambda>c. c \<noteq> CHR ''='') (l @ js_trim part @ r) = l @ takeWhile (\<lambda>c. c \<noteq> CHR ''='') (js_trim part @ r)"
    by (intro takeWhile_append2) auto
  also have "takeWhile (\<lambda>c. c \<noteq> CHR ''='') (js_trim part @ r) = session_name"
    using e t(1) takeWhile_append1 [of "CHR ''=''" "js_trim part" "\<lambda>c. c \<noteq> CHR ''=''" r] by simp
  finally have "takeWhile (\<lambda>c. c \<noteq> CHR ''='') part = l @ session_name" using lr(1) by simp
  moreover have "CHR ''='' \<in> set part" using e by (subst lr(1)) simp
  ultimately have "presented_name part = js_trim (l @ session_name)" by (simp add: presented_name_def)
  also have "\<dots> = session_name"
    by (rule js_trim_space [OF lr(2)]) (simp_all add: session_name_def is_space_def unit_of_def)
  finally show ?thesis .
qed

text \<open>Claim C24: an accepted request presents one session only. When the request jar accepts the headers, they carry
  no other credential, and every part of the cookie header that a reader would take for the session cookie has
  the value the server reads, whatever white space surrounds it.\<close>

theorem jar_reads_the_only_session:
  assumes "createRequestJar headers = Inr jar" and "rh_cookie headers = Some header"
  shows "\<not> rh_authorization headers \<and> \<not> rh_apiKey headers \<and>
    (map_get jar session_name = Some v \<longleftrightarrow> (\<exists>part \<in> set (cookie_parts header). cookie_pair part = Some (session_name, v)))"
proof -
  let ?parts = "cookie_parts header"
  have jar: "jar = parseCookieHeader header" and one: "length (filter (\<lambda>part. presented_name part = session_name) ?parts) \<le> 1"
    and plain: "\<not> rh_authorization headers" "\<not> rh_apiKey headers"
    using assms by (auto simp: createRequestJar_def Let_def split: if_splits)
  have same: "p = q" if "p \<in> set ?parts" "q \<in> set ?parts" "cookie_pair p = Some (session_name, x)" "cookie_pair q = Some (session_name, y)"
    for p q x y
  proof -
    have "{p, q} \<subseteq> set (filter (\<lambda>part. presented_name part = session_name) ?parts)"
      using that session_presented by auto
    then show ?thesis using one by (cases "filter (\<lambda>part. presented_name part = session_name) ?parts") auto
  qed
  have "map_get jar session_name = Some v" if p: "p \<in> set ?parts" "cookie_pair p = Some (session_name, v)" for p
  proof -
    obtain w where w: "map_get jar session_name = Some w"
      using filtered_map_of [of p ?parts cookie_pair session_name v] p by (auto simp: jar readCookie_first)
    then obtain q where q: "q \<in> set ?parts" "cookie_pair q = Some (session_name, w)"
      using map_of_filtered [of cookie_pair ?parts] by (auto simp: jar readCookie_first)
    from same [OF p(1) q(1) p(2) q(2)] w p(2) q(2) show ?thesis by simp
  qed
  then show ?thesis using plain map_of_filtered [of cookie_pair ?parts session_name v] by (auto simp: jar readCookie_first)
qed

theorem jar_reads_the_only_session_witness:
  "let headers = \<lparr>rh_cookie = Some ''a=1; __Host-session=t'', rh_authorization = False, rh_apiKey = False\<rparr>
   in \<exists>jar. createRequestJar headers = Inr jar \<and> map_get jar session_name = Some ''t''"
proof -
  let ?h = "\<lparr>rh_cookie = Some ''a=1; __Host-session=t'', rh_authorization = False, rh_apiKey = False\<rparr>"
  have parts: "cookie_parts ''a=1; __Host-session=t'' = [''a=1'', '' __Host-session=t'']" by (simp add: cookie_parts_def)
  have pair: "cookie_pair '' __Host-session=t'' = Some (session_name, ''t'')"
    by (simp add: cookie_pair_def js_trim_def is_space_def unit_of_def session_name_def Let_def)
  obtain jar where jar: "createRequestJar ?h = Inr jar"
    by (simp add: createRequestJar_def parts presented_name_def js_trim_def is_space_def unit_of_def session_name_def)
  from jar_reads_the_only_session [OF jar, of "''a=1; __Host-session=t''" "''t''"] pair parts have "map_get jar session_name = Some ''t''"
    by auto
  with jar show ?thesis by simp
qed

text \<open>A header as a browser writes it, from its cookies in order.\<close>

definition cookie_header :: "(string \<times> string) list \<Rightarrow> string" where
  "cookie_header cookies = js_join ''; '' (map (\<lambda>(n, v). n @ ''='' @ v) cookies)"

lemma split_on_free: "list_all (\<lambda>c. \<not> sep c) a \<Longrightarrow>
    split_on sep current a = [current @ a]"
  "list_all (\<lambda>c. \<not> sep c) a \<Longrightarrow> sep c \<Longrightarrow> split_on sep current (a @ c # b) = (current @ a) # split_on sep [] b"
  by (induction a arbitrary: current) auto

lemma token_char: "list_all (\<lambda>c. is_letter c \<or> is_digit_char c \<or> c \<in> set ''!#$%&*+-.^_`|~'' \<or> unit_of c = 39) n \<Longrightarrow>
    c \<in> set n \<Longrightarrow> c \<noteq> CHR '';'' \<and> c \<noteq> CHR ''='' \<and> \<not> is_space c"
  by (auto simp: list_all_iff is_letter_def is_digit_char_def is_space_def unit_of_def Let_def)

lemma pair_of_part:
  assumes n: "isCookieNameToken n" and v: "v = [] \<or> \<not> is_space (last v)" and l: "list_all is_space l"
  shows "cookie_pair (l @ n @ ''='' @ v) = Some (n, v)"
proof -
  have t: "c \<noteq> CHR '';'' \<and> c \<noteq> CHR ''='' \<and> \<not> is_space c" if "c \<in> set n" for c
    using n token_char [of n c] that by (simp add: isCookieNameToken_def)
  have ne: "n \<noteq> []" using n by (simp add: isCookieNameToken_def)
  have e: "\<not> is_space CHR ''=''" by (simp add: is_space_def unit_of_def)
  have "js_trim (l @ (n @ ''='' @ v)) = n @ ''='' @ v"
    by (rule js_trim_space [OF l]) (use ne v e t [of "hd n"] in auto)
  moreover have "takeWhile (\<lambda>c. c \<noteq> CHR ''='') (n @ ''='' @ v) = n"
    using t by (simp add: takeWhile_append)
  ultimately show ?thesis using ne by (simp add: cookie_pair_def Let_def)
qed

lemma cookie_parts_header:
  assumes "cookies \<noteq> []" "\<forall>(n, v) \<in> set cookies. isCookieNameToken n \<and> CHR '';'' \<notin> set v"
  shows "split_on (\<lambda>c. c = CHR '';'') current (cookie_header cookies) =
    (current @ fst (hd cookies) @ ''='' @ snd (hd cookies)) # map (\<lambda>(n, v). '' '' @ n @ ''='' @ v) (tl cookies)"
  using assms
proof (induction cookies arbitrary: current)
  case (Cons c cookies)
  obtain n v where c: "c = (n, v)" by (cases c)
  have free: "list_all (\<lambda>c. c \<noteq> CHR '';'') (n @ ''='' @ v)"
    using Cons.prems c token_char [of n] by (auto simp: isCookieNameToken_def list_all_iff)
  then have free': "list_all (\<lambda>c. c \<noteq> CHR '';'') (n @ CHR ''='' # v)" by simp
  show ?case
  proof (cases cookies)
    case Nil
    then show ?thesis using split_on_free(1) [of "\<lambda>c. c = CHR '';''" "n @ ''='' @ v" current] free
      by (simp add: cookie_header_def c)
  next
    case (Cons d ds)
    have "cookie_header (c # cookies) = (n @ ''='' @ v) @ CHR '';'' # '' '' @ cookie_header cookies"
      using Cons by (simp add: cookie_header_def c js_join_Cons)
    then show ?thesis using Cons.prems Cons.IH [of "'' ''"] Cons free
      split_on_free(2) [of "\<lambda>c. c = CHR '';''" "n @ CHR ''='' # v" "CHR '';''" current, OF free']
      by (simp add: c split_beta)
  qed
qed simp

lemma keep_fresh:
  assumes "distinct (map fst (jar @ cookies))" "\<And>c. c \<in> set cookies \<Longrightarrow> cookie_pair (part c) = Some c"
  shows "foldl keep_cookie jar (map part cookies) = jar @ cookies"
  using assms
proof (induction cookies arbitrary: jar)
  case (Cons c cookies)
  obtain n v where c: "c = (n, v)" by (cases c)
  have "keep_cookie jar (part c) = jar @ [c]"
    using Cons.prems(1) Cons.prems(2) [of c] by (auto simp: keep_cookie_def c map_has_iff map_set_fresh)
  then show ?case using Cons.IH [of "jar @ [c]"] Cons.prems by simp
qed simp

text \<open>The parser reads what a browser sends. From the header of cookies with distinct token names and
  values without semicolons and trailing white space it gives exactly these cookies, in order, and reading one
  gives its value unchanged.\<close>

theorem cookies_round_trip:
  assumes "distinct (map fst cookies)"
    and "\<forall>(n, v) \<in> set cookies. isCookieNameToken n \<and> CHR '';'' \<notin> set v \<and> (v = [] \<or> \<not> is_space (last v))"
  shows "parseCookieHeader (cookie_header cookies) = cookies \<and>
    (\<forall>(n, v) \<in> set cookies. readCookie (cookie_header cookies) n = Some v)"
proof -
  have pairs: "cookie_pair (l @ n @ ''='' @ v) = Some (n, v)" if "(n, v) \<in> set cookies" "list_all is_space l" for l n v
    using assms(2) that by (intro pair_of_part) auto
  have sp: "list_all is_space '' ''" by (simp add: is_space_def unit_of_def)
  have "parseCookieHeader (cookie_header cookies) = cookies"
  proof (cases cookies)
    case Nil
    then show ?thesis by (simp add: parseCookieHeader_def cookie_header_def cookie_parts_def keep_cookie_def cookie_pair_def js_trim_def)
  next
    case (Cons c rest)
    obtain n v where c: "c = (n, v)" by (cases c)
    have "cookie_parts (cookie_header cookies) = (n @ ''='' @ v) # map (\<lambda>(n, v). '' '' @ n @ ''='' @ v) rest"
      using cookie_parts_header [of cookies "[]"] assms(2) Cons by (fastforce simp: cookie_parts_def c)
    moreover have "keep_cookie [] (n @ ''='' @ v) = [c]"
      using pairs [of n v "[]"] by (simp add: keep_cookie_def Cons c map_has_def)
    moreover have "foldl keep_cookie [c] (map (\<lambda>(n, v). '' '' @ n @ ''='' @ v) rest) = [c] @ rest"
    proof (rule keep_fresh)
      show "distinct (map fst ([c] @ rest))" using assms(1) Cons by simp
      show "cookie_pair ((\<lambda>(n, v). '' '' @ n @ ''='' @ v) d) = Some d" if "d \<in> set rest" for d
        using pairs [of "fst d" "snd d" "'' ''"] sp that by (simp add: Cons split_beta)
    qed
    ultimately show ?thesis by (simp add: parseCookieHeader_def Cons)
  qed
  with assms(1) show ?thesis by (auto simp: readCookie_def)
qed

theorem cookies_round_trip_witness:
  "readCookie (cookie_header [(''theme'', ''dark''), (''__Host-session'', ''t'')]) ''__Host-session'' = Some ''t''"
  using cookies_round_trip [of "[(''theme'', ''dark''), (''__Host-session'', ''t'')]"]
  by (simp add: isCookieNameToken_def is_letter_def is_space_def unit_of_def Let_def)

end
