(* ===== verification/Server_Session.thy ===== *)
theory Server_Session imports Cookies Auth_Signing begin

text \<open>
  The server's session, \<open>createServerSession\<close> of \<^verbatim>\<open>packages/auth/src/server/server-session.ts\<close>.

  Its operations run over services that fail or answer as they please: the session store, the identity
  provider, the clock and the source of random bytes. A \<open>proc\<close> is such an operation: it ends, throws, or asks
  one service and continues with its answer, so an operation is the tree of everything it can do.
  \<open>run_proc\<close> runs one on the answers given. Each operation of the code is bounded by a timeout; the bound
  aborts the calls under way, which then answer with a failure, and the operation continues as modelled. The
  times in the records a store gives are finite; a record with another time, which the code refuses or, in a
  login transaction or a session replaced, takes as it is, is not modelled. The
  digest and the HMAC of the host, the validation of a session value against its schema and the conversions an
  application configures are part of the configuration.
\<close>

section \<open>Operations\<close>

datatype fault = AuthFault auth_error_code | OtherFault nat

record provider_session =
  ps_identity :: jsval
  ps_sessionHandle :: "string option"

datatype 'a proc =
    Return 'a
  | Throw fault
  | SetCookie string "'a proc"
  | Now "rat \<Rightarrow> 'a proc"
  | RandomBytes nat "8 word list \<Rightarrow> 'a proc"
  | StoreRead string "fault + stored_session option \<Rightarrow> 'a proc"
  | StoreCreate stored_session "string option" "fault + unit \<Rightarrow> 'a proc"
  | StoreRevoke string "fault + string list \<Rightarrow> 'a proc"
  | StoreCreateLogin stored_login "fault + unit \<Rightarrow> 'a proc"
  | StoreConsumeLogin string "fault + stored_login option \<Rightarrow> 'a proc"
  | AdapterBeginLogin string "fault + string \<times> string \<Rightarrow> 'a proc"
  | AdapterCompleteLogin string "fault + provider_session \<Rightarrow> 'a proc"
  | AdapterRefresh string "fault + jsval \<Rightarrow> 'a proc"
  | AdapterLogout "string list" "fault option list \<Rightarrow> 'a proc"   \<comment> \<open>all at once, each failed or not\<close>

primrec bind_proc :: "'a proc \<Rightarrow> ('a \<Rightarrow> 'b proc) \<Rightarrow> 'b proc" where
  "bind_proc (Return x) f = f x"
| "bind_proc (Throw e) f = Throw e"
| "bind_proc (SetCookie c p) f = SetCookie c (bind_proc p f)"
| "bind_proc (Now k) f = Now (\<lambda>a. bind_proc (k a) f)"
| "bind_proc (RandomBytes n k) f = RandomBytes n (\<lambda>a. bind_proc (k a) f)"
| "bind_proc (StoreRead r k) f = StoreRead r (\<lambda>a. bind_proc (k a) f)"
| "bind_proc (StoreCreate r p k) f = StoreCreate r p (\<lambda>a. bind_proc (k a) f)"
| "bind_proc (StoreRevoke r k) f = StoreRevoke r (\<lambda>a. bind_proc (k a) f)"
| "bind_proc (StoreCreateLogin r k) f = StoreCreateLogin r (\<lambda>a. bind_proc (k a) f)"
| "bind_proc (StoreConsumeLogin r k) f = StoreConsumeLogin r (\<lambda>a. bind_proc (k a) f)"
| "bind_proc (AdapterBeginLogin t k) f = AdapterBeginLogin t (\<lambda>a. bind_proc (k a) f)"
| "bind_proc (AdapterCompleteLogin t k) f = AdapterCompleteLogin t (\<lambda>a. bind_proc (k a) f)"
| "bind_proc (AdapterRefresh h k) f = AdapterRefresh h (\<lambda>a. bind_proc (k a) f)"
| "bind_proc (AdapterLogout hs k) f = AdapterLogout hs (\<lambda>a. bind_proc (k a) f)"

text \<open>\<open>try\<close> and \<open>catch\<close>.\<close>

primrec catch_proc :: "'a proc \<Rightarrow> (fault \<Rightarrow> 'a proc) \<Rightarrow> 'a proc" where
  "catch_proc (Return x) h = Return x"
| "catch_proc (Throw e) h = h e"
| "catch_proc (SetCookie c p) h = SetCookie c (catch_proc p h)"
| "catch_proc (Now k) h = Now (\<lambda>a. catch_proc (k a) h)"
| "catch_proc (RandomBytes n k) h = RandomBytes n (\<lambda>a. catch_proc (k a) h)"
| "catch_proc (StoreRead r k) h = StoreRead r (\<lambda>a. catch_proc (k a) h)"
| "catch_proc (StoreCreate r p k) h = StoreCreate r p (\<lambda>a. catch_proc (k a) h)"
| "catch_proc (StoreRevoke r k) h = StoreRevoke r (\<lambda>a. catch_proc (k a) h)"
| "catch_proc (StoreCreateLogin r k) h = StoreCreateLogin r (\<lambda>a. catch_proc (k a) h)"
| "catch_proc (StoreConsumeLogin r k) h = StoreConsumeLogin r (\<lambda>a. catch_proc (k a) h)"
| "catch_proc (AdapterBeginLogin t k) h = AdapterBeginLogin t (\<lambda>a. catch_proc (k a) h)"
| "catch_proc (AdapterCompleteLogin t k) h = AdapterCompleteLogin t (\<lambda>a. catch_proc (k a) h)"
| "catch_proc (AdapterRefresh x k) h = AdapterRefresh x (\<lambda>a. catch_proc (k a) h)"
| "catch_proc (AdapterLogout hs k) h = AdapterLogout hs (\<lambda>a. catch_proc (k a) h)"

text \<open>What an operation did, with the answers it got.\<close>

datatype happening =
    CookieSet string
  | TimeRead rat
  | BytesDrawn "8 word list"
  | ReadAnswered string "fault + stored_session option"
  | CreateAnswered stored_session "string option" "fault + unit"
  | RevokeAnswered string "fault + string list"
  | LoginStored stored_login "fault + unit"
  | LoginTaken string "fault + stored_login option"
  | BeginAnswered string "fault + string \<times> string"
  | CompleteAnswered string "fault + provider_session"
  | RefreshAnswered string "fault + jsval"
  | LogoutAnswered "string list" "fault option list"

definition proc_step :: "'a proc \<Rightarrow> happening \<Rightarrow> 'a proc option" where
  "proc_step p e =
     (case p of
        Return _ \<Rightarrow> None
      | Throw _ \<Rightarrow> None
      | SetCookie c k \<Rightarrow> (case e of CookieSet c' \<Rightarrow> if c' = c then Some k else None | _ \<Rightarrow> None)
      | Now k \<Rightarrow> (case e of TimeRead t \<Rightarrow> Some (k t) | _ \<Rightarrow> None)
      | RandomBytes n k \<Rightarrow> (case e of BytesDrawn bs \<Rightarrow> if length bs = n then Some (k bs) else None | _ \<Rightarrow> None)
      | StoreRead r k \<Rightarrow> (case e of ReadAnswered r' a \<Rightarrow> if r' = r then Some (k a) else None | _ \<Rightarrow> None)
      | StoreCreate r p k \<Rightarrow> (case e of CreateAnswered r' p' a \<Rightarrow> if r' = r \<and> p' = p then Some (k a) else None | _ \<Rightarrow> None)
      | StoreRevoke r k \<Rightarrow> (case e of RevokeAnswered r' a \<Rightarrow> if r' = r then Some (k a) else None | _ \<Rightarrow> None)
      | StoreCreateLogin l k \<Rightarrow> (case e of LoginStored l' a \<Rightarrow> if l' = l then Some (k a) else None | _ \<Rightarrow> None)
      | StoreConsumeLogin r k \<Rightarrow> (case e of LoginTaken r' a \<Rightarrow> if r' = r then Some (k a) else None | _ \<Rightarrow> None)
      | AdapterBeginLogin t k \<Rightarrow> (case e of BeginAnswered t' a \<Rightarrow> if t' = t then Some (k a) else None | _ \<Rightarrow> None)
      | AdapterCompleteLogin t k \<Rightarrow> (case e of CompleteAnswered t' a \<Rightarrow> if t' = t then Some (k a) else None | _ \<Rightarrow> None)
      | AdapterRefresh h k \<Rightarrow> (case e of RefreshAnswered h' a \<Rightarrow> if h' = h then Some (k a) else None | _ \<Rightarrow> None)
      | AdapterLogout hs k \<Rightarrow>
          (case e of LogoutAnswered hs' a \<Rightarrow> if hs' = hs \<and> length a = length hs then Some (k a) else None | _ \<Rightarrow> None))"

fun run_proc :: "'a proc \<Rightarrow> happening list \<Rightarrow> 'a proc option" where
  "run_proc p [] = Some p"
| "run_proc p (e # es) = (case proc_step p e of None \<Rightarrow> None | Some q \<Rightarrow> run_proc q es)"

text \<open>The end of a complete run: its result or the failure it threw.\<close>

definition ends_with :: "'a proc \<Rightarrow> happening list \<Rightarrow> fault + 'a \<Rightarrow> bool" where
  "ends_with p es r = (run_proc p es = Some (case r of Inl e \<Rightarrow> Throw e | Inr x \<Rightarrow> Return x))"

text \<open>Awaiting an answer throws its failure.\<close>

definition awaited :: "fault + 'a \<Rightarrow> 'a proc" where
  "awaited a = (case a of Inl e \<Rightarrow> Throw e | Inr x \<Rightarrow> Return x)"

section \<open>The configuration\<close>

record server_config =
  sv_beginLogin :: bool            \<comment> \<open>what the adapter implements\<close>
  sv_completeLogin :: bool
  sv_logout :: bool
  sv_refresh :: bool
  sv_toSessionValue :: "provider_session \<Rightarrow> fault + jsval"
  sv_toIdentity :: "jsval \<Rightarrow> fault + jsval"
  sv_valid :: "jsval \<Rightarrow> bool"      \<comment> \<open>the schema accepts\<close>
  sv_guard :: "guard_config option"
  sv_url :: url_class
  sv_sha256 :: "8 word list \<Rightarrow> 8 word list"
  sv_hmac :: hmac
  sv_keys :: "8 word list list"
  sv_toISOString :: "rat \<Rightarrow> string"
  sv_ttlSeconds :: nat
  sv_transactionTtlSeconds :: nat

definition createServerSession :: "jsnum option \<Rightarrow> jsnum option \<Rightarrow> auth_error_code + nat \<times> nat" where
  "createServerSession ttlSeconds transactionTtlSeconds =
     (let ttl = (case ttlSeconds of None \<Rightarrow> Fin (MAX_SESSION_LIFETIME_MS / 1000) | Some n \<Rightarrow> n);
          transactionTtl = (case transactionTtlSeconds of None \<Rightarrow> Fin (MAX_LOGIN_LIFETIME_MS / 1000) | Some n \<Rightarrow> n)
      in if \<not> isPositiveInteger ttl \<or> MAX_SESSION_LIFETIME_MS / 1000 < of_nat (nat_of_num ttl) \<or>
            \<not> isPositiveInteger transactionTtl \<or> MAX_LOGIN_LIFETIME_MS / 1000 < of_nat (nat_of_num transactionTtl)
         then Inl AuthConfig else Inr (nat_of_num ttl, nat_of_num transactionTtl))"

definition session_cookie :: "string \<Rightarrow> nat \<Rightarrow> string" where
  "session_cookie credential maxAge =
     session_name @ ''='' @ credential @ ''; '' @ serializeCookieAttributes
       \<lparr>ca_path = Some ''/'', ca_sameSite = Some Strict, ca_maxAgeSeconds = Some maxAge, ca_secure = True, ca_httpOnly = True\<rparr>"

definition transaction_cookie :: "string \<Rightarrow> nat \<Rightarrow> string" where
  "transaction_cookie credential maxAge =
     transaction_name @ ''='' @ credential @ ''; '' @ serializeCookieAttributes
       \<lparr>ca_path = Some ''/'', ca_sameSite = Some Lax, ca_maxAgeSeconds = Some maxAge, ca_secure = True, ca_httpOnly = True\<rparr>"

section \<open>Credentials and records\<close>

definition digest_reference :: "server_config \<Rightarrow> string \<Rightarrow> string \<Rightarrow> string" where
  "digest_reference cfg domain raw = base64urlEncode (sv_sha256 cfg (utf8_encode (domain @ ''.'' @ raw)))"

definition opaque_credential :: "string \<Rightarrow> bool" where
  "opaque_credential raw =
     (length raw = 43 \<and> list_all (\<lambda>c. c \<in> set ALPHABET) raw \<and> last raw \<in> set ''AEIMQUYcgkosw048'')"

definition cookie_reference :: "server_config \<Rightarrow> (string \<Rightarrow> string option) \<Rightarrow> string \<Rightarrow> string \<Rightarrow> string option proc" where
  "cookie_reference cfg jar name domain =
     (case jar name of
        None \<Rightarrow> Return None
      | Some raw \<Rightarrow>
          if \<not> opaque_credential raw
          then Throw (AuthFault (if name = session_name then SessionInvalid else LoginTransaction))
          else Return (Some (digest_reference cfg domain raw)))"

definition session_record :: "server_config \<Rightarrow> (string \<Rightarrow> string option) \<Rightarrow> stored_session option proc" where
  "session_record cfg jar =
     bind_proc (cookie_reference cfg jar session_name ''session'') (\<lambda>r.
       case r of
         None \<Rightarrow> Return None
       | Some reference \<Rightarrow> StoreRead reference (\<lambda>a. bind_proc (awaited a) (\<lambda>found.
           case found of
             None \<Rightarrow> Return None
           | Some s \<Rightarrow>
               if ss_reference s \<noteq> reference then Throw (AuthFault SessionInvalid)
               else Now (\<lambda>now.
                 if ss_expiresAt s \<le> now then Return None
                 else if \<not> sv_valid cfg (ss_value s) then Throw (AuthFault SessionInvalid)
                 else Return (Some s)))))"

definition read_session :: "server_config \<Rightarrow> (string \<Rightarrow> string option) \<Rightarrow> jsval option proc" where
  "read_session cfg jar = bind_proc (session_record cfg jar) (\<lambda>found. Return (map_option ss_value found))"

definition issue_csrf :: "server_config \<Rightarrow> string \<Rightarrow> string proc" where
  "issue_csrf cfg binding = RandomBytes 32 (\<lambda>bytes.
     case csrf_issue (sv_hmac cfg) (sv_keys cfg) binding bytes of Inl err \<Rightarrow> Throw (AuthFault err) | Inr token \<Rightarrow> Return token)"

definition status :: "server_config \<Rightarrow> (string \<Rightarrow> string option) \<Rightarrow> session_response proc" where
  "status cfg jar =
     bind_proc (session_record cfg jar) (\<lambda>found.
       case found of
         None \<Rightarrow> Throw (AuthFault AuthNoSession)
       | Some s \<Rightarrow>
           bind_proc (awaited (sv_toIdentity cfg (ss_value s))) (\<lambda>identity.
             bind_proc (issue_csrf cfg (ss_reference s)) (\<lambda>token.
               Return \<lparr>sr_identity = identity, sr_expiresAt = sv_toISOString cfg (ss_expiresAt s), sr_csrfToken = token\<rparr>)))"

definition snapshot_of_status :: "session_response \<Rightarrow> auth_snapshot" where
  "snapshot_of_status current =
     (let name = prop_of (prop_of (sr_identity current) ''claims'') ''name''
      in \<lparr>as_authenticated = True, as_subject = Some (string_of (prop_of (sr_identity current) ''subject'')),
          as_name = optional_string name, as_session = Some current\<rparr>)"

definition server_snapshot :: "server_config \<Rightarrow> (string \<Rightarrow> string option) \<Rightarrow> auth_snapshot proc" where
  "server_snapshot cfg jar =
     catch_proc (bind_proc (status cfg jar) (\<lambda>current. Return (snapshot_of_status current)))
       (\<lambda>cause. if cause = AuthFault AuthNoSession \<or> cause = AuthFault SessionInvalid then Return ANONYMOUS_AUTH else Throw cause)"

definition server_guard :: "server_config \<Rightarrow> (string \<Rightarrow> string option) \<Rightarrow> string option \<Rightarrow> redirect_signal option proc" where
  "server_guard cfg jar currentPath =
     (case sv_guard cfg of
        None \<Rightarrow> Throw (AuthFault AuthConfig)
      | Some guard \<Rightarrow> bind_proc (read_session cfg jar) (\<lambda>v.
          Return (if v = None then Some (unauthenticatedRedirect (sv_url cfg) guard currentPath) else None)))"

definition verifyCsrf :: "server_config \<Rightarrow> (string \<Rightarrow> string option) \<Rightarrow> string \<Rightarrow> bool proc" where
  "verifyCsrf cfg jar requestToken =
     bind_proc (session_record cfg jar) (\<lambda>found.
       case found of
         None \<Rightarrow> Throw (AuthFault AuthNoSession)
       | Some s \<Rightarrow> Return (csrf_verify (sv_hmac cfg) (sv_keys cfg) (ss_reference s) requestToken))"

definition verifyLogoutCsrf :: "server_config \<Rightarrow> (string \<Rightarrow> string option) \<Rightarrow> string \<Rightarrow> bool proc" where
  "verifyLogoutCsrf cfg jar requestToken =
     bind_proc (cookie_reference cfg jar session_name ''session'') (\<lambda>r.
       Return (case r of None \<Rightarrow> False | Some reference \<Rightarrow> csrf_verify (sv_hmac cfg) (sv_keys cfg) reference requestToken))"

section \<open>Login, logout and refresh\<close>

definition releaseProviders :: "server_config \<Rightarrow> string list \<Rightarrow> unit proc" where
  "releaseProviders cfg handles =
     (if \<not> sv_logout cfg \<or> handles = [] then Return ()
      else AdapterLogout handles (\<lambda>results.
        case List.map_filter (\<lambda>r. r) results of
          [] \<Rightarrow> Return ()
        | [failure] \<Rightarrow> Throw failure
        | _ \<Rightarrow> Throw (AuthFault StoreUnavailable)))"

definition beginLogin :: "server_config \<Rightarrow> (string \<Rightarrow> string option) \<Rightarrow> string option \<Rightarrow> string proc" where
  "beginLogin cfg jar requested =
     (if \<not> sv_beginLogin cfg then Throw (AuthFault AuthConfig)
      else bind_proc (cookie_reference cfg jar session_name ''session'') (\<lambda>held.
        bind_proc
          (case held of
             None \<Rightarrow> Return None
           | Some previous \<Rightarrow> StoreRead previous (\<lambda>a. bind_proc (awaited a) (\<lambda>found.
               case found of
                 Some _ \<Rightarrow> Return (Some previous)
               | None \<Rightarrow> StoreRevoke previous (\<lambda>b. bind_proc (awaited b) (\<lambda>handles.
                   bind_proc (releaseProviders cfg handles) (\<lambda>_. Return None))))))
          (\<lambda>previous.
             let returnTo = sanitizeReturnTo requested ''/''
             in AdapterBeginLogin returnTo (\<lambda>c. bind_proc (awaited c) (\<lambda>(authorizationUrl, transaction).
               RandomBytes 32 (\<lambda>bytes.
                 let transactionHandle = base64urlEncode bytes
                 in Now (\<lambda>now.
                   StoreCreateLogin
                     \<lparr>sl_reference = digest_reference cfg ''login'' transactionHandle, sl_transaction = transaction,
                      sl_returnTo = returnTo, sl_previous = previous,
                      sl_expiresAt = now + of_nat (sv_transactionTtlSeconds cfg) * 1000\<rparr>
                     (\<lambda>d. bind_proc (awaited d) (\<lambda>_.
                        SetCookie (transaction_cookie transactionHandle (sv_transactionTtlSeconds cfg))
                          (Return authorizationUrl))))))))))"

text \<open>From the provider's session to the cookie, inside \<open>try\<close>.\<close>

definition admit_login :: "server_config \<Rightarrow> stored_login \<Rightarrow> provider_session \<Rightarrow> (string \<times> jsval) proc" where
  "admit_login cfg transaction result =
     bind_proc (awaited (sv_toSessionValue cfg result)) (\<lambda>v.
       RandomBytes 32 (\<lambda>bytes.
         let rawCredential = base64urlEncode bytes
         in bind_proc
              (case sl_previous transaction of
                 None \<Rightarrow> Return None
               | Some previous \<Rightarrow> StoreRead previous awaited)
              (\<lambda>previousRecord.
                 bind_proc
                   (case previousRecord of
                      Some r \<Rightarrow> Now (\<lambda>now.
                        if now < ss_expiresAt r then Return (ss_expiresAt r)
                        else Now (\<lambda>now'. Return (now' + of_nat (sv_ttlSeconds cfg) * 1000)))
                    | None \<Rightarrow> Now (\<lambda>now. Return (now + of_nat (sv_ttlSeconds cfg) * 1000)))
                   (\<lambda>expiresAt.
                      StoreCreate
                        \<lparr>ss_reference = digest_reference cfg ''session'' rawCredential, ss_value = v, ss_expiresAt = expiresAt,
                         ss_providerHandle = ps_sessionHandle result\<rparr>
                        (sl_previous transaction)
                        (\<lambda>a. bind_proc (awaited a) (\<lambda>_.
                           Now (\<lambda>now.
                             SetCookie (session_cookie rawCredential (max 1 (nat \<lfloor>(expiresAt - now) / 1000\<rfloor>)))
                               (Return (sanitizeReturnTo (Some (sl_returnTo transaction)) ''/'', v)))))))))"

definition completeLogin :: "server_config \<Rightarrow> (string \<Rightarrow> string option) \<Rightarrow> (string \<times> jsval) proc" where
  "completeLogin cfg jar =
     (if \<not> sv_completeLogin cfg then Throw (AuthFault AuthConfig)
      else SetCookie (transaction_cookie [] 0)
        (bind_proc (cookie_reference cfg jar transaction_name ''login'') (\<lambda>held.
          bind_proc
            (case held of None \<Rightarrow> Return None | Some reference \<Rightarrow> StoreConsumeLogin reference awaited)
            (\<lambda>taken.
               case taken of
                 None \<Rightarrow> Throw (AuthFault LoginTransaction)
               | Some transaction \<Rightarrow> Now (\<lambda>now.
                   if sl_expiresAt transaction \<le> now \<or> Some (sl_reference transaction) \<noteq> held
                   then Throw (AuthFault LoginTransaction)
                   else AdapterCompleteLogin (sl_transaction transaction) (\<lambda>a. bind_proc (awaited a) (\<lambda>result.
                     catch_proc (admit_login cfg transaction result)
                       (\<lambda>cause.
                          case ps_sessionHandle result of
                            None \<Rightarrow> Throw cause
                          | Some sessionHandle \<Rightarrow>
                              bind_proc
                                (catch_proc (releaseProviders cfg [sessionHandle]) (\<lambda>_. Throw (AuthFault StoreUnavailable)))
                                (\<lambda>_. Throw cause)))))))))"

definition server_logout :: "server_config \<Rightarrow> (string \<Rightarrow> string option) \<Rightarrow> unit proc" where
  "server_logout cfg jar =
     bind_proc (cookie_reference cfg jar session_name ''session'') (\<lambda>held.
       bind_proc (case held of None \<Rightarrow> Return [] | Some reference \<Rightarrow> StoreRevoke reference awaited) (\<lambda>handles.
         SetCookie (session_cookie [] 0) (releaseProviders cfg handles)))"

text \<open>None stands for no tokens.\<close>

definition refreshProvider :: "server_config \<Rightarrow> (string \<Rightarrow> string option) \<Rightarrow> jsval option proc" where
  "refreshProvider cfg jar =
     bind_proc (session_record cfg jar) (\<lambda>found.
       case found of
         None \<Rightarrow> Return None
       | Some s \<Rightarrow>
           (case ss_providerHandle s of
              None \<Rightarrow> Return None
            | Some sessionHandle \<Rightarrow>
                catch_proc
                  (bind_proc
                     (if sv_refresh cfg then AdapterRefresh sessionHandle (\<lambda>a. bind_proc (awaited a) (\<lambda>t. Return (Some t)))
                      else Return None)
                     (\<lambda>tokens. bind_proc (session_record cfg jar) (\<lambda>current.
                        if map_option ss_reference current \<noteq> Some (ss_reference s) \<or>
                           Option.bind current ss_providerHandle \<noteq> Some sessionHandle
                        then Throw (AuthFault SessionRevoked) else Return tokens)))
                  (\<lambda>cause.
                     if cause = AuthFault SessionRevoked
                     then StoreRevoke (ss_reference s) (\<lambda>b. bind_proc (awaited b) (\<lambda>handles.
                       bind_proc (catch_proc (releaseProviders cfg handles) (\<lambda>_. Throw (AuthFault SessionRevoked)))
                         (\<lambda>_. Throw cause)))
                     else Throw cause)))"

end
