(* ===== verification/Server_Session_Safety.thy ===== *)
theory Server_Session_Safety imports Server_Session Opaque_Store begin

text \<open>
  What the operations of \<^verbatim>\<open>packages/auth/src/server/server-session.ts\<close> guarantee whatever the services they ask
  answer, and, composed with the memory store of \<^verbatim>\<open>packages/auth/src/server/opaque-store\<close>, what a revocation means for
  them.

  \<open>wp\<close> computes, for an operation and a predicate on how it may end, whether every run of it ends that way; each
  operation has one such lemma, and the properties read it off for the runs \<open>ends_with\<close> accepts.
\<close>

unbundle bit_operations_syntax

section \<open>Complete runs\<close>

text \<open>\<open>wp p Q h\<close>: whatever the services answer, \<open>p\<close> ends, after the happenings \<open>h\<close>, in a way \<open>Q\<close> accepts.\<close>

primrec wp :: "'a proc \<Rightarrow> (happening list \<Rightarrow> fault + 'a \<Rightarrow> bool) \<Rightarrow> happening list \<Rightarrow> bool" where
  "wp (Return x) Q h = Q h (Inr x)"
| "wp (Throw e) Q h = Q h (Inl e)"
| "wp (SetCookie c p) Q h = wp p Q (h @ [CookieSet c])"
| "wp (Now k) Q h = (\<forall>t. wp (k t) Q (h @ [TimeRead t]))"
| "wp (RandomBytes n k) Q h = (\<forall>bs. length bs = n \<longrightarrow> wp (k bs) Q (h @ [BytesDrawn bs]))"
| "wp (StoreRead r k) Q h = (\<forall>a. wp (k a) Q (h @ [ReadAnswered r a]))"
| "wp (StoreCreate r p k) Q h = (\<forall>a. wp (k a) Q (h @ [CreateAnswered r p a]))"
| "wp (StoreRevoke r k) Q h = (\<forall>a. wp (k a) Q (h @ [RevokeAnswered r a]))"
| "wp (StoreCreateLogin l k) Q h = (\<forall>a. wp (k a) Q (h @ [LoginStored l a]))"
| "wp (StoreConsumeLogin r k) Q h = (\<forall>a. wp (k a) Q (h @ [LoginTaken r a]))"
| "wp (AdapterBeginLogin t k) Q h = (\<forall>a. wp (k a) Q (h @ [BeginAnswered t a]))"
| "wp (AdapterCompleteLogin t k) Q h = (\<forall>a. wp (k a) Q (h @ [CompleteAnswered t a]))"
| "wp (AdapterRefresh x k) Q h = (\<forall>a. wp (k a) Q (h @ [RefreshAnswered x a]))"
| "wp (AdapterLogout hs k) Q h = (\<forall>a. length a = length hs \<longrightarrow> wp (k a) Q (h @ [LogoutAnswered hs a]))"

lemma wp_step: "wp p Q h \<Longrightarrow> proc_step p e = Some q \<Longrightarrow> wp q Q (h @ [e])"
  by (cases p; cases e) (auto simp: proc_step_def split: if_splits)

lemma wp_run: "wp p Q h \<Longrightarrow> run_proc p es = Some q \<Longrightarrow> wp q Q (h @ es)"
proof (induction es arbitrary: p h)
  case (Cons e es)
  then show ?case using wp_step [OF Cons.prems(1)] Cons.IH [of _ "h @ [e]"] by (auto split: option.splits)
qed simp

lemma wp_ends: "wp p Q [] \<Longrightarrow> ends_with p es r \<Longrightarrow> Q es r"
  using wp_run [of p Q "[]" es] by (fastforce simp: ends_with_def split: sum.splits)

lemma wp_mono: "wp p Q h \<Longrightarrow> (\<And>h r. Q h r \<Longrightarrow> Q' h r) \<Longrightarrow> wp p Q' h"
  by (induction p arbitrary: h) auto

lemma wp_bind [simp]: "wp (bind_proc p f) Q h = wp p (\<lambda>h r. case r of Inl e \<Rightarrow> Q h (Inl e) | Inr x \<Rightarrow> wp (f x) Q h) h"
  by (induction p arbitrary: h) auto

lemma wp_catch [simp]: "wp (catch_proc p g) Q h = wp p (\<lambda>h r. case r of Inl e \<Rightarrow> wp (g e) Q h | Inr x \<Rightarrow> Q h (Inr x)) h"
  by (induction p arbitrary: h) auto

lemma wp_awaited [simp]: "wp (awaited a) Q h = Q h a"
  by (simp add: awaited_def split: sum.split)

lemmas proc_defs = cookie_reference_def session_record_def read_session_def issue_csrf_def status_def server_snapshot_def server_guard_def
  verifyCsrf_def verifyLogoutCsrf_def releaseProviders_def beginLogin_def admit_login_def completeLogin_def server_logout_def
  refreshProvider_def Let_def

section \<open>Credentials\<close>

lemma encode_last: "length bytes mod 3 = 2 \<Longrightarrow> last (base64urlEncode bytes) \<in> set ''AEIMQUYcgkosw048''"
proof (induction bytes rule: base64urlEncode.induct)
  case (3 b0 b1)
  have "list_all (\<lambda>k. letter (of_nat (4 * k)) \<in> set ''AEIMQUYcgkosw048'') [0..<16]"
    by (simp add: letter_def ALPHABET_def upt_rec)
  then have l: "letter (of_nat (4 * k)) \<in> set ''AEIMQUYcgkosw048''" if "k < 16" for k
    unfolding list_all_iff set_upt by (rule bspec) (use that in simp)
  have "int32 b1 AND 0x0f = int32 b1 mod 16" by (simp flip: take_bit_eq_mask [of 4] add: masks take_bit_eq_mod)
  then have "unat (int32 b1 AND 0x0f) < 16" by (simp add: unat_mod)
  note l [OF this]
  moreover have "push_bit 2 (int32 b1 AND 0x0f) OR 0 = of_nat (4 * unat (int32 b1 AND 0x0f))"
    by (simp add: push_bit_eq_mult)
  ultimately show ?case by (simp only: base64urlEncode.simps last.simps) (simp only: list.distinct if_False refl if_True)
next
  case (4 b0 b1 b2 rest)
  then have "rest \<noteq> []" by auto
  with 4 show ?case by (simp add: encode_empty)
qed simp_all

lemma minted_credential: "length bytes = 32 \<Longrightarrow> opaque_credential (base64urlEncode bytes)"
  using encode_last [of bytes] decode_loop_alphabet [OF decode_encoded] by (simp add: opaque_credential_def encode_length list_all_iff subset_iff)

section \<open>Refreshing the provider's tokens\<close>

definition rechecked :: "server_config \<Rightarrow> (string \<Rightarrow> string option) \<Rightarrow> happening list \<Rightarrow> jsval \<Rightarrow> bool" where
  "rechecked cfg jar es tokens \<longleftrightarrow>
     (\<exists>raw s s' h t t'. jar session_name = Some raw \<and> opaque_credential raw \<and>
        ss_reference s = digest_reference cfg ''session'' raw \<and> ss_reference s' = ss_reference s \<and>
        ss_providerHandle s = Some h \<and> ss_providerHandle s' = Some h \<and> t < ss_expiresAt s \<and> t' < ss_expiresAt s' \<and>
        sv_valid cfg (ss_value s) \<and> sv_valid cfg (ss_value s') \<and>
        es = [ReadAnswered (ss_reference s) (Inr (Some s)), TimeRead t, RefreshAnswered h (Inr tokens),
              ReadAnswered (ss_reference s) (Inr (Some s')), TimeRead t'])"

definition revokes :: "happening list \<Rightarrow> bool" where
  "revokes es = list_ex (\<lambda>e. case e of RevokeAnswered r a \<Rightarrow> True | _ \<Rightarrow> False) es"

definition refreshed :: "happening list \<Rightarrow> bool" where
  "refreshed es = list_ex (\<lambda>e. case e of RefreshAnswered r a \<Rightarrow> True | _ \<Rightarrow> False) es"

lemma refresh_wp: "wp (refreshProvider cfg jar)
    (\<lambda>es r. (case r of Inr (Some tokens) \<Rightarrow> rechecked cfg jar es tokens | _ \<Rightarrow> True) \<and> (revokes es \<longrightarrow> isl r) \<and>
       (refreshed es \<and> r = Inl (AuthFault SessionRevoked) \<longrightarrow> revokes es)) []"
  by (simp add: proc_defs rechecked_def revokes_def refreshed_def split: option.split sum.split list.split prod.split)

section \<open>Admission\<close>

text \<open>
  When a session that is admitted expires, by the reads of the store and the clock before it is stored: with the
  live session it replaces, or one lifetime from now.
\<close>

inductive expiry_read :: "server_config \<Rightarrow> string option \<Rightarrow> happening list \<Rightarrow> rat \<Rightarrow> bool" for cfg where
  first: "expiry_read cfg None [TimeRead now] (now + of_nat (sv_ttlSeconds cfg) * 1000)"
| gone: "expiry_read cfg (Some p) [ReadAnswered p (Inr None), TimeRead now] (now + of_nat (sv_ttlSeconds cfg) * 1000)"
| live: "now < ss_expiresAt old \<Longrightarrow>
    expiry_read cfg (Some p) [ReadAnswered p (Inr (Some old)), TimeRead now] (ss_expiresAt old)"
| expired: "\<not> now < ss_expiresAt old \<Longrightarrow>
    expiry_read cfg (Some p) [ReadAnswered p (Inr (Some old)), TimeRead now, TimeRead now'] (now' + of_nat (sv_ttlSeconds cfg) * 1000)"

text \<open>
  The happenings of an admission that commits: the credential is drawn, the expiry read, the record stored in the
  place of the session it replaces, and only then the cookie set.
\<close>

definition committed :: "server_config \<Rightarrow> stored_login \<Rightarrow> provider_session \<Rightarrow> happening list \<Rightarrow> string \<times> jsval \<Rightarrow> bool" where
  "committed cfg login result es r \<longleftrightarrow>
     (\<exists>bytes reads expiresAt t age. length bytes = 32 \<and> opaque_credential (base64urlEncode bytes) \<and> 1 \<le> age \<and>
        expiry_read cfg (sl_previous login) reads expiresAt \<and>
        sv_toSessionValue cfg result = Inr (snd r) \<and> fst r = sanitizeReturnTo (Some (sl_returnTo login)) ''/'' \<and>
        es = BytesDrawn bytes # reads @
          [CreateAnswered \<lparr>ss_reference = digest_reference cfg ''session'' (base64urlEncode bytes), ss_value = snd r,
             ss_expiresAt = expiresAt, ss_providerHandle = ps_sessionHandle result\<rparr> (sl_previous login) (Inr ()),
           TimeRead t, CookieSet (session_cookie (base64urlEncode bytes) age)])"

text \<open>Neither a cookie nor a session of the provider.\<close>

definition quiet :: "happening \<Rightarrow> bool" where
  "quiet e = (case e of CookieSet c \<Rightarrow> False | CompleteAnswered t a \<Rightarrow> False | _ \<Rightarrow> True)"

lemma committedI:
  "sl_previous login = p \<Longrightarrow> expiry_read cfg p reads expiresAt \<Longrightarrow> length bytes = 32 \<Longrightarrow> sv_toSessionValue cfg result = Inr v \<Longrightarrow>
   committed cfg login result
     (BytesDrawn bytes # reads @
       [CreateAnswered \<lparr>ss_reference = digest_reference cfg ''session'' (base64urlEncode bytes), ss_value = v,
          ss_expiresAt = expiresAt, ss_providerHandle = ps_sessionHandle result\<rparr> p (Inr ()),
        TimeRead t, CookieSet (session_cookie (base64urlEncode bytes) (max 1 n))])
     (sanitizeReturnTo (Some (sl_returnTo login)) ''/'', v)"
  unfolding committed_def
  by (intro exI [of _ bytes] exI [of _ reads] exI [of _ expiresAt] exI [of _ t] exI [of _ "max 1 n"]) (simp add: minted_credential)

lemmas committed_cases = committedI [where reads = "[a]" for a, simplified] committedI [where reads = "[a, b]" for a b, simplified]
  committedI [where reads = "[a, b, c]" for a b c, simplified]

lemma admit_wp: "wp (admit_login cfg login result)
    (\<lambda>h' r. \<exists>es. h' = h @ es \<and> length es \<le> 7 \<and>
       (case r of Inr x \<Rightarrow> committed cfg login result es x | Inl e \<Rightarrow> list_all quiet es)) h"
  by (cases "sl_previous login") (auto simp: admit_login_def Let_def quiet_def split: option.split sum.split intro: committed_cases expiry_read.intros)

section \<open>Completed logins\<close>

text \<open>
  What a callback that signs in did: the transaction cookie is expired first, the transaction it named is taken
  from the store, unexpired, and the provider completes it before the session is admitted.
\<close>

definition signed_in :: "server_config \<Rightarrow> (string \<Rightarrow> string option) \<Rightarrow> happening list \<Rightarrow> string \<times> jsval \<Rightarrow> bool" where
  "signed_in cfg jar es r \<longleftrightarrow>
     (\<exists>raw login now result admission. jar transaction_name = Some raw \<and> opaque_credential raw \<and>
        sl_reference login = digest_reference cfg ''login'' raw \<and> now < sl_expiresAt login \<and>
        committed cfg login result admission r \<and>
        es = [CookieSet (transaction_cookie [] 0), LoginTaken (sl_reference login) (Inr (Some login)), TimeRead now,
              CompleteAnswered (sl_transaction login) (Inr result)] @ admission)"

text \<open>
  A callback that fails sets no other cookie, and what the provider opened for it is released at last, where the
  adapter can release it.
\<close>

definition left_nothing :: "server_config \<Rightarrow> happening list \<Rightarrow> bool" where
  "left_nothing cfg es \<longleftrightarrow>
     (\<forall>c. CookieSet c \<in> set es \<longrightarrow> c = transaction_cookie [] 0) \<and>
     (\<forall>t result h. CompleteAnswered t (Inr result) \<in> set es \<and> ps_sessionHandle result = Some h \<and> sv_logout cfg \<longrightarrow>
        (\<exists>a. last es = LogoutAnswered [h] a))"

lemma quiet_list: "list_all quiet es \<Longrightarrow> CookieSet c \<notin> set es \<and> CompleteAnswered t a \<notin> set es"
  by (auto simp: quiet_def list_all_iff split: happening.splits)

text \<open>The part inside \<open>try\<close>, with its \<open>catch\<close>.\<close>

lemma try_wp:
  assumes "jar transaction_name = Some raw" "opaque_credential raw"
    and "sl_reference login = digest_reference cfg ''login'' raw" "now < sl_expiresAt login"
  shows "wp (catch_proc (admit_login cfg login result)
         (\<lambda>cause. case ps_sessionHandle result of None \<Rightarrow> Throw cause
           | Some sessionHandle \<Rightarrow>
               bind_proc (catch_proc (releaseProviders cfg [sessionHandle]) (\<lambda>_. Throw (AuthFault StoreUnavailable)))
                 (\<lambda>_. Throw cause)))
       (\<lambda>es r. length es \<le> 12 \<and> (case r of Inr x \<Rightarrow> signed_in cfg jar es x | Inl e \<Rightarrow> left_nothing cfg es))
       [CookieSet (transaction_cookie [] 0), LoginTaken (digest_reference cfg ''login'' raw) (Inr (Some login)), TimeRead now,
        CompleteAnswered (sl_transaction login) (Inr result)]"
  unfolding wp_catch
  by (rule wp_mono [OF admit_wp])
    (use assms in \<open>auto simp: signed_in_def left_nothing_def releaseProviders_def dest: quiet_list
       split: sum.splits option.split list.split\<close>)

lemma left_early: "left_nothing cfg [CookieSet (transaction_cookie [] 0)]" "left_nothing cfg [CookieSet (transaction_cookie [] 0), LoginTaken r l]"
  "left_nothing cfg [CookieSet (transaction_cookie [] 0), LoginTaken r l, TimeRead now]"
  "left_nothing cfg [CookieSet (transaction_cookie [] 0), LoginTaken r l, TimeRead now, CompleteAnswered t (Inl e)]" "left_nothing cfg []"
  by (simp_all add: left_nothing_def)

lemma complete_wp: "wp (completeLogin cfg jar)
    (\<lambda>es r. length es \<le> 12 \<and> (case r of Inr x \<Rightarrow> signed_in cfg jar es x | Inl e \<Rightarrow> left_nothing cfg es)) []"
  by (simp add: completeLogin_def cookie_reference_def left_early try_wp not_le del: wp_catch split: option.split sum.split)

section \<open>Logout\<close>

definition deleted_cookie :: happening where
  "deleted_cookie = CookieSet (session_cookie [] 0)"

definition logged_out :: "server_config \<Rightarrow> (string \<Rightarrow> string option) \<Rightarrow> happening list \<Rightarrow> fault + unit \<Rightarrow> bool" where
  "logged_out cfg jar es r =
     (case jar session_name of
        None \<Rightarrow> es = [deleted_cookie] \<and> r = Inr ()
      | Some raw \<Rightarrow>
          if \<not> opaque_credential raw then es = [] \<and> r = Inl (AuthFault SessionInvalid)
          else \<exists>a. hd es = RevokeAnswered (digest_reference cfg ''session'' raw) a \<and>
            (case a of
               Inl e \<Rightarrow> tl es = [] \<and> r = Inl e
             | Inr hs \<Rightarrow>
                 if hs = [] \<or> \<not> sv_logout cfg then tl es = [deleted_cookie] \<and> r = Inr ()
                 else \<exists>fs. tl es = [deleted_cookie, LogoutAnswered hs fs] \<and> length fs = length hs \<and>
                        (r = Inr () \<longleftrightarrow> fs = replicate (length hs) None)))"

lemma no_failures: "List.map_filter (\<lambda>r. r) fs = [] \<longleftrightarrow> fs = replicate (length fs) None"
  by (induction fs) (auto simp: List.map_filter_def split: option.splits)

lemma no_failure_cons: "List.map_filter (\<lambda>r. r) fs = f # gs \<Longrightarrow> fs \<noteq> replicate n None"
  using no_failures [of fs] by auto

lemma logout_wp: "wp (server_logout cfg jar) (\<lambda>es r. length es \<le> 3 \<and> logged_out cfg jar es r) []"
  by (auto simp: proc_defs logged_out_def deleted_cookie_def no_failures dest: no_failure_cons split: option.split sum.split list.split)

section \<open>Logins begun\<close>

text \<open>
  What is asked about the session the browser holds: nothing without one, a live one is kept as the one to replace,
  and a reference that reads nothing is revoked, and what it held of the provider released, before the login.
\<close>

inductive held_session :: "server_config \<Rightarrow> string option \<Rightarrow> happening list \<Rightarrow> string option \<Rightarrow> bool" for cfg where
  none: "held_session cfg None [] None"
| kept: "held_session cfg (Some p) [ReadAnswered p (Inr (Some s))] (Some p)"
| revoked: "hs = [] \<or> \<not> sv_logout cfg \<Longrightarrow> held_session cfg (Some p) [ReadAnswered p (Inr None), RevokeAnswered p (Inr hs)] None"
| released: "hs \<noteq> [] \<Longrightarrow> sv_logout cfg \<Longrightarrow> fs = replicate (length hs) None \<Longrightarrow>
    held_session cfg (Some p) [ReadAnswered p (Inr None), RevokeAnswered p (Inr hs), LogoutAnswered hs fs] None"

definition begun :: "server_config \<Rightarrow> (string \<Rightarrow> string option) \<Rightarrow> string option \<Rightarrow> happening list \<Rightarrow> string \<Rightarrow> stored_login \<Rightarrow> string \<Rightarrow> bool" where
  "begun cfg jar requested es url login raw \<longleftrightarrow>
     (\<exists>held before bytes now. held_session cfg held before (sl_previous login) \<and>
        held = map_option (digest_reference cfg ''session'') (jar session_name) \<and>
        length bytes = 32 \<and> raw = base64urlEncode bytes \<and> sl_reference login = digest_reference cfg ''login'' raw \<and>
        sl_returnTo login = sanitizeReturnTo requested ''/'' \<and>
        sl_expiresAt login = now + of_nat (sv_transactionTtlSeconds cfg) * 1000 \<and>
        es = before @ [BeginAnswered (sl_returnTo login) (Inr (url, sl_transaction login)), BytesDrawn bytes, TimeRead now,
                       LoginStored login (Inr ()), CookieSet (transaction_cookie raw (sv_transactionTtlSeconds cfg))])"

lemma begunI:
  "held_session cfg held before p \<Longrightarrow> held = map_option (digest_reference cfg ''session'') (jar session_name) \<Longrightarrow> length bytes = 32 \<Longrightarrow>
   \<exists>login raw. begun cfg jar requested
     (before @ [BeginAnswered (sanitizeReturnTo requested ''/'') (Inr (url, transaction)), BytesDrawn bytes, TimeRead now,
        LoginStored \<lparr>sl_reference = digest_reference cfg ''login'' (base64urlEncode bytes), sl_transaction = transaction,
          sl_returnTo = sanitizeReturnTo requested ''/'', sl_previous = p,
          sl_expiresAt = now + of_nat (sv_transactionTtlSeconds cfg) * 1000\<rparr> (Inr ()),
        CookieSet (transaction_cookie (base64urlEncode bytes) (sv_transactionTtlSeconds cfg))]) url login raw"
  unfolding begun_def
  by (intro exI [of _ "\<lparr>sl_reference = digest_reference cfg ''login'' (base64urlEncode bytes), sl_transaction = transaction,
          sl_returnTo = sanitizeReturnTo requested ''/'', sl_previous = p,
          sl_expiresAt = now + of_nat (sv_transactionTtlSeconds cfg) * 1000\<rparr>"] exI [of _ "base64urlEncode bytes"]
        exI [of _ held] exI [of _ before] exI [of _ bytes] exI [of _ now]) simp

lemmas begun_cases = begunI [where before = "[]", simplified] begunI [where before = "[a]" for a, simplified]
  begunI [where before = "[a, b]" for a b, simplified] begunI [where before = "[a, b, c]" for a b c, simplified]

lemma begin_wp: "wp (beginLogin cfg jar requested)
    (\<lambda>es r. length es \<le> 8 \<and> (case r of Inr url \<Rightarrow> \<exists>login raw. begun cfg jar requested es url login raw
       | Inl e \<Rightarrow> \<forall>c. CookieSet c \<notin> set es)) []"
  by (cases "jar session_name") (auto simp: beginLogin_def cookie_reference_def releaseProviders_def Let_def no_failures
      split: option.split sum.split list.split intro!: begun_cases held_session.intros)

lemma wp_later:
  assumes "\<And>g. wp q (\<lambda>es r. \<exists>rest. es = g @ rest) g"
  shows "wp q (\<lambda>es r. \<exists>rest. es = h @ rest) (h @ [e])"
  using assms [of "h @ [e]"] by (rule wp_mono) auto

lemma wp_extends: "wp p (\<lambda>es r. \<exists>rest. es = h @ rest) h"
  by (induction p arbitrary: h) (simp_all add: wp_later rangeI)

lemma held_no_cookie: "held_session cfg held before p \<Longrightarrow> CookieSet c \<notin> set before"
  by (induction rule: held_session.induct) auto

lemma complete_takes:
  assumes "sv_completeLogin cfg" "jar transaction_name = Some raw" "opaque_credential raw"
  shows "wp (completeLogin cfg jar) (\<lambda>es r. \<exists>a rest.
      es = [CookieSet (transaction_cookie [] 0), LoginTaken (digest_reference cfg ''login'' raw) a] @ rest) []"
proof -
  have start: "\<exists>k. completeLogin cfg jar = SetCookie (transaction_cookie [] 0) (StoreConsumeLogin (digest_reference cfg ''login'' raw) k)"
    using assms by (simp add: completeLogin_def cookie_reference_def)
  then obtain k where k: "completeLogin cfg jar = SetCookie (transaction_cookie [] 0) (StoreConsumeLogin (digest_reference cfg ''login'' raw) k)" ..
  have "wp (k a) (\<lambda>es r. \<exists>a rest. es = [CookieSet (transaction_cookie [] 0), LoginTaken (digest_reference cfg ''login'' raw) a] @ rest)
      [CookieSet (transaction_cookie [] 0), LoginTaken (digest_reference cfg ''login'' raw) a]" for a
    by (rule wp_mono [OF wp_extends]) blast
  then show ?thesis by (simp add: k)
qed

section \<open>Sessions that read nothing\<close>

definition silent :: "string \<Rightarrow> happening list \<Rightarrow> bool" where
  "silent reference es = list_all (\<lambda>e. case e of ReadAnswered r a \<Rightarrow> r = reference \<longrightarrow> isl a \<or> a = Inr None | _ \<Rightarrow> True) es"

lemma silent_wp:
  assumes "jar session_name = Some raw" and "ref = digest_reference cfg ''session'' raw"
  shows "wp (read_session cfg jar) (\<lambda>es r. silent ref es \<longrightarrow> isl r \<or> r = Inr None) []"
    "wp (status cfg jar) (\<lambda>es r. silent ref es \<longrightarrow> isl r) []"
    "wp (server_snapshot cfg jar) (\<lambda>es r. silent ref es \<longrightarrow> isl r \<or> r = Inr ANONYMOUS_AUTH) []"
    "wp (server_guard cfg jar currentPath) (\<lambda>es r. silent ref es \<longrightarrow> r \<noteq> Inr None) []"
    "wp (verifyCsrf cfg jar token) (\<lambda>es r. silent ref es \<longrightarrow> isl r) []"
    "wp (refreshProvider cfg jar) (\<lambda>es r. silent ref es \<longrightarrow> isl r \<or> r = Inr None) []"
  using assms by (simp_all add: proc_defs silent_def split: option.split sum.split list.split prod.split)

section \<open>Revoked sessions\<close>

text \<open>
  Where a read of the reference gave an operation an answer, and did not fail, the store gave it, to a call it took
  in the state \<open>s\<close> or later, or had in flight in \<open>s\<close> with the generation the reference names there. The store
  answered when it pleased: any inputs may lie between, the schema's answers to other calls among them, but none
  creates a session under the reference again.
\<close>

definition reads_after :: "(jsnum \<Rightarrow> string) \<Rightarrow> store_capacity \<Rightarrow> opaque_store \<Rightarrow> string \<Rightarrow> happening list \<Rightarrow> bool" where
  "reads_after nt cap s r es \<longleftrightarrow>
     (\<forall>found. ReadAnswered r (Inr found) \<in> set es \<longrightarrow>
        (\<exists>ins call. list_all (\<lambda>i. \<not> creates nt r i) ins \<and> reads_reference nt cap s r ins call \<and>
           ReadDone call (Inr found) \<in> set (snd (run (sessions_step nt cap) s ins))))"

lemma dead_silent:
  assumes "dead_reference r s" "sessions_inv cap s" "numbered s" "reads_after nt cap s r es"
  shows "silent r es"
proof -
  have "isl a \<or> a = Inr None" if mem: "ReadAnswered r a \<in> set es" for a
  proof (cases a)
    case (Inr found)
    with mem assms(4) obtain ins call where "list_all (\<lambda>i. \<not> creates nt r i) ins" "reads_reference nt cap s r ins call"
      "ReadDone call (Inr found) \<in> set (snd (run (sessions_step nt cap) s ins))"
      unfolding reads_after_def by blast
    from dead_reads [OF assms(1-3) this] Inr show ?thesis by simp
  qed simp
  then show ?thesis by (auto simp: silent_def list_all_iff split: happening.split)
qed

section \<open>Properties\<close>

text \<open>Claim C2: a login callback commits or cleans up. When it succeeds, the transaction cookie was expired first, the
  unexpired transaction that cookie named was taken from the store, the provider completed it, the record was stored
  in the place of the live session it replaces, with that session's expiry or one lifetime, and only then the session
  cookie was set, to a fresh credential the server accepts that hashes to the record's reference. When it fails, no
  session cookie was set, and a provider session opened on the way has been released last, where the adapter can.\<close>

theorem callback_commits_or_cleans_up:
  "ends_with (completeLogin cfg jar) es r \<Longrightarrow>
   case r of Inr x \<Rightarrow> signed_in cfg jar es x | Inl e \<Rightarrow> left_nothing cfg es"
  using wp_ends [OF complete_wp] by blast

text \<open>Claim C7: a callback takes the login that was begun. A browser that presents the transaction cookie a successful
  login start set makes the callback take exactly the transaction stored by that start, which replaces the
  session the store had just returned, or none after a stale one was revoked and released at the provider.\<close>

theorem callback_takes_the_login_begun:
  assumes start: "ends_with (beginLogin cfg jar requested) es (Inr url)"
    and cookie: "CookieSet (transaction_cookie raw (sv_transactionTtlSeconds cfg)) \<in> set es"
    and presented: "jar' transaction_name = Some raw" and supported: "sv_completeLogin cfg"
    and completed: "ends_with (completeLogin cfg jar') es' r"
  shows "\<exists>login. begun cfg jar requested es url login raw \<and>
    (\<exists>a rest. es' = [CookieSet (transaction_cookie [] 0), LoginTaken (sl_reference login) a] @ rest)"
proof -
  from wp_ends [OF begin_wp start] obtain login raw' where b: "begun cfg jar requested es url login raw'" by auto
  then obtain held before bytes now where held: "held_session cfg held before (sl_previous login)" and bytes: "length bytes = 32"
      "raw' = base64urlEncode bytes" and r: "sl_reference login = digest_reference cfg ''login'' raw'"
    and es: "es = before @ [BeginAnswered (sl_returnTo login) (Inr (url, sl_transaction login)), BytesDrawn bytes, TimeRead now,
      LoginStored login (Inr ()), CookieSet (transaction_cookie raw' (sv_transactionTtlSeconds cfg))]"
    unfolding begun_def by (elim exE conjE) (rule that)
  have "transaction_cookie raw (sv_transactionTtlSeconds cfg) = transaction_cookie raw' (sv_transactionTtlSeconds cfg)"
    using cookie held_no_cookie [OF held] unfolding es by auto
  then have raw: "raw' = raw" by (simp add: transaction_cookie_def)
  with bytes have "opaque_credential raw" using minted_credential by simp
  from wp_ends [OF complete_takes [where cfg = cfg and jar = jar' and raw = raw, OF supported presented this] completed] b r raw show ?thesis by auto
qed


text \<open>Claim C9: the session cookie is deleted only once the revocation was answered. A logout without a cookie only
  deletes it; a malformed cookie is refused before anything happens; otherwise the family is revoked first, a failure
  there leaves the cookie, and after it the cookie is deleted and every provider handle the store gave is released,
  the logout succeeding exactly when every release did.\<close>

theorem logout_follows_revocation:
  "ends_with (server_logout cfg jar) es r \<Longrightarrow> logged_out cfg jar es r"
  using wp_ends [OF logout_wp] by blast

text \<open>Claim C1: a revoked session is refused everywhere. Once the store has revoked any generation of the family
  of the session a cookie names, then whatever calls the store takes afterwards and whenever it answers them, reads
  begun after the revocation and reads the revocation overtook, as long as no session is created under that
  reference again: reading the session gives none, its status and its CSRF check fail, its snapshot is
  the anonymous one, its guard redirects or fails, and refreshing its provider gives no tokens.\<close>

theorem revoked_session_refused:
  assumes jar: "jar session_name = Some raw" and ref: "ref = digest_reference cfg ''session'' raw"
    and s: "s = fst (run (sessions_step nt cap) createMemorySessionStore before)"
    and found: "map_get (os_records (cleanup_expired now s)) presented = Some e"
    and member: "map_get (os_records (cleanup_expired now s)) ref = Some x" "en_family (os_heap s x) = en_family (os_heap s e)"
    and unused: "\<forall>call rec previous. os_pending s call = Some (Creating rec previous) \<longrightarrow> ss_reference rec \<noteq> ref"
    and reads: "reads_after nt cap (fst (sessions_step nt cap s (Revoke presented False now))) ref es"
  shows "(ends_with (read_session cfg jar) es v \<longrightarrow> isl v \<or> v = Inr None) \<and>
    (ends_with (status cfg jar) es st \<longrightarrow> isl st) \<and>
    (ends_with (server_snapshot cfg jar) es a \<longrightarrow> isl a \<or> a = Inr ANONYMOUS_AUTH) \<and>
    (ends_with (server_guard cfg jar path) es g \<longrightarrow> g \<noteq> Inr None) \<and>
    (ends_with (verifyCsrf cfg jar token) es ok \<longrightarrow> isl ok) \<and>
    (ends_with (refreshProvider cfg jar) es tokens \<longrightarrow> isl tokens \<or> tokens = Inr None)"
proof -
  have inv: "sessions_inv cap s" unfolding s by (rule sessions_reachable)
  have num: "numbered s" unfolding s by (rule numbered_store.run_inv [OF numbered_created])
  from dead_silent [OF revoke_dead [OF inv found member unused] step_inv [OF inv] numbered_step [OF num] reads] have "silent ref es" .
  then show ?thesis using silent_wp [where jar = jar and raw = raw and ref = ref and cfg = cfg, OF jar ref, THEN wp_ends] by blast
qed

section \<open>Runs\<close>

definition sample_config :: server_config where
  "sample_config = \<lparr>sv_beginLogin = True, sv_completeLogin = True, sv_logout = True, sv_refresh = True,
     sv_toSessionValue = (\<lambda>r. Inr (ps_identity r)), sv_toIdentity = Inr, sv_valid = (\<lambda>v. True),
     sv_guard = Some \<lparr>gc_loginPath = ''/login'', gc_returnToParam = None\<rparr>, sv_url = sample_url,
     sv_sha256 = (\<lambda>bytes. [105]), sv_hmac = (\<lambda>k m. m), sv_keys = [[1]], sv_toISOString = (\<lambda>t. []),
     sv_ttlSeconds = 60, sv_transactionTtlSeconds = 60\<rparr>"

definition sample_jar :: "string \<Rightarrow> string option" where
  "sample_jar = [session_name \<mapsto> replicate 43 CHR ''A'', transaction_name \<mapsto> replicate 43 CHR ''A'']"

lemma sample_credential: "opaque_credential (replicate 43 CHR ''A'')"
  by (simp add: opaque_credential_def list_all_iff ALPHABET_def)

lemmas sample_run = ends_with_def proc_step_def proc_defs awaited_def sample_config_def sample_jar_def
  digest_reference_def session_name_def transaction_name_def sample_credential

lemma sample_letter: "base64urlEncode [105] = ''aQ''"
  by (simp add: int32_def letter_def ALPHABET_def)

definition sample_transaction :: stored_login where
  "sample_transaction = \<lparr>sl_reference = ''aQ'', sl_transaction = ''t'', sl_returnTo = ''/'', sl_previous = None, sl_expiresAt = 1000\<rparr>"

definition sample_result :: provider_session where
  "sample_result = \<lparr>ps_identity = JNull, ps_sessionHandle = Some ''h''\<rparr>"

definition callback_run :: "(fault + unit) \<Rightarrow> happening list" where
  "callback_run stored =
     [CookieSet (transaction_cookie [] 0), LoginTaken ''aQ'' (Inr (Some sample_transaction)), TimeRead 0,
      CompleteAnswered ''t'' (Inr sample_result), BytesDrawn (replicate 32 0), TimeRead 0,
      CreateAnswered ((sample_session ''aQ'')\<lparr>ss_expiresAt := 60000\<rparr>) None stored]"

lemmas sample_callback = sample_run callback_run_def sample_transaction_def sample_result_def sample_session_def sample_letter

theorem callback_commits_or_cleans_up_witness:
  "(\<exists>es x. ends_with (completeLogin sample_config sample_jar) es (Inr x) \<and> signed_in sample_config sample_jar es x) \<and>
   (\<exists>es e. ends_with (completeLogin sample_config sample_jar) es (Inl e) \<and> left_nothing sample_config es \<and>
      CompleteAnswered ''t'' (Inr sample_result) \<in> set es)"
proof -
  have "ends_with (completeLogin sample_config sample_jar)
      (callback_run (Inr ()) @ [TimeRead 0, CookieSet (session_cookie (base64urlEncode (replicate 32 0)) 60)])
      (Inr (sanitizeReturnTo (Some ''/'') ''/'', JNull))" (is "ends_with _ ?es _")
    by (simp add: sample_callback del: base64urlEncode.simps)
  from this callback_commits_or_cleans_up [OF this]
  have 1: "\<exists>es x. ends_with (completeLogin sample_config sample_jar) es (Inr x) \<and> signed_in sample_config sample_jar es x"
    by auto
  have "ends_with (completeLogin sample_config sample_jar)
      (callback_run (Inl (OtherFault 0)) @ [LogoutAnswered [''h''] [None]]) (Inl (OtherFault 0))"
    by (simp add: sample_callback List.map_filter_def del: base64urlEncode.simps)
  from this callback_commits_or_cleans_up [OF this]
  have "\<exists>es e. ends_with (completeLogin sample_config sample_jar) es (Inl e) \<and> left_nothing sample_config es \<and>
      CompleteAnswered ''t'' (Inr sample_result) \<in> set es"
    by (auto simp: callback_run_def intro!: exI)
  with 1 show ?thesis by blast
qed

definition refresh_run :: "happening list" where
  "refresh_run =
     [ReadAnswered ''aQ'' (Inr (Some (sample_session ''aQ''))), TimeRead 0, RefreshAnswered ''h'' (Inr JNull)]"


theorem logout_follows_revocation_witness:
  "\<exists>es. ends_with (server_logout sample_config sample_jar) es (Inr ()) \<and> logged_out sample_config sample_jar es (Inr ()) \<and>
     deleted_cookie \<in> set es"
proof -
  have r: "ends_with (server_logout sample_config sample_jar)
      [RevokeAnswered ''aQ'' (Inr [''h'']), deleted_cookie, LogoutAnswered [''h''] [None]] (Inr ())"
    by (simp add: sample_run sample_letter deleted_cookie_def List.map_filter_def del: base64urlEncode.simps)
  from r logout_follows_revocation [OF r] show ?thesis by auto
qed

theorem callback_takes_the_login_begun_witness:
  "\<exists>es es' raw login. ends_with (beginLogin sample_config (\<lambda>_. None) None) es (Inr ''u'') \<and>
     begun sample_config (\<lambda>_. None) None es ''u'' login raw \<and>
     ends_with (completeLogin sample_config (\<lambda>_. Some raw)) es' (Inl (AuthFault LoginTransaction)) \<and>
     (\<exists>a rest. es' = [CookieSet (transaction_cookie [] 0), LoginTaken (sl_reference login) a] @ rest)"
proof -
  let ?raw = "base64urlEncode (replicate 32 0)"
  let ?es = "[BeginAnswered ''/'' (Inr (''u'', ''t'')), BytesDrawn (replicate 32 0), TimeRead 0,
    LoginStored (sample_transaction\<lparr>sl_expiresAt := 60000\<rparr>) (Inr ()), CookieSet (transaction_cookie ?raw 60)]"
  have start: "ends_with (beginLogin sample_config (\<lambda>_. None) None) ?es (Inr ''u'')"
    by (simp add: sample_callback sanitizeReturnTo_def del: base64urlEncode.simps)
  have ttl: "sv_transactionTtlSeconds sample_config = 60" "sv_completeLogin sample_config" by (simp_all add: sample_config_def)
  have cred: "opaque_credential ?raw" by (rule minted_credential) simp
  have completed: "ends_with (completeLogin sample_config (\<lambda>_. Some ?raw))
      [CookieSet (transaction_cookie [] 0), LoginTaken ''aQ'' (Inr None)] (Inl (AuthFault LoginTransaction))"
    using cred by (simp add: sample_callback del: base64urlEncode.simps)
  have "\<exists>login. begun sample_config (\<lambda>_. None) None ?es ''u'' login ?raw \<and> (\<exists>a rest.
      [CookieSet (transaction_cookie [] 0), LoginTaken ''aQ'' (Inr None)] =
      [CookieSet (transaction_cookie [] 0), LoginTaken (sl_reference login) a] @ rest)"
    by (rule callback_takes_the_login_begun [OF start _ refl ttl(2) completed]) (simp add: ttl)
  with start completed show ?thesis by blast
qed

definition stored_inputs :: "sessions_input list" where
  "stored_inputs = [Create (session_object (sample_session ''aQ'')) None False, SchemaAnswered 0 (Validated JNull) False 0]"

definition stored :: opaque_store where
  "stored = \<lparr>os_heap = (\<lambda>_. no_entry)(0 := first_entry\<lparr>en_serialized := JsonText (session_object (sample_session ''aQ'')), en_family := ''aQ''\<rparr>),
     os_next = 1, os_records = [(''aQ'', 0)], os_transactions = [], os_pending = (\<lambda>_. None), os_calls = 1\<rparr>"

lemma stored_encoded: "encodeSessionRecord json_zero (session_object (sample_session ''aQ'')) = Inr (JsonText (session_object (sample_session ''aQ'')))"
  "decodeSessionMetadata json_zero (JsonText (session_object (sample_session ''aQ''))) = Inr (sample_session ''aQ'')"
  by (simp_all add: sample_records)

lemma stored_run: "fst (run (sessions_step json_zero sample_cap) createMemorySessionStore stored_inputs) = stored"
  by (simp add: stored_inputs_def stored_def first_entry_def sample_steps sample_fields stored_encoded fun_eq_iff)

definition revoked_store :: opaque_store where
  "revoked_store = fst (sessions_step json_zero sample_cap stored (Revoke ''aQ'' False 1))"

lemma revoked_run:
  "snd (run (sessions_step json_zero sample_cap) revoked_store [Read ''aQ'' False 2]) = [ReadDone 1 (Inr None)]"
  "os_calls revoked_store = 1"
  by (simp_all add: revoked_store_def revoke_def read_begin_def stored_def first_entry_def cleanup_expired_def on_records_def
      is_live_def answered_def Let_def)

text \<open>The same answers given by the store before the revocation are the session.\<close>

lemma live_run: "snd (run (sessions_step json_zero sample_cap) stored [Read ''aQ'' False 2, SchemaAnswered 1 (Validated JNull) False 3]) =
    [ReadDone 1 (Inr (Some (sample_session ''aQ'')))]"
  by (simp add: stored_def first_entry_def sample_steps sample_fields stored_encoded read_begin_def read_end_def)

lemma begun_read: "call = os_calls s \<Longrightarrow> reads_reference nt cap s r (Read r aborted now # after) call"
  unfolding reads_reference_def by (intro disjI1 exI [of _ "[]"] exI [of _ aborted] exI [of _ now] exI [of _ after]) simp

theorem revoked_session_refused_witness:
  "reads_after json_zero sample_cap stored ''aQ'' [ReadAnswered ''aQ'' (Inr (Some (sample_session ''aQ'')))] \<and>
   ends_with (read_session sample_config sample_jar)
     [ReadAnswered ''aQ'' (Inr (Some (sample_session ''aQ''))), TimeRead 0] (Inr (Some JNull)) \<and>
   reads_after json_zero sample_cap revoked_store ''aQ'' [ReadAnswered ''aQ'' (Inr None)] \<and>
   \<not> ends_with (server_guard sample_config sample_jar None) [ReadAnswered ''aQ'' (Inr None)] (Inr None) \<and>
   (\<exists>e. ends_with (status sample_config sample_jar) [ReadAnswered ''aQ'' (Inr None)] (Inl e))"
proof -
  have live: "reads_after json_zero sample_cap stored ''aQ'' [ReadAnswered ''aQ'' (Inr (Some (sample_session ''aQ'')))]"
    unfolding reads_after_def
    by (intro allI impI exI [of _ "[Read ''aQ'' False 2, SchemaAnswered 1 (Validated JNull) False 3]"] exI [of _ 1] conjI begun_read)
      (simp_all only: live_run, simp_all add: stored_def)
  have kept: "ends_with (read_session sample_config sample_jar)
     [ReadAnswered ''aQ'' (Inr (Some (sample_session ''aQ''))), TimeRead 0] (Inr (Some JNull))"
    by (simp add: sample_run sample_letter sample_session_def del: base64urlEncode.simps)
  have reads: "reads_after json_zero sample_cap revoked_store ''aQ'' [ReadAnswered ''aQ'' (Inr None)]"
    unfolding reads_after_def
    by (intro allI impI exI [of _ "[Read ''aQ'' False 2]"] exI [of _ 1] conjI begun_read)
      (simp_all only: revoked_run, simp_all)
  have jar: "sample_jar session_name = Some (replicate 43 CHR ''A'')" by (simp add: sample_jar_def session_name_def transaction_name_def)
  have ref: "''aQ'' = digest_reference sample_config ''session'' (replicate 43 CHR ''A'')"
    by (simp add: digest_reference_def sample_config_def sample_letter del: base64urlEncode.simps)
  have found: "map_get (os_records (cleanup_expired 1 stored)) ''aQ'' = Some 0"
    by (simp add: cleanup_expired_def stored_def first_entry_def)
  have pending: "\<forall>call rec previous. os_pending stored call = Some (Creating rec previous) \<longrightarrow> ss_reference rec \<noteq> ''aQ''"
    by (simp add: stored_def)
  have "ends_with (status sample_config sample_jar) [ReadAnswered ''aQ'' (Inr None)] (Inl (AuthFault AuthNoSession))"
    by (simp add: sample_run sample_letter del: base64urlEncode.simps)
  with live kept reads revoked_session_refused [where jar = sample_jar and ref = "''aQ''" and cfg = sample_config and s = stored and now = 1
      and presented = "''aQ''" and e = 0 and x = 0 and path = None and g = "Inr None",
      OF jar ref stored_run [symmetric] found found refl pending reads [unfolded revoked_store_def]] show ?thesis by blast
qed

end
