(* ===== verification/Form_Fields.thy ===== *)
theory Form_Fields imports JS_Strings JS_Values JS_Numbers JS_Map begin

text \<open>
  Schema-driven forms, \<^verbatim>\<open>packages/std/src/seam/form-fields.ts\<close> over the field schemas of \<^verbatim>\<open>form.ts\<close>: the
  check of a schema, the decoding of the submitted control strings into typed JSON with the issues found, and
  the default messages. A schema lists its properties in order, no name twice; the keywords the code does not
  read are left out, and an absent \<open>required\<close> is the empty list. Compiling a pattern, the calendar of the host
  and the text of a number are arguments. Strings are of Latin-1 code units.
\<close>

section \<open>Schemas\<close>

datatype string_format = DateFormat | TextareaFormat

record string_schema =
  st_enum :: "string list option"
  st_oneOf :: "(string \<times> string) list option"   \<comment> \<open>constant and title\<close>
  st_minLength :: "jsnum option"
  st_maxLength :: "jsnum option"
  st_pattern :: "string option"
  st_format :: "string_format option"

record number_schema =
  nu_integer :: bool
  nu_minimum :: "jsnum option"
  nu_maximum :: "jsnum option"

record array_schema =
  ar_items :: string_schema
  ar_minItems :: "jsnum option"
  ar_maxItems :: "jsnum option"

datatype form_field =
    StringField string_schema
  | NumberField number_schema
  | BooleanField
  | ArrayField array_schema
  | ObjectField "(string \<times> form_field) list" "string list"

text \<open>\<open>new RegExp\<close> with the \<open>u\<close> flag, None when it throws, and \<open>toISOString\<close> of a date, None when it is invalid.\<close>

type_synonym regexps = "string \<Rightarrow> (string \<Rightarrow> bool) option"
type_synonym calendar = "string \<Rightarrow> string option"

section \<open>Messages\<close>

datatype reason = REQUIRED | INVALID_FORMAT | OUT_OF_RANGE | INVALID_VALUE

record form_messages =
  me_required :: "string \<Rightarrow> form_field \<Rightarrow> string"
  me_format :: "string \<Rightarrow> form_field \<Rightarrow> string"
  me_range :: "string \<Rightarrow> form_field \<Rightarrow> string"
  me_value :: "string \<Rightarrow> form_field \<Rightarrow> string"

definition bounds_text :: "(jsnum \<Rightarrow> string) \<Rightarrow> string \<Rightarrow> jsnum option \<Rightarrow> jsnum option \<Rightarrow> string \<Rightarrow> string" where
  "bounds_text nt lead mn mx unit =
     (let suffix = (if unit = '''' then ''.'' else '' '' @ unit @ ''.'')
      in case (mn, mx) of
           (Some a, Some b) \<Rightarrow> lead @ '' from '' @ nt a @ '' to '' @ nt b @ suffix
         | (Some a, None) \<Rightarrow> lead @ '' of at least '' @ nt a @ suffix
         | (None, Some b) \<Rightarrow> lead @ '' of at most '' @ nt b @ suffix
         | (None, None) \<Rightarrow> lead @ '' of at most '' @ nt (Fin 0) @ suffix)"

fun rangeMessage :: "(jsnum \<Rightarrow> string) \<Rightarrow> form_field \<Rightarrow> string" where
  "rangeMessage nt (StringField s) = bounds_text nt ''Use'' (st_minLength s) (st_maxLength s) ''characters''"
| "rangeMessage nt (ArrayField a) = bounds_text nt ''Pick'' (ar_minItems a) (ar_maxItems a) ''items''"
| "rangeMessage nt (NumberField n) = bounds_text nt ''Enter a value'' (nu_minimum n) (nu_maximum n) ''''"
| "rangeMessage nt _ = ''Enter a value in range.''"

definition DEFAULT_MESSAGES :: "(jsnum \<Rightarrow> string) \<Rightarrow> form_messages" where
  "DEFAULT_MESSAGES nt =
     \<lparr>me_required = (\<lambda>_ _. ''This field is required.''), me_format = (\<lambda>_ _. ''Enter a valid value.''),
      me_range = (\<lambda>_ field. rangeMessage nt field), me_value = (\<lambda>_ _. ''Choose one of the listed values.'')\<rparr>"

section \<open>The check of a schema\<close>

datatype form_error = UnknownRequired string | BadFieldName string | InvalidPattern string

definition bad_key :: "string \<Rightarrow> bool" where
  "bad_key key = (key = [] \<or> list_ex (\<lambda>c. c \<in> {CHR ''.'', CHR ''['', CHR '']''}) key)"

definition missing_required :: "string \<Rightarrow> (string \<times> form_field) list \<Rightarrow> string list \<Rightarrow> form_error option" where
  "missing_required pre props required =
     map_option (\<lambda>name. UnknownRequired (pre @ name)) (List.find (\<lambda>name. \<not> map_has props name) required)"

text \<open>The first error thrown, in the order of the properties.\<close>

fun checkObject :: "regexps \<Rightarrow> string \<Rightarrow> form_field \<Rightarrow> form_error option"
  and check_properties :: "regexps \<Rightarrow> string \<Rightarrow> (string \<times> form_field) list \<Rightarrow> form_error option" where
  "checkObject rx pre (ObjectField props required) =
     (case missing_required pre props required of Some e \<Rightarrow> Some e | None \<Rightarrow> check_properties rx pre props)"
| "checkObject rx pre _ = None"
| "check_properties rx pre [] = None"
| "check_properties rx pre ((key, field) # rest) =
     (if bad_key key then Some (BadFieldName (pre @ key))
      else case checkObject rx (pre @ key @ ''.'') field of
             Some e \<Rightarrow> Some e
           | None \<Rightarrow>
               (case field of
                  StringField s \<Rightarrow>
                    (case st_pattern s of
                       Some p \<Rightarrow>
                         if rx (''^(?:'' @ p @ '')$'') = None then Some (InvalidPattern (pre @ key))
                         else check_properties rx pre rest
                     | None \<Rightarrow> check_properties rx pre rest)
                | _ \<Rightarrow> check_properties rx pre rest))"

section \<open>Decoding\<close>

record form_issue =
  is_path :: "string list option"
  is_reason :: reason
  is_message :: string

record form_decoder =
  de_input :: "(string \<times> jsval) list"
  de_text :: form_messages
  de_regexps :: regexps
  de_calendar :: calendar

definition control_name :: "string list \<Rightarrow> string" where
  "control_name path = js_join ''.'' path"

definition issue_at :: "string list \<Rightarrow> reason \<Rightarrow> string \<Rightarrow> form_issue" where
  "issue_at path reason message = \<lparr>is_path = Some path, is_reason = reason, is_message = message\<rparr>"

text \<open>A leaf decodes to a value, to nothing, or to nothing with an issue.\<close>

type_synonym leaf = "jsval option \<times> form_issue list"

definition fail :: "string list \<Rightarrow> reason \<Rightarrow> string \<Rightarrow> leaf" where
  "fail path reason message = (None, [issue_at path reason message])"

definition choiceValues :: "string_schema \<Rightarrow> string list option" where
  "choiceValues s = (case st_oneOf s of Some choices \<Rightarrow> Some (map fst choices) | None \<Rightarrow> st_enum s)"

definition date_shape :: "string \<Rightarrow> bool" where
  "date_shape v =
     (length v = 10 \<and> v ! 4 = CHR ''-'' \<and> v ! 7 = CHR ''-'' \<and>
      list_all is_digit_char (take 4 v @ take 2 (drop 5 v) @ drop 8 v))"

definition isDate :: "calendar \<Rightarrow> string \<Rightarrow> bool" where
  "isDate cal v =
     (if \<not> date_shape v then False
      else case cal (v @ ''T00:00:00Z'') of None \<Rightarrow> False | Some stamp \<Rightarrow> startsWith stamp v)"

text \<open>A bound that is absent holds.\<close>

definition below :: "jsnum \<Rightarrow> jsnum option \<Rightarrow> bool" where
  "below x bound = (case bound of None \<Rightarrow> False | Some b \<Rightarrow> js_less x b)"

definition above :: "jsnum \<Rightarrow> jsnum option \<Rightarrow> bool" where
  "above x bound = (case bound of None \<Rightarrow> False | Some b \<Rightarrow> js_less b x)"

definition pattern_of :: "form_decoder \<Rightarrow> string_schema \<Rightarrow> (string \<Rightarrow> bool) option" where
  "pattern_of d s = Option.bind (st_pattern s) (\<lambda>p. de_regexps d (''^(?:'' @ p @ '')$''))"

definition decode_string :: "form_decoder \<Rightarrow> string_schema \<Rightarrow> string list \<Rightarrow> string \<Rightarrow> leaf" where
  "decode_string d s path v =
     (let name = control_name path
      in case choiceValues s of
           Some choices \<Rightarrow>
             if v \<in> set choices then (Some (JStr v), [])
             else fail path INVALID_VALUE (me_value (de_text d) name (StringField s))
         | None \<Rightarrow>
             let len = Fin (of_nat (length v))
             in if below len (st_minLength s) \<or> above len (st_maxLength s)
                then fail path OUT_OF_RANGE (me_range (de_text d) name (StringField s))
                else if (case pattern_of d s of Some test \<Rightarrow> \<not> test v | None \<Rightarrow> False) \<or>
                        st_format s = Some DateFormat \<and> \<not> isDate (de_calendar d) v
                then fail path INVALID_FORMAT (me_format (de_text d) name (StringField s))
                else (Some (JStr v), []))"

text \<open>\<open>/^-?(?:\d+\.?\d*|\.\d+)(?:[eE][-+]?\d+)?$/\<close> with the number a numeral of that shape stands for.\<close>

definition digits_value :: "string \<Rightarrow> nat" where
  "digits_value ds = foldl (\<lambda>n c. 10 * n + (unit_of c - 48)) 0 ds"

definition exponent_of :: "string \<Rightarrow> int option" where
  "exponent_of s =
     (case s of
        [] \<Rightarrow> Some 0
      | e # rest \<Rightarrow>
          let sign = (if rest \<noteq> [] \<and> hd rest \<in> {CHR ''-'', CHR ''+''} then [hd rest] else []);
              ds = drop (length sign) rest
          in if e \<in> {CHR ''e'', CHR ''E''} \<and> ds \<noteq> [] \<and> list_all is_digit_char ds
             then Some (if sign = ''-'' then - int (digits_value ds) else int (digits_value ds)) else None)"

definition scaled :: "rat \<Rightarrow> int \<Rightarrow> rat" where
  "scaled m e = (if 0 \<le> e then m * 10 ^ nat e else m / 10 ^ nat (- e))"

definition parse_number :: "string \<Rightarrow> jsnum" where
  "parse_number s =
     (let neg = (s \<noteq> [] \<and> hd s = CHR ''-'');
          body = (if neg then tl s else s);
          whole = takeWhile is_digit_char body;
          rest = dropWhile is_digit_char body;
          dot = (rest \<noteq> [] \<and> hd rest = CHR ''.'');
          fraction = (if dot then takeWhile is_digit_char (tl rest) else []);
          tail = (if dot then dropWhile is_digit_char (tl rest) else rest)
      in if whole = [] \<and> fraction = [] then NaN
         else case exponent_of tail of
                None \<Rightarrow> NaN
              | Some e \<Rightarrow>
                  let m = of_nat (digits_value (whole @ fraction));
                      x = scaled m (e - int (length fraction))
                  in if neg \<and> x = 0 then NegZero else js_of (if neg then - x else x))"

definition decode_number :: "form_decoder \<Rightarrow> number_schema \<Rightarrow> string list \<Rightarrow> string \<Rightarrow> leaf" where
  "decode_number d n path v =
     (let name = control_name path; parsed = parse_number (js_trim v)
      in if num_val parsed = None \<or> nu_integer n \<and> \<not> is_safe_integer parsed
         then fail path INVALID_FORMAT (me_format (de_text d) name (NumberField n))
         else if below parsed (nu_minimum n) \<or> above parsed (nu_maximum n)
         then fail path OUT_OF_RANGE (me_range (de_text d) name (NumberField n))
         else (Some (JNum parsed), []))"

definition list_items :: "jsval option \<Rightarrow> string list" where
  "list_items raw =
     (case raw of
        Some (JStr s) \<Rightarrow> [s]
      | Some (JArray xs) \<Rightarrow> List.map_filter (\<lambda>x. case x of JStr s \<Rightarrow> Some s | _ \<Rightarrow> None) xs
      | _ \<Rightarrow> [])"

definition decode_list :: "form_decoder \<Rightarrow> array_schema \<Rightarrow> string list \<Rightarrow> jsval option \<Rightarrow> bool \<Rightarrow> leaf" where
  "decode_list d a path raw required =
     (let name = control_name path;
          items = list_items raw;
          choices = (case choiceValues (ar_items a) of None \<Rightarrow> [] | Some cs \<Rightarrow> cs);
          count = Fin (of_nat (length items))
      in if required \<and> items = [] then fail path REQUIRED (me_required (de_text d) name (ArrayField a))
         else if list_ex (\<lambda>i. i \<notin> set choices) items \<or> \<not> distinct items
         then fail path INVALID_VALUE (me_value (de_text d) name (ArrayField a))
         else if below count (ar_minItems a) \<or> above count (ar_maxItems a)
         then fail path OUT_OF_RANGE (me_range (de_text d) name (ArrayField a))
         else (Some (JArray (map JStr items)), []))"

definition decode_leaf :: "form_decoder \<Rightarrow> form_field \<Rightarrow> string list \<Rightarrow> bool \<Rightarrow> leaf" where
  "decode_leaf d field path required =
     (let name = control_name path;
          raw = map_of (de_input d) name;
          v = (case raw of Some (JStr s) \<Rightarrow> s | _ \<Rightarrow> [])
      in case field of
           ArrayField a \<Rightarrow> decode_list d a path raw required
         | _ \<Rightarrow>
             if (case raw of Some (JArray xs) \<Rightarrow> True | _ \<Rightarrow> False)
             then fail path INVALID_VALUE (me_value (de_text d) name field)
             else if field = BooleanField
             then (if v = '''' \<or> v = ''false'' then (Some (JBool False), [])
                   else if v = ''true'' \<or> v = ''on'' then (Some (JBool True), [])
                   else fail path INVALID_VALUE (me_value (de_text d) name field))
             else if v = ''''
             then (if required then fail path REQUIRED (me_required (de_text d) name field) else (None, []))
             else (case field of
                     StringField s \<Rightarrow> decode_string d s path v
                   | NumberField n \<Rightarrow> decode_number d n path v
                   | _ \<Rightarrow> (None, [])))"

text \<open>Whether an optional group has a control that was filled in, and the controls of a group.\<close>

fun provided :: "form_decoder \<Rightarrow> string list \<Rightarrow> form_field \<Rightarrow> bool"
  and provided_any :: "form_decoder \<Rightarrow> string list \<Rightarrow> (string \<times> form_field) list \<Rightarrow> bool" where
  "provided d path (ObjectField props required) = provided_any d path props"
| "provided d path BooleanField =
     (case map_of (de_input d) (control_name path) of
        None \<Rightarrow> False | Some raw \<Rightarrow> raw \<noteq> JStr [] \<and> raw \<noteq> JStr ''false'')"
| "provided d path _ =
     (case map_of (de_input d) (control_name path) of
        None \<Rightarrow> False | Some raw \<Rightarrow> raw \<noteq> JStr [] \<and> raw \<noteq> JArray [])"
| "provided_any d path [] = False"
| "provided_any d path ((key, field) # rest) = (provided d (path @ [key]) field \<or> provided_any d path rest)"

fun markUsed :: "string list \<Rightarrow> form_field \<Rightarrow> string list"
  and mark_all :: "string list \<Rightarrow> (string \<times> form_field) list \<Rightarrow> string list" where
  "markUsed path (ObjectField props required) = mark_all path props"
| "markUsed path _ = [control_name path]"
| "mark_all path [] = []"
| "mark_all path ((key, field) # rest) = markUsed (path @ [key]) field @ mark_all path rest"

text \<open>The value, the names of the controls used and the issues, in order.\<close>

fun decode_field :: "form_decoder \<Rightarrow> string list \<Rightarrow> bool \<Rightarrow> form_field \<Rightarrow> jsval option \<times> string list \<times> form_issue list"
  and decode_entries :: "form_decoder \<Rightarrow> string list \<Rightarrow> string list \<Rightarrow> (string \<times> form_field) list \<Rightarrow>
    (string \<times> jsval) list \<times> string list \<times> form_issue list" where
  "decode_field d path required (ObjectField props req) =
     (if \<not> required \<and> \<not> provided_any d path props then (None, mark_all path props, [])
      else let (entries, used, issues) = decode_entries d path req props
           in (Some (JObject True entries), used, issues))"
| "decode_field d path required field =
     (let (v, issues) = decode_leaf d field path required in (v, [control_name path], issues))"
| "decode_entries d path req [] = ([], [], [])"
| "decode_entries d path req ((key, field) # rest) =
     (let (v, used, issues) = decode_field d (path @ [key]) (key \<in> set req) field;
          (entries, used', issues') = decode_entries d path req rest
      in (case v of Some x \<Rightarrow> (key, x) # entries | None \<Rightarrow> entries, used @ used', issues @ issues'))"

section \<open>Validation\<close>

fun is_control_value :: "jsval \<Rightarrow> bool" where
  "is_control_value (JStr s) = True"
| "is_control_value (JArray xs) = list_all typeof_string xs"
| "is_control_value _ = False"

definition isControlRecord :: "jsval \<Rightarrow> bool" where
  "isControlRecord v = (isRecord v \<and> list_all (\<lambda>(k, x). is_control_value x) (props_of v))"

definition form_validate ::
  "form_messages \<Rightarrow> regexps \<Rightarrow> calendar \<Rightarrow> form_field \<Rightarrow> jsval \<Rightarrow> form_issue list + jsval" where
  "form_validate text rx cal schema input =
     (if \<not> isControlRecord input
      then Inl [\<lparr>is_path = None, is_reason = INVALID_VALUE, is_message = me_format text [] schema\<rparr>]
      else let d = \<lparr>de_input = props_of input, de_text = text, de_regexps = rx, de_calendar = cal\<rparr>;
               (v, used, issues) = decode_field d [] True schema;
               unknown = map (\<lambda>name. \<lparr>is_path = None, is_reason = INVALID_VALUE, is_message = me_value text name schema\<rparr>)
                 (filter (\<lambda>name. name \<notin> set used) (map fst (props_of input)))
           in if issues @ unknown \<noteq> [] then Inl (issues @ unknown)
              else Inr (case v of Some x \<Rightarrow> x | None \<Rightarrow> JObject True []))"

definition createFieldsForm ::
  "form_messages \<Rightarrow> regexps \<Rightarrow> calendar \<Rightarrow> form_field \<Rightarrow> form_error + (jsval \<Rightarrow> form_issue list + jsval)" where
  "createFieldsForm text rx cal schema =
     (case checkObject rx [] schema of Some e \<Rightarrow> Inl e | None \<Rightarrow> Inr (form_validate text rx cal schema))"

section \<open>Typed values\<close>

text \<open>The values a schema declares.\<close>

definition in_bounds :: "jsnum \<Rightarrow> jsnum option \<Rightarrow> jsnum option \<Rightarrow> bool" where
  "in_bounds x mn mx \<longleftrightarrow> \<not> below x mn \<and> \<not> above x mx"

definition string_conforms :: "regexps \<Rightarrow> calendar \<Rightarrow> string_schema \<Rightarrow> string \<Rightarrow> bool" where
  "string_conforms rx cal s v \<longleftrightarrow>
     v \<noteq> [] \<and>
     (case choiceValues s of
        Some choices \<Rightarrow> v \<in> set choices
      | None \<Rightarrow>
          in_bounds (Fin (of_nat (length v))) (st_minLength s) (st_maxLength s) \<and>
          (\<forall>p test. st_pattern s = Some p \<and> rx (''^(?:'' @ p @ '')$'') = Some test \<longrightarrow> test v) \<and>
          (st_format s = Some DateFormat \<longrightarrow> isDate cal v))"

text \<open>An object holds its properties in order; one that is optional and no switch, list or group may be left out.\<close>

fun conforms :: "regexps \<Rightarrow> calendar \<Rightarrow> form_field \<Rightarrow> jsval \<Rightarrow> bool"
  and entries_conform :: "regexps \<Rightarrow> calendar \<Rightarrow> string list \<Rightarrow> (string \<times> form_field) list \<Rightarrow> (string \<times> jsval) list \<Rightarrow> bool" where
  "conforms rx cal (StringField s) v = (\<exists>t. v = JStr t \<and> string_conforms rx cal s t)"
| "conforms rx cal (NumberField n) v =
     (\<exists>x. v = JNum x \<and> num_val x \<noteq> None \<and> (nu_integer n \<longrightarrow> is_safe_integer x) \<and> in_bounds x (nu_minimum n) (nu_maximum n))"
| "conforms rx cal BooleanField v = (\<exists>b. v = JBool b)"
| "conforms rx cal (ArrayField a) v =
     (\<exists>items choices. v = JArray (map JStr items) \<and> distinct items \<and> set items \<subseteq> set choices \<and>
        choices = (case choiceValues (ar_items a) of None \<Rightarrow> [] | Some cs \<Rightarrow> cs) \<and>
        in_bounds (Fin (of_nat (length items))) (ar_minItems a) (ar_maxItems a))"
| "conforms rx cal (ObjectField props required) v = (\<exists>entries. v = JObject True entries \<and> entries_conform rx cal required props entries)"
| "entries_conform rx cal required [] entries = (entries = [])"
| "entries_conform rx cal required ((key, field) # rest) entries =
     ((\<exists>v es. entries = (key, v) # es \<and> conforms rx cal field v \<and> entries_conform rx cal required rest es) \<or>
      (key \<notin> set required \<and> field \<noteq> BooleanField \<and> (\<forall>a. field \<noteq> ArrayField a) \<and> entries_conform rx cal required rest entries))"

lemma string_typed:
  assumes "decode_string d s path v = (r, [])" "v \<noteq> []"
  shows "\<exists>x. r = Some x \<and> conforms (de_regexps d) (de_calendar d) (StringField s) x"
  using assms by (auto simp: decode_string_def string_conforms_def in_bounds_def pattern_of_def fail_def Let_def
      split: option.splits if_splits)

lemma number_typed:
  assumes "decode_number d n path v = (r, [])"
  shows "\<exists>x. r = Some x \<and> conforms rx cal (NumberField n) x"
  using assms by (auto simp: decode_number_def in_bounds_def fail_def Let_def split: if_splits)

lemma list_typed:
  assumes "decode_list d a path raw required = (r, [])"
  shows "\<exists>x. r = Some x \<and> conforms rx cal (ArrayField a) x"
  using assms by (auto simp: decode_list_def in_bounds_def fail_def list_ex_iff Let_def split: if_splits)

lemma leaf_typed:
  assumes "decode_leaf d field path required = (r, [])" and "\<forall>props req. field \<noteq> ObjectField props req"
  shows "case r of Some x \<Rightarrow> conforms (de_regexps d) (de_calendar d) field x
    | None \<Rightarrow> \<not> required \<and> field \<noteq> BooleanField \<and> (\<forall>a. field \<noteq> ArrayField a)"
proof (cases field)
  case (StringField s)
  then show ?thesis using assms string_typed [of d s path _ r]
    by (fastforce simp: decode_leaf_def fail_def Let_def split: if_splits)
next
  case (NumberField n)
  then show ?thesis using assms number_typed [of d n path _ r]
    by (fastforce simp: decode_leaf_def fail_def Let_def split: if_splits)
next
  case (ArrayField a)
  then show ?thesis using assms list_typed [of d a path _ required r]
    by (fastforce simp: decode_leaf_def Let_def)
qed (use assms in \<open>auto simp: decode_leaf_def fail_def Let_def split: if_splits\<close>)

lemma decoded_typed:
  "decode_field d path required field = (r, used, []) \<Longrightarrow>
    (case r of Some x \<Rightarrow> conforms (de_regexps d) (de_calendar d) field x
     | None \<Rightarrow> \<not> required \<and> field \<noteq> BooleanField \<and> (\<forall>a. field \<noteq> ArrayField a))"
  "decode_entries d path req props = (entries, used', []) \<Longrightarrow> entries_conform (de_regexps d) (de_calendar d) req props entries"
proof (induction d path required field and d path req props arbitrary: r used and entries used'
    rule: decode_field_decode_entries.induct)
  case (1 d path required props req)
  then show ?case by (auto split: if_splits prod.splits)
next
  case (4 d path req key field rest)
  obtain v u i where f: "decode_field d (path @ [key]) (key \<in> set req) field = (v, u, i)" by (cases "decode_field d (path @ [key]) (key \<in> set req) field")
  obtain es us is' where e: "decode_entries d path req rest = (es, us, is')" by (cases "decode_entries d path req rest")
  have i: "i = []" "is' = []" using 4(3) by (simp_all add: f e)
  show ?case using 4(1) [OF f [unfolded i]] 4(2) [of "(v, u, i)" v "(u, i)" u i es us] 4(3) f e i by (auto split: option.splits)
qed (auto dest!: leaf_typed split: prod.splits)

lemma decoded_controls:
  "decode_field d path required field = (r, used, issues) \<Longrightarrow> used = markUsed path field"
  "decode_entries d path req props = (entries, used', issues') \<Longrightarrow> used' = mark_all path props"
  by (induction d path required field and d path req props arbitrary: r used issues and entries used' issues'
      rule: decode_field_decode_entries.induct) (auto split: if_splits prod.splits)

section \<open>Properties\<close>

text \<open>Claim C14: a form gives values of the types its schema declares. Whenever a form built from a schema accepts what
  was submitted, the value is an object of that schema: strings are listed choices or within their lengths, match
  their pattern and are dates where the schema asks for them, numbers are finite, within their range and safe
  integers where integers are asked for, lists hold distinct listed choices within their sizes, switches are
  booleans, and every required property is there; and no control was submitted that the schema does not have.\<close>

theorem form_values_conform:
  assumes "createFieldsForm text rx cal (ObjectField props required) = Inr form" and "form input = Inr v"
  shows "conforms rx cal (ObjectField props required) v \<and> (\<forall>name. hasProperty input name \<longrightarrow> name \<in> set (mark_all [] props))"
proof -
  let ?d = "\<lparr>de_input = props_of input, de_text = text, de_regexps = rx, de_calendar = cal\<rparr>"
  have form: "form = form_validate text rx cal (ObjectField props required)"
    using assms(1) by (simp add: createFieldsForm_def split: option.splits)
  obtain entries used issues where e: "decode_entries ?d [] required props = (entries, used, issues)"
    by (cases "decode_entries ?d [] required props")
  have none: "issues = []" and known: "\<forall>name \<in> fst ` set (props_of input). name \<in> set used" and v: "v = JObject True entries"
    using assms(2) by (auto simp: form form_validate_def e filter_empty_conv Let_def split: if_splits)
  have "entries_conform rx cal required props entries" using decoded_typed(2) [OF e [unfolded none]] by simp
  moreover have "name \<in> set (mark_all [] props)" if "hasProperty input name" for name
  proof -
    have "name \<in> fst ` set (props_of input)" using that by (cases input) (auto dest!: map_get_in intro: rev_image_eqI)
    then show ?thesis using known decoded_controls(2) [OF e] by auto
  qed
  ultimately show ?thesis by (simp add: v)
qed

definition sample_form :: form_field where
  "sample_form = ObjectField
     [(''name'', StringField \<lparr>st_enum = None, st_oneOf = None, st_minLength = Some (Fin 2), st_maxLength = None, st_pattern = None, st_format = None\<rparr>),
      (''age'', NumberField \<lparr>nu_integer = True, nu_minimum = Some (Fin 0), nu_maximum = None\<rparr>),
      (''news'', BooleanField)] [''name'']"

theorem form_values_conform_witness:
  "\<exists>form. createFieldsForm (DEFAULT_MESSAGES (\<lambda>_. [])) (\<lambda>_. None) (\<lambda>_. None) sample_form = Inr form \<and>
     form (JObject True [(''name'', JStr ''ab''), (''age'', JStr ''4e1'')]) =
       Inr (JObject True [(''name'', JStr ''ab''), (''age'', JNum (Fin 40)), (''news'', JBool False)]) \<and>
     conforms (\<lambda>_. None) (\<lambda>_. None) sample_form
       (JObject True [(''name'', JStr ''ab''), (''age'', JNum (Fin 40)), (''news'', JBool False)])"
proof -
  let ?text = "DEFAULT_MESSAGES (\<lambda>_. [])"
  let ?in = "JObject True [(''name'', JStr ''ab''), (''age'', JStr ''4e1'')]"
  obtain form where form: "createFieldsForm ?text (\<lambda>_. None) (\<lambda>_. None) sample_form = Inr form"
    by (simp add: createFieldsForm_def sample_form_def missing_required_def map_has_def bad_key_def)
  have shape: "js_trim ''4e1'' = ''4e1''" "parse_number ''4e1'' = Fin 40"
    by (simp_all add: js_trim_def is_space_def unit_of_def parse_number_def is_digit_char_def exponent_of_def digits_value_def
        scaled_def js_of_def max_double_def Let_def)
  from form have "form = form_validate ?text (\<lambda>_. None) (\<lambda>_. None) sample_form"
    by (simp add: createFieldsForm_def split: option.splits)
  then have run: "form ?in = Inr (JObject True [(''name'', JStr ''ab''), (''age'', JNum (Fin 40)), (''news'', JBool False)])"
    by (simp add: form_validate_def isControlRecord_def sample_form_def decode_leaf_def control_name_def decode_string_def
        choiceValues_def below_def above_def js_less_def pattern_of_def decode_number_def shape is_safe_integer_def
        max_safe_integer_def Let_def)
  from form_values_conform [OF form [unfolded sample_form_def] run] form run show ?thesis
    unfolding sample_form_def by blast
qed

text \<open>An optional list left empty is not left out: it decodes to an empty list, which a least size refuses.\<close>

lemma empty_optional_list:
  "let a = \<lparr>ar_items = \<lparr>st_enum = Some [''x''], st_oneOf = None, st_minLength = None, st_maxLength = None, st_pattern = None,
              st_format = None\<rparr>, ar_minItems = Some (Fin 1), ar_maxItems = None\<rparr>
   in form_validate (DEFAULT_MESSAGES nt) rx cal (ObjectField [(''tags'', ArrayField a)] []) (JObject True []) =
     Inl [issue_at [''tags''] OUT_OF_RANGE (''Pick of at least '' @ nt (Fin 1) @ '' items.'')]"
  by (simp add: form_validate_def isControlRecord_def decode_leaf_def decode_list_def list_items_def choiceValues_def below_def
      js_less_def fail_def DEFAULT_MESSAGES_def bounds_text_def control_name_def Let_def)

end
