(* ===== verification/Service_Calls.thy ===== *)
theory Service_Calls imports Prelude begin

text \<open>
  Operations that ask services and go on with their answers, for any questions and answers: \<open>fits q r\<close> says that
  \<open>r\<close> answers the question \<open>q\<close>. Such an operation is the tree of everything it can do, \<open>run_calls\<close> runs it on answers
  given, and \<open>call_wp\<close> computes whether every run ends in a way a predicate accepts, after its questions and answers.
\<close>

datatype ('q, 'r, 'f, 'a) calls =
    Done 'a
  | Raise 'f
  | Ask 'q "'r \<Rightarrow> ('q, 'r, 'f, 'a) calls"

primrec bind_calls :: "('q, 'r, 'f, 'a) calls \<Rightarrow> ('a \<Rightarrow> ('q, 'r, 'f, 'b) calls) \<Rightarrow> ('q, 'r, 'f, 'b) calls" where
  "bind_calls (Done x) f = f x"
| "bind_calls (Raise e) f = Raise e"
| "bind_calls (Ask q k) f = Ask q (\<lambda>r. bind_calls (k r) f)"

text \<open>\<open>try\<close> and \<open>catch\<close>.\<close>

primrec catch_calls :: "('q, 'r, 'f, 'a) calls \<Rightarrow> ('f \<Rightarrow> ('q, 'r, 'f, 'a) calls) \<Rightarrow> ('q, 'r, 'f, 'a) calls" where
  "catch_calls (Done x) g = Done x"
| "catch_calls (Raise e) g = g e"
| "catch_calls (Ask q k) g = Ask q (\<lambda>r. catch_calls (k r) g)"

fun run_calls :: "('q \<Rightarrow> 'r \<Rightarrow> bool) \<Rightarrow> ('q, 'r, 'f, 'a) calls \<Rightarrow> ('q \<times> 'r) list \<Rightarrow> ('q, 'r, 'f, 'a) calls option" where
  "run_calls fits p [] = Some p"
| "run_calls fits (Ask q k) ((q', r) # es) = (if q' = q \<and> fits q r then run_calls fits (k r) es else None)"
| "run_calls fits p (e # es) = None"

definition calls_end :: "('q \<Rightarrow> 'r \<Rightarrow> bool) \<Rightarrow> ('q, 'r, 'f, 'a) calls \<Rightarrow> ('q \<times> 'r) list \<Rightarrow> 'f + 'a \<Rightarrow> bool" where
  "calls_end fits p es r = (run_calls fits p es = Some (case r of Inl e \<Rightarrow> Raise e | Inr x \<Rightarrow> Done x))"

primrec call_wp :: "('q \<Rightarrow> 'r \<Rightarrow> bool) \<Rightarrow> ('q, 'r, 'f, 'a) calls \<Rightarrow> (('q \<times> 'r) list \<Rightarrow> 'f + 'a \<Rightarrow> bool) \<Rightarrow> ('q \<times> 'r) list \<Rightarrow> bool" where
  "call_wp fits (Done x) Q h = Q h (Inr x)"
| "call_wp fits (Raise e) Q h = Q h (Inl e)"
| "call_wp fits (Ask q k) Q h = (\<forall>r. fits q r \<longrightarrow> call_wp fits (k r) Q (h @ [(q, r)]))"

lemma call_wp_run: "call_wp fits p Q h \<Longrightarrow> run_calls fits p es = Some q \<Longrightarrow> call_wp fits q Q (h @ es)"
proof (induction es arbitrary: p h)
  case (Cons e es)
  obtain q' r where e: "e = (q', r)" by (cases e)
  then obtain k where p: "p = Ask q' k" "fits q' r" and run: "run_calls fits (k r) es = Some q"
    using Cons.prems(2) by (cases p) (auto split: if_splits)
  from Cons.IH [OF _ run, of "h @ [e]"] Cons.prems(1) p e show ?case by simp
qed simp

lemma call_wp_end: "call_wp fits p Q [] \<Longrightarrow> calls_end fits p es r \<Longrightarrow> Q es r"
  using call_wp_run [of fits p Q "[]" es] by (fastforce simp: calls_end_def split: sum.splits)

lemma call_wp_mono: "call_wp fits p Q h \<Longrightarrow> (\<And>h r. Q h r \<Longrightarrow> Q' h r) \<Longrightarrow> call_wp fits p Q' h"
  by (induction p arbitrary: h) auto

lemma call_wp_bind [simp]:
  "call_wp fits (bind_calls p f) Q h = call_wp fits p (\<lambda>h r. case r of Inl e \<Rightarrow> Q h (Inl e) | Inr x \<Rightarrow> call_wp fits (f x) Q h) h"
  by (induction p arbitrary: h) auto

lemma call_wp_catch [simp]:
  "call_wp fits (catch_calls p g) Q h = call_wp fits p (\<lambda>h r. case r of Inl e \<Rightarrow> call_wp fits (g e) Q h | Inr x \<Rightarrow> Q h (Inr x)) h"
  by (induction p arbitrary: h) auto

lemma all_answers: "(\<forall>r. (\<exists>x. r = f x) \<longrightarrow> P r) \<longleftrightarrow> (\<forall>x. P (f x))"
  "(\<forall>r. (\<exists>x. r = f x \<and> R x) \<longrightarrow> P r) \<longleftrightarrow> (\<forall>x. R x \<longrightarrow> P (f x))"
  by auto

lemma call_wp_conj: "call_wp fits p Q h \<Longrightarrow> call_wp fits p R h \<Longrightarrow> call_wp fits p (\<lambda>h r. Q h r \<and> R h r) h"
  by (induction p arbitrary: h) auto

lemma call_wp_later:
  assumes "\<And>g. call_wp fits q (\<lambda>es r. \<exists>rest. es = g @ rest) g"
  shows "call_wp fits q (\<lambda>es r. \<exists>rest. es = h @ rest) (h @ [e])"
  using assms [of "h @ [e]"] by (rule call_wp_mono) auto

lemma call_wp_extends: "call_wp fits p (\<lambda>es r. \<exists>rest. es = h @ rest) h"
  by (induction p arbitrary: h) (simp_all add: call_wp_later rangeI)

end
