(* ===== verification/Refresh_Custody.thy ===== *)
theory Refresh_Custody imports JS_Map Auth_Signing begin

text \<open>
  Custody of refresh tokens, \<^verbatim>\<open>packages/auth/src/adapter/oidc/refresh-store.ts\<close>: the limits, the decision on a
  presented token and the memory store. A handle that was revoked, or whose token was replayed, keeps an entry
  without a token until it expires. A step reads the clock once; the abort flag says whether the signal of the call
  is aborted.
\<close>

section \<open>Limits and decisions\<close>

record refresh_limits =
  rl_ttlMs :: rat
  rl_maxEntries :: nat

definition refreshStoreLimits :: "jsnum option \<Rightarrow> jsnum option \<Rightarrow> auth_error_code + refresh_limits" where
  "refreshStoreLimits ttlSeconds maxEntries =
     (let ttl = (case ttlSeconds of None \<Rightarrow> Fin 3600 | Some n \<Rightarrow> n);
          mx = (case maxEntries of None \<Rightarrow> Fin 10000 | Some n \<Rightarrow> n)
      in if \<not> isPositiveInteger ttl \<or> \<not> isPositiveInteger mx then Inl AuthConfig
         else Inr \<lparr>rl_ttlMs = of_nat (nat_of_num ttl) * 1000, rl_maxEntries = nat_of_num mx\<rparr>)"

datatype rotation = Rotated | ReuseDetected

definition decideRefreshRotation :: "string option \<Rightarrow> string \<Rightarrow> rotation" where
  "decideRefreshRotation current presented =
     (case current of
        None \<Rightarrow> ReuseDetected
      | Some c \<Rightarrow> if constantTimeEqual (utf8_encode presented) (utf8_encode c) then Rotated else ReuseDetected)"

definition validateRefreshHandle :: "string \<Rightarrow> bool" where
  "validateRefreshHandle handle = (0 < length handle \<and> length handle \<le> 128)"

definition validateRefreshToken :: "string \<Rightarrow> bool" where
  "validateRefreshToken token = (0 < length token \<and> length token \<le> 16384)"

section \<open>The memory store\<close>

record token_entry =
  te_current :: "string option"
  te_expiresAt :: rat

type_synonym refresh_store = "token_entry jsmap"

datatype custody_error = CustodyAborted | CustodyError auth_error_code

definition purgeExpired :: "rat \<Rightarrow> refresh_store \<Rightarrow> refresh_store" where
  "purgeExpired now s = filter (\<lambda>(k, e). \<not> te_expiresAt e \<le> now) s"

definition liveEntry :: "string \<Rightarrow> rat \<Rightarrow> refresh_store \<Rightarrow> token_entry option \<times> refresh_store" where
  "liveEntry handle now s =
     (case map_get s handle of
        None \<Rightarrow> (None, s)
      | Some e \<Rightarrow> if te_expiresAt e \<le> now then (None, map_delete handle s) else (Some e, s))"

definition issue :: "refresh_limits \<Rightarrow> string \<Rightarrow> string \<Rightarrow> bool \<Rightarrow> rat \<Rightarrow> refresh_store \<Rightarrow> refresh_store \<times> (custody_error + unit)" where
  "issue limits handle token aborted now s =
     (if aborted then (s, Inl CustodyAborted)
      else if \<not> validateRefreshHandle handle \<or> \<not> validateRefreshToken token then (s, Inl (CustodyError RefreshFailed))
      else let s1 = purgeExpired now s
           in if map_has s1 handle then (s1, Inl (CustodyError SessionRevoked))
              else let s2 = (if rl_maxEntries limits \<le> length s1 \<and> \<not> map_has s1 handle then purgeExpired now s1 else s1)
              in if rl_maxEntries limits \<le> length s2 \<and> \<not> map_has s2 handle then (s2, Inl (CustodyError StoreUnavailable))
                 else (map_set handle \<lparr>te_current = Some token, te_expiresAt = now + rl_ttlMs limits\<rparr> s2, Inr ()))"

definition current_token :: "string \<Rightarrow> bool \<Rightarrow> rat \<Rightarrow> refresh_store \<Rightarrow> refresh_store \<times> (custody_error + string option)" where
  "current_token handle aborted now s =
     (if aborted then (s, Inl CustodyAborted)
      else case liveEntry handle now s of (e, s1) \<Rightarrow> (s1, Inr (Option.bind e te_current)))"

definition rotate_token :: "string \<Rightarrow> string \<Rightarrow> string \<Rightarrow> bool \<Rightarrow> rat \<Rightarrow> refresh_store \<Rightarrow> refresh_store \<times> (custody_error + rotation)" where
  "rotate_token handle presented new aborted now s =
     (if aborted then (s, Inl CustodyAborted)
      else if \<not> validateRefreshToken new then (s, Inl (CustodyError RefreshFailed))
      else case liveEntry handle now s of (entry, s1) \<Rightarrow>
        let decision = decideRefreshRotation (Option.bind entry te_current) presented
        in (case entry of
              None \<Rightarrow> (s1, Inr decision)
            | Some e \<Rightarrow> (map_set handle (e\<lparr>te_current := if decision = Rotated then Some new else None\<rparr>) s1, Inr decision)))"

definition revoke_custody :: "refresh_limits \<Rightarrow> string \<Rightarrow> bool \<Rightarrow> rat \<Rightarrow> refresh_store \<Rightarrow> refresh_store \<times> (custody_error + unit)" where
  "revoke_custody limits handle aborted now s =
     (if aborted then (s, Inl CustodyAborted)
      else if \<not> validateRefreshHandle handle then (s, Inl (CustodyError RefreshFailed))
      else let s1 = purgeExpired now s
           in case map_get s1 handle of
                Some e \<Rightarrow> (map_set handle (e\<lparr>te_current := None\<rparr>) s1, Inr ())
              | None \<Rightarrow>
                  if rl_maxEntries limits \<le> length s1 then (s1, Inl (CustodyError StoreUnavailable))
                  else (map_set handle \<lparr>te_current = None, te_expiresAt = now + rl_ttlMs limits\<rparr> s1, Inr ()))"

text \<open>The store as a machine.\<close>

datatype custody_input =
    Issue string string bool rat
  | CurrentToken string bool rat
  | RotateToken string string string bool rat
  | RevokeCustody string bool rat

datatype custody_output =
    IssueDone "custody_error + unit"
  | CurrentIs "custody_error + string option"
  | RotationIs "custody_error + rotation"
  | CustodyRevoked "custody_error + unit"

fun custody_step :: "refresh_limits \<Rightarrow> refresh_store \<Rightarrow> custody_input \<Rightarrow> refresh_store \<times> custody_output list" where
  "custody_step limits s (Issue handle token aborted now) =
     (case issue limits handle token aborted now s of (s1, r) \<Rightarrow> (s1, [IssueDone r]))"
| "custody_step limits s (CurrentToken handle aborted now) =
     (case current_token handle aborted now s of (s1, r) \<Rightarrow> (s1, [CurrentIs r]))"
| "custody_step limits s (RotateToken handle presented new aborted now) =
     (case rotate_token handle presented new aborted now s of (s1, r) \<Rightarrow> (s1, [RotationIs r]))"
| "custody_step limits s (RevokeCustody handle aborted now) =
     (case revoke_custody limits handle aborted now s of (s1, r) \<Rightarrow> (s1, [CustodyRevoked r]))"

definition createRefreshTokenStore :: refresh_store where
  "createRefreshTokenStore = []"

section \<open>The invariant\<close>

declare map_of_eq_Some_iff [simp del]

definition custody_inv :: "refresh_limits \<Rightarrow> refresh_store \<Rightarrow> bool" where
  "custody_inv limits s \<longleftrightarrow> wf_map s \<and> length s \<le> rl_maxEntries limits"

lemma purge_wf: "wf_map s \<Longrightarrow> wf_map (purgeExpired now s)"
  by (simp add: purgeExpired_def distinct_map_filter)

lemma purge_length: "length (purgeExpired now s) \<le> length s"
  by (simp add: purgeExpired_def)

lemma purge_get: "wf_map s \<Longrightarrow> map_get (purgeExpired now s) h =
    (case map_get s h of Some e \<Rightarrow> if te_expiresAt e \<le> now then None else Some e | None \<Rightarrow> None)"
  by (induction s) (auto simp: purgeExpired_def map_of_eq_None_iff split: option.split)

lemma set_length: "length (map_set k v m) = (if map_has m k then length m else Suc (length m))"
  by (induction m) (auto simp: map_has_iff)

lemma delete_length: "length (map_delete k m) \<le> length m"
  by (simp add: AList.delete_eq)

lemma live_entry: "liveEntry h now s = (e, s1) \<Longrightarrow> wf_map s \<Longrightarrow>
    wf_map s1 \<and> length s1 \<le> length s \<and> map_get s1 h = e \<and> (\<forall>k. k \<noteq> h \<longrightarrow> map_get s1 k = map_get s k) \<and>
    e = (case map_get s h of Some x \<Rightarrow> if te_expiresAt x \<le> now then None else Some x | None \<Rightarrow> None)"
  by (auto simp: liveEntry_def delete_length split: option.splits if_splits)

lemma custody_step_inv: "custody_inv limits s \<Longrightarrow> custody_inv limits (fst (custody_step limits s i))"
proof (cases i)
  case (CurrentToken h aborted now)
  assume "custody_inv limits s"
  then show ?thesis using live_entry [of h now s]
    by (force simp: CurrentToken current_token_def custody_inv_def split: prod.split)
next
  case (RotateToken h presented new aborted now)
  assume inv: "custody_inv limits s"
  obtain e s1 where l: "liveEntry h now s = (e, s1)" by (cases "liveEntry h now s")
  then show ?thesis using live_entry [OF l] inv
    by (auto simp: RotateToken rotate_token_def custody_inv_def set_length map_has_def Let_def split: option.split)
next
  case (Issue h token aborted now)
  assume inv: "custody_inv limits s"
  then show ?thesis using purge_wf [of s now] purge_wf [of "purgeExpired now s" now] purge_length [of now s] purge_length [of now "purgeExpired now s"]
    by (auto simp: Issue issue_def custody_inv_def set_length Let_def)
next
  case (RevokeCustody h aborted now)
  assume inv: "custody_inv limits s"
  then show ?thesis using purge_wf [of s now] purge_length [of now s]
    by (auto simp: RevokeCustody revoke_custody_def custody_inv_def set_length map_has_def Let_def split: option.split)
qed

interpretation custody: kept_invariant "custody_step limits" "custody_inv limits" for limits
  by unfold_locales (rule custody_step_inv)

lemma custody_start: "custody_inv limits createRefreshTokenStore"
  by (simp add: custody_inv_def createRefreshTokenStore_def)

lemmas custody_reachable = custody.run_inv [OF custody_start]

section \<open>Ended custody\<close>

lemma decide_iff: "decideRefreshRotation current presented = Rotated \<longleftrightarrow> current = Some presented"
  using utf8_byte by (auto simp: decideRefreshRotation_def constantTimeEqual_iff split: option.split)

text \<open>A handle whose custody is over: it has no entry or one without a token.\<close>

definition ended :: "string \<Rightarrow> refresh_store \<Rightarrow> bool" where
  "ended h s \<longleftrightarrow> (\<forall>e. map_get s h = Some e \<longrightarrow> te_current e = None)"

fun issues :: "string \<Rightarrow> custody_input \<Rightarrow> bool" where
  "issues h (Issue h' token aborted now) = (h' = h)"
| "issues h _ = False"

lemma live_ended:
  assumes "liveEntry h' now s = (x, s1)" "wf_map s" "ended h s"
  shows "ended h s1 \<and> (h' = h \<longrightarrow> Option.bind x te_current = None)"
  using live_entry [OF assms(1,2)] assms(3) by (cases "h' = h") (auto simp: ended_def split: option.splits if_splits)

lemma ended_step: "ended h s \<Longrightarrow> custody_inv limits s \<Longrightarrow> \<not> issues h i \<Longrightarrow> ended h (fst (custody_step limits s i))"
proof (cases i)
  case (RotateToken h' presented new aborted now)
  assume e: "ended h s" and inv: "custody_inv limits s"
  obtain x s1 where l: "liveEntry h' now s = (x, s1)" by (cases "liveEntry h' now s")
  show ?thesis using live_ended [OF l _ e] inv e decide_iff [of "Option.bind x te_current" presented]
    by (auto simp: RotateToken rotate_token_def custody_inv_def ended_def l Let_def split: option.splits if_splits)
next
  case (CurrentToken h' aborted now)
  assume e: "ended h s" and inv: "custody_inv limits s"
  obtain x s1 where l: "liveEntry h' now s = (x, s1)" by (cases "liveEntry h' now s")
  show ?thesis using live_ended [OF l _ e] inv e
    by (auto simp: CurrentToken current_token_def custody_inv_def ended_def l split: option.splits if_splits)
next
  case (Issue h' token aborted now)
  assume "ended h s" "custody_inv limits s" "\<not> issues h i"
  then show ?thesis by (auto simp: Issue issue_def custody_inv_def ended_def purge_get purge_wf Let_def split: option.splits if_splits)
next
  case (RevokeCustody h' aborted now)
  assume "ended h s" "custody_inv limits s"
  then show ?thesis by (auto simp: RevokeCustody revoke_custody_def custody_inv_def ended_def purge_get Let_def split: option.splits if_splits)
qed

lemma ended_run:
  "ended h s \<Longrightarrow> custody_inv limits s \<Longrightarrow> list_all (\<lambda>i. \<not> issues h i) ins \<Longrightarrow>
   ended h (fst (run (custody_step limits) s ins)) \<and> custody_inv limits (fst (run (custody_step limits) s ins))"
proof (induction ins arbitrary: s)
  case (Cons i ins)
  then show ?case using Cons.IH [of "fst (custody_step limits s i)"] ended_step [of h s limits i] custody_step_inv [of limits s i]
    by (simp add: run_Cons del: run.simps(2))
qed simp

lemma ended_answers:
  assumes "ended h s" "custody_inv limits s"
  shows "snd (custody_step limits s (CurrentToken h False now)) = [CurrentIs (Inr None)]"
    and "snd (custody_step limits s (RotateToken h presented new False now)) \<noteq> [RotationIs (Inr Rotated)]"
proof -
  obtain x s1 where l: "liveEntry h now s = (x, s1)" by (cases "liveEntry h now s")
  have x: "Option.bind x te_current = None"
    using live_entry [OF l] assms by (auto simp: custody_inv_def ended_def split: option.splits if_splits)
  show "snd (custody_step limits s (CurrentToken h False now)) = [CurrentIs (Inr None)]"
    by (simp add: current_token_def l x)
  show "snd (custody_step limits s (RotateToken h presented new False now)) \<noteq> [RotationIs (Inr Rotated)]"
    using decide_iff [of None presented] x by (auto simp: rotate_token_def l Let_def split: option.split)
qed

lemma ending_ends:
  assumes inv: "custody_inv limits s" and i: "i = RotateToken h presented new aborted now \<and> snd (custody_step limits s i) = [RotationIs (Inr ReuseDetected)] \<or>
      i = RevokeCustody h aborted now \<and> snd (custody_step limits s i) = [CustodyRevoked (Inr ())]"
  shows "ended h (fst (custody_step limits s i))"
proof (cases "i = RevokeCustody h aborted now")
  case True
  then show ?thesis using i by (auto simp: revoke_custody_def ended_def Let_def split: option.splits if_splits)
next
  case False
  obtain x s1 where l: "liveEntry h now s = (x, s1)" by (cases "liveEntry h now s")
  show ?thesis using False i live_entry [OF l] inv
    by (auto simp: rotate_token_def ended_def custody_inv_def l Let_def split: option.splits if_splits)
qed

section \<open>Properties\<close>

text \<open>Claim C18: a replay ends custody. Only the live token of a handle rotates. Once another token was presented for a
  handle, or the handle was revoked, then whatever calls the store takes afterwards, as long as the handle is not
  issued a token anew, no token of the handle is given and none rotates.\<close>

theorem replay_ends_custody:
  assumes s: "s = fst (run (custody_step limits) createRefreshTokenStore before)"
    and i: "i = RotateToken h presented new aborted now \<and> snd (custody_step limits s i) = [RotationIs (Inr ReuseDetected)] \<or>
      i = RevokeCustody h aborted now \<and> snd (custody_step limits s i) = [CustodyRevoked (Inr ())]"
    and later: "list_all (\<lambda>i. \<not> issues h i) ins" and s2: "s2 = fst (run (custody_step limits) (fst (custody_step limits s i)) ins)"
  shows "snd (custody_step limits s2 (CurrentToken h False t)) = [CurrentIs (Inr None)] \<and>
    snd (custody_step limits s2 (RotateToken h presented' new' False t)) \<noteq> [RotationIs (Inr Rotated)] \<and>
    (snd (custody_step limits s (RotateToken k p n False t)) = [RotationIs (Inr Rotated)] \<longrightarrow>
      snd (custody_step limits s (CurrentToken k False t)) = [CurrentIs (Inr (Some p))])"
proof -
  have inv: "custody_inv limits s" unfolding s by (rule custody_reachable)
  from ended_run [OF ending_ends [OF inv i] custody_step_inv [OF inv] later]
  have "ended h s2" "custody_inv limits s2" by (simp_all add: s2)
  moreover obtain x s1 where "liveEntry k t s = (x, s1)" by (cases "liveEntry k t s")
  then have "snd (custody_step limits s (RotateToken k p n False t)) = [RotationIs (Inr Rotated)] \<longrightarrow>
      snd (custody_step limits s (CurrentToken k False t)) = [CurrentIs (Inr (Some p))]"
    using decide_iff [of "Option.bind x te_current" p]
    by (auto simp: rotate_token_def current_token_def Let_def split: option.splits if_splits)
  ultimately show ?thesis using ended_answers by blast
qed

definition sample_limits :: refresh_limits where "sample_limits = \<lparr>rl_ttlMs = 3600000, rl_maxEntries = 4\<rparr>"

lemmas custody_run = issue_def rotate_token_def current_token_def liveEntry_def purgeExpired_def validateRefreshHandle_def
  validateRefreshToken_def sample_limits_def createRefreshTokenStore_def map_has_def decideRefreshRotation_def constantTimeEqual_iff
  unit_of_def Let_def

theorem replay_ends_custody_witness:
  "let s = fst (run (custody_step sample_limits) createRefreshTokenStore
             [Issue ''h'' ''a'' False 0, RotateToken ''h'' ''a'' ''b'' False 1]);
       (s1, out) = custody_step sample_limits s (RotateToken ''h'' ''a'' ''c'' False 2)
   in snd (custody_step sample_limits s (CurrentToken ''h'' False 2)) = [CurrentIs (Inr (Some ''b''))] \<and>
      out = [RotationIs (Inr ReuseDetected)] \<and>
      snd (custody_step sample_limits s1 (CurrentToken ''h'' False 3)) = [CurrentIs (Inr None)]"
proof -
  let ?before = "[Issue ''h'' ''a'' False 0, RotateToken ''h'' ''a'' ''b'' False 1]"
  let ?s = "fst (run (custody_step sample_limits) createRefreshTokenStore ?before)"
  let ?i = "RotateToken ''h'' ''a'' ''c'' False 2"
  have out: "snd (custody_step sample_limits ?s ?i) = [RotationIs (Inr ReuseDetected)]"
    and live: "snd (custody_step sample_limits ?s (CurrentToken ''h'' False 2)) = [CurrentIs (Inr (Some ''b''))]"
    by (simp_all add: custody_run)
  from replay_ends_custody [of ?s sample_limits ?before ?i "''h''" "''a''" "''c''" False 2 "[]" _ 3, OF refl _ _ refl] out live
  show ?thesis unfolding Let_def split_beta by simp
qed

end
