(* ===== verification/Refresh_Flights.thy ===== *)
theory Refresh_Flights imports JS_Map begin

text \<open>
  The refreshes under way, \<^verbatim>\<open>packages/auth/src/adapter/oidc/adapter.ts\<close>, \<open>refresh\<close> and \<open>logout\<close>: one exchange per
  session handle, joined by every caller, at most \<open>MAX_IN_FLIGHT_REFRESHES\<close> of them. The promise of an exchange and its
  abort controller are the number it was started with; \<open>fl_underWay\<close> holds the exchanges whose promise is not settled.
\<close>

definition MAX_IN_FLIGHT_REFRESHES :: nat where "MAX_IN_FLIGHT_REFRESHES = 256"

record flights =
  fl_inFlight :: "(string \<times> nat) list"        \<comment> \<open>\<open>inFlightRefreshes\<close>\<close>
  fl_controllers :: "(string \<times> nat) list"     \<comment> \<open>\<open>refreshControllers\<close>\<close>
  fl_started :: nat
  fl_aborted :: "nat list"
  fl_underWay :: "(nat \<times> string) list"

definition no_flights :: flights where
  "no_flights = \<lparr>fl_inFlight = [], fl_controllers = [], fl_started = 0, fl_aborted = [], fl_underWay = []\<rparr>"

datatype flight_event = RefreshCall string | Settled nat | LogoutCall string
datatype flight_output = Joined nat | Full | Started nat

definition refresh_call :: "string \<Rightarrow> flights \<Rightarrow> flights \<times> flight_output list" where
  "refresh_call handle s =
     (case map_get (fl_inFlight s) handle of
        Some i \<Rightarrow> (s, [Joined i])
      | None \<Rightarrow>
          if length (fl_inFlight s) \<ge> MAX_IN_FLIGHT_REFRESHES then (s, [Full])
          else let i = fl_started s
               in (s\<lparr>fl_controllers := map_set handle i (fl_controllers s), fl_started := Suc i,
                     fl_underWay := fl_underWay s @ [(i, handle)], fl_inFlight := map_set handle i (fl_inFlight s)\<rparr>,
                   [Started i]))"

text \<open>The \<open>finally\<close> of an exchange; one that is not under way does not settle.\<close>

definition settled :: "nat \<Rightarrow> flights \<Rightarrow> flights" where
  "settled i s =
     (case map_of (fl_underWay s) i of
        None \<Rightarrow> s
      | Some handle \<Rightarrow>
          let s' = s\<lparr>fl_underWay := map_delete i (fl_underWay s), fl_inFlight := map_delete handle (fl_inFlight s)\<rparr>
          in if map_get (fl_controllers s') handle = Some i
             then s'\<lparr>fl_controllers := map_delete handle (fl_controllers s')\<rparr> else s')"

text \<open>What \<open>logout\<close> does before it revokes the custody of the handle.\<close>

definition logout_call :: "string \<Rightarrow> flights \<Rightarrow> flights" where
  "logout_call handle s =
     (let s' = (case map_get (fl_controllers s) handle of None \<Rightarrow> s | Some i \<Rightarrow> s\<lparr>fl_aborted := i # fl_aborted s\<rparr>)
      in s'\<lparr>fl_controllers := map_delete handle (fl_controllers s'), fl_inFlight := map_delete handle (fl_inFlight s')\<rparr>)"

fun flight_step :: "flights \<Rightarrow> flight_event \<Rightarrow> flights \<times> flight_output list" where
  "flight_step s (RefreshCall handle) = refresh_call handle s"
| "flight_step s (Settled i) = (settled i s, [])"
| "flight_step s (LogoutCall handle) = (logout_call handle s, [])"

section \<open>Invariants\<close>

definition flight_inv :: "flights \<Rightarrow> bool" where
  "flight_inv s \<longleftrightarrow> wf_map (fl_inFlight s) \<and> length (fl_inFlight s) \<le> MAX_IN_FLIGHT_REFRESHES \<and>
     wf_map (fl_underWay s) \<and> (\<forall>(i, handle) \<in> set (fl_underWay s). i < fl_started s)"

lemma length_delete: "length (map_delete k m) \<le> length m"
  by (simp add: AList.delete_eq)

lemma length_set: "length (map_set k v m) = (if map_has m k then length m else Suc (length m))"
  by (induction m) (auto simp: map_has_def)

lemma flight_step_inv: "flight_inv s \<Longrightarrow> flight_inv (fst (flight_step s e))"
proof (cases e)
  case (RefreshCall h)
  assume "flight_inv s"
  then show ?thesis unfolding RefreshCall
    by (auto simp: refresh_call_def flight_inv_def Let_def length_set map_has_def rev_image_eqI split: option.splits if_splits)
next
  case (Settled i)
  assume "flight_inv s"
  then show ?thesis unfolding Settled using map_delete_subset [of i "fl_underWay s"]
    by (fastforce simp: settled_def flight_inv_def Let_def intro: order.trans [OF length_delete] split: option.splits if_splits)
next
  case (LogoutCall h)
  assume "flight_inv s"
  then show ?thesis unfolding LogoutCall
    by (auto simp: logout_call_def flight_inv_def Let_def intro: order.trans [OF length_delete] split: option.splits)
qed

interpretation flights: kept_invariant flight_step flight_inv
  by unfold_locales (rule flight_step_inv)

text \<open>The exchange of a handle under way is the one its callers join.\<close>

definition tracked :: "string \<Rightarrow> flights \<Rightarrow> bool" where
  "tracked handle s \<longleftrightarrow> (\<forall>i. (i, handle) \<in> set (fl_underWay s) \<longleftrightarrow> map_get (fl_inFlight s) handle = Some i)"

lemma tracked_step: "flight_inv s \<Longrightarrow> tracked h s \<Longrightarrow> e \<noteq> LogoutCall h \<Longrightarrow> tracked h (fst (flight_step s e))"
proof (cases e)
  case (RefreshCall k)
  assume "flight_inv s" "tracked h s"
  then show ?thesis unfolding RefreshCall
    by (auto simp: refresh_call_def tracked_def Let_def split: option.splits if_splits)
next
  case (Settled i)
  assume inv: "flight_inv s" and t: "tracked h s"
  show ?thesis
  proof (cases "map_of (fl_underWay s) i")
    case None
    then show ?thesis using t by (simp add: Settled settled_def)
  next
    case (Some k)
    have d: "(j, h) \<in> set (map_delete i (fl_underWay s)) \<longleftrightarrow> j \<noteq> i \<and> (j, h) \<in> set (fl_underWay s)" for j
      by (auto simp: AList.delete_eq)
    have "k = h" if "(i, h) \<in> set (fl_underWay s)" using inv that Some by (auto simp: flight_inv_def)
    with Some t show ?thesis unfolding Settled
      by (auto simp: settled_def tracked_def d Let_def dest: map_of_SomeD)
  qed
next
  case (LogoutCall k)
  assume "tracked h s" "e \<noteq> LogoutCall h"
  then show ?thesis unfolding LogoutCall
    by (auto simp: logout_call_def tracked_def Let_def split: option.splits)
qed

lemma tracked_run: "flight_inv s \<Longrightarrow> tracked h s \<Longrightarrow> LogoutCall h \<notin> set es \<Longrightarrow> tracked h (fst (run flight_step s es))"
proof (induction es arbitrary: s)
  case (Cons e es)
  from Cons.IH [OF flight_step_inv [OF Cons.prems(1)] tracked_step [OF Cons.prems(1,2)]] Cons.prems(3)
  show ?case by (simp add: run_Cons del: run.simps) metis
qed simp

section \<open>Properties\<close>

text \<open>Claim C21: one exchange per session. As long as no logout of the session was called, at most one exchange of its
  refresh token is under way whatever refreshes, settlements and logouts of other sessions came before, and a caller
  joins it instead of starting another; no more exchanges than the limit are ever in flight.\<close>

theorem single_flight:
  assumes "s = fst (run flight_step no_flights es)"
  shows "length (fl_inFlight s) \<le> MAX_IN_FLIGHT_REFRESHES \<and>
    (LogoutCall h \<notin> set es \<longrightarrow>
      (\<forall>i j. (i, h) \<in> set (fl_underWay s) \<and> (j, h) \<in> set (fl_underWay s) \<longrightarrow> i = j) \<and>
      (\<forall>i. (i, h) \<in> set (fl_underWay s) \<longrightarrow> flight_step s (RefreshCall h) = (s, [Joined i])))"
proof -
  have n: "flight_inv no_flights" "tracked h no_flights"
    by (simp_all add: flight_inv_def no_flights_def tracked_def)
  have "flight_inv s" unfolding assms by (rule flights.run_inv [OF n(1)])
  moreover have "LogoutCall h \<notin> set es \<longrightarrow> tracked h s" unfolding assms using tracked_run [OF n] by blast
  ultimately show ?thesis by (auto simp: flight_inv_def tracked_def refresh_call_def simp del: map_of_eq_Some_iff)
qed

theorem single_flight_witness:
  "let s = fst (run flight_step no_flights [RefreshCall ''a'', RefreshCall ''b'', LogoutCall ''b'', Settled 1])
   in flight_step s (RefreshCall ''a'') = (s, [Joined 0])"
proof -
  let ?es = "[RefreshCall ''a'', RefreshCall ''b'', LogoutCall ''b'', Settled 1]"
  have "(0, ''a'') \<in> set (fl_underWay (fst (run flight_step no_flights ?es)))"
    by (simp add: no_flights_def refresh_call_def settled_def logout_call_def MAX_IN_FLIGHT_REFRESHES_def)
  then show ?thesis using single_flight [OF refl, of ?es "''a''"] by (simp add: Let_def)
qed

text \<open>
  A logout ends that: the settlement of the exchange it aborted deletes the entry of an exchange started since, so that
  the next caller starts another beside it.
\<close>

lemma late_settlement:
  "let (s, out) = run flight_step no_flights [RefreshCall ''a'', LogoutCall ''a'', RefreshCall ''a'', Settled 0, RefreshCall ''a'']
   in out = [Started 0, Started 1, Started 2] \<and> fl_underWay s = [(1, ''a''), (2, ''a'')] \<and> fl_aborted s = [0]"
  by (simp add: no_flights_def refresh_call_def settled_def logout_call_def MAX_IN_FLIGHT_REFRESHES_def Let_def)

end
