(* ===== verification/Oidc_Flow.thy ===== *)
theory Oidc_Flow imports Service_Calls Refresh_Custody Refresh_Flights Server_Session JS_Numbers begin

text \<open>
  The OpenID Connect adapter, \<^verbatim>\<open>packages/auth/src/adapter/oidc\<close>: its configuration, the origins its endpoints are
  held to, the signed login transaction, and the operations login, callback, bearer authentication, refresh and
  logout. The protocol library, the verifier of signed tokens, the custody of refresh tokens (any store), the clock,
  the random source and the discovery that is cached answer questions; a bound that expires makes the call under way
  fail and \<open>CheckAborted\<close> reads the signal. The host's digest and HMAC, its JSON text and its URL parser are part of
  the configuration.
\<close>

section \<open>Configuration and origins\<close>

definition is_function :: "jsval \<Rightarrow> bool" where
  "is_function v = (case v of JFunction _ \<Rightarrow> True | _ \<Rightarrow> False)"

definition is_object :: "jsval \<Rightarrow> bool" where
  "is_object v = (case v of JObject _ _ \<Rightarrow> True | JArray _ \<Rightarrow> True | _ \<Rightarrow> False)"

text \<open>A string with something besides white space.\<close>

definition filled :: "jsval \<Rightarrow> bool" where
  "filled v = (case v of JStr s \<Rightarrow> js_trim s \<noteq> [] | _ \<Rightarrow> False)"

definition http_url :: "url_parser \<Rightarrow> jsval \<Rightarrow> bool" where
  "http_url parse_url v =
     (case v of
        JStr s \<Rightarrow> (case parse_url s of None \<Rightarrow> False | Some u \<Rightarrow> pu_protocol u = ''http:'' \<or> pu_protocol u = ''https:'')
      | _ \<Rightarrow> False)"

definition validateOidcAdapterConfig :: "url_parser \<Rightarrow> jsval \<Rightarrow> bool" where
  "validateOidcAdapterConfig parse_url config =
     (is_object config \<and> prop_of config ''kind'' = JStr ''oidc'' \<and>
      filled (prop_of config ''issuer'') \<and> http_url parse_url (prop_of config ''issuer'') \<and>
      filled (prop_of config ''clientId'') \<and>
      filled (prop_of config ''redirectUri'') \<and>
      (case prop_of config ''redirectUri'' of JStr s \<Rightarrow> parse_url s \<noteq> None | _ \<Rightarrow> False) \<and>
      (let signer = prop_of config ''signer''
       in is_object signer \<and> is_function (prop_of signer ''sign'') \<and> is_function (prop_of signer ''verify'')) \<and>
      isAbsentOr (prop_of config ''scopes'') (\<lambda>v. is_array v \<and> list_all filled (items_of v)) \<and>
      isAbsentOr (prop_of config ''idTokenSigningAlgs'') (\<lambda>v. is_array v \<and> items_of v \<noteq> [] \<and>
        list_all (\<lambda>alg. filled alg \<and> (case alg of JStr s \<Rightarrow> toLowerCase s \<noteq> ''none'' | _ \<Rightarrow> False)) (items_of v)) \<and>
      isAbsentOr (prop_of config ''transactionTtlSeconds'') (num_check (\<lambda>n. js_finite n \<and> js_less (Fin 0) n)) \<and>
      isAbsentOr (prop_of config ''fetch'') is_function \<and>
      isAbsentOr (prop_of config ''timeoutMs'') (num_check isPositiveInteger) \<and>
      isAbsentOr (prop_of config ''cooldownDurationMs'') (num_check isNonNegativeInteger) \<and>
      isAbsentOr (prop_of config ''tokenStore'') (\<lambda>v. is_object v \<and>
        list_all (\<lambda>k. is_function (prop_of v k)) [''issue'', ''current'', ''rotate'', ''revoke'']) \<and>
      isAbsentOr (prop_of config ''onReuseDetected'') is_function \<and>
      isAbsentOr (prop_of config ''allowedOrigins'') (\<lambda>v. is_array v \<and>
        list_all (\<lambda>origin. filled origin \<and> http_url parse_url origin) (items_of v)))"

definition allowed_origins :: "url_parser \<Rightarrow> string \<Rightarrow> string list \<Rightarrow> string list" where
  "allowed_origins parse_url issuer extra =
     List.map_filter (\<lambda>origin. map_option pu_origin (parse_url origin)) (issuer # extra)"

text \<open>Whether the endpoint passes, and whether an outgoing request of the protocol library does.\<close>

definition assertAllowedEndpointOrigin :: "url_parser \<Rightarrow> string list \<Rightarrow> string option \<Rightarrow> bool" where
  "assertAllowedEndpointOrigin parse_url allowed endpoint =
     (case endpoint of
        None \<Rightarrow> True
      | Some u \<Rightarrow> (case parse_url u of None \<Rightarrow> False | Some url \<Rightarrow> pu_origin url \<in> set allowed))"

definition oauth_fetch_allowed :: "url_parser \<Rightarrow> string list \<Rightarrow> string \<Rightarrow> bool" where
  "oauth_fetch_allowed parse_url allowed url =
     (case parse_url url of None \<Rightarrow> True | Some u \<Rightarrow> pu_origin u \<in> set allowed)"

record oidc_provider =
  op_jwks_uri :: "string option"
  op_token_endpoint :: "string option"
  op_authorization_endpoint :: "string option"
  op_userinfo_endpoint :: "string option"
  op_revocation_endpoint :: "string option"

section \<open>Login transactions\<close>

record login_transaction =
  lt_codeVerifier :: string
  lt_state :: string
  lt_nonce :: string
  lt_returnTo :: string
  lt_iat :: jsnum

definition transaction_object :: "login_transaction \<Rightarrow> jsval" where
  "transaction_object t =
     JObject True [(''codeVerifier'', JStr (lt_codeVerifier t)), (''state'', JStr (lt_state t)), (''nonce'', JStr (lt_nonce t)),
       (''returnTo'', JStr (lt_returnTo t)), (''iat'', JNum (lt_iat t))]"

definition read_transaction :: "jsval \<Rightarrow> login_transaction option" where
  "read_transaction v =
     (case (prop_of v ''codeVerifier'', prop_of v ''state'', prop_of v ''nonce'', prop_of v ''returnTo'', prop_of v ''iat'') of
        (JStr verifier, JStr state, JStr nonce, JStr returnTo, JNum iat) \<Rightarrow>
          Some \<lparr>lt_codeVerifier = verifier, lt_state = state, lt_nonce = nonce, lt_returnTo = returnTo, lt_iat = iat\<rparr>
      | _ \<Rightarrow> None)"

section \<open>Questions and answers\<close>

datatype custody_question =
    CustodyIssue string string
  | CustodyCurrent string
  | CustodyRotate string string string
  | CustodyRevoke string

record token_response =
  tr_access_token :: string
  tr_refresh_token :: "string option"
  tr_id_token :: "string option"
  tr_expires_in :: "rat option"

datatype oidc_question =
    Discover
  | FetchKeys string                                    \<comment> \<open>whether the keys could be fetched\<close>
  | Ready                                               \<comment> \<open>the provider discovered\<close>
  | DrawBytes nat
  | ReadClock
  | CheckAborted
  | ValidateResponse "(string \<times> string) list" string    \<comment> \<open>the callback against the state\<close>
  | ExchangeCode string string string                   \<comment> \<open>parameters, redirect URI and code verifier\<close>
  | ProcessCode string string                           \<comment> \<open>the response against the nonce\<close>
  | VerifyToken string                                  \<comment> \<open>signature, issuer, audience and expiry\<close>
  | GrantRefresh string
  | Custody custody_question
  | NotifyReuse string

datatype grant_failure = InvalidGrant | OtherGrantFailure
datatype token_failure = TokenRejected | KeysUnavailable

datatype oidc_answer =
    AnsProvider "fault + oidc_provider"
  | AnsBytes "8 word list"
  | AnsTime rat
  | AnsUnit "fault + unit"
  | AnsText "fault + string"
  | AnsBool "fault + bool"
  | AnsToken "fault + string option"
  | AnsTokens "fault + token_response"
  | AnsGrant "grant_failure + token_response"
  | AnsClaims "token_failure + jsval"
  | AnsRotation "fault + rotation"

fun oidc_fits :: "oidc_question \<Rightarrow> oidc_answer \<Rightarrow> bool" where
  "oidc_fits Discover r = (\<exists>x. r = AnsProvider x)"
| "oidc_fits (FetchKeys uri) r = (\<exists>x. r = AnsBool x)"
| "oidc_fits Ready r = (\<exists>x. r = AnsProvider x)"
| "oidc_fits (DrawBytes n) r = (\<exists>x. r = AnsBytes x \<and> length x = n)"
| "oidc_fits ReadClock r = (\<exists>x. r = AnsTime x)"
| "oidc_fits CheckAborted r = (\<exists>x. r = AnsUnit x)"
| "oidc_fits (ValidateResponse params state) r = (\<exists>x. r = AnsText x)"
| "oidc_fits (ExchangeCode params uri verifier) r = (\<exists>x. r = AnsText x)"
| "oidc_fits (ProcessCode response nonce) r = (\<exists>x. r = AnsTokens x)"
| "oidc_fits (VerifyToken token) r = (\<exists>x. r = AnsClaims x)"
| "oidc_fits (GrantRefresh token) r = (\<exists>x. r = AnsGrant x)"
| "oidc_fits (Custody (CustodyIssue h t)) r = (\<exists>x. r = AnsUnit x)"
| "oidc_fits (Custody (CustodyCurrent h)) r = (\<exists>x. r = AnsToken x)"
| "oidc_fits (Custody (CustodyRotate h t u)) r = (\<exists>x. r = AnsRotation x)"
| "oidc_fits (Custody (CustodyRevoke h)) r = (\<exists>x. r = AnsUnit x)"
| "oidc_fits (NotifyReuse h) r = (\<exists>x. r = AnsUnit x)"

type_synonym 'a oidc = "(oidc_question, oidc_answer, fault, 'a) calls"

text \<open>Awaiting an answer throws its failure; an answer of another kind does not occur.\<close>

definition settle :: "fault + 'a \<Rightarrow> 'a oidc" where
  "settle a = (case a of Inl e \<Rightarrow> Raise e | Inr x \<Rightarrow> Done x)"

definition no_answer :: "'a oidc" where "no_answer = Raise (OtherFault 0)"

definition ask_provider :: "oidc_question \<Rightarrow> oidc_provider oidc" where
  "ask_provider q = Ask q (\<lambda>r. case r of AnsProvider a \<Rightarrow> settle a | _ \<Rightarrow> no_answer)"

definition ask_bytes :: "nat \<Rightarrow> 8 word list oidc" where
  "ask_bytes n = Ask (DrawBytes n) (\<lambda>r. case r of AnsBytes bytes \<Rightarrow> Done bytes | _ \<Rightarrow> no_answer)"

definition ask_time :: "rat oidc" where
  "ask_time = Ask ReadClock (\<lambda>r. case r of AnsTime t \<Rightarrow> Done t | _ \<Rightarrow> no_answer)"

definition ask_unit :: "oidc_question \<Rightarrow> unit oidc" where
  "ask_unit q = Ask q (\<lambda>r. case r of AnsUnit a \<Rightarrow> settle a | _ \<Rightarrow> no_answer)"

definition ask_bool :: "oidc_question \<Rightarrow> bool oidc" where
  "ask_bool q = Ask q (\<lambda>r. case r of AnsBool a \<Rightarrow> settle a | _ \<Rightarrow> no_answer)"

definition ask_text :: "oidc_question \<Rightarrow> string oidc" where
  "ask_text q = Ask q (\<lambda>r. case r of AnsText a \<Rightarrow> settle a | _ \<Rightarrow> no_answer)"

definition ask_tokens :: "oidc_question \<Rightarrow> token_response oidc" where
  "ask_tokens q = Ask q (\<lambda>r. case r of AnsTokens a \<Rightarrow> settle a | _ \<Rightarrow> no_answer)"

definition ask_current :: "string \<Rightarrow> string option oidc" where
  "ask_current handle = Ask (Custody (CustodyCurrent handle)) (\<lambda>r. case r of AnsToken a \<Rightarrow> settle a | _ \<Rightarrow> no_answer)"

definition ask_rotation :: "string \<Rightarrow> string \<Rightarrow> string \<Rightarrow> rotation oidc" where
  "ask_rotation handle presented new =
     Ask (Custody (CustodyRotate handle presented new)) (\<lambda>r. case r of AnsRotation a \<Rightarrow> settle a | _ \<Rightarrow> no_answer)"

text \<open>\<open>finally\<close> rewriting a failure: \<open>catch\<close> that throws another.\<close>

definition rethrown :: "auth_error_code \<Rightarrow> 'a oidc \<Rightarrow> 'a oidc" where
  "rethrown code p = catch_calls p (\<lambda>_. Raise (AuthFault code))"

section \<open>The adapter\<close>

record oidc_config =
  oc_issuer :: string
  oc_clientId :: string
  oc_redirectUri :: string
  oc_scopes :: "string list option"
  oc_allowedOrigins :: "string list"
  oc_transactionTtlSeconds :: jsnum
  oc_notifies :: bool      \<comment> \<open>whether a reuse is reported\<close>
  oc_parse_url :: url_parser
  oc_authorize_url :: "string \<Rightarrow> (string \<times> string) list \<Rightarrow> string"   \<comment> \<open>an endpoint with search parameters\<close>
  oc_sha256 :: "8 word list \<Rightarrow> 8 word list"
  oc_hmac :: hmac
  oc_keys :: "8 word list list"
  oc_number_text :: "jsnum \<Rightarrow> string"
  oc_read_json :: "8 word list \<Rightarrow> jsval option"

definition oidc_scope :: "oidc_config \<Rightarrow> string" where
  "oidc_scope cfg =
     (let scopes = (case oc_scopes cfg of None \<Rightarrow> [''openid'', ''profile'', ''email''] | Some s \<Rightarrow> s)
      in js_join '' '' (if ''openid'' \<in> set scopes then scopes else ''openid'' # scopes))"

definition discover :: "oidc_config \<Rightarrow> oidc_provider oidc" where
  "discover cfg =
     bind_calls (ask_provider Discover) (\<lambda>p.
       let ok = assertAllowedEndpointOrigin (oc_parse_url cfg) (allowed_origins (oc_parse_url cfg) (oc_issuer cfg) (oc_allowedOrigins cfg))
       in case op_jwks_uri p of
            None \<Rightarrow> Raise (AuthFault AuthAdapter)
          | Some uri \<Rightarrow>
              if \<not> (ok (op_jwks_uri p) \<and> ok (op_token_endpoint p) \<and> ok (op_authorization_endpoint p) \<and>
                    ok (op_userinfo_endpoint p) \<and> ok (op_revocation_endpoint p))
              then Raise (AuthFault AuthAdapter)
              else bind_calls (ask_bool (FetchKeys uri)) (\<lambda>fetched.
                if fetched then Done p else Raise (AuthFault AuthAdapter)))"

definition bearerFrom :: "(string \<times> string) list \<Rightarrow> string option" where
  "bearerFrom headers =
     (case List.find (\<lambda>(name, value). toLowerCase name = ''authorization'') headers of
        None \<Rightarrow> None
      | Some (name, value) \<Rightarrow>
          let token = drop 7 value
          in if startsWith value ''Bearer '' \<and> token \<noteq> [] \<and> list_all (\<lambda>c. unit_of c \<noteq> 10 \<and> unit_of c \<noteq> 13) token
             then Some token else None)"

definition identityFrom :: "jsval \<Rightarrow> identity oidc" where
  "identityFrom claims =
     (case prop_of claims ''sub'' of
        JStr s \<Rightarrow> if s = [] then Raise (AuthFault AuthAdapter) else Done \<lparr>id_subject = s, id_claims = claims\<rparr>
      | _ \<Rightarrow> Raise (AuthFault AuthAdapter))"

text \<open>\<open>createJwtVerifier\<close>: the claims of a token whose signature, issuer, audience and expiry hold.\<close>

definition verified_claims :: "string \<Rightarrow> jsval oidc" where
  "verified_claims token =
     Ask (VerifyToken token) (\<lambda>r.
       case r of
         AnsClaims (Inr claims) \<Rightarrow> Done claims
       | AnsClaims (Inl TokenRejected) \<Rightarrow> Raise (AuthFault TokenInvalid)
       | AnsClaims (Inl KeysUnavailable) \<Rightarrow> Raise (AuthFault AuthAdapter)
       | _ \<Rightarrow> no_answer)"

definition verifyIdToken :: "string \<Rightarrow> string option \<Rightarrow> jsval oidc" where
  "verifyIdToken token expectedNonce =
     bind_calls (verified_claims token) (\<lambda>claims.
       case expectedNonce of
         Some nonce \<Rightarrow> if prop_of claims ''nonce'' \<noteq> JStr nonce then Raise (AuthFault TokenInvalid) else Done claims
       | None \<Rightarrow> Done claims)"

definition signTransaction :: "oidc_config \<Rightarrow> login_transaction \<Rightarrow> string" where
  "signTransaction cfg t = signPayload (oc_hmac cfg) (oc_keys cfg) (oc_number_text cfg) (transaction_object t)"

definition verifyTransaction :: "oidc_config \<Rightarrow> string \<Rightarrow> login_transaction oidc" where
  "verifyTransaction cfg token =
     (case split_signed token of
        None \<Rightarrow> Raise (AuthFault AuthAdapter)
      | Some (payload, mac) \<Rightarrow>
          if \<not> signer_verify (oc_hmac cfg) (oc_keys cfg) payload mac then Raise (AuthFault AuthAdapter)
          else case Option.bind (base64urlDecode payload) (oc_read_json cfg) of
                 None \<Rightarrow> Raise (AuthFault AuthAdapter)
               | Some v \<Rightarrow>
                   (case read_transaction v of
                      None \<Rightarrow> Raise (AuthFault AuthAdapter)
                    | Some t \<Rightarrow> bind_calls ask_time (\<lambda>now.
                        if js_less (oc_transactionTtlSeconds cfg) (js_sub (Fin (of_int \<lfloor>now / 1000\<rfloor>)) (lt_iat t))
                        then Raise (AuthFault AuthAdapter) else Done t)))"

definition DEFAULT_ACCESS_TTL_SECONDS :: rat where "DEFAULT_ACCESS_TTL_SECONDS = 300"

definition expiry_at :: "rat option \<Rightarrow> rat \<Rightarrow> rat" where
  "expiry_at expires_in now = now + (case expires_in of None \<Rightarrow> DEFAULT_ACCESS_TTL_SECONDS | Some s \<Rightarrow> s) * 1000"

definition expiryFrom :: "rat option \<Rightarrow> rat oidc" where
  "expiryFrom expires_in = bind_calls ask_time (\<lambda>now. Done (expiry_at expires_in now))"

definition oidc_beginLogin :: "oidc_config \<Rightarrow> string option \<Rightarrow> (string \<times> string) oidc" where
  "oidc_beginLogin cfg requested =
     bind_calls (ask_provider Ready) (\<lambda>provider.
       case op_authorization_endpoint provider of
         None \<Rightarrow> Raise (AuthFault AuthAdapter)
       | Some endpoint \<Rightarrow>
           bind_calls (ask_bytes 32) (\<lambda>b1.
             let codeVerifier = base64urlEncode b1;
                 codeChallenge = base64urlEncode (oc_sha256 cfg (utf8_encode codeVerifier))
             in bind_calls (ask_bytes 32) (\<lambda>b2. bind_calls (ask_bytes 32) (\<lambda>b3.
                  let state = base64urlEncode b2; nonce = base64urlEncode b3; returnTo = sanitizeReturnTo requested ''/''
                  in bind_calls ask_time (\<lambda>now.
                       let transaction = signTransaction cfg
                             \<lparr>lt_codeVerifier = codeVerifier, lt_state = state, lt_nonce = nonce, lt_returnTo = returnTo,
                              lt_iat = Fin (of_int \<lfloor>now / 1000\<rfloor>)\<rparr>
                       in bind_calls (ask_unit CheckAborted) (\<lambda>_.
                            Done (oc_authorize_url cfg endpoint
                                    [(''client_id'', oc_clientId cfg), (''redirect_uri'', oc_redirectUri cfg), (''response_type'', ''code''),
                                     (''scope'', oidc_scope cfg), (''code_challenge'', codeChallenge),
                                     (''code_challenge_method'', ''S256''), (''state'', state), (''nonce'', nonce)],
                                  transaction)))))))"

record auth_session =
  as_identity :: identity
  as_accessToken :: string
  as_expiresAt :: rat
  as_sessionHandle :: string

definition redeem_code :: "oidc_config \<Rightarrow> (string \<times> string) list \<Rightarrow> string \<Rightarrow> string \<Rightarrow> auth_session oidc" where
  "redeem_code cfg params transaction sessionHandle =
     bind_calls (ask_provider Ready) (\<lambda>_.
       bind_calls (verifyTransaction cfg transaction) (\<lambda>tx.
         bind_calls (rethrown AuthAdapter (ask_text (ValidateResponse params (lt_state tx)))) (\<lambda>validatedParams.
           bind_calls (ask_text (ExchangeCode validatedParams (oc_redirectUri cfg) (lt_codeVerifier tx))) (\<lambda>tokenResponse.
             bind_calls (rethrown AuthAdapter (ask_tokens (ProcessCode tokenResponse (lt_nonce tx)))) (\<lambda>result.
               case tr_id_token result of
                 None \<Rightarrow> Raise (AuthFault AuthAdapter)
               | Some idToken \<Rightarrow>
                   bind_calls (verifyIdToken idToken (Some (lt_nonce tx))) (\<lambda>claims.
                     bind_calls (identityFrom claims) (\<lambda>identity.
                       bind_calls (ask_unit CheckAborted) (\<lambda>_.
                         bind_calls
                           (case tr_refresh_token result of
                              None \<Rightarrow> Done ()
                            | Some token \<Rightarrow>
                                bind_calls (ask_unit (Custody (CustodyIssue sessionHandle token))) (\<lambda>_.
                                  bind_calls (ask_current sessionHandle) (\<lambda>current.
                                    if current \<noteq> Some token then Raise (AuthFault SessionRevoked) else Done ())))
                           (\<lambda>_. bind_calls (ask_unit CheckAborted) (\<lambda>_.
                              bind_calls (expiryFrom (tr_expires_in result)) (\<lambda>expiresAt.
                                Done \<lparr>as_identity = identity, as_accessToken = tr_access_token result,
                                      as_expiresAt = expiresAt, as_sessionHandle = sessionHandle\<rparr>)))))))))))"

definition oidc_completeLogin :: "oidc_config \<Rightarrow> (string \<times> string) list \<Rightarrow> string \<Rightarrow> auth_session oidc" where
  "oidc_completeLogin cfg params transaction =
     bind_calls (ask_bytes 32) (\<lambda>bytes.
       let sessionHandle = base64urlEncode bytes
       in catch_calls (redeem_code cfg params transaction sessionHandle) (\<lambda>cause.
            bind_calls (rethrown StoreUnavailable (ask_unit (Custody (CustodyRevoke sessionHandle)))) (\<lambda>_. Raise cause)))"

definition oidc_authenticate :: "(string \<times> string) list \<Rightarrow> identity option oidc" where
  "oidc_authenticate headers =
     (case bearerFrom headers of
        None \<Rightarrow> Done None
      | Some bearer \<Rightarrow>
          bind_calls (ask_provider Ready) (\<lambda>_.
            catch_calls (bind_calls (verified_claims bearer) (\<lambda>claims. bind_calls (identityFrom claims) (\<lambda>i. Done (Some i))))
              (\<lambda>error. if error = AuthFault TokenInvalid then Done None else Raise error)))"

definition signalReuse :: "oidc_config \<Rightarrow> string \<Rightarrow> 'a oidc" where
  "signalReuse cfg handle =
     bind_calls (catch_calls (ask_unit (Custody (CustodyRevoke handle))) (\<lambda>_. Done ())) (\<lambda>_.
       bind_calls (if oc_notifies cfg then catch_calls (ask_unit (NotifyReuse handle)) (\<lambda>_. Done ()) else Done ())
         (\<lambda>_. Raise (AuthFault SessionRevoked)))"

record provider_tokens =
  pt_accessToken :: string
  pt_expiresAt :: rat
  pt_identity :: "identity option"

definition refreshed_identity :: "string option \<Rightarrow> identity option oidc" where
  "refreshed_identity id_token =
     (case id_token of
        None \<Rightarrow> Done None
      | Some idToken \<Rightarrow>
          bind_calls (verifyIdToken idToken None) (\<lambda>claims. bind_calls (identityFrom claims) (\<lambda>i. Done (Some i))))"

definition next_refresh_token :: "token_response \<Rightarrow> string \<Rightarrow> string" where
  "next_refresh_token result currentRefreshToken = (case tr_refresh_token result of None \<Rightarrow> currentRefreshToken | Some t \<Rightarrow> t)"

definition doRefresh :: "oidc_config \<Rightarrow> string \<Rightarrow> provider_tokens oidc" where
  "doRefresh cfg handle =
     bind_calls (ask_current handle) (\<lambda>held.
       case held of
         None \<Rightarrow> Raise (AuthFault RefreshFailed)
       | Some currentRefreshToken \<Rightarrow>
           bind_calls (ask_provider Ready) (\<lambda>_.
             Ask (GrantRefresh currentRefreshToken) (\<lambda>r.
               case r of
                 AnsGrant (Inl InvalidGrant) \<Rightarrow> signalReuse cfg handle
               | AnsGrant (Inl OtherGrantFailure) \<Rightarrow> Raise (AuthFault RefreshFailed)
               | AnsGrant (Inr result) \<Rightarrow>
                   bind_calls (ask_unit CheckAborted) (\<lambda>_.
                     let nextRefreshToken = next_refresh_token result currentRefreshToken
                     in bind_calls (ask_rotation handle currentRefreshToken nextRefreshToken) (\<lambda>rotation.
                          if rotation = ReuseDetected then signalReuse cfg handle
                          else bind_calls (expiryFrom (tr_expires_in result)) (\<lambda>expiresAt.
                            bind_calls (refreshed_identity (tr_id_token result))
                              (\<lambda>identity. bind_calls (ask_current handle) (\<lambda>now_held.
                                 if now_held \<noteq> Some nextRefreshToken then Raise (AuthFault SessionRevoked)
                                 else bind_calls (ask_unit CheckAborted) (\<lambda>_.
                                   Done \<lparr>pt_accessToken = tr_access_token result, pt_expiresAt = expiresAt,
                                         pt_identity = identity\<rparr>))))))
               | _ \<Rightarrow> no_answer)))"

text \<open>\<open>logout\<close>, after it dropped the refresh of the handle under way (\<open>logout_call\<close>).\<close>

definition oidc_logout :: "string \<Rightarrow> unit oidc" where
  "oidc_logout handle = ask_unit (Custody (CustodyRevoke handle))"

section \<open>Complete runs\<close>

lemma wp_settle [simp]: "call_wp oidc_fits (settle a) Q h = Q h a"
  by (simp add: settle_def split: sum.split)

lemma wp_asks [simp]:
  "(\<And>r. oidc_fits q r = (\<exists>x. r = AnsProvider x)) \<Longrightarrow> call_wp oidc_fits (ask_provider q) Q0 h = (\<forall>a. Q0 (h @ [(q, AnsProvider a)]) a)"
  "(\<And>r. oidc_fits q r = (\<exists>x. r = AnsUnit x)) \<Longrightarrow> call_wp oidc_fits (ask_unit q) Q1 h = (\<forall>a. Q1 (h @ [(q, AnsUnit a)]) a)"
  "(\<And>r. oidc_fits q r = (\<exists>x. r = AnsBool x)) \<Longrightarrow> call_wp oidc_fits (ask_bool q) Q2 h = (\<forall>a. Q2 (h @ [(q, AnsBool a)]) a)"
  "(\<And>r. oidc_fits q r = (\<exists>x. r = AnsText x)) \<Longrightarrow> call_wp oidc_fits (ask_text q) Q3 h = (\<forall>a. Q3 (h @ [(q, AnsText a)]) a)"
  "(\<And>r. oidc_fits q r = (\<exists>x. r = AnsTokens x)) \<Longrightarrow> call_wp oidc_fits (ask_tokens q) Q4 h = (\<forall>a. Q4 (h @ [(q, AnsTokens a)]) a)"
  "call_wp oidc_fits (ask_current handle) R0 h = (\<forall>a. R0 (h @ [(Custody (CustodyCurrent handle), AnsToken a)]) a)"
  "call_wp oidc_fits (ask_rotation handle t u) R1 h = (\<forall>a. R1 (h @ [(Custody (CustodyRotate handle t u), AnsRotation a)]) a)"
  "call_wp oidc_fits (ask_bytes n) R2 h = (\<forall>bytes. length bytes = n \<longrightarrow> R2 (h @ [(DrawBytes n, AnsBytes bytes)]) (Inr bytes))"
  "call_wp oidc_fits ask_time R3 h = (\<forall>t. R3 (h @ [(ReadClock, AnsTime t)]) (Inr t))"
  by (auto simp: ask_provider_def ask_unit_def ask_bool_def ask_text_def ask_tokens_def ask_current_def ask_rotation_def
      ask_bytes_def ask_time_def)

lemma wp_rethrown [simp]: "call_wp oidc_fits (rethrown code p) Q h =
    call_wp oidc_fits p (\<lambda>h r. case r of Inl e \<Rightarrow> Q h (Inl (AuthFault code)) | Inr x \<Rightarrow> Q h (Inr x)) h"
  by (simp add: rethrown_def cong: sum.case_cong)

lemma wp_claims [simp]: "call_wp oidc_fits (verified_claims token) Q h =
    (\<forall>a. Q (h @ [(VerifyToken token, AnsClaims a)])
       (case a of Inl TokenRejected \<Rightarrow> Inl (AuthFault TokenInvalid) | Inl KeysUnavailable \<Rightarrow> Inl (AuthFault AuthAdapter) | Inr c \<Rightarrow> Inr c))"
  by (auto simp: verified_claims_def all_answers split: sum.split token_failure.split)

lemma wp_identity [simp]: "call_wp oidc_fits (identityFrom claims) Q h =
    (case prop_of claims ''sub'' of
       JStr s \<Rightarrow> if s = [] then Q h (Inl (AuthFault AuthAdapter)) else Q h (Inr \<lparr>id_subject = s, id_claims = claims\<rparr>)
     | _ \<Rightarrow> Q h (Inl (AuthFault AuthAdapter)))"
  by (simp add: identityFrom_def split: jsval.split)

section \<open>Endpoints\<close>

lemma discovered_origins:
  "call_wp oidc_fits (discover cfg) (\<lambda>es r. case r of
     Inl e \<Rightarrow> True
   | Inr p \<Rightarrow> \<forall>endpoint \<in> {op_jwks_uri p, op_token_endpoint p, op_authorization_endpoint p, op_userinfo_endpoint p, op_revocation_endpoint p}.
       \<forall>u. endpoint = Some u \<longrightarrow> (\<exists>url. oc_parse_url cfg u = Some url \<and>
         pu_origin url \<in> set (allowed_origins (oc_parse_url cfg) (oc_issuer cfg) (oc_allowedOrigins cfg)))) []"
  by (auto simp: discover_def assertAllowedEndpointOrigin_def Let_def split: option.splits sum.split)

section \<open>Callbacks\<close>

text \<open>A transaction the signer signed, of an age within the limit.\<close>

definition opened :: "oidc_config \<Rightarrow> string \<Rightarrow> login_transaction option" where
  "opened cfg token =
     (case split_signed token of
        None \<Rightarrow> None
      | Some (payload, mac) \<Rightarrow>
          if \<not> signer_verify (oc_hmac cfg) (oc_keys cfg) payload mac then None
          else case Option.bind (base64urlDecode payload) (oc_read_json cfg) of None \<Rightarrow> None | Some v \<Rightarrow> read_transaction v)"

definition authentic :: "oidc_config \<Rightarrow> string \<Rightarrow> login_transaction \<Rightarrow> rat \<Rightarrow> bool" where
  "authentic cfg token t now \<longleftrightarrow>
     opened cfg token = Some t \<and> \<not> js_less (oc_transactionTtlSeconds cfg) (js_sub (Fin (of_int \<lfloor>now / 1000\<rfloor>)) (lt_iat t))"

definition custody_kept :: "string \<Rightarrow> string option \<Rightarrow> (oidc_question \<times> oidc_answer) list" where
  "custody_kept handle refresh_token =
     (case refresh_token of
        None \<Rightarrow> []
      | Some token \<Rightarrow> [(Custody (CustodyIssue handle token), AnsUnit (Inr ())), (Custody (CustodyCurrent handle), AnsToken (Inr (Some token)))])"

text \<open>The questions and answers of a callback that signs in, after its handle was drawn.\<close>

definition redeemed :: "oidc_config \<Rightarrow> (string \<times> string) list \<Rightarrow> string \<Rightarrow> string \<Rightarrow> (oidc_question \<times> oidc_answer) list \<Rightarrow>
    auth_session \<Rightarrow> login_transaction \<Rightarrow> bool" where
  "redeemed cfg params transaction handle es session tx \<longleftrightarrow>
     (\<exists>provider now vp response result idToken claims t.
        authentic cfg transaction tx now \<and> tr_id_token result = Some idToken \<and>
        prop_of claims ''nonce'' = JStr (lt_nonce tx) \<and>
        as_identity session = \<lparr>id_subject = id_subject (as_identity session), id_claims = claims\<rparr> \<and>
        prop_of claims ''sub'' = JStr (id_subject (as_identity session)) \<and> id_subject (as_identity session) \<noteq> [] \<and>
        as_accessToken session = tr_access_token result \<and> as_sessionHandle session = handle \<and>
        es = [(Ready, AnsProvider (Inr provider)), (ReadClock, AnsTime now),
              (ValidateResponse params (lt_state tx), AnsText (Inr vp)),
              (ExchangeCode vp (oc_redirectUri cfg) (lt_codeVerifier tx), AnsText (Inr response)),
              (ProcessCode response (lt_nonce tx), AnsTokens (Inr result)),
              (VerifyToken idToken, AnsClaims (Inr claims)), (CheckAborted, AnsUnit (Inr ()))] @ custody_kept handle (tr_refresh_token result) @
             [(CheckAborted, AnsUnit (Inr ())), (ReadClock, AnsTime t)])"

lemma transaction_wp: "call_wp oidc_fits (verifyTransaction cfg token) Q h \<longleftrightarrow>
    (case opened cfg token of
        None \<Rightarrow> Q h (Inl (AuthFault AuthAdapter))
      | Some t \<Rightarrow> \<forall>now. Q (h @ [(ReadClock, AnsTime now)]) (if authentic cfg token t now then Inr t else Inl (AuthFault AuthAdapter)))"
  by (auto simp: verifyTransaction_def authentic_def opened_def split: option.split prod.split)

lemma redeemedI:
  assumes "authentic cfg transaction tx now" "tr_id_token result = Some idToken" "prop_of claims ''nonce'' = JStr (lt_nonce tx)"
    "prop_of claims ''sub'' = JStr s" "s \<noteq> []" "kept = custody_kept handle (tr_refresh_token result)"
  shows "redeemed cfg params transaction handle
    ((Ready, AnsProvider (Inr provider)) # (ReadClock, AnsTime now) # (ValidateResponse params (lt_state tx), AnsText (Inr vp)) #
     (ExchangeCode vp (oc_redirectUri cfg) (lt_codeVerifier tx), AnsText (Inr response)) #
     (ProcessCode response (lt_nonce tx), AnsTokens (Inr result)) #
     (VerifyToken idToken, AnsClaims (Inr claims)) # (CheckAborted, AnsUnit (Inr ())) # kept @
     [(CheckAborted, AnsUnit (Inr ())), (ReadClock, AnsTime t)])
    \<lparr>as_identity = \<lparr>id_subject = s, id_claims = claims\<rparr>, as_accessToken = tr_access_token result, as_expiresAt = e, as_sessionHandle = handle\<rparr> tx"
  using assms unfolding redeemed_def
  by (intro exI [of _ provider] exI [of _ now] exI [of _ vp] exI [of _ response] exI [of _ result] exI [of _ idToken] exI [of _ claims] exI [of _ t]) simp

lemmas redeemed_cases = redeemedI [where kept = "[]", simplified] redeemedI [where kept = "[a, b]" for a b, simplified]

lemma redeem_wp: "call_wp oidc_fits (redeem_code cfg params transaction handle)
    (\<lambda>es r. case r of Inr session \<Rightarrow> \<exists>tx es'. es = h @ es' \<and> redeemed cfg params transaction handle es' session tx | Inl e \<Rightarrow> True) h"
  by (auto simp: redeem_code_def transaction_wp verifyIdToken_def expiryFrom_def
      split: option.split sum.split prod.split jsval.split token_failure.split
      intro!: exI redeemed_cases simp: custody_kept_def)

text \<open>A failed callback revokes the custody of its handle at last, and says so when that failed.\<close>

definition cleaned_up :: "string \<Rightarrow> (oidc_question \<times> oidc_answer) list \<Rightarrow> fault \<Rightarrow> bool" where
  "cleaned_up handle es e \<longleftrightarrow>
     (\<exists>a. last es = (Custody (CustodyRevoke handle), AnsUnit a) \<and> (isl a \<longrightarrow> e = AuthFault StoreUnavailable))"

definition callback_done ::
  "oidc_config \<Rightarrow> (string \<times> string) list \<Rightarrow> string \<Rightarrow> (oidc_question \<times> oidc_answer) list \<Rightarrow> fault + auth_session \<Rightarrow> bool" where
  "callback_done cfg params transaction es r \<longleftrightarrow>
     (\<exists>bytes es'. length bytes = 32 \<and> es = (DrawBytes 32, AnsBytes bytes) # es' \<and>
       (case r of
          Inr session \<Rightarrow> \<exists>tx. redeemed cfg params transaction (base64urlEncode bytes) es' session tx
        | Inl e \<Rightarrow> cleaned_up (base64urlEncode bytes) es' e))"

lemma callback_wp: "call_wp oidc_fits (oidc_completeLogin cfg params transaction) (callback_done cfg params transaction) []"
proof -
  have "call_wp oidc_fits (catch_calls (redeem_code cfg params transaction (base64urlEncode bytes)) (\<lambda>cause.
          bind_calls (rethrown StoreUnavailable (ask_unit (Custody (CustodyRevoke (base64urlEncode bytes))))) (\<lambda>_. Raise cause)))
        (callback_done cfg params transaction) [(DrawBytes 32, AnsBytes bytes)]" if "length bytes = 32" for bytes
    unfolding call_wp_catch
    by (rule call_wp_mono [OF call_wp_conj [OF call_wp_extends redeem_wp]])
      (use that in \<open>auto simp: callback_done_def cleaned_up_def split: sum.splits\<close>)
  then show ?thesis by (simp add: oidc_completeLogin_def Let_def del: call_wp_catch)
qed

section \<open>Logins begun\<close>

text \<open>The transaction a login makes of the bytes drawn and the clock.\<close>

definition begun_transaction :: "string option \<Rightarrow> 8 word list \<Rightarrow> 8 word list \<Rightarrow> 8 word list \<Rightarrow> rat \<Rightarrow> login_transaction" where
  "begun_transaction requested b1 b2 b3 now =
     \<lparr>lt_codeVerifier = base64urlEncode b1, lt_state = base64urlEncode b2, lt_nonce = base64urlEncode b3,
      lt_returnTo = sanitizeReturnTo requested ''/'', lt_iat = Fin (of_int \<lfloor>now / 1000\<rfloor>)\<rparr>"

text \<open>The request the browser is sent away with carries the state, the nonce and the challenge of the transaction.\<close>

definition authorization_query :: "oidc_config \<Rightarrow> login_transaction \<Rightarrow> (string \<times> string) list" where
  "authorization_query cfg tx =
     [(''client_id'', oc_clientId cfg), (''redirect_uri'', oc_redirectUri cfg), (''response_type'', ''code''),
      (''scope'', oidc_scope cfg), (''code_challenge'', base64urlEncode (oc_sha256 cfg (utf8_encode (lt_codeVerifier tx)))),
      (''code_challenge_method'', ''S256''), (''state'', lt_state tx), (''nonce'', lt_nonce tx)]"

lemma login_wp: "call_wp oidc_fits (oidc_beginLogin cfg requested)
    (\<lambda>es r. case r of
       Inr (url, transaction) \<Rightarrow> \<exists>p endpoint b1 b2 b3 now. op_authorization_endpoint p = Some endpoint \<and>
         es = [(Ready, AnsProvider (Inr p)), (DrawBytes 32, AnsBytes b1), (DrawBytes 32, AnsBytes b2), (DrawBytes 32, AnsBytes b3),
               (ReadClock, AnsTime now), (CheckAborted, AnsUnit (Inr ()))] \<and>
         url = oc_authorize_url cfg endpoint (authorization_query cfg (begun_transaction requested b1 b2 b3 now)) \<and>
         transaction = signTransaction cfg (begun_transaction requested b1 b2 b3 now)
     | Inl e \<Rightarrow> True) []"
  by (auto simp: oidc_beginLogin_def authorization_query_def begun_transaction_def Let_def split: option.split sum.split)

text \<open>What was signed is read back, when the host reads back the text it wrote.\<close>

lemma signed_opened:
  assumes "oc_keys cfg \<noteq> []" and "oc_read_json cfg (utf8_encode (json_text (oc_number_text cfg) (transaction_object tx))) = Some (transaction_object tx)"
  shows "opened cfg (signTransaction cfg tx) = Some tx"
proof -
  let ?t = "json_text (oc_number_text cfg) (transaction_object tx)"
  let ?p = "base64urlEncode (utf8_encode ?t)" and ?mac = "signer_sign (oc_hmac cfg) (oc_keys cfg) (base64urlEncode (utf8_encode ?t))"
  have "?t \<noteq> []" by (simp add: transaction_object_def)
  then have "utf8_encode ?t \<noteq> []" by (cases ?t) (auto simp: Let_def)
  then have s: "split_signed (signTransaction cfg tx) = Some (?p, ?mac)"
    using encoded_no_dot by (simp add: signTransaction_def signPayload_def Let_def split_signed_iff encode_empty signer_sign_def)
  have "signer_verify (oc_hmac cfg) (oc_keys cfg) ?p ?mac"
    using assms(1) by (cases "oc_keys cfg") (auto simp: signer_verify_iff signer_sign_def decode_encode)
  then show ?thesis using assms(2) by (simp add: opened_def s decode_encode) (simp add: read_transaction_def transaction_object_def)
qed

section \<open>Refresh\<close>

text \<open>The identity of the new ID token of a refresh, when there is one.\<close>

definition new_identity :: "token_failure + jsval \<Rightarrow> fault + identity option" where
  "new_identity a =
     (case a of
        Inl TokenRejected \<Rightarrow> Inl (AuthFault TokenInvalid)
      | Inl KeysUnavailable \<Rightarrow> Inl (AuthFault AuthAdapter)
      | Inr claims \<Rightarrow>
          (case prop_of claims ''sub'' of
             JStr s \<Rightarrow> if s = [] then Inl (AuthFault AuthAdapter) else Inr (Some \<lparr>id_subject = s, id_claims = claims\<rparr>)
           | _ \<Rightarrow> Inl (AuthFault AuthAdapter)))"

lemma wp_refreshed_identity: "call_wp oidc_fits (refreshed_identity t) Q h =
    (case t of None \<Rightarrow> Q h (Inr None) | Some token \<Rightarrow> \<forall>a. Q (h @ [(VerifyToken token, AnsClaims a)]) (new_identity a))"
proof (cases t)
  case (Some token)
  let ?h = "\<lambda>a. h @ [(VerifyToken token, AnsClaims a)]"
  have "call_wp oidc_fits (refreshed_identity t) Q h = (\<forall>a. case a of
      Inl TokenRejected \<Rightarrow> Q (?h a) (Inl (AuthFault TokenInvalid)) | Inl KeysUnavailable \<Rightarrow> Q (?h a) (Inl (AuthFault AuthAdapter))
    | Inr claims \<Rightarrow> call_wp oidc_fits (identityFrom claims) (\<lambda>h r. case r of Inl e \<Rightarrow> Q h (Inl e) | Inr i \<Rightarrow> Q h (Inr (Some i))) (?h a))"
    unfolding refreshed_identity_def verifyIdToken_def Some
    by (simp del: wp_identity cong: sum.case_cong) (rule all_cong1, simp del: wp_identity split: sum.split token_failure.split)
  also have "\<dots> = (\<forall>a. Q (?h a) (new_identity a))"
    by (rule all_cong1) (simp add: new_identity_def split: sum.split token_failure.split jsval.split)
  finally show ?thesis by (simp add: Some)
qed (simp add: refreshed_identity_def)

lemma wp_expiry: "call_wp oidc_fits (expiryFrom expires_in) Q h \<longleftrightarrow>
    (\<forall>t. Q (h @ [(ReadClock, AnsTime t)]) (Inr (expiry_at expires_in t)))"
  by (simp add: expiryFrom_def)

lemma new_identity_given:
  assumes "new_identity a = Inr identity"
  obtains claims i where "a = Inr claims" "identity = Some i" "id_claims i = claims" "prop_of claims ''sub'' = JStr (id_subject i)" "id_subject i \<noteq> []"
  using assms by (auto simp: new_identity_def split: sum.splits token_failure.splits jsval.splits if_splits)

definition optional_claims :: "string option \<Rightarrow> jsval \<Rightarrow> (oidc_question \<times> oidc_answer) list" where
  "optional_claims id_token claims = (case id_token of None \<Rightarrow> [] | Some token \<Rightarrow> [(VerifyToken token, AnsClaims (Inr claims))])"

text \<open>
  The questions and answers of a refresh that gives tokens: the token in custody is redeemed, exchanged in custody for
  its successor, and the successor is still in custody after the new identity was verified.
\<close>

definition refresh_kept :: "string \<Rightarrow> (oidc_question \<times> oidc_answer) list \<Rightarrow> provider_tokens \<Rightarrow> bool" where
  "refresh_kept handle es tokens \<longleftrightarrow>
     (\<exists>held provider result new now claims. new = next_refresh_token result held \<and>
        pt_accessToken tokens = tr_access_token result \<and>
        (\<forall>i. pt_identity tokens = Some i \<longrightarrow> tr_id_token result \<noteq> None \<and> id_claims i = claims \<and>
           prop_of claims ''sub'' = JStr (id_subject i) \<and> id_subject i \<noteq> []) \<and>
        es = [(Custody (CustodyCurrent handle), AnsToken (Inr (Some held))), (Ready, AnsProvider (Inr provider)),
              (GrantRefresh held, AnsGrant (Inr result)), (CheckAborted, AnsUnit (Inr ())),
              (Custody (CustodyRotate handle held new), AnsRotation (Inr Rotated)), (ReadClock, AnsTime now)] @
             optional_claims (tr_id_token result) claims @
             [(Custody (CustodyCurrent handle), AnsToken (Inr (Some new))), (CheckAborted, AnsUnit (Inr ()))])"

text \<open>A sign that a refresh token leaked, and the response to it.\<close>

definition leaked :: "(oidc_question \<times> oidc_answer) list \<Rightarrow> bool" where
  "leaked es = list_ex (\<lambda>(q, r). r = AnsGrant (Inl InvalidGrant) \<or> r = AnsRotation (Inr ReuseDetected)) es"

definition asked :: "oidc_question \<Rightarrow> (oidc_question \<times> oidc_answer) list \<Rightarrow> bool" where
  "asked q es = list_ex (\<lambda>(q', r). q' = q) es"

lemma wp_ignored:
  assumes "\<And>r. oidc_fits q r = (\<exists>x. r = AnsUnit x)"
  shows "call_wp oidc_fits (catch_calls (ask_unit q) (\<lambda>_. Done ())) Q h = (\<forall>a. Q (h @ [(q, AnsUnit a)]) (Inr ()))"
proof -
  have "(case a of Inl e \<Rightarrow> P (Inr ()) | Inr x \<Rightarrow> P (Inr x)) = P (Inr ())" for a :: "fault + unit" and P :: "fault + unit \<Rightarrow> bool"
    by (cases a) simp_all
  then show ?thesis using assms by simp
qed

lemma reuse_wp: "call_wp oidc_fits (signalReuse cfg handle) Q h \<longleftrightarrow>
    (\<forall>a. if oc_notifies cfg
         then \<forall>b. Q (h @ [(Custody (CustodyRevoke handle), AnsUnit a), (NotifyReuse handle, AnsUnit b)]) (Inl (AuthFault SessionRevoked))
         else Q (h @ [(Custody (CustodyRevoke handle), AnsUnit a)]) (Inl (AuthFault SessionRevoked)))"
  by (simp add: signalReuse_def wp_ignored del: call_wp_catch)

lemma rotation_neq [simp]: "x \<noteq> ReuseDetected \<longleftrightarrow> x = Rotated"
  by (cases x) simp_all

lemma refresh_keptI:
  assumes "new = next_refresh_token result held"
    and "\<And>i. identity = Some i \<Longrightarrow> tr_id_token result \<noteq> None \<and> id_claims i = claims \<and> prop_of claims ''sub'' = JStr (id_subject i) \<and> id_subject i \<noteq> []"
    and "verified = optional_claims (tr_id_token result) claims"
  shows "refresh_kept handle
    ((Custody (CustodyCurrent handle), AnsToken (Inr (Some held))) # (Ready, AnsProvider (Inr provider)) #
     (GrantRefresh held, AnsGrant (Inr result)) # (CheckAborted, AnsUnit (Inr ())) #
     (Custody (CustodyRotate handle held new), AnsRotation (Inr Rotated)) # (ReadClock, AnsTime now) # verified @
     [(Custody (CustodyCurrent handle), AnsToken (Inr (Some new))), (CheckAborted, AnsUnit (Inr ()))])
    \<lparr>pt_accessToken = tr_access_token result, pt_expiresAt = e, pt_identity = identity\<rparr>"
  using assms unfolding refresh_kept_def
  by (intro exI [of _ held] exI [of _ provider] exI [of _ result] exI [of _ new] exI [of _ now] exI [of _ claims]) simp

lemmas refresh_kept_unverified = refresh_keptI [where verified = "[]", simplified]

definition refresh_done :: "oidc_config \<Rightarrow> string \<Rightarrow> (oidc_question \<times> oidc_answer) list \<Rightarrow> fault + provider_tokens \<Rightarrow> bool" where
  "refresh_done cfg handle es r \<longleftrightarrow>
     (case r of Inr tokens \<Rightarrow> refresh_kept handle es tokens | Inl e \<Rightarrow> True) \<and>
     (leaked es \<longrightarrow> r = Inl (AuthFault SessionRevoked) \<and> asked (Custody (CustodyRevoke handle)) es \<and>
        (oc_notifies cfg \<longrightarrow> asked (NotifyReuse handle) es))"

lemma done_failed: "\<not> leaked es \<Longrightarrow> refresh_done cfg handle es (Inl e)"
  by (simp add: refresh_done_def)

lemma done_leaked: "asked (Custody (CustodyRevoke handle)) es \<Longrightarrow> (oc_notifies cfg \<Longrightarrow> asked (NotifyReuse handle) es) \<Longrightarrow>
    refresh_done cfg handle es (Inl (AuthFault SessionRevoked))"
  by (simp add: refresh_done_def)

lemma done_tokens: "refresh_kept handle es tokens \<Longrightarrow> refresh_done cfg handle es (Inr tokens)"
  by (auto simp: refresh_done_def refresh_kept_def leaked_def optional_claims_def split: option.splits)

lemma leaked_simps [simp]: "\<not> leaked []"
  "leaked ((q, r) # es) \<longleftrightarrow> r = AnsGrant (Inl InvalidGrant) \<or> r = AnsRotation (Inr ReuseDetected) \<or> leaked es"
  by (auto simp: leaked_def)

lemma asked_simps [simp]: "asked q ((q', r) # es) \<longleftrightarrow> q' = q \<or> asked q es"
  by (simp add: asked_def)

lemma refresh_kept_verified:
  assumes "tr_id_token result = Some token" and "new_identity a = Inr identity"
  shows "refresh_kept handle
    [(Custody (CustodyCurrent handle), AnsToken (Inr (Some held))), (Ready, AnsProvider (Inr provider)),
     (GrantRefresh held, AnsGrant (Inr result)), (CheckAborted, AnsUnit (Inr ())),
     (Custody (CustodyRotate handle held (next_refresh_token result held)), AnsRotation (Inr Rotated)), (ReadClock, AnsTime now),
     (VerifyToken token, AnsClaims a),
     (Custody (CustodyCurrent handle), AnsToken (Inr (Some (next_refresh_token result held)))), (CheckAborted, AnsUnit (Inr ()))]
    \<lparr>pt_accessToken = tr_access_token result, pt_expiresAt = e, pt_identity = identity\<rparr>"
proof -
  obtain claims i where i: "a = Inr claims" "identity = Some i" "id_claims i = claims" "prop_of claims ''sub'' = JStr (id_subject i)" "id_subject i \<noteq> []"
    using new_identity_given [OF assms(2)] .
  from refresh_keptI [of _ result held identity claims "[(VerifyToken token, AnsClaims (Inr claims))]", OF refl] i assms(1)
  show ?thesis by (simp add: optional_claims_def)
qed

lemma oidc_refresh_wp: "call_wp oidc_fits (doRefresh cfg handle) (refresh_done cfg handle) []"
  by (simp add: doRefresh_def all_answers reuse_wp wp_expiry Let_def done_failed done_leaked wp_refreshed_identity
      split: option.split sum.split grant_failure.split rotation.split)
    (auto intro!: done_tokens done_leaked refresh_kept_unverified refresh_kept_verified simp: optional_claims_def)

section \<open>Properties\<close>

text \<open>Claim C19: a callback is bound to its login. A callback that signs in with the transaction of a login was validated
  against the state, exchanged with the verifier and accepted an ID token with the nonce that the login's request to
  the provider carried, the verifier by its challenge; the identity is that token's, and a refresh token is in custody
  under the new handle before the session is given. A callback that fails, at whatever step, revokes the custody of
  its handle last, and fails as store-unavailable when that fails.\<close>

theorem callback_bound_to_login:
  assumes begun: "calls_end oidc_fits (oidc_beginLogin cfg requested)
      [(Ready, AnsProvider (Inr p)), (DrawBytes 32, AnsBytes b1), (DrawBytes 32, AnsBytes b2), (DrawBytes 32, AnsBytes b3),
       (ReadClock, AnsTime now), (CheckAborted, AnsUnit (Inr ()))] (Inr (url, transaction))"
    and tx: "tx = begun_transaction requested b1 b2 b3 now"
    and keys: "oc_keys cfg \<noteq> []"
    and json: "oc_read_json cfg (utf8_encode (json_text (oc_number_text cfg) (transaction_object tx))) = Some (transaction_object tx)"
    and ran: "calls_end oidc_fits (oidc_completeLogin cfg params transaction) es r"
  shows "(\<exists>endpoint. op_authorization_endpoint p = Some endpoint \<and> url = oc_authorize_url cfg endpoint (authorization_query cfg tx)) \<and>
    (\<exists>bytes es'. length bytes = 32 \<and> es = (DrawBytes 32, AnsBytes bytes) # es' \<and>
       (case r of
          Inr session \<Rightarrow> redeemed cfg params transaction (base64urlEncode bytes) es' session tx
        | Inl e \<Rightarrow> cleaned_up (base64urlEncode bytes) es' e))"
proof -
  from call_wp_end [OF login_wp begun]
  have b: "(\<exists>endpoint. op_authorization_endpoint p = Some endpoint \<and> url = oc_authorize_url cfg endpoint (authorization_query cfg tx))"
    "transaction = signTransaction cfg tx" by (auto simp: tx)
  with signed_opened [OF keys json] have "tx' = tx" if "redeemed cfg params transaction h es' s tx'" for h es' s tx'
    using that by (auto simp: redeemed_def authentic_def)
  with b(1) call_wp_end [OF callback_wp ran] show ?thesis
    by (auto simp: callback_done_def split: sum.splits) metis+
qed

text \<open>Claim C20: a refresh denies leaked tokens. A refresh gives tokens only after it redeemed the token in custody,
  exchanged it in custody for its successor, verified the identity of a new ID token and found the successor still
  in custody. When the provider rejects the token or custody detects its reuse, the refresh fails as session-revoked
  after custody was revoked and the reuse was reported, whether or not these two succeeded.\<close>

theorem refresh_denies_reuse:
  assumes "calls_end oidc_fits (doRefresh cfg handle) es r"
  shows "(case r of Inr tokens \<Rightarrow> refresh_kept handle es tokens | Inl e \<Rightarrow> True) \<and>
     (leaked es \<longrightarrow> r = Inl (AuthFault SessionRevoked) \<and> asked (Custody (CustodyRevoke handle)) es \<and>
        (oc_notifies cfg \<longrightarrow> asked (NotifyReuse handle) es))"
  by (rule call_wp_end [OF oidc_refresh_wp assms, unfolded refresh_done_def])

section \<open>Witnesses\<close>

definition sample_tx :: login_transaction where
  "sample_tx = begun_transaction None (replicate 32 0) (replicate 32 1) (replicate 32 2) 5000"

definition sample_provider :: oidc_provider where
  "sample_provider = \<lparr>op_jwks_uri = None, op_token_endpoint = None, op_authorization_endpoint = Some ''https://id/authorize'',
     op_userinfo_endpoint = None, op_revocation_endpoint = None\<rparr>"

definition sample_oidc :: oidc_config where
  "sample_oidc = \<lparr>oc_issuer = ''https://id'', oc_clientId = ''client'', oc_redirectUri = ''https://app/callback'', oc_scopes = None,
     oc_allowedOrigins = [], oc_transactionTtlSeconds = Fin 600, oc_notifies = True, oc_parse_url = (\<lambda>_. None),
     oc_authorize_url = (\<lambda>endpoint query. endpoint), oc_sha256 = id, oc_hmac = (\<lambda>key data. key @ data), oc_keys = [[1]],
     oc_number_text = (\<lambda>_. ''5''), oc_read_json = (\<lambda>_. Some (transaction_object sample_tx))\<rparr>"

definition sample_claims :: jsval where
  "sample_claims = JObject True [(''sub'', JStr ''ada''), (''nonce'', JStr (lt_nonce sample_tx))]"

definition sample_response :: token_response where
  "sample_response = \<lparr>tr_access_token = ''at'', tr_refresh_token = Some ''rt'', tr_id_token = Some ''id'', tr_expires_in = None\<rparr>"

definition sample_handle :: string where "sample_handle = base64urlEncode (replicate 32 3)"

definition sample_callback :: "(oidc_question \<times> oidc_answer) list" where
  "sample_callback =
     [(DrawBytes 32, AnsBytes (replicate 32 3)), (Ready, AnsProvider (Inr sample_provider)), (ReadClock, AnsTime 9000),
      (ValidateResponse [] (lt_state sample_tx), AnsText (Inr ''params'')),
      (ExchangeCode ''params'' ''https://app/callback'' (lt_codeVerifier sample_tx), AnsText (Inr ''response'')),
      (ProcessCode ''response'' (lt_nonce sample_tx), AnsTokens (Inr sample_response)),
      (VerifyToken ''id'', AnsClaims (Inr sample_claims)), (CheckAborted, AnsUnit (Inr ())),
      (Custody (CustodyIssue sample_handle ''rt''), AnsUnit (Inr ())),
      (Custody (CustodyCurrent sample_handle), AnsToken (Inr (Some ''rt''))),
      (CheckAborted, AnsUnit (Inr ())), (ReadClock, AnsTime 9000)]"

lemma transaction_opened:
  assumes "opened cfg token = Some t"
  shows "verifyTransaction cfg token = bind_calls ask_time (\<lambda>now.
    if js_less (oc_transactionTtlSeconds cfg) (js_sub (Fin (of_int \<lfloor>now / 1000\<rfloor>)) (lt_iat t)) then Raise (AuthFault AuthAdapter) else Done t)"
  using assms by (auto simp: opened_def verifyTransaction_def split: option.splits prod.splits if_splits)

lemmas oidc_run = settle_def ask_provider_def ask_bytes_def ask_time_def ask_unit_def ask_text_def ask_tokens_def ask_current_def
  ask_rotation_def rethrown_def identityFrom_def verified_claims_def verifyIdToken_def
  expiryFrom_def next_refresh_token_def expiry_at_def DEFAULT_ACCESS_TTL_SECONDS_def calls_end_def Let_def

theorem callback_bound_to_login_witness:
  "redeemed sample_oidc [] (signTransaction sample_oidc sample_tx) sample_handle (tl sample_callback)
    \<lparr>as_identity = \<lparr>id_subject = ''ada'', id_claims = sample_claims\<rparr>, as_accessToken = ''at'', as_expiresAt = 309000,
     as_sessionHandle = sample_handle\<rparr> sample_tx"
proof -
  have keys: "oc_keys sample_oidc \<noteq> []"
    and json: "oc_read_json sample_oidc (utf8_encode (json_text (oc_number_text sample_oidc) (transaction_object sample_tx))) = Some (transaction_object sample_tx)"
    by (simp_all add: sample_oidc_def)
  note opened = transaction_opened [OF signed_opened [OF keys json]]
  have begun: "calls_end oidc_fits (oidc_beginLogin sample_oidc None)
      [(Ready, AnsProvider (Inr sample_provider)), (DrawBytes 32, AnsBytes (replicate 32 0)), (DrawBytes 32, AnsBytes (replicate 32 1)),
       (DrawBytes 32, AnsBytes (replicate 32 2)), (ReadClock, AnsTime 5000), (CheckAborted, AnsUnit (Inr ()))]
      (Inr (''https://id/authorize'', signTransaction sample_oidc sample_tx))"
    by (simp add: oidc_beginLogin_def oidc_run sample_provider_def sample_tx_def begun_transaction_def)
      (simp add: sample_oidc_def)
  have "js_sub (Fin 9) (Fin 5) = Fin 4" by (simp add: js_sub_vals js_of_within max_double_def)
  then have age: "\<not> js_less (Fin 600) (js_sub (Fin 9) (Fin 5))" by (simp add: js_less_vals)
  have ran: "calls_end oidc_fits (oidc_completeLogin sample_oidc [] (signTransaction sample_oidc sample_tx)) sample_callback
      (Inr \<lparr>as_identity = \<lparr>id_subject = ''ada'', id_claims = sample_claims\<rparr>, as_accessToken = ''at'', as_expiresAt = 309000,
        as_sessionHandle = sample_handle\<rparr>)"
    by (simp add: oidc_completeLogin_def redeem_code_def opened oidc_run sample_callback_def)
      (simp add: sample_response_def sample_claims_def sample_handle_def sample_oidc_def oidc_run, simp add: sample_tx_def begun_transaction_def age)
  from callback_bound_to_login [OF begun sample_tx_def keys json ran]
  show ?thesis by (simp add: sample_callback_def sample_handle_def)
qed

theorem refresh_denies_reuse_witness:
  "let es = [(Custody (CustodyCurrent ''h''), AnsToken (Inr (Some ''rt''))), (Ready, AnsProvider (Inr sample_provider)),
             (GrantRefresh ''rt'', AnsGrant (Inr sample_response)), (CheckAborted, AnsUnit (Inr ())),
             (Custody (CustodyRotate ''h'' ''rt'' ''rt''), AnsRotation (Inr ReuseDetected)),
             (Custody (CustodyRevoke ''h''), AnsUnit (Inl (AuthFault StoreUnavailable))), (NotifyReuse ''h'', AnsUnit (Inr ()))]
   in leaked es \<and> calls_end oidc_fits (doRefresh sample_oidc ''h'') es (Inl (AuthFault SessionRevoked)) \<and> asked (NotifyReuse ''h'') es"
  unfolding Let_def
proof (intro conjI)
  let ?es = "[(Custody (CustodyCurrent ''h''), AnsToken (Inr (Some ''rt''))), (Ready, AnsProvider (Inr sample_provider)),
             (GrantRefresh ''rt'', AnsGrant (Inr sample_response)), (CheckAborted, AnsUnit (Inr ())),
             (Custody (CustodyRotate ''h'' ''rt'' ''rt''), AnsRotation (Inr ReuseDetected)),
             (Custody (CustodyRevoke ''h''), AnsUnit (Inl (AuthFault StoreUnavailable))), (NotifyReuse ''h'', AnsUnit (Inr ()))]"
  show l: "leaked ?es" by simp
  show run: "calls_end oidc_fits (doRefresh sample_oidc ''h'') ?es (Inl (AuthFault SessionRevoked))"
    by (simp add: doRefresh_def signalReuse_def oidc_run) (simp add: sample_response_def sample_oidc_def oidc_run signalReuse_def)
  show "asked (NotifyReuse ''h'') ?es" using refresh_denies_reuse [OF run] l by (simp add: sample_oidc_def)
qed

end
