(* ===== verification/Spec2Isabelle.thy ===== *)
theory Spec2Isabelle imports Bounded_Queue Cap_Order Devtools_Sampler Devtools_Port Devtools_Store State_Reconciler Channel_Delivery Retry Timeouts Channel_Safety Event_Router Devtools_Sanitize Json_Check List_Dialect Opaque_Store Auth_Signing Auth_Session_Safety Server_Session_Safety Form_Fields Oidc_Flow begin

text \<open>
  A verification library of plainworks, the TypeScript packages under \<^verbatim>\<open>packages/\<close>. Paths below are
  relative to that directory.

  The parts modelled, and how they depend on each other:

  \<^item> \<^bold>\<open>std\<close> holds the shared primitives. Theories \<open>Prelude\<close>, \<open>JS_Values\<close>, \<open>JS_Map\<close> and \<open>JS_Numbers\<close> model
    the values, maps with insertion order and numbers of the language, with the guards of
    \<^verbatim>\<open>std/src/guard\<close>. \<open>Bounded_Queue\<close> models \<^verbatim>\<open>std/src/resilience/bounded-queue.ts\<close>: the array with a
    moving head, its compaction, waiting consumers and overflow policies. \<open>Failures\<close> models the failure
    codes, \<open>RemoteFailure\<close> and the classifier (\<^verbatim>\<open>std/src/failure\<close>, \<^verbatim>\<open>std/src/resilience/classify.ts\<close>),
    \<open>Backoff\<close> the schedules, \<open>Retry\<close> the driver \<open>runWithRetry\<close>, \<open>Timeouts\<close> the deadlines, combined signals
    and \<open>withTimeout\<close> of the same directory. \<open>State_Reconciler\<close> models
    \<^verbatim>\<open>std/src/seam/state-reconciler.ts\<close>. \<open>JS_Strings\<close> holds the string operations the code uses, for
    strings of Latin-1 code units; \<open>Redaction\<close> models \<^verbatim>\<open>std/src/privacy/redact.ts\<close> with its patterns as
    scanners, \<open>Bounded_Json\<close> the budgeted walk \<open>toBoundedJson\<close> and \<open>Json_Check\<close> \<open>isJson\<close> with its limits,
    \<open>stringifyJson\<close> and \<open>escapeJsonForHtml\<close> of \<^verbatim>\<open>std/src/encoding/json.ts\<close>; \<open>Base64url\<close> the codec
    \<^verbatim>\<open>std/src/encoding/base64url.ts\<close> on 32-bit words; \<open>Cookies\<close> the cookie grammar
    \<^verbatim>\<open>std/src/web/cookie.ts\<close>; \<open>Form_Fields\<close> forms declared by a schema (\<^verbatim>\<open>std/src/seam/form-fields.ts\<close>),
    the check of the schema and the decoding of the controls submitted.
  \<^item> \<^bold>\<open>app\<close>: \<open>Cap_Order\<close> models \<^verbatim>\<open>app/src/kernel/ordering.ts\<close>, the order in which capabilities start.
  \<^item> \<^bold>\<open>channel\<close>: \<open>Channel_Delivery\<close> models the dispatch, acknowledgement and resume cursor of frames,
    \<open>Channel_Errors\<close> the error type, \<open>Channel_Lifecycle\<close> sessions, attempts and the reconnect loop of
    \<^verbatim>\<open>channel/src/lifecycle/channel.ts\<close>; \<open>Channel_Safety\<close> holds their invariant. The lifecycle uses the
    delivery state, the classifier and the schedules of std. \<open>Event_Router\<close> models
    \<^verbatim>\<open>channel/src/events/router.ts\<close>, which buffers decoded frames in the bounded queue and acknowledges
    them to the channel once its sinks have applied them.
  \<^item> \<^bold>\<open>http\<close>: \<open>List_Dialect\<close> models the list dialect (\<^verbatim>\<open>http/src/list\<close>), the query encoding
    (\<^verbatim>\<open>http/src/url/query.ts\<close>) and the reading half in \<^verbatim>\<open>mocks/src/filter/api.ts\<close>; its credential guard
    is the key vocabulary of \<open>Redaction\<close>.
  \<^item> \<^bold>\<open>auth\<close>: \<open>Session_Records\<close> models the error codes, the admission rules and the persisted records of
    server sessions, \<open>Opaque_Store\<close> the memory store over them (\<^verbatim>\<open>auth/src/server/opaque-store\<close>): families
    of generations in a heap of mutable entries, with the waits for the schema as pending calls.
    \<open>Auth_Signing\<close> models constant-time equality, the keyed signer, signed payloads and CSRF tokens, whose
    bytes go through \<open>Base64url\<close>; \<open>Auth_Guards\<close> redirect targets, the reference policy and the readers of
    session responses (\<^verbatim>\<open>auth/src/redirect\<close>, \<^verbatim>\<open>authz\<close>, \<^verbatim>\<open>session\<close>) with
    \<^verbatim>\<open>std/src/time/rfc3339.ts\<close>. The records use \<open>isJson\<close> of \<open>Json_Check\<close>. \<open>Auth_Session\<close> models the
    client's session store (\<^verbatim>\<open>auth/src/session/store.ts\<close>): what is shown, the credential and its lifetime,
    status checks, the queue of logins and logouts, leases; \<open>Auth_Session_Safety\<close> what it keeps. Its sessions
    are read by \<open>Auth_Guards\<close> and its failures judged by \<open>Failures\<close>. \<open>Cookies\<close> also models the request
    helpers of the server routes (\<^verbatim>\<open>auth/src/server/bff\<close>: the request jar, the origin check, redirects,
    failures), and \<open>Server_Session\<close> the operations of \<^verbatim>\<open>auth/src/server/server-session.ts\<close>: reading,
    status, guard, login, logout, refresh. \<open>Server_Session_Safety\<close> holds what they guarantee, alone and
    composed with \<open>Opaque_Store\<close>. The OpenID Connect adapter (\<^verbatim>\<open>auth/src/adapter/oidc\<close>) is in three theories:
    \<open>Refresh_Custody\<close> the store of refresh tokens \<^verbatim>\<open>refresh-store.ts\<close>, \<open>Refresh_Flights\<close> the refreshes in
    flight, \<open>Oidc_Flow\<close> configuration, endpoint origins, login, callback, bearer authentication, refresh and
    logout of \<^verbatim>\<open>adapter.ts\<close> with the signed transaction of \<^verbatim>\<open>transaction.ts\<close> over the signer of
    \<open>Auth_Signing\<close>. Its operations are trees of questions too, in the general form of \<open>Service_Calls\<close>.
  \<^item> \<^bold>\<open>devtools\<close>: \<open>Devtools_Protocol\<close> models the wire messages and their validators
    (\<^verbatim>\<open>devtools/src/protocol\<close>), \<open>Devtools_Retention\<close> and \<open>Devtools_Sampler\<close> what a session keeps and what a
    burst of events is thinned to (\<^verbatim>\<open>devtools/src/retention\<close>), \<open>Devtools_Port\<close> the client end of the
    protocol (\<^verbatim>\<open>devtools/src/session/client-port.ts\<close>), \<open>Devtools_Sanitize\<close> the boundary every payload
    crosses (\<^verbatim>\<open>devtools/src/privacy/sanitize.ts\<close>: an allowlist, redaction, bounds) and \<open>Devtools_Store\<close> the model behind the panels
    (\<^verbatim>\<open>devtools/src/store/store.ts\<close>).

  How code and model correspond. An object is a record with the fields of the code; a method or handler is a
  definition of the same name from state and arguments to the new state and its outputs, in order. Calls of
  user code (listeners, observers, injected functions) are outputs, what user code and the host answer is an
  input: timers that fire, promises that settle, signals that abort, clock readings, random draws. A thrown
  error is a value of a sum or option type or an output. A component that many parties drive is a machine: a
  step function over its inputs, and \<open>run\<close> of theory \<open>Prelude\<close> folds it over any sequence of inputs, so
  every interleaving the host can produce is one. Where user code may call back into a component while the
  component calls it (the channel, the session store), what remains to be done is a stack in the state and a reentrant call is
  one more input. An operation that awaits one service after the other (the server's session) is the tree
  of what it asks and how it goes on with each answer, \<open>proc\<close>; its runs are the lists of its questions with
  the answers given, and \<open>wp\<close> states what every complete run satisfies (\<open>calls\<close> and \<open>call_wp\<close> for the adapter).

  Prelude's interfaces carry the proofs over runs: \<open>kept_invariant\<close> (an invariant every step keeps),
  \<open>history_invariant\<close> (an invariant over the inputs and outputs so far), \<open>refined_machine\<close> (a machine that
  implements an abstract one) and \<open>one_shot\<close> (a machine that settles once). Each is interpreted on the
  components' own step functions.

  What the lemmas show. Queue: the indexed array implements a first-in first-out list with waiting
  consumers. Capability order: dependencies first, declaration order otherwise, and a genuine cycle when
  there is none. Classification, backoff, retry: verdicts agree across HTTP statuses, wrappers and
  authentication outcomes; every delay is finite and capped; attempts are bounded, consecutive and follow
  their results; cancellation stops them. Timeouts: one settlement, with the first input that counts, and
  nothing left attached. Channel: one open session and one live attempt under every interleaving and
  reentrant call, what an ended session left behind changes nothing but its own record, a session begins at
  most one attempt more than its retries without a stable connection between, and when a late failure of a
  settled attempt changes the status; frames are
  delivered past the resume cursor only and acknowledged in order; cursors parse exactly when canonical.
  The event router acknowledges a frame after its last sink only, in order, and never past a lost one: every
  loss resets the cursor and the generation.
  Devtools: validators accept exactly the messages that decode, buffers keep the recent past, the sampler
  keeps the last event of a burst, requests settle once, the store shows a bounded timeline without
  duplicates whatever order messages arrive in. Sanitising returns a bounded JSON tree with every sensitive
  key masked, for every value; a JSON tree within the limits of depth and items is kept exactly when its text
  and the charge of the walk, which exceeds it, fit the bytes, and a cut array always reports one item left
  out. The limits of \<open>isJson\<close> are exact for the size of the serialized text. List queries: what the builder accepts, and that
  the filters it writes are read back as they were. Auth: a family of sessions has one live generation,
  rotation replaces it, revocation ends it for good and a login transaction is consumed once; a CSRF token is
  accepted under its own session only; return targets stay on the origin and are the clean path-absolute candidates or the fallback, and the one
  redirect that can leave it is characterised; the policy denies by default. A lease of the client ends with its session, and an ended
  session stays ended until a login. On the server a callback
  either commits the session or leaves nothing behind, it takes the transaction its login start stored,
  tokens are refreshed only for a session that is live before and after, the cookie goes only after the
  revocation, and a revoked session is refused by every operation, also where the revocation overtook a read
  in flight. A request presents
  one session cookie only, and cookies are read as they were written. A form
  gives only values its schema declares. A callback of the OIDC adapter is bound to the login whose transaction it
  carries and cleans up when it fails; a leaked refresh token is denied, its custody revoked and its reuse reported;
  a replay ends custody for good; one exchange of a session is under way until its logout, and a settlement after
  it that forgets a newer exchange is computed.

  Bounds and fuel. No definition needs fuel. Loops that wait are machines; the sort of \<open>Cap_Order\<close> and
  \<open>digits_of\<close> recurse on a decreasing measure.

  Abstractions. Arithmetic on doubles is exact with overflow to infinity and NaN; the rounding of the last
  bits and the sign of a zero result are not modelled (\<open>JS_Numbers\<close>). A step reads the clock once. A timer
  that was cancelled does not fire. Values that cross the devtools boundary are finite trees
  (\<open>JS_Values\<close>); getters and cyclic graphs are not modelled. Strings are lists of characters. Callbacks of
  several listeners of one notification count as one observer. Numbers read from text are exact rationals, not
  rounded to a double (\<open>Form_Fields\<close>). The properties of an object keep the order in
  which they were added, also where the language moves keys that look like indices to the front (\<open>Redaction\<close>).
  The times in the records a session store gives the server's session are finite, which the memory store's are;
  the check of \<^verbatim>\<open>auth/src/server/server-session.ts\<close> for a record with another time is left out. A timeout
  of an operation makes the call under way fail, instead of rejecting the outer promise while the operation
  runs on. \<open>Retry\<close> takes the deadline and the signals of caller and owner as one abort. \<open>parseApiParams\<close> of
  \<open>List_Dialect\<close> reads a list of pairs, a key once per value, where the code takes a record of values.
  \<open>Devtools_Store\<close> starts hydrated: a message the port delivers while it is being subscribed to is not modelled.

  Not modelled, and why: React components, styles and third-party adapters (ui, elements, theme, markdown,
  query, state, observability, vite), where the behaviour is the third party's; host I/O (transports, fetch
  exchange, cryptography, JWT and API key adapters, the scaffolding tool); generated code; test doubles, examples and
  internal tooling.
\<close>

end
